(* ===== verification/Tide_Prelude.thy ===== *)
theory Tide_Prelude
  imports Main "HOL-Library.Sublist" "HOL-Library.AList" "HOL-Library.Word"
    "HOL-Library.Code_Target_Nat"
begin

text \<open>
  Shared vocabulary of the development.

  A Rust \<open>char\<close> is a Unicode scalar value, modelled as its code point (a natural number), and
  a Rust \<open>str\<close> or \<open>String\<close> as the list of its code points. The UTF-8 width of a character and
  the byte length of a text are computed from the code points where the source counts bytes.
  ASCII predicates and white space are the ones of Rust's standard library; the Unicode
  tables behind \<open>char::is_alphabetic\<close> and \<open>char::is_numeric\<close> are a parameter \<open>unicode\<close>, which
  the library consults only outside ASCII.

  A \<open>HashMap\<close> is an association list with distinct keys whose order stands for the map's
  iteration order, which Rust leaves open: a theorem about every such list is a theorem
  about every iteration order.
\<close>

named_theorems text_simps \<open>computation rules for texts and characters\<close>
named_theorems progress \<open>a scanner consumes at least one and at most all characters\<close>

subsection \<open>Characters and texts\<close>

type_synonym uchar = nat
type_synonym ustr = "uchar list"

text \<open>The code points of an ASCII literal.\<close>

definition lit :: "string \<Rightarrow> ustr" where
  "lit s = map of_char s"

abbreviation (input) ch_nul :: uchar where "ch_nul \<equiv> 0"
abbreviation (input) ch_newline :: uchar where "ch_newline \<equiv> 10"
abbreviation (input) ch_space :: uchar where "ch_space \<equiv> 32"
abbreviation (input) ch_dquote :: uchar where "ch_dquote \<equiv> 34"
abbreviation (input) ch_hash :: uchar where "ch_hash \<equiv> 35"
abbreviation (input) ch_dollar :: uchar where "ch_dollar \<equiv> 36"
abbreviation (input) ch_quote :: uchar where "ch_quote \<equiv> 39"
abbreviation (input) ch_lparen :: uchar where "ch_lparen \<equiv> 40"
abbreviation (input) ch_rparen :: uchar where "ch_rparen \<equiv> 41"
abbreviation (input) ch_star :: uchar where "ch_star \<equiv> 42"
abbreviation (input) ch_comma :: uchar where "ch_comma \<equiv> 44"
abbreviation (input) ch_minus :: uchar where "ch_minus \<equiv> 45"
abbreviation (input) ch_dot :: uchar where "ch_dot \<equiv> 46"
abbreviation (input) ch_slash :: uchar where "ch_slash \<equiv> 47"
abbreviation (input) ch_colon :: uchar where "ch_colon \<equiv> 58"
abbreviation (input) ch_semicolon :: uchar where "ch_semicolon \<equiv> 59"
abbreviation (input) ch_equals :: uchar where "ch_equals \<equiv> 61"
abbreviation (input) ch_question :: uchar where "ch_question \<equiv> 63"
abbreviation (input) ch_at :: uchar where "ch_at \<equiv> 64"
abbreviation (input) ch_lbracket :: uchar where "ch_lbracket \<equiv> 91"
abbreviation (input) ch_backslash :: uchar where "ch_backslash \<equiv> 92"
abbreviation (input) ch_rbracket :: uchar where "ch_rbracket \<equiv> 93"
abbreviation (input) ch_underscore :: uchar where "ch_underscore \<equiv> 95"
abbreviation (input) ch_backtick :: uchar where "ch_backtick \<equiv> 96"
abbreviation (input) ch_bom :: uchar where "ch_bom \<equiv> 65279"

definition is_ascii :: "uchar \<Rightarrow> bool" where
  "is_ascii c \<longleftrightarrow> c < 128"

definition is_ascii_digit :: "uchar \<Rightarrow> bool" where
  "is_ascii_digit c \<longleftrightarrow> 48 \<le> c \<and> c \<le> 57"

definition is_ascii_uppercase :: "uchar \<Rightarrow> bool" where
  "is_ascii_uppercase c \<longleftrightarrow> 65 \<le> c \<and> c \<le> 90"

definition is_ascii_lowercase :: "uchar \<Rightarrow> bool" where
  "is_ascii_lowercase c \<longleftrightarrow> 97 \<le> c \<and> c \<le> 122"

definition is_ascii_alphabetic :: "uchar \<Rightarrow> bool" where
  "is_ascii_alphabetic c \<longleftrightarrow> is_ascii_uppercase c \<or> is_ascii_lowercase c"

definition is_ascii_alphanumeric :: "uchar \<Rightarrow> bool" where
  "is_ascii_alphanumeric c \<longleftrightarrow> is_ascii_alphabetic c \<or> is_ascii_digit c"

definition is_ascii_whitespace :: "uchar \<Rightarrow> bool" where
  "is_ascii_whitespace c \<longleftrightarrow> c = 32 \<or> c = 9 \<or> c = 10 \<or> c = 12 \<or> c = 13"

lemmas ascii_defs = is_ascii_def is_ascii_digit_def is_ascii_uppercase_def
  is_ascii_lowercase_def is_ascii_alphabetic_def is_ascii_alphanumeric_def
  is_ascii_whitespace_def

text \<open>\<open>char::is_whitespace\<close>: Unicode's \<open>White_Space\<close> property.\<close>

definition is_whitespace :: "uchar \<Rightarrow> bool" where
  "is_whitespace c \<longleftrightarrow>
     (9 \<le> c \<and> c \<le> 13) \<or> c = 32 \<or> c = 0x85 \<or> c = 0xA0 \<or> c = 0x1680 \<or>
     (0x2000 \<le> c \<and> c \<le> 0x200A) \<or> c = 0x2028 \<or> c = 0x2029 \<or> c = 0x202F \<or>
     c = 0x205F \<or> c = 0x3000"

text \<open>The Unicode tables, consulted outside ASCII only.\<close>

record unicode =
  alphabetic_table :: "uchar \<Rightarrow> bool"
  numeric_table :: "uchar \<Rightarrow> bool"

definition is_alphabetic :: "unicode \<Rightarrow> uchar \<Rightarrow> bool" where
  "is_alphabetic U c = (if is_ascii c then is_ascii_alphabetic c else alphabetic_table U c)"

definition is_alphanumeric :: "unicode \<Rightarrow> uchar \<Rightarrow> bool" where
  "is_alphanumeric U c =
     (if is_ascii c then is_ascii_alphanumeric c
      else alphabetic_table U c \<or> numeric_table U c)"

text \<open>An instance for closed examples: nothing outside ASCII is a letter or a number.\<close>

definition ascii_only :: unicode where
  "ascii_only = \<lparr>alphabetic_table = (\<lambda>_. False), numeric_table = (\<lambda>_. False)\<rparr>"

definition to_ascii_lower :: "uchar \<Rightarrow> uchar" where
  "to_ascii_lower c = (if is_ascii_uppercase c then c + 32 else c)"

definition to_ascii_lowercase :: "ustr \<Rightarrow> ustr" where
  "to_ascii_lowercase s = map to_ascii_lower s"

definition eq_ignore_ascii_case :: "ustr \<Rightarrow> ustr \<Rightarrow> bool" where
  "eq_ignore_ascii_case a b \<longleftrightarrow> to_ascii_lowercase a = to_ascii_lowercase b"

lemma to_ascii_lower_idem [simp]: "to_ascii_lower (to_ascii_lower c) = to_ascii_lower c"
  by (simp add: to_ascii_lower_def is_ascii_uppercase_def)

lemma to_ascii_lowercase_idem [simp]:
  "to_ascii_lowercase (to_ascii_lowercase s) = to_ascii_lowercase s"
  by (simp add: to_ascii_lowercase_def)

text \<open>UTF-8 widths and byte lengths.\<close>

definition len_utf8 :: "uchar \<Rightarrow> nat" where
  "len_utf8 c = (if c < 0x80 then 1 else if c < 0x800 then 2 else if c < 0x10000 then 3 else 4)"

definition utf8_len :: "ustr \<Rightarrow> nat" where
  "utf8_len s = sum_list (map len_utf8 s)"

lemma len_utf8_pos [simp]: "0 < len_utf8 c"
  by (simp add: len_utf8_def)

lemma utf8_len_simps [simp]:
  "utf8_len [] = 0" "utf8_len (c # s) = len_utf8 c + utf8_len s"
  "utf8_len (s @ t) = utf8_len s + utf8_len t"
  by (simp_all add: utf8_len_def)

lemma length_le_utf8_len: "length s \<le> utf8_len s"
proof (induction s)
  case (Cons c s)
  have "1 \<le> len_utf8 c" using len_utf8_pos [of c] by linarith
  with Cons show ?case by simp
qed simp

subsection \<open>\<open>str::trim\<close>, \<open>str::split\<close>, \<open>str::find\<close>, \<open>str::replace\<close>\<close>

definition trim_start :: "ustr \<Rightarrow> ustr" where
  "trim_start s = dropWhile is_whitespace s"

definition trim :: "ustr \<Rightarrow> ustr" where
  "trim s = rev (dropWhile is_whitespace (rev (trim_start s)))"

fun split_on :: "uchar \<Rightarrow> ustr \<Rightarrow> ustr list" where
  "split_on d [] = [[]]"
| "split_on d (c # s) =
     (if c = d then [] # split_on d s
      else (case split_on d s of [] \<Rightarrow> [[c]] | p # ps \<Rightarrow> (c # p) # ps))"

fun find_str :: "ustr \<Rightarrow> ustr \<Rightarrow> nat option" where
  "find_str pat [] = (if pat = [] then Some 0 else None)"
| "find_str pat (c # s) =
     (if prefix pat (c # s) then Some 0 else map_option Suc (find_str pat s))"

text \<open>Non-overlapping matches of a non-empty pattern, from the left.\<close>

function replace :: "ustr \<Rightarrow> ustr \<Rightarrow> ustr \<Rightarrow> ustr" where
  "replace [] new s = s"
| "replace (p # ps) new [] = []"
| "replace (p # ps) new (c # s) =
     (if prefix (p # ps) (c # s) then new @ replace (p # ps) new (drop (length ps) s)
      else c # replace (p # ps) new s)"
  by pat_completeness auto
termination by (relation "measure (\<lambda>(_, _, s). length s)") auto

fun join :: "ustr \<Rightarrow> ustr list \<Rightarrow> ustr" where
  "join sep [] = []"
| "join sep [x] = x"
| "join sep (x # y # xs) = x @ sep @ join sep (y # xs)"

definition starts_with :: "ustr \<Rightarrow> ustr \<Rightarrow> bool" where
  "starts_with s p \<longleftrightarrow> prefix p s"

definition ends_with :: "ustr \<Rightarrow> ustr \<Rightarrow> bool" where
  "ends_with s p \<longleftrightarrow> suffix p s"

definition strip_prefix :: "ustr \<Rightarrow> ustr \<Rightarrow> ustr option" where
  "strip_prefix p s = (if prefix p s then Some (drop (length p) s) else None)"

text \<open>Replacing one character is a \<open>concat_map\<close>.\<close>

lemma replace_char:
  "replace [c] new s = concat (map (\<lambda>x. if x = c then new else [x]) s)"
  by (induction s) auto

lemma length_split_on_pos [simp]: "split_on d s \<noteq> []"
  by (induction s) (auto split: list.splits)

lemma join_Cons_Cons: "join sep ((c # x) # xs) = c # join sep (x # xs)"
  by (cases xs) auto

lemma join_Nil_Cons: "xs \<noteq> [] \<Longrightarrow> join sep ([] # xs) = sep @ join sep xs"
  by (cases xs) auto

lemma join_split_on: "join [d] (split_on d s) = s"
  by (induction s) (auto simp: join_Cons_Cons join_Nil_Cons split: list.splits)

lemma split_on_no_sep: "p \<in> set (split_on d s) \<Longrightarrow> d \<notin> set p"
proof (induction s arbitrary: p)
  case (Cons c s)
  then show ?case by (cases "split_on d s") (auto split: if_splits)
qed simp

lemma split_on_append: "d \<notin> set a \<Longrightarrow> split_on d (a @ d # s) = a # split_on d s"
  by (induction a) auto

lemma split_on_none: "d \<notin> set a \<Longrightarrow> split_on d a = [a]"
  by (induction a) auto

lemma split_on_join:
  "xs \<noteq> [] \<Longrightarrow> list_all (\<lambda>x. d \<notin> set x) xs \<Longrightarrow> split_on d (join [d] xs) = xs"
proof (induction "[d]" xs rule: join.induct)
  case (3 x y xs)
  then show ?case by (simp add: split_on_append)
qed (auto simp: split_on_none)

lemma find_str_Some_le: "find_str pat s = Some n \<Longrightarrow> n + length pat \<le> length s"
  by (induction s arbitrary: n) (auto split: if_splits dest: prefix_length_le)

lemma trim_start_subset: "set (trim_start s) \<subseteq> set s"
  by (auto simp: trim_start_def dest: set_dropWhileD)

lemma trim_subset: "set (trim s) \<subseteq> set s"
  using trim_start_subset [of s] by (auto simp: trim_def dest!: set_dropWhileD)

subsection \<open>Decimal numerals\<close>

fun show_nat :: "nat \<Rightarrow> ustr" where
  "show_nat n = (if n < 10 then [48 + n] else show_nat (n div 10) @ [48 + n mod 10])"

declare show_nat.simps [simp del]

fun digits_value :: "nat \<Rightarrow> ustr \<Rightarrow> nat" where
  "digits_value acc [] = acc"
| "digits_value acc (c # s) = digits_value (10 * acc + (c - 48)) s"

text \<open>\<open>str::parse::<usize>\<close> on a 64-bit target: an optional plus sign, at least one digit,
  nothing else, and no overflow.\<close>

definition usize_max :: nat where
  "usize_max = 2 ^ 64 - 1"

definition parse_usize :: "ustr \<Rightarrow> nat option" where
  "parse_usize s =
     (let ds = (case s of [] \<Rightarrow> [] | c # r \<Rightarrow> if c = 43 then r else s)
      in if ds \<noteq> [] \<and> list_all is_ascii_digit ds \<and> digits_value 0 ds \<le> usize_max
         then Some (digits_value 0 ds) else None)"

lemma digits_value_append: "digits_value acc (s @ t) = digits_value (digits_value acc s) t"
  by (induction s arbitrary: acc) auto

lemma show_nat_digits: "list_all is_ascii_digit (show_nat n)"
proof (induction n rule: show_nat.induct)
  case (1 n)
  then show ?case
    by (cases "n < 10") (auto simp: show_nat.simps [of n] is_ascii_digit_def)
qed

lemma show_nat_nonempty [simp]: "show_nat n \<noteq> []"
  by (subst show_nat.simps) simp

lemma digits_value_show_nat: "digits_value 0 (show_nat n) = n"
proof (induction n rule: show_nat.induct)
  case (1 n)
  then show ?case
    by (cases "n < 10") (auto simp: show_nat.simps [of n] digits_value_append)
qed

lemma parse_usize_show_nat: "n \<le> usize_max \<Longrightarrow> parse_usize (show_nat n) = Some n"
proof -
  assume "n \<le> usize_max"
  moreover obtain c r where "show_nat n = c # r"
    by (cases "show_nat n") auto
  moreover from this have "c \<noteq> 43"
    using show_nat_digits [of n] by (simp add: is_ascii_digit_def)
  ultimately show ?thesis
    using show_nat_digits [of n] digits_value_show_nat [of n] by (simp add: parse_usize_def)
qed

lemma show_nat_inj: "show_nat m = show_nat n \<Longrightarrow> m = n"
  by (metis digits_value_show_nat)

subsection \<open>Errors as sums\<close>

text \<open>A computation that continues only on success, as the \<open>?\<close> operator does.\<close>

fun try_bind :: "'e + 'a \<Rightarrow> ('a \<Rightarrow> 'e + 'b) \<Rightarrow> 'e + 'b" where
  "try_bind (Inl e) f = Inl e"
| "try_bind (Inr x) f = f x"

lemma try_bind_Inr_iff: "try_bind r f = Inr y \<longleftrightarrow> (\<exists>x. r = Inr x \<and> f x = Inr y)"
  by (cases r) auto

subsection \<open>Association lists as hash maps\<close>

lemma length_delete_le: "length (AList.delete k m) \<le> length m"
  by (simp add: AList.delete_eq)

lemma map_of_update_same [simp]: "map_of (AList.update k v m) k = Some v"
  by (simp add: update_conv')

lemma map_of_delete_same [simp]: "map_of (AList.delete k m) k = None"
  by (simp add: delete_conv')

end
