(* ===== verification/Binary_Heap.thy ===== *)
theory Binary_Heap
  imports Tide_Prelude "HOL-Library.Multiset" "HOL-Library.Product_Lexorder"
begin

text \<open>
  \<open>std::collections::BinaryHeap\<close> over \<open>Reverse\<close>d elements, the priority queue the topological
  order and the cache's eviction use: a bag of elements whose \<open>pop\<close> takes a smallest one.
  The contract is a locale; the list model below implements it, and clients rely on the
  contract's lemmas alone.
\<close>

locale priority_queue =
  fixes empty :: 'q
    and push :: "'a::linorder \<Rightarrow> 'q \<Rightarrow> 'q"
    and pop :: "'q \<Rightarrow> ('a \<times> 'q) option"
    and bag :: "'q \<Rightarrow> 'a multiset"
  assumes bag_empty: "bag empty = {#}"
    and bag_push: "bag (push x q) = add_mset x (bag q)"
    and pop_None: "pop q = None \<longleftrightarrow> bag q = {#}"
    and pop_Some: "pop q = Some (x, q') \<Longrightarrow> bag q = add_mset x (bag q') \<and> (\<forall>y. y \<in># bag q \<longrightarrow> x \<le> y)"
begin

lemma pop_least: "pop q = Some (x, q') \<Longrightarrow> y \<in># bag q \<Longrightarrow> x \<le> y"
  using pop_Some by blast

lemma pop_bag: "pop q = Some (x, q') \<Longrightarrow> bag q = add_mset x (bag q')"
  using pop_Some by blast

lemma pop_member: "pop q = Some (x, q') \<Longrightarrow> x \<in># bag q"
  using pop_bag by simp

lemma pop_size: "pop q = Some (x, q') \<Longrightarrow> size (bag q) = Suc (size (bag q'))"
  using pop_bag by simp

lemma pop_nonempty: "bag q \<noteq> {#} \<Longrightarrow> \<exists>x q'. pop q = Some (x, q')"
  using pop_None [of q] by (cases "pop q") auto

lemma bag_pushes: "bag (foldr push xs q) = mset xs + bag q"
  by (induction xs) (simp_all add: bag_push)

end

fun least :: "'a::linorder \<Rightarrow> 'a list \<Rightarrow> 'a" where
  "least x [] = x"
| "least x (y # ys) = least (if y < x then y else x) ys"

definition heap_push :: "'a \<Rightarrow> 'a list \<Rightarrow> 'a list" where
  "heap_push x h = x # h"

definition heap_pop :: "'a::linorder list \<Rightarrow> ('a \<times> 'a list) option" where
  "heap_pop h = (case h of [] \<Rightarrow> None | x # xs \<Rightarrow> (let m = least x xs in Some (m, remove1 m h)))"

lemma least_le: "least x ys \<le> x \<and> (y \<in> set ys \<longrightarrow> least x ys \<le> y)"
proof (induction ys arbitrary: x y)
  case (Cons z zs)
  show ?case
    using Cons [of "if z < x then z else x" y] by (auto split: if_splits)
qed simp

lemma least_in: "least x ys \<in> set (x # ys)"
proof (induction ys arbitrary: x)
  case (Cons z zs)
  then show ?case using Cons [of "if z < x then z else x"] by (auto split: if_splits)
qed simp

lemma heap_pop_Some:
  assumes "heap_pop h = Some (m, h')"
  shows "mset h = add_mset m (mset h') \<and> (\<forall>y. y \<in># mset h \<longrightarrow> m \<le> y)"
proof -
  from assms obtain x xs where h: "h = x # xs" and m: "m = least x xs" and h': "h' = remove1 m h"
    by (auto simp: heap_pop_def Let_def split: list.splits)
  have "m \<in> set h" using least_in [of x xs] by (simp add: h m)
  moreover have "\<forall>y. y \<in># mset h \<longrightarrow> m \<le> y" using least_le [of x xs] by (auto simp: h m)
  ultimately show ?thesis by (simp add: h')
qed

interpretation list_heap: priority_queue "[]" heap_push heap_pop mset
proof
  show "heap_pop q = None \<longleftrightarrow> mset q = {#}" for q :: "'a list"
    by (simp add: heap_pop_def Let_def split: list.split)
qed (simp_all add: heap_push_def heap_pop_Some)

lemma heap_push_simps [simp]:
  "set (heap_push x h) = insert x (set h)" "length (heap_push x h) = Suc (length h)"
  "distinct (heap_push x h) \<longleftrightarrow> x \<notin> set h \<and> distinct h"
  by (simp_all add: heap_push_def)

lemma heap_pop_length: "heap_pop h = Some (m, h') \<Longrightarrow> length h = Suc (length h')"
  using list_heap.pop_size by (simp flip: size_mset)

lemma heap_pop_distinct:
  "heap_pop h = Some (m, h') \<Longrightarrow> distinct h \<Longrightarrow> distinct h' \<and> m \<notin> set h' \<and> set h = insert m (set h')"
proof -
  assume a: "heap_pop h = Some (m, h')" "distinct h"
  from list_heap.pop_bag [OF a(1)] have "mset h = mset (m # h')" by simp
  with a(2) have "distinct (m # h')" "set h = set (m # h')"
    by (metis mset_eq_imp_distinct_iff, metis mset_eq_setD)
  then show ?thesis by simp
qed

end
