(* ===== verification/Cache_Store.thy ===== *)
theory Cache_Store
  imports Binary_Heap "HOL-Library.List_Lexorder"
begin

text \<open>
  The entries of the query cache and their eviction indexes,
  \<open>src/src/cache/query_cache/store.rs\<close>, with the configuration types of
  \<open>src/src/cache/query_cache/config.rs\<close>. Instants and durations count nanoseconds, and an
  operation that reads the clock takes the reading as an argument. Sequence numbers are the
  64-bit counters of the source; sizes are natural numbers, and the invariant below shows
  that no subtraction goes below zero.
\<close>

subsection \<open>Configuration\<close>

datatype CacheStrategy = LRU | FIFO | TTL

record CacheConfig =
  cfg_enabled :: bool
  max_entries :: nat
  max_size_bytes :: nat
  default_ttl :: nat
  strategy :: CacheStrategy
  cache_empty_results :: bool
  key_prefix :: "ustr option"

definition default_cache_config :: CacheConfig where
  "default_cache_config = \<lparr>cfg_enabled = False, max_entries = 1000, max_size_bytes = 0,
     default_ttl = 60 * 10 ^ 9, strategy = LRU, cache_empty_results = True, key_prefix = None\<rparr>"

fun display_strategy :: "CacheStrategy \<Rightarrow> ustr" where
  "display_strategy LRU = lit ''LRU''"
| "display_strategy FIFO = lit ''FIFO''"
| "display_strategy TTL = lit ''TTL''"

subsection \<open>Entries\<close>

type_synonym u64 = "64 word"
type_synonym bytes = "8 word list"

record CacheEntry =
  entry_data :: bytes
  expires_at :: nat
  entry_tables :: "ustr set"
  entry_database :: "ustr option"
  insert_order :: u64
  access_order :: u64

text \<open>Instants are 63-bit seconds and their nanoseconds.\<close>

definition instant_limit :: nat where
  "instant_limit = 2 ^ 63 * 10 ^ 9"

definition instant_checked_add :: "nat \<Rightarrow> nat \<Rightarrow> nat option" where
  "instant_checked_add now ttl = (if now + ttl < instant_limit then Some (now + ttl) else None)"

definition century :: nat where
  "century = 100 * 365 * 24 * 60 * 60 * 10 ^ 9"

definition CacheEntry_new :: "nat \<Rightarrow> bytes \<Rightarrow> nat \<Rightarrow> ustr set \<Rightarrow> u64 \<Rightarrow> CacheEntry" where
  "CacheEntry_new now data ttl tables order =
     \<lparr>entry_data = data,
      expires_at =
        (case instant_checked_add now ttl of
           Some at \<Rightarrow> at
         | None \<Rightarrow> (case instant_checked_add now century of Some at \<Rightarrow> at | None \<Rightarrow> now)),
      entry_tables = tables, entry_database = None, insert_order = order, access_order = order\<rparr>"

definition reads_table :: "CacheEntry \<Rightarrow> ustr \<Rightarrow> bool" where
  "reads_table e table \<longleftrightarrow> table \<in> entry_tables e"

definition is_expired :: "nat \<Rightarrow> CacheEntry \<Rightarrow> bool" where
  "is_expired now e \<longleftrightarrow> now \<ge> expires_at e"

definition lru_priority :: "CacheEntry \<Rightarrow> u64" where
  "lru_priority e = access_order e"

definition fifo_priority :: "CacheEntry \<Rightarrow> u64" where
  "fifo_priority e = insert_order e"

definition ttl_priority :: "CacheEntry \<Rightarrow> nat \<times> u64" where
  "ttl_priority e = (expires_at e, insert_order e)"

subsection \<open>The store\<close>

text \<open>A candidate is ordered by its priority, then by its key.\<close>

type_synonym 'p candidate = "'p \<times> ustr"

record CacheStore =
  entries :: "(ustr \<times> CacheEntry) list"
  lru_heap :: "u64 candidate list"
  fifo_heap :: "u64 candidate list"
  ttl_heap :: "(nat \<times> u64) candidate list"
  size_bytes :: nat
  invalidation_seq :: u64
  invalidated_at :: "(ustr \<times> u64) list"
  invalidated_databases :: "(ustr \<times> u64) list"
  unscoped_invalidated_at :: u64
  cleared_at :: u64

definition default_store :: CacheStore where
  "default_store = \<lparr>entries = [], lru_heap = [], fifo_heap = [], ttl_heap = [], size_bytes = 0,
     invalidation_seq = 0, invalidated_at = [], invalidated_databases = [],
     unscoped_invalidated_at = 0, cleared_at = 0\<rparr>"

text \<open>Where a read that may fill the cache started.\<close>

record FillPoint =
  fp_sequence :: u64
  fp_database :: "ustr option"

definition store_get :: "CacheStore \<Rightarrow> ustr \<Rightarrow> CacheEntry option" where
  "store_get s key = map_of (entries s) key"

definition store_len :: "CacheStore \<Rightarrow> nat" where
  "store_len s = length (entries s)"

definition saturating_mul :: "nat \<Rightarrow> nat \<Rightarrow> nat" where
  "saturating_mul a b = min (a * b) usize_max"

definition saturating_add :: "nat \<Rightarrow> nat \<Rightarrow> nat" where
  "saturating_add a b = min (a + b) usize_max"

text \<open>One pass over the entries pushes a candidate of each into every cleared heap.\<close>

definition index_of :: "(CacheEntry \<Rightarrow> 'p) \<Rightarrow> (ustr \<times> CacheEntry) list \<Rightarrow> 'p candidate list" where
  "index_of priority_of es =
     fold (\<lambda>(key, entry) heap. heap_push (priority_of entry, key) heap) es []"

definition rebuild_indexes :: "CacheStore \<Rightarrow> CacheStore" where
  "rebuild_indexes s =
     s\<lparr>lru_heap := index_of lru_priority (entries s),
       fifo_heap := index_of fifo_priority (entries s),
       ttl_heap := index_of ttl_priority (entries s)\<rparr>"

definition rebuild_threshold :: "nat \<Rightarrow> nat" where
  "rebuild_threshold entry_count = saturating_add (saturating_mul entry_count 4) 64"

definition maybe_rebuild_indexes :: "CacheStore \<Rightarrow> CacheStore" where
  "maybe_rebuild_indexes s =
     (let entry_count = length (entries s); threshold = rebuild_threshold entry_count in
      if entry_count = 0 \<or> length (lru_heap s) > threshold \<or> length (fifo_heap s) > threshold \<or>
         length (ttl_heap s) > threshold
      then rebuild_indexes s else s)"

definition store_insert :: "ustr \<Rightarrow> CacheEntry \<Rightarrow> CacheStore \<Rightarrow> CacheStore" where
  "store_insert key entry s =
     maybe_rebuild_indexes
       (s\<lparr>lru_heap := heap_push (lru_priority entry, key) (lru_heap s),
          fifo_heap := heap_push (fifo_priority entry, key) (fifo_heap s),
          ttl_heap := heap_push (ttl_priority entry, key) (ttl_heap s),
          size_bytes := size_bytes s + length (entry_data entry) -
            (case map_of (entries s) key of Some previous \<Rightarrow> length (entry_data previous) | None \<Rightarrow> 0),
          entries := AList.update key entry (entries s)\<rparr>)"

definition store_remove :: "ustr \<Rightarrow> CacheStore \<Rightarrow> CacheEntry option \<times> CacheStore" where
  "store_remove key s =
     (case map_of (entries s) key of
        None \<Rightarrow> (None, s)
      | Some removed \<Rightarrow>
          (Some removed, maybe_rebuild_indexes
             (s\<lparr>entries := AList.delete key (entries s),
                size_bytes := size_bytes s - length (entry_data removed)\<rparr>)))"

definition entries_size :: "(ustr \<times> CacheEntry) list \<Rightarrow> nat" where
  "entries_size es = sum_list (map (\<lambda>(_, e). length (entry_data e)) es)"

definition store_remove_where :: "(CacheEntry \<Rightarrow> bool) \<Rightarrow> CacheStore \<Rightarrow> nat \<times> CacheStore" where
  "store_remove_where predicate s =
     (let before = length (entries s);
          freed = entries_size (filter (\<lambda>(_, e). predicate e) (entries s));
          kept = filter (\<lambda>(_, e). \<not> predicate e) (entries s);
          s' = s\<lparr>entries := kept, size_bytes := size_bytes s - freed\<rparr>;
          removed = before - length kept
      in (removed, if removed > 0 then maybe_rebuild_indexes s' else s'))"

definition store_clear :: "CacheStore \<Rightarrow> nat \<times> CacheStore" where
  "store_clear s =
     (length (entries s),
      s\<lparr>entries := [], lru_heap := [], fifo_heap := [], ttl_heap := [], size_bytes := 0,
        invalidation_seq := invalidation_seq s + 1, cleared_at := invalidation_seq s + 1,
        invalidated_at := [], invalidated_databases := []\<rparr>)"

definition INVALIDATION_HISTORY_LIMIT :: nat where
  "INVALIDATION_HISTORY_LIMIT = 1024"

definition note_invalidated :: "ustr \<Rightarrow> CacheStore \<Rightarrow> CacheStore" where
  "note_invalidated table s =
     (let seq = invalidation_seq s + 1;
          full = length (invalidated_at s) \<ge> INVALIDATION_HISTORY_LIMIT \<and>
                 map_of (invalidated_at s) table = None
      in s\<lparr>invalidation_seq := seq,
           cleared_at := (if full then seq else cleared_at s),
           invalidated_at := AList.update table seq (if full then [] else invalidated_at s)\<rparr>)"

definition note_database_invalidated :: "ustr \<Rightarrow> CacheStore \<Rightarrow> CacheStore" where
  "note_database_invalidated database s =
     (let seq = invalidation_seq s + 1;
          full = length (invalidated_databases s) \<ge> INVALIDATION_HISTORY_LIMIT \<and>
                 map_of (invalidated_databases s) database = None
      in s\<lparr>invalidation_seq := seq, unscoped_invalidated_at := seq,
           cleared_at := (if full then seq else cleared_at s),
           invalidated_databases :=
             AList.update database seq (if full then [] else invalidated_databases s)\<rparr>)"

definition after :: "u64 option \<Rightarrow> u64 \<Rightarrow> bool" where
  "after at seq \<longleftrightarrow> (case at of Some n \<Rightarrow> n > seq | None \<Rightarrow> False)"

definition invalidated_since :: "FillPoint \<Rightarrow> ustr set \<Rightarrow> CacheStore \<Rightarrow> bool" where
  "invalidated_since point tables s \<longleftrightarrow>
     (let seq = fp_sequence point in
      cleared_at s > seq \<or>
      (case fp_database point of
         Some database \<Rightarrow> after (map_of (invalidated_databases s) database) seq
       | None \<Rightarrow> unscoped_invalidated_at s > seq) \<or>
      (\<exists>table \<in> tables. after (map_of (invalidated_at s) table) seq))"

definition store_touch :: "ustr \<Rightarrow> u64 \<Rightarrow> CacheStore \<Rightarrow> bytes option \<times> CacheStore" where
  "store_touch key order s =
     (case map_of (entries s) key of
        None \<Rightarrow> (None, s)
      | Some entry \<Rightarrow>
          (Some (entry_data entry), maybe_rebuild_indexes
             (s\<lparr>entries := AList.update key (entry\<lparr>access_order := order\<rparr>) (entries s),
                lru_heap := heap_push (order, key) (lru_heap s)\<rparr>)))"

text \<open>Pop candidates until one still matches its entry's priority.\<close>

function pop_current ::
  "'p::linorder candidate list \<Rightarrow> (ustr \<times> CacheEntry) list \<Rightarrow> (CacheEntry \<Rightarrow> 'p) \<Rightarrow>
     ustr option \<times> 'p candidate list" where
  "pop_current heap es priority_of =
     (case heap_pop heap of
        None \<Rightarrow> (None, heap)
      | Some ((priority, key), heap') \<Rightarrow>
          if map_option priority_of (map_of es key) = Some priority then (Some key, heap')
          else pop_current heap' es priority_of)"
  by pat_completeness auto
termination
  by (relation "measure (\<lambda>(heap, _, _). length heap)") (auto dest!: heap_pop_length)

declare pop_current.simps [simp del]

definition pick_victim :: "CacheStrategy \<Rightarrow> CacheStore \<Rightarrow> ustr option \<times> CacheStore" where
  "pick_victim strat s =
     (case strat of
        LRU \<Rightarrow> (let (key, heap) = pop_current (lru_heap s) (entries s) lru_priority
                 in (key, s\<lparr>lru_heap := heap\<rparr>))
      | FIFO \<Rightarrow> (let (key, heap) = pop_current (fifo_heap s) (entries s) fifo_priority
                  in (key, s\<lparr>fifo_heap := heap\<rparr>))
      | TTL \<Rightarrow> (let (key, heap) = pop_current (ttl_heap s) (entries s) ttl_priority
                 in (key, s\<lparr>ttl_heap := heap\<rparr>)))"

definition store_evict :: "CacheStrategy \<Rightarrow> CacheStore \<Rightarrow> CacheEntry option \<times> CacheStore" where
  "store_evict strat s =
     (let (key, s') = pick_victim strat s
      in case key of None \<Rightarrow> (None, s') | Some k \<Rightarrow> store_remove k s')"

text \<open>An eviction that returns an entry has removed one.\<close>

lemma pop_current_key: "pop_current heap es p = (Some k, heap') \<Longrightarrow> map_of es k \<noteq> None"
proof (induction heap es p rule: pop_current.induct)
  case (1 heap es p)
  from 1(2) show ?case
    unfolding pop_current.simps [of heap es p]
    by (auto split: option.splits if_splits prod.splits dest: 1(1) [OF _ refl refl])
qed

lemma pick_victim_key:
  "pick_victim strat s = (Some k, s') \<Longrightarrow> entries s' = entries s \<and> map_of (entries s) k \<noteq> None"
  by (auto simp: pick_victim_def dest: pop_current_key split: CacheStrategy.splits prod.splits)

lemma store_evict_shrinks:
  "store_evict strat s = (Some e, s') \<Longrightarrow> length (entries s') < length (entries s)"
proof -
  assume a: "store_evict strat s = (Some e, s')"
  then obtain k t where pick: "pick_victim strat s = (Some k, t)" and rem: "store_remove k t = (Some e, s')"
    by (auto simp: store_evict_def split: prod.splits option.splits)
  have fields: "entries (maybe_rebuild_indexes u) = entries u" for u
    by (simp add: maybe_rebuild_indexes_def rebuild_indexes_def Let_def)
  from pick_victim_key [OF pick] rem have "entries s' = AList.delete k (entries s)" "k \<in> fst ` set (entries s)"
    by (auto simp: store_remove_def map_of_eq_None_iff fields split: option.splits)
  then show ?thesis
    by (auto simp: AList.delete_eq intro!: length_filter_less)
qed

subsection \<open>The invariant\<close>

text \<open>Every entry has its current candidate in an index; stale candidates may be there too.\<close>

definition covers :: "(CacheEntry \<Rightarrow> 'p) \<Rightarrow> (ustr \<times> CacheEntry) list \<Rightarrow> 'p candidate list \<Rightarrow> bool" where
  "covers priority_of es heap \<longleftrightarrow> list_all (\<lambda>(k, e). (priority_of e, k) \<in> set heap) es"

definition indexed :: "CacheStore \<Rightarrow> bool" where
  "indexed s \<longleftrightarrow> distinct (map fst (entries s)) \<and> size_bytes s = entries_size (entries s) \<and>
     covers lru_priority (entries s) (lru_heap s) \<and> covers fifo_priority (entries s) (fifo_heap s) \<and>
     covers ttl_priority (entries s) (ttl_heap s)"

definition index_bound :: "CacheStore \<Rightarrow> nat" where
  "index_bound s = 4 * length (entries s) + 64"

definition store_ok :: "CacheStore \<Rightarrow> bool" where
  "store_ok s \<longleftrightarrow> indexed s \<and> length (lru_heap s) \<le> index_bound s \<and>
     length (fifo_heap s) \<le> index_bound s \<and> length (ttl_heap s) \<le> index_bound s"

lemma index_of_spec [simp]:
  "set (index_of p es) = (\<lambda>(k, e). (p e, k)) ` set es" "length (index_of p es) = length es"
proof -
  have "set (fold (\<lambda>(key, entry) heap. heap_push (p entry, key) heap) es h) =
      (\<lambda>(k, e). (p e, k)) ` set es \<union> set h \<and>
    length (fold (\<lambda>(key, entry) heap. heap_push (p entry, key) heap) es h) = length es + length h" for h
    by (induction es arbitrary: h) auto
  from this [of "[]"] show "set (index_of p es) = (\<lambda>(k, e). (p e, k)) ` set es"
    "length (index_of p es) = length es"
    by (simp_all add: index_of_def)
qed

lemma covers_index_of: "covers p es (index_of p es)"
  by (force simp: covers_def list_all_iff)

lemma maybe_rebuild_fields [simp]:
  "entries (maybe_rebuild_indexes s) = entries s"
  "size_bytes (maybe_rebuild_indexes s) = size_bytes s"
  "invalidation_seq (maybe_rebuild_indexes s) = invalidation_seq s"
  "invalidated_at (maybe_rebuild_indexes s) = invalidated_at s"
  "invalidated_databases (maybe_rebuild_indexes s) = invalidated_databases s"
  "unscoped_invalidated_at (maybe_rebuild_indexes s) = unscoped_invalidated_at s"
  "cleared_at (maybe_rebuild_indexes s) = cleared_at s"
  by (simp_all add: maybe_rebuild_indexes_def rebuild_indexes_def Let_def)

lemma rebuild_threshold_le: "rebuild_threshold n \<le> 4 * n + 64"
  by (simp add: rebuild_threshold_def saturating_add_def saturating_mul_def min_def)

lemma maybe_rebuild_ok: "indexed s \<Longrightarrow> store_ok (maybe_rebuild_indexes s)"
  using rebuild_threshold_le [of "length (entries s)"]
  by (auto simp: store_ok_def indexed_def index_bound_def maybe_rebuild_indexes_def rebuild_indexes_def
      Let_def covers_index_of)

subsection \<open>Association lists under the operations\<close>

lemma covers_iff: "covers p es h \<longleftrightarrow> (\<forall>k e. (k, e) \<in> set es \<longrightarrow> (p e, k) \<in> set h)"
  by (auto simp: covers_def list_all_iff)

lemma covers_subset: "covers p es h \<Longrightarrow> set es' \<subseteq> set es \<Longrightarrow> set h \<subseteq> set h' \<Longrightarrow> covers p es' h'"
  by (simp add: covers_iff) blast

lemma set_update_subset: "set (AList.update k e es) \<subseteq> insert (k, e) (set es)"
  by (induction es) auto

lemma covers_update:
  "covers p es h \<Longrightarrow> set h \<subseteq> set h' \<Longrightarrow> (p e, k) \<in> set h' \<Longrightarrow> covers p (AList.update k e es) h'"
  using set_update_subset [of k e es] by (simp add: covers_iff) blast

lemma delete_subset: "set (AList.delete k es) \<subseteq> set es"
  by (auto simp: AList.delete_eq)

lemma covers_delete: "covers p es h \<Longrightarrow> covers p (AList.delete k es) h"
  by (rule covers_subset [OF _ delete_subset subset_refl])

lemma covers_filter: "covers p es h \<Longrightarrow> covers p (filter P es) h"
  by (rule covers_subset [OF _ filter_is_subset subset_refl])

lemma entries_size_simps [simp]:
  "entries_size [] = 0" "entries_size ((k, e) # es) = length (entry_data e) + entries_size es"
  by (simp_all add: entries_size_def)

lemma map_of_entries_size:
  "map_of es k = Some e \<Longrightarrow> length (entry_data e) \<le> entries_size es"
  by (induction es) (auto split: if_splits)

lemma delete_absent: "k \<notin> fst ` set es \<Longrightarrow> AList.delete k es = es"
  by (induction es) auto

lemma entries_size_delete:
  "distinct (map fst es) \<Longrightarrow> map_of es k = Some e \<Longrightarrow>
   entries_size es = entries_size (AList.delete k es) + length (entry_data e)"
  by (induction es) (auto simp: delete_absent split: if_splits)

lemma length_delete:
  "distinct (map fst es) \<Longrightarrow> map_of es k = Some e \<Longrightarrow> length es = Suc (length (AList.delete k es))"
  by (induction es) (auto simp: delete_absent split: if_splits)

lemma length_update_absent: "k \<notin> fst ` set es \<Longrightarrow> length (AList.update k e es) = Suc (length es)"
  by (induction es) auto

lemma length_update_present: "k \<in> fst ` set es \<Longrightarrow> length (AList.update k e es) = length es"
  by (induction es) auto

lemma entries_size_update:
  "distinct (map fst es) \<Longrightarrow> entries_size (AList.update k e es) +
     (case map_of es k of Some old \<Rightarrow> length (entry_data old) | None \<Rightarrow> 0) =
   entries_size es + length (entry_data e)"
  by (induction es) (auto split: option.split)

lemma entries_size_update':
  "distinct (map fst es) \<Longrightarrow> entries_size (AList.update k e es) = entries_size es + length (entry_data e) -
     (case map_of es k of Some old \<Rightarrow> length (entry_data old) | None \<Rightarrow> 0)"
  using entries_size_update [of es k e] by linarith

lemma entries_size_filter:
  "entries_size (filter (\<lambda>(k, e). \<not> P e) es) + entries_size (filter (\<lambda>(k, e). P e) es) = entries_size es"
  by (induction es) auto

subsection \<open>Every operation keeps the invariant\<close>

lemma default_store_ok: "store_ok default_store"
  by (simp add: store_ok_def indexed_def default_store_def covers_def)

lemma store_insert_ok: "store_ok s \<Longrightarrow> store_ok (store_insert key entry s)"
  unfolding store_insert_def
  by (rule maybe_rebuild_ok)
    (auto simp: store_ok_def indexed_def distinct_update entries_size_update'
      intro!: covers_update split: option.split)

lemma store_remove_ok: "indexed s \<Longrightarrow> store_ok s \<or> map_of (entries s) key \<noteq> None \<Longrightarrow>
    store_ok (snd (store_remove key s))"
proof (cases "map_of (entries s) key")
  case (Some e)
  assume "indexed s"
  then have "indexed (s\<lparr>entries := AList.delete key (entries s),
      size_bytes := size_bytes s - length (entry_data e)\<rparr>)"
    using entries_size_delete [of "entries s" key e] Some
    by (auto simp: indexed_def covers_delete distinct_delete)
  then show ?thesis by (simp add: store_remove_def Some maybe_rebuild_ok)
qed (simp add: store_remove_def)

lemma store_remove_where_ok:
  assumes "store_ok s"
  shows "store_ok (snd (store_remove_where P s))"
proof -
  let ?kept = "filter (\<lambda>(k, e). \<not> P e) (entries s)"
  let ?s = "s\<lparr>entries := ?kept,
      size_bytes := size_bytes s - entries_size (filter (\<lambda>(_, e). P e) (entries s))\<rparr>"
  have "distinct (map fst ?kept)"
    using assms by (simp add: store_ok_def indexed_def distinct_map_filter)
  then have ok: "indexed ?s"
    using assms entries_size_filter [of P "entries s"]
    by (auto simp: store_ok_def indexed_def covers_filter)
  show ?thesis
  proof (cases "length ?kept < length (entries s)")
    case True
    with maybe_rebuild_ok [OF ok] show ?thesis by (simp add: store_remove_where_def Let_def)
  next
    case False
    with length_filter_le [of "\<lambda>(k, e). \<not> P e" "entries s"] have "length ?kept = length (entries s)" by linarith
    with ok assms False show ?thesis
      by (simp add: store_remove_where_def Let_def store_ok_def index_bound_def)
  qed
qed

lemma store_clear_ok: "store_ok (snd (store_clear s))"
  by (simp add: store_clear_def store_ok_def indexed_def covers_def)

lemma note_invalidated_ok: "store_ok s \<Longrightarrow> store_ok (note_invalidated table s)"
  by (simp add: note_invalidated_def Let_def store_ok_def indexed_def index_bound_def)

lemma note_database_invalidated_ok: "store_ok s \<Longrightarrow> store_ok (note_database_invalidated database s)"
  by (simp add: note_database_invalidated_def Let_def store_ok_def indexed_def index_bound_def)

lemma store_touch_ok:
  assumes "store_ok s"
  shows "store_ok (snd (store_touch key order s))"
proof (cases "map_of (entries s) key")
  case (Some e)
  let ?e = "e\<lparr>access_order := order\<rparr>"
  have in_es: "(key, e) \<in> set (entries s)" using Some by (rule map_of_SomeD)
  have "entries_size (AList.update key ?e (entries s)) = entries_size (entries s)"
    using assms entries_size_update [of "entries s" key ?e] Some by (simp add: store_ok_def indexed_def)
  moreover have "(fifo_priority ?e, key) \<in> set (fifo_heap s)" "(ttl_priority ?e, key) \<in> set (ttl_heap s)"
    using assms in_es
    by (auto simp: store_ok_def indexed_def covers_def list_all_iff fifo_priority_def ttl_priority_def)
  ultimately have "indexed (s\<lparr>entries := AList.update key ?e (entries s),
      lru_heap := heap_push (order, key) (lru_heap s)\<rparr>)"
    using assms by (auto simp: store_ok_def indexed_def lru_priority_def distinct_update intro!: covers_update)
  then show ?thesis by (simp add: store_touch_def Some maybe_rebuild_ok)
qed (simp add: store_touch_def assms)

subsection \<open>Eviction\<close>

text \<open>
  Popping skips stale candidates only, so what it returns is least by current priority, key
  breaking ties, and the index still covers the entries that stay.
\<close>

lemma pop_current_spec:
  assumes "distinct (map fst es)" "covers p es heap"
  shows "case pop_current heap es p of
      (None, heap') \<Rightarrow> es = [] \<and> length heap' \<le> length heap
    | (Some k, heap') \<Rightarrow> length heap' \<le> length heap \<and> covers p (AList.delete k es) heap' \<and>
        (\<exists>e. map_of es k = Some e \<and> (\<forall>k' e'. map_of es k' = Some e' \<longrightarrow> (p e, k) \<le> (p e', k')))"
  using assms
proof (induction heap es p rule: pop_current.induct)
  case (1 heap es p)
  show ?case
  proof (cases "heap_pop heap")
    case None
    then have "heap = []" using list_heap.pop_None [of heap] by simp
    with 1(3) have "es = []" by (cases es) (auto simp: covers_def)
    with None show ?thesis by (simp add: pop_current.simps [of heap])
  next
    case (Some r)
    obtain q k h where r: "r = ((q, k), h)" by (metis surj_pair)
    note pop = Some [unfolded r]
    have bag: "set heap = insert (q, k) (set h)" "length heap = Suc (length h)"
      using list_heap.pop_bag [OF pop] heap_pop_length [OF pop] by (metis set_mset_add_mset_insert set_mset_mset)+
    show ?thesis
    proof (cases "map_option p (map_of es k) = Some q")
      case True
      then obtain e where e: "map_of es k = Some e" "p e = q" by auto
      have "(p e, k) \<le> (p e', k')" if "map_of es k' = Some e'" for k' e'
        using list_heap.pop_least [OF pop, of "(p e', k')"] 1(3) map_of_SomeD [OF that]
        by (auto simp: covers_iff e)
      moreover have "covers p (AList.delete k es) h"
        using 1(3) bag(1) by (auto simp: covers_iff AList.delete_eq)
      moreover have "pop_current heap es p = (Some k, h)" using pop True by (simp add: pop_current.simps [of heap])
      ultimately show ?thesis using e bag(2) by auto
    next
      case False
      have "covers p es h"
        using 1(2,3) bag(1) False by (force simp: covers_iff)
      moreover have "pop_current heap es p = pop_current h es p"
        unfolding pop_current.simps [of heap] pop using False by auto
      ultimately show ?thesis
        using 1(1) [OF pop refl refl False 1(2)] bag(2) by (fastforce split: prod.splits option.splits)
    qed
  qed
qed

text \<open>The order in which a strategy evicts.\<close>

definition evicts_before :: "CacheStrategy \<Rightarrow> ustr \<times> CacheEntry \<Rightarrow> ustr \<times> CacheEntry \<Rightarrow> bool" where
  "evicts_before strat a b =
     (case strat of
        LRU \<Rightarrow> (lru_priority (snd a), fst a) \<le> (lru_priority (snd b), fst b)
      | FIFO \<Rightarrow> (fifo_priority (snd a), fst a) \<le> (fifo_priority (snd b), fst b)
      | TTL \<Rightarrow> (ttl_priority (snd a), fst a) \<le> (ttl_priority (snd b), fst b))"

definition picked :: "CacheStrategy \<Rightarrow> CacheStore \<Rightarrow> ustr option \<Rightarrow> CacheStore \<Rightarrow> bool" where
  "picked strat s key s' \<longleftrightarrow>
     entries s' = entries s \<and> size_bytes s' = size_bytes s \<and> length (lru_heap s') \<le> index_bound s \<and>
     length (fifo_heap s') \<le> index_bound s \<and> length (ttl_heap s') \<le> index_bound s \<and>
     (case key of
        None \<Rightarrow> entries s = []
      | Some k \<Rightarrow> covers lru_priority (AList.delete k (entries s)) (lru_heap s') \<and>
          covers fifo_priority (AList.delete k (entries s)) (fifo_heap s') \<and>
          covers ttl_priority (AList.delete k (entries s)) (ttl_heap s') \<and>
          (\<exists>e. map_of (entries s) k = Some e \<and>
             (\<forall>k' e'. map_of (entries s) k' = Some e' \<longrightarrow> evicts_before strat (k, e) (k', e'))))"

lemma pick_victim_spec:
  assumes "store_ok s" "pick_victim strat s = (key, s')"
  shows "picked strat s key s'"
proof -
  have ok: "distinct (map fst (entries s))" "covers lru_priority (entries s) (lru_heap s)"
    "covers fifo_priority (entries s) (fifo_heap s)" "covers ttl_priority (entries s) (ttl_heap s)"
    using assms(1) by (auto simp: store_ok_def indexed_def)
  show ?thesis
  proof (cases strat)
    case LRU
    with pop_current_spec [OF ok(1,2)] ok assms show ?thesis
      by (cases key)
        (auto simp: pick_victim_def picked_def evicts_before_def store_ok_def covers_delete split: prod.splits)
  next
    case FIFO
    with pop_current_spec [OF ok(1,3)] ok assms show ?thesis
      by (cases key)
        (auto simp: pick_victim_def picked_def evicts_before_def store_ok_def covers_delete split: prod.splits)
  next
    case TTL
    with pop_current_spec [OF ok(1,4)] ok assms show ?thesis
      by (cases key)
        (auto simp: pick_victim_def picked_def evicts_before_def store_ok_def covers_delete split: prod.splits)
  qed
qed

lemma store_evict_spec:
  assumes ok: "store_ok s"
  shows "case store_evict strat s of
      (None, s') \<Rightarrow> entries s = [] \<and> entries s' = [] \<and> store_ok s'
    | (Some e, s') \<Rightarrow> \<exists>k. map_of (entries s) k = Some e \<and> entries s' = AList.delete k (entries s) \<and>
        store_ok s' \<and> (\<forall>k' e'. map_of (entries s) k' = Some e' \<longrightarrow> evicts_before strat (k, e) (k', e'))"
proof -
  obtain key s' where pick: "pick_victim strat s = (key, s')" by fastforce
  note p = pick_victim_spec [OF ok pick]
  show ?thesis
  proof (cases key)
    case None
    with p ok pick show ?thesis
      by (auto simp: store_evict_def picked_def store_ok_def indexed_def index_bound_def covers_def)
  next
    case (Some k)
    with p obtain e where e: "map_of (entries s) k = Some e"
      "\<forall>k' e'. map_of (entries s) k' = Some e' \<longrightarrow> evicts_before strat (k, e) (k', e')"
      by (auto simp: picked_def)
    have "indexed (s'\<lparr>entries := AList.delete k (entries s'),
        size_bytes := size_bytes s' - length (entry_data e)\<rparr>)"
      using p ok Some entries_size_delete [OF _ e(1)]
      by (auto simp: picked_def store_ok_def indexed_def distinct_delete)
    from maybe_rebuild_ok [OF this] show ?thesis
      using p pick Some e by (auto simp: store_evict_def store_remove_def picked_def)
  qed
qed

subsection \<open>The invalidation history\<close>

definition history :: "CacheStore \<Rightarrow> u64 \<times> (ustr \<times> u64) list \<times> (ustr \<times> u64) list \<times> u64 \<times> u64" where
  "history s = (invalidation_seq s, invalidated_at s, invalidated_databases s,
     unscoped_invalidated_at s, cleared_at s)"

lemma history_fields:
  "history s = history t \<Longrightarrow> invalidation_seq s = invalidation_seq t"
  "history s = history t \<Longrightarrow> invalidated_since point tables s = invalidated_since point tables t"
  by (auto simp: history_def invalidated_since_def Let_def cong: option.case_cong)

lemma history_kept [simp]:
  "history (maybe_rebuild_indexes s) = history s"
  "history (store_insert k e s) = history s"
  "history (snd (store_remove k s)) = history s"
  "history (snd (store_remove_where P s)) = history s"
  "history (snd (store_touch k order s)) = history s"
  "history (snd (store_evict strat s)) = history s"
  by (simp_all add: history_def store_insert_def store_remove_def store_remove_where_def store_touch_def
      store_evict_def pick_victim_def Let_def prod.case_eq_if split: option.split CacheStrategy.split)

subsection \<open>The contract the cache relies on\<close>

text \<open>
  What a store that can evict promises its client: an eviction fails only on an empty store,
  takes one entry away, never grows the byte total and never changes what stays.
\<close>

locale evicting_store =
  fixes ok :: "'s \<Rightarrow> bool" and view :: "'s \<Rightarrow> 'k \<rightharpoonup> 'e" and len :: "'s \<Rightarrow> nat" and size_of :: "'s \<Rightarrow> nat"
    and evict :: "'s \<Rightarrow> 'e option \<times> 's"
  assumes evict_None: "\<lbrakk>ok s; evict s = (None, s')\<rbrakk> \<Longrightarrow> ok s' \<and> len s = 0 \<and> len s' = 0"
    and evict_Some: "\<lbrakk>ok s; evict s = (Some e, s')\<rbrakk> \<Longrightarrow>
      ok s' \<and> len s = Suc (len s') \<and> size_of s' \<le> size_of s \<and> view s' \<subseteq>\<^sub>m view s"
    and empty: "\<lbrakk>ok s; len s = 0\<rbrakk> \<Longrightarrow> size_of s = 0 \<and> view s = Map.empty"
begin

lemma evictions_keep:
  "(\<lambda>s s'. \<exists>e. evict s = (Some e, s'))\<^sup>*\<^sup>* s s' \<Longrightarrow> ok s \<Longrightarrow>
     ok s' \<and> len s' \<le> len s \<and> size_of s' \<le> size_of s \<and> view s' \<subseteq>\<^sub>m view s"
proof (induction rule: rtranclp_induct)
  case (step t u)
  then show ?case using evict_Some [of t _ u] by (fastforce intro: map_le_trans)
qed simp

lemma failed_eviction:
  "\<lbrakk>ok s; evict s = (None, s')\<rbrakk> \<Longrightarrow> ok s' \<and> len s' = 0 \<and> size_of s' = 0 \<and> view s' = view s"
  using evict_None empty by metis

end

interpretation evicting: evicting_store store_ok "\<lambda>s. map_of (entries s)" store_len size_bytes
  "store_evict strat" for strat
proof
  fix s s'
  assume "store_ok s" "store_evict strat s = (None, s')"
  then show "store_ok s' \<and> store_len s = 0 \<and> store_len s' = 0"
    using store_evict_spec [of s strat] by (simp add: store_len_def)
next
  fix s s' e
  assume ok: "store_ok s" and ev: "store_evict strat s = (Some e, s')"
  then obtain k where k: "map_of (entries s) k = Some e" "entries s' = AList.delete k (entries s)" "store_ok s'"
    using store_evict_spec [OF ok, of strat] by auto
  have d: "distinct (map fst (entries s))" using ok by (simp add: store_ok_def indexed_def)
  have "size_bytes s' \<le> size_bytes s"
    using ok k(2,3) entries_size_delete [OF d k(1)] by (simp add: store_ok_def indexed_def)
  moreover have "map_of (entries s') \<subseteq>\<^sub>m map_of (entries s)"
    by (auto simp: k(2) delete_conv' map_le_def)
  ultimately show "store_ok s' \<and> store_len s = Suc (store_len s') \<and> size_bytes s' \<le> size_bytes s \<and>
      map_of (entries s') \<subseteq>\<^sub>m map_of (entries s)"
    using k(3) length_delete [OF d k(1)] by (simp add: store_len_def k(2))
next
  fix s
  assume "store_ok s" "store_len s = 0"
  then show "size_bytes s = 0 \<and> map_of (entries s) = Map.empty"
    by (simp add: store_len_def store_ok_def indexed_def)
qed

text \<open>C29. Eviction honours the strategy. On a well-formed store it fails only when there is no
  entry; otherwise it removes exactly one entry, and that entry comes first in the strategy's
  order among all entries there are: least recently used, oldest inserted, or first to
  expire. Stale candidates, whatever their number, never mislead it.\<close>

theorem eviction_follows_strategy:
  assumes "store_ok s"
  shows "case store_evict strat s of
      (None, s') \<Rightarrow> entries s = [] \<and> entries s' = [] \<and> store_ok s'
    | (Some e, s') \<Rightarrow> \<exists>k. map_of (entries s) k = Some e \<and> entries s' = AList.delete k (entries s) \<and>
        store_ok s' \<and> (\<forall>k' e'. map_of (entries s) k' = Some e' \<longrightarrow> evicts_before strat (k, e) (k', e'))"
  using assms by (rule store_evict_spec)

definition example_store :: CacheStore where
  "example_store =
     (let e = (\<lambda>n. CacheEntry_new 0 [0] 10 {} n)
      in snd (store_touch (lit ''a'') 3 (store_insert (lit ''b'') (e 2) (store_insert (lit ''a'') (e 1) default_store))))"

lemma example_store_ok: "store_ok example_store"
  unfolding example_store_def Let_def
  by (intro store_touch_ok store_insert_ok default_store_ok)

theorem eviction_follows_strategy_witness:
  "case store_evict LRU example_store of
      (None, s') \<Rightarrow> entries example_store = [] \<and> entries s' = [] \<and> store_ok s'
    | (Some e, s') \<Rightarrow> \<exists>k. map_of (entries example_store) k = Some e \<and>
        entries s' = AList.delete k (entries example_store) \<and> store_ok s' \<and>
        (\<forall>k' e'. map_of (entries example_store) k' = Some e' \<longrightarrow> evicts_before LRU (k, e) (k', e'))"
  by (rule eviction_follows_strategy) (rule example_store_ok)

end
