(* ===== verification/Cache_Toggle.thy ===== *)
theory Cache_Toggle
  imports Tide_Prelude
begin

text \<open>
  The configuration and on/off switch both caches keep, \<open>src/src/cache/toggle.rs\<close>. The trait
  \<open>Switchable\<close> is the locale \<open>switchable\<close>; \<open>Toggle\<close> mirrors the flag of the configuration in
  an atomic. The lemmas of the locale show that the mirror follows every operation that runs alone, and
  that two writers of the flag can leave it behind.
\<close>

record 'c Toggle =
  toggle_config :: 'c
  toggle_enabled :: bool

definition toggle_new :: "('c \<Rightarrow> bool) \<Rightarrow> 'c \<Rightarrow> 'c Toggle" where
  "toggle_new enabled config = \<lparr>toggle_config = config, toggle_enabled = enabled config\<rparr>"

text \<open>
  A section under the configuration's write lock, and the store to the atomic. A writer of the flag
  releases the lock before it stores, so the two are separate steps to every other task.
\<close>

definition toggle_write :: "('c \<Rightarrow> 'c) \<Rightarrow> 'c Toggle \<Rightarrow> 'c Toggle" where
  "toggle_write f t = t\<lparr>toggle_config := f (toggle_config t)\<rparr>"

definition toggle_store_flag :: "bool \<Rightarrow> 'c Toggle \<Rightarrow> 'c Toggle" where
  "toggle_store_flag b t = t\<lparr>toggle_enabled := b\<rparr>"

definition toggle_set_enabled :: "(bool \<Rightarrow> 'c \<Rightarrow> 'c) \<Rightarrow> bool \<Rightarrow> 'c Toggle \<Rightarrow> 'c Toggle" where
  "toggle_set_enabled set_enabled b t = toggle_store_flag b (toggle_write (set_enabled b) t)"

definition toggle_apply :: "('c \<Rightarrow> bool) \<Rightarrow> 'c \<Rightarrow> 'c Toggle \<Rightarrow> 'c Toggle" where
  "toggle_apply enabled config t = toggle_store_flag (enabled config) (toggle_write (\<lambda>_. config) t)"

lemmas toggle_defs = toggle_set_enabled_def toggle_apply_def toggle_store_flag_def toggle_write_def toggle_new_def

definition mirrored :: "('c \<Rightarrow> bool) \<Rightarrow> 'c Toggle \<Rightarrow> bool" where
  "mirrored enabled t \<longleftrightarrow> toggle_enabled t = enabled (toggle_config t)"

locale switchable =
  fixes enabled :: "'c \<Rightarrow> bool" and set_enabled :: "bool \<Rightarrow> 'c \<Rightarrow> 'c"
  assumes enabled_set: "enabled (set_enabled b c) = b"
begin

lemma new_mirrored: "mirrored enabled (toggle_new enabled c)"
  by (simp add: mirrored_def toggle_defs)

lemma set_enabled_mirrored: "mirrored enabled (toggle_set_enabled set_enabled b t)"
  by (simp add: mirrored_def toggle_defs enabled_set)

lemma apply_mirrored: "mirrored enabled (toggle_apply enabled c t)"
  by (simp add: mirrored_def toggle_defs)

lemma write_mirrored:
  "\<lbrakk>mirrored enabled t; \<And>c. enabled (f c) = enabled c\<rbrakk> \<Longrightarrow> mirrored enabled (toggle_write f t)"
  by (simp add: mirrored_def toggle_defs)

text \<open>Two writers that store in the other order than they wrote leave the flag and its mirror apart.\<close>

lemma racing_writers:
  "b \<noteq> b' \<Longrightarrow> \<not> mirrored enabled (toggle_store_flag b (toggle_store_flag b'
     (toggle_write (set_enabled b') (toggle_write (set_enabled b) t))))"
  by (simp add: mirrored_def toggle_defs enabled_set)

end

end
