(* ===== verification/Query_Cache.thy ===== *)
theory Query_Cache
  imports Cache_Store Cache_Toggle
begin

text \<open>
  The query result cache, \<open>src/src/cache/query_cache.rs\<close> with the controls of
  \<open>src/src/cache/query_cache/control.rs\<close>. serde_json's writer and reader are parameters, as is
  the loss probe of the value being stored. A method that the global instance follows by a
  note to the open transaction returns that note. The lock sections of \<open>get\<close> are definitions
  of their own, composed as the source composes them; the pointer comparison of its last
  section compares the insertion number, drawn afresh for every payload.
\<close>

subsection \<open>State\<close>

interpretation cache_config: switchable cfg_enabled "\<lambda>b c. c\<lparr>cfg_enabled := b\<rparr>"
  by unfold_locales simp

record QueryCache =
  qc_config :: "CacheConfig Toggle"
  cache :: CacheStore
  order_counter :: u64
  hits :: u64
  misses :: u64
  evictions :: u64
  invalidations :: u64
  is_global :: bool

record JsonLoss =
  non_finite :: bool
  null_in_some :: bool

record 'v serde =
  to_vec :: "'v \<Rightarrow> ustr + bytes"
  json_loss_of :: "'v \<Rightarrow> ustr + JsonLoss"
  from_slice :: "bytes \<Rightarrow> 'v option"

datatype Note = NoteTable ustr | NoteDatabase ustr | NoteAll

definition with_config :: "CacheConfig \<Rightarrow> QueryCache" where
  "with_config config =
     \<lparr>qc_config = toggle_new cfg_enabled config, cache = default_store, order_counter = 1,
      hits = 0, misses = 0, evictions = 0, invalidations = 0, is_global = False\<rparr>"

definition QueryCache_new :: QueryCache where
  "QueryCache_new = with_config default_cache_config"

abbreviation (input) config_of :: "QueryCache \<Rightarrow> CacheConfig" where
  "config_of q \<equiv> toggle_config (qc_config q)"

definition is_enabled :: "QueryCache \<Rightarrow> bool" where
  "is_enabled q = toggle_enabled (qc_config q)"

definition enable :: "QueryCache \<Rightarrow> QueryCache" where
  "enable q = q\<lparr>qc_config := toggle_set_enabled (\<lambda>b c. c\<lparr>cfg_enabled := b\<rparr>) True (qc_config q)\<rparr>"

definition disable :: "QueryCache \<Rightarrow> QueryCache" where
  "disable q = q\<lparr>qc_config := toggle_set_enabled (\<lambda>b c. c\<lparr>cfg_enabled := b\<rparr>) False (qc_config q)\<rparr>"

definition apply_config :: "CacheConfig \<Rightarrow> QueryCache \<Rightarrow> QueryCache" where
  "apply_config config q = q\<lparr>qc_config := toggle_apply cfg_enabled config (qc_config q)\<rparr>"

definition set_max_entries :: "nat \<Rightarrow> QueryCache \<Rightarrow> QueryCache" where
  "set_max_entries n q = q\<lparr>qc_config := toggle_write (\<lambda>c. c\<lparr>max_entries := n\<rparr>) (qc_config q)\<rparr>"

definition set_max_size_bytes :: "nat \<Rightarrow> QueryCache \<Rightarrow> QueryCache" where
  "set_max_size_bytes n q = q\<lparr>qc_config := toggle_write (\<lambda>c. c\<lparr>max_size_bytes := n\<rparr>) (qc_config q)\<rparr>"

definition set_default_ttl :: "nat \<Rightarrow> QueryCache \<Rightarrow> QueryCache" where
  "set_default_ttl ttl q = q\<lparr>qc_config := toggle_write (\<lambda>c. c\<lparr>default_ttl := ttl\<rparr>) (qc_config q)\<rparr>"

definition set_strategy :: "CacheStrategy \<Rightarrow> QueryCache \<Rightarrow> QueryCache" where
  "set_strategy strat q = q\<lparr>qc_config := toggle_write (\<lambda>c. c\<lparr>strategy := strat\<rparr>) (qc_config q)\<rparr>"

definition set_cache_empty_results :: "bool \<Rightarrow> QueryCache \<Rightarrow> QueryCache" where
  "set_cache_empty_results b q =
     q\<lparr>qc_config := toggle_write (\<lambda>c. c\<lparr>cache_empty_results := b\<rparr>) (qc_config q)\<rparr>"

text \<open>\<open>init_global\<close>: the first call installs the cache, a later one reconfigures it.\<close>

definition init_global :: "CacheConfig \<Rightarrow> QueryCache option \<Rightarrow> QueryCache" where
  "init_global config global =
     (case global of
        None \<Rightarrow> (with_config config)\<lparr>is_global := True\<rparr>
      | Some q \<Rightarrow> apply_config config q)"

definition global_cache :: "QueryCache option \<Rightarrow> QueryCache" where
  "global_cache global = (case global of None \<Rightarrow> QueryCache_new\<lparr>is_global := True\<rparr> | Some q \<Rightarrow> q)"

definition generate_key :: "ustr \<Rightarrow> u64 \<Rightarrow> QueryCache \<Rightarrow> ustr" where
  "generate_key table query_hash q =
     (let pre = (case key_prefix (config_of q) of Some p \<Rightarrow> p | None \<Rightarrow> []) in
      if pre = [] then table @ [ch_colon] @ show_nat (unat query_hash)
      else pre @ [ch_colon] @ table @ [ch_colon] @ show_nat (unat query_hash))"

definition next_order :: "QueryCache \<Rightarrow> u64 \<times> QueryCache" where
  "next_order q = (order_counter q, q\<lparr>order_counter := order_counter q + 1\<rparr>)"

subsection \<open>Reading\<close>

text \<open>The section under the read lock: \<open>Inl\<close> an answer, or \<open>Inr\<close> what the fast path found.\<close>

definition get_read :: "nat \<Rightarrow> ustr \<Rightarrow> QueryCache \<Rightarrow> unit + (bytes \<times> u64) option" where
  "get_read now key q =
     (case store_get (cache q) key of
        None \<Rightarrow> Inl ()
      | Some entry \<Rightarrow>
          Inr (if \<not> is_expired now entry \<and> strategy (config_of q) \<noteq> LRU
               then Some (entry_data entry, insert_order entry) else None))"

text \<open>The section under the write lock, entered when the fast path found nothing.\<close>

definition get_write ::
  "nat \<Rightarrow> CacheStrategy \<Rightarrow> ustr \<Rightarrow> QueryCache \<Rightarrow> (bytes \<times> u64) option \<times> QueryCache" where
  "get_write now strat key q =
     (case store_get (cache q) key of
        Some entry \<Rightarrow>
          if is_expired now entry then (None, q\<lparr>cache := snd (store_remove key (cache q))\<rparr>)
          else if strat = LRU then
            (let (order, q') = next_order q;
                 (data, cache') = store_touch key order (cache q')
             in (map_option (\<lambda>d. (d, insert_order entry)) data, q'\<lparr>cache := cache'\<rparr>))
          else (Some (entry_data entry, insert_order entry), q)
      | None \<Rightarrow> (None, q))"

text \<open>The end of \<open>get\<close>: the payload is read, and dropped if it is unreadable and still there.\<close>

definition get_finish ::
  "'v serde \<Rightarrow> ustr \<Rightarrow> (bytes \<times> u64) option \<Rightarrow> QueryCache \<Rightarrow> 'v option \<times> QueryCache" where
  "get_finish S key payload q =
     (case payload of
        None \<Rightarrow> (None, q\<lparr>misses := misses q + 1\<rparr>)
      | Some (data, ident) \<Rightarrow>
          (case from_slice S data of
             Some value \<Rightarrow> (Some value, q\<lparr>hits := hits q + 1\<rparr>)
           | None \<Rightarrow>
               (let q' = q\<lparr>misses := misses q + 1\<rparr> in
                (None,
                 if (case store_get (cache q') key of
                       Some entry \<Rightarrow> insert_order entry = ident | None \<Rightarrow> False)
                 then q'\<lparr>cache := snd (store_remove key (cache q'))\<rparr> else q'))))"

definition qc_get :: "'v serde \<Rightarrow> nat \<Rightarrow> ustr \<Rightarrow> QueryCache \<Rightarrow> 'v option \<times> QueryCache" where
  "qc_get S now key q =
     (if \<not> is_enabled q then (None, q)
      else (case get_read now key q of
              Inl _ \<Rightarrow> (None, q\<lparr>misses := misses q + 1\<rparr>)
            | Inr (Some payload) \<Rightarrow> get_finish S key (Some payload) q
            | Inr None \<Rightarrow>
                (let (payload, q') = get_write now (strategy (config_of q)) key q
                 in get_finish S key payload q')))"

definition qc_contains :: "nat \<Rightarrow> ustr \<Rightarrow> QueryCache \<Rightarrow> bool" where
  "qc_contains now key q =
     (case store_get (cache q) key of Some entry \<Rightarrow> \<not> is_expired now entry | None \<Rightarrow> False)"

definition qc_len :: "QueryCache \<Rightarrow> nat" where
  "qc_len q = store_len (cache q)"

subsection \<open>Storing\<close>

definition has_window :: "bytes \<Rightarrow> bytes \<Rightarrow> bool" where
  "has_window pat data = list_ex (\<lambda>i. take (length pat) (drop i data) = pat) [0..<length data + 1 - length pat]"

definition null_bytes :: bytes where
  "null_bytes = [110, 117, 108, 108]"

definition serialize_payload :: "'v serde \<Rightarrow> 'v \<Rightarrow> ustr + bytes option" where
  "serialize_payload S val =
     try_bind (to_vec S val) (\<lambda>data.
       if \<not> has_window null_bytes data then Inr (Some data)
       else try_bind (json_loss_of S val) (\<lambda>loss.
         Inr (if \<not> non_finite loss \<and> \<not> null_in_some loss then Some data else None)))"

text \<open>\<open>while full { if !evict_one { break } }\<close>, counting the evictions.\<close>

function make_room ::
  "(CacheStore \<Rightarrow> bool) \<Rightarrow> CacheStrategy \<Rightarrow> CacheStore \<Rightarrow> u64 \<Rightarrow> CacheStore \<times> u64" where
  "make_room full strat c n =
     (if full c then
        (case store_evict strat c of
           (None, c') \<Rightarrow> (c', n)
         | (Some _, c') \<Rightarrow> make_room full strat c' (n + 1))
      else (c, n))"
  by pat_completeness auto
termination
  by (relation "measure (\<lambda>(_, _, c, _). length (entries c))") (auto dest: store_evict_shrinks [OF sym])

declare make_room.simps [simp del]

definition cacheable :: "CacheConfig \<Rightarrow> nat \<Rightarrow> bytes \<Rightarrow> bool" where
  "cacheable config ttl data \<longleftrightarrow>
     ttl \<noteq> 0 \<and> max_entries config > 0 \<and> (cache_empty_results config \<or> data \<noteq> [91, 93]) \<and>
     (max_size_bytes config = 0 \<or> length data \<le> max_size_bytes config)"

text \<open>Evict until the entry fits both budgets, then insert it.\<close>

definition insert_within :: "CacheConfig \<Rightarrow> ustr \<Rightarrow> CacheEntry \<Rightarrow> QueryCache \<Rightarrow> QueryCache" where
  "insert_within config key entry q =
     (let entry_size = length (entry_data entry);
          (c1, n1) = make_room (\<lambda>c. store_len c \<ge> max_entries config) (strategy config)
            (cache q) (evictions q);
          (c2, n2) = make_room (\<lambda>c. max_size_bytes config > 0 \<and>
            size_bytes c + entry_size > max_size_bytes config) (strategy config) c1 n1
      in q\<lparr>cache := store_insert key entry c2, evictions := n2\<rparr>)"

definition stale_fill :: "FillPoint option \<Rightarrow> ustr set \<Rightarrow> CacheStore \<Rightarrow> bool" where
  "stale_fill fill_point tags c =
     (case fill_point of Some point \<Rightarrow> invalidated_since point tags c | None \<Rightarrow> False)"

definition effective_ttl :: "CacheConfig \<Rightarrow> nat option \<Rightarrow> nat" where
  "effective_ttl config ttl = (case ttl of Some t \<Rightarrow> t | None \<Rightarrow> default_ttl config)"

text \<open>The section of \<open>store\<close> under the write lock.\<close>

definition replace_entry ::
  "nat \<Rightarrow> CacheConfig \<Rightarrow> ustr \<Rightarrow> bytes option \<Rightarrow> nat \<Rightarrow> ustr set \<Rightarrow> FillPoint option \<Rightarrow> QueryCache \<Rightarrow> QueryCache" where
  "replace_entry now config key data ttl tags fill_point q =
     (if stale_fill fill_point tags (cache q) then q
      else
        (let (removed, c) = store_remove key (cache q); q1 = q\<lparr>cache := c\<rparr> in
         case data of
           None \<Rightarrow> (if removed \<noteq> None then q1\<lparr>invalidations := invalidations q1 + 1\<rparr> else q1)
         | Some d \<Rightarrow>
             (let (order, q2) = next_order q1;
                  entry = (CacheEntry_new now d ttl tags order)
                    \<lparr>entry_database := (case fill_point of Some point \<Rightarrow> fp_database point | None \<Rightarrow> None)\<rparr>
              in insert_within config key entry q2)))"

definition qc_store ::
  "'v serde \<Rightarrow> nat \<Rightarrow> ustr \<Rightarrow> 'v \<Rightarrow> nat option \<Rightarrow> ustr list \<Rightarrow> FillPoint option \<Rightarrow> QueryCache \<Rightarrow>
     (ustr + unit) \<times> QueryCache" where
  "qc_store S now key val ttl tables fill_point q =
     (if \<not> is_enabled q then (Inr (), q)
      else
        (let tags = set (map to_ascii_lowercase tables) in
         case serialize_payload S val of
           Inl e \<Rightarrow> (Inl (lit ''Failed to serialize cache value: '' @ e), q)
         | Inr payload \<Rightarrow>
             (let config = config_of q;
                  ttl' = effective_ttl config ttl;
                  data = (case payload of Some d \<Rightarrow> if cacheable config ttl' d then Some d else None
                          | None \<Rightarrow> None)
              in (Inr (), replace_entry now config key data ttl' tags fill_point q))))"

definition qc_set :: "'v serde \<Rightarrow> nat \<Rightarrow> ustr \<Rightarrow> 'v \<Rightarrow> nat option \<Rightarrow> ustr \<Rightarrow> QueryCache \<Rightarrow> (ustr + unit) \<times> QueryCache" where
  "qc_set S now key val ttl model_name q = qc_store S now key val ttl [model_name] None q"

definition qc_set_tagged :: "'v serde \<Rightarrow> nat \<Rightarrow> ustr \<Rightarrow> 'v \<Rightarrow> nat option \<Rightarrow> ustr list \<Rightarrow> QueryCache \<Rightarrow> (ustr + unit) \<times> QueryCache" where
  "qc_set_tagged S now key val ttl tables q = qc_store S now key val ttl tables None q"

definition fill_point_for_database :: "ustr option \<Rightarrow> QueryCache \<Rightarrow> FillPoint" where
  "fill_point_for_database database q =
     \<lparr>fp_sequence = invalidation_seq (cache q), fp_database = database\<rparr>"

definition qc_fill_tagged ::
  "'v serde \<Rightarrow> nat \<Rightarrow> FillPoint \<Rightarrow> ustr \<Rightarrow> 'v \<Rightarrow> nat option \<Rightarrow> ustr list \<Rightarrow> QueryCache \<Rightarrow> (ustr + unit) \<times> QueryCache" where
  "qc_fill_tagged S now point key val ttl tables q = qc_store S now key val ttl tables (Some point) q"

subsection \<open>Invalidation\<close>

definition qc_invalidate :: "ustr \<Rightarrow> QueryCache \<Rightarrow> bool \<times> QueryCache" where
  "qc_invalidate key q =
     (let (removed, c) = store_remove key (cache q); q' = q\<lparr>cache := c\<rparr> in
      (removed \<noteq> None, if removed \<noteq> None then q'\<lparr>invalidations := invalidations q' + 1\<rparr> else q'))"

definition qc_invalidate_model :: "ustr \<Rightarrow> QueryCache \<Rightarrow> Note list \<times> QueryCache" where
  "qc_invalidate_model model_name q =
     (let name = to_ascii_lowercase model_name;
          (removed, c) = store_remove_where (\<lambda>entry. reads_table entry name)
            (note_invalidated name (cache q))
      in (if is_global q then [NoteTable name] else [],
          q\<lparr>cache := c, invalidations := invalidations q + of_nat removed\<rparr>))"

definition qc_clear :: "QueryCache \<Rightarrow> Note list \<times> QueryCache" where
  "qc_clear q =
     (let (removed, c) = store_clear (cache q)
      in (if is_global q then [NoteAll] else [],
          q\<lparr>cache := c, invalidations := invalidations q + of_nat removed\<rparr>))"

definition in_database :: "ustr \<Rightarrow> CacheEntry \<Rightarrow> bool" where
  "in_database database entry =
     (case entry_database entry of None \<Rightarrow> True | Some scope \<Rightarrow> scope = database)"

definition qc_invalidate_database :: "ustr \<Rightarrow> QueryCache \<Rightarrow> Note list \<times> QueryCache" where
  "qc_invalidate_database database q =
     (let (removed, c) = store_remove_where (in_database database)
            (note_database_invalidated database (cache q))
      in (if is_global q then [NoteDatabase database] else [],
          q\<lparr>cache := c, invalidations := invalidations q + of_nat removed\<rparr>))"

definition qc_evict_expired :: "nat \<Rightarrow> QueryCache \<Rightarrow> QueryCache" where
  "qc_evict_expired now q =
     (let (removed, c) = store_remove_where (is_expired now) (cache q)
      in q\<lparr>cache := c, evictions := evictions q + of_nat removed\<rparr>)"

record CacheStats =
  stat_hits :: u64
  stat_misses :: u64
  stat_entries :: nat
  stat_size_bytes :: nat
  stat_evictions :: u64
  stat_invalidations :: u64

definition qc_stats :: "QueryCache \<Rightarrow> CacheStats" where
  "qc_stats q = \<lparr>stat_hits = hits q, stat_misses = misses q, stat_entries = store_len (cache q),
     stat_size_bytes = size_bytes (cache q), stat_evictions = evictions q,
     stat_invalidations = invalidations q\<rparr>"

definition qc_reset_stats :: "QueryCache \<Rightarrow> QueryCache" where
  "qc_reset_stats q = q\<lparr>hits := 0, misses := 0, evictions := 0, invalidations := 0\<rparr>"

subsection \<open>Making room\<close>

lemma make_room_path:
  "make_room full strat c n = (c', n') \<Longrightarrow>
     \<exists>d. (\<lambda>s s'. \<exists>e. store_evict strat s = (Some e, s'))\<^sup>*\<^sup>* c d \<and>
       (c' = d \<and> \<not> full d \<or> full d \<and> store_evict strat d = (None, c'))"
proof (induction full strat c n rule: make_room.induct)
  case (1 full strat c n)
  show ?case
  proof (cases "full c")
    case False
    with 1(2) show ?thesis by (auto simp: make_room.simps [of full strat c])
  next
    case True
    obtain r t where ev: "store_evict strat c = (r, t)" by fastforce
    show ?thesis
    proof (cases r)
      case None
      with True ev 1(2) show ?thesis by (auto simp: make_room.simps [of full strat c])
    next
      case (Some e)
      with True ev 1(2) have "make_room full strat t (n + 1) = (c', n')"
        by (simp add: make_room.simps [of full strat c])
      from 1(1) [OF True ev [symmetric] Some this] obtain d where
        "(\<lambda>s s'. \<exists>e. store_evict strat s = (Some e, s'))\<^sup>*\<^sup>* t d"
        "c' = d \<and> \<not> full d \<or> full d \<and> store_evict strat d = (None, c')" by blast
      moreover from this(1) have "(\<lambda>s s'. \<exists>e. store_evict strat s = (Some e, s'))\<^sup>*\<^sup>* c d"
        by (rule converse_rtranclp_into_rtranclp [rotated]) (use ev Some in blast)
      ultimately show ?thesis by blast
    qed
  qed
qed

lemma make_room_spec:
  assumes "make_room full strat c n = (c', n')" "store_ok c"
  shows "store_ok c' \<and> map_of (entries c') \<subseteq>\<^sub>m map_of (entries c) \<and> store_len c' \<le> store_len c \<and>
    size_bytes c' \<le> size_bytes c \<and> (\<not> full c' \<or> store_len c' = 0 \<and> size_bytes c' = 0)"
proof -
  obtain d where path: "(\<lambda>s s'. \<exists>e. store_evict strat s = (Some e, s'))\<^sup>*\<^sup>* c d"
    and fin: "c' = d \<and> \<not> full d \<or> full d \<and> store_evict strat d = (None, c')"
    using make_room_path [OF assms(1)] by blast
  note kept = evicting.evictions_keep [OF path assms(2)]
  from fin show ?thesis
  proof
    assume "full d \<and> store_evict strat d = (None, c')"
    with evicting.failed_eviction [of d strat c'] kept show ?thesis by auto
  qed (use kept in simp)
qed

lemma make_room_history [simp]: "history (fst (make_room full strat c n)) = history c"
proof (induction full strat c n rule: make_room.induct)
  case (1 full strat c n)
  have "history (snd (store_evict strat c)) = history c" by simp
  with 1 show ?case
    by (cases "store_evict strat c") (auto simp: make_room.simps [of full strat c n] split: option.split)
qed

subsection \<open>The invariant of the cache\<close>

definition qc_ok :: "QueryCache \<Rightarrow> bool" where
  "qc_ok q \<longleftrightarrow> store_ok (cache q)"

lemma store_ok_indexed: "store_ok s \<Longrightarrow> indexed s"
  by (simp add: store_ok_def)

lemma store_remove_ok': "store_ok s \<Longrightarrow> store_ok (snd (store_remove key s))"
  by (simp add: store_remove_ok store_ok_indexed)

lemma insert_within_spec:
  assumes ok: "store_ok (cache q)" and budget: "0 < max_entries config"
    "max_size_bytes config = 0 \<or> length (entry_data entry) \<le> max_size_bytes config"
    and absent: "map_of (entries (cache q)) key = None"
  shows "let q' = insert_within config key entry q in
    store_ok (cache q') \<and> store_len (cache q') \<le> max_entries config \<and>
    (max_size_bytes config = 0 \<or> size_bytes (cache q') \<le> max_size_bytes config) \<and>
    store_get (cache q') key = Some entry \<and>
    (\<forall>k. k \<noteq> key \<longrightarrow> store_get (cache q') k = None \<or> store_get (cache q') k = store_get (cache q) k)"
proof -
  let ?many = "\<lambda>c. store_len c \<ge> max_entries config"
  let ?big = "\<lambda>c. max_size_bytes config > 0 \<and> size_bytes c + length (entry_data entry) > max_size_bytes config"
  obtain c1 n1 where r1: "make_room ?many (strategy config) (cache q) (evictions q) = (c1, n1)" by fastforce
  obtain c2 n2 where r2: "make_room ?big (strategy config) c1 n1 = (c2, n2)" by fastforce
  note s1 = make_room_spec [OF r1 ok]
  from s1 have "store_ok c1" by blast
  note s2 = make_room_spec [OF r2 this]
  have q': "insert_within config key entry q = q\<lparr>cache := store_insert key entry c2, evictions := n2\<rparr>"
    using r1 r2 by (simp add: insert_within_def)
  have sub: "map_of (entries c2) \<subseteq>\<^sub>m map_of (entries (cache q))"
    using s1 s2 by (blast intro: map_le_trans)
  then have gone: "map_of (entries c2) key = None"
    using absent by (metis domIff map_le_def)
  then have len: "store_len (store_insert key entry c2) = Suc (store_len c2)"
    by (simp add: store_len_def store_insert_def map_of_eq_None_iff length_update_absent)
  have size: "size_bytes (store_insert key entry c2) = size_bytes c2 + length (entry_data entry)"
    by (simp add: store_insert_def gone)
  have "store_len c2 < max_entries config" using s1 s2 budget(1) by auto
  moreover have "max_size_bytes config = 0 \<or> size_bytes c2 + length (entry_data entry) \<le> max_size_bytes config"
    using s2 budget(2) by auto
  moreover have "map_of (AList.update key entry (entries c2)) k = None \<or>
      map_of (AList.update key entry (entries c2)) k = map_of (entries (cache q)) k" if "k \<noteq> key" for k
    using sub that by (simp add: update_conv' map_le_def) (metis domIff)
  ultimately show ?thesis
    using s2 len size store_insert_ok [of c2 key entry]
    by (simp add: q' Let_def store_get_def) (simp add: store_insert_def)
qed

lemma store_remove_get:
  "map_of (entries (snd (store_remove key s))) = (map_of (entries s))(key := None)"
  by (auto simp: store_remove_def delete_conv' split: option.split)

lemma replace_entry_stored:
  assumes "store_ok (cache q)" "cacheable config ttl d" "\<not> stale_fill fill_point tags (cache q)"
  shows "let q' = replace_entry now config key (Some d) ttl tags fill_point q in
    store_ok (cache q') \<and> store_len (cache q') \<le> max_entries config \<and>
    (max_size_bytes config = 0 \<or> size_bytes (cache q') \<le> max_size_bytes config) \<and>
    store_get (cache q') key = Some ((CacheEntry_new now d ttl tags (order_counter q))
      \<lparr>entry_database := (case fill_point of Some point \<Rightarrow> fp_database point | None \<Rightarrow> None)\<rparr>) \<and>
    (\<forall>k. k \<noteq> key \<longrightarrow> store_get (cache q') k = None \<or> store_get (cache q') k = store_get (cache q) k) \<and>
    qc_config q' = qc_config q"
proof -
  define q2 where "q2 = q\<lparr>cache := snd (store_remove key (cache q)), order_counter := order_counter q + 1\<rparr>"
  define entry where "entry = (CacheEntry_new now d ttl tags (order_counter q))
      \<lparr>entry_database := (case fill_point of Some point \<Rightarrow> fp_database point | None \<Rightarrow> None)\<rparr>"
  have eq: "replace_entry now config key (Some d) ttl tags fill_point q = insert_within config key entry q2"
    using assms(3) by (simp add: replace_entry_def next_order_def q2_def entry_def prod.case_eq_if)
  have "entry_data entry = d" by (simp add: entry_def CacheEntry_new_def)
  moreover have "store_ok (cache q2)" "map_of (entries (cache q2)) key = None"
    using store_remove_ok' [OF assms(1)] by (simp_all add: q2_def store_remove_get)
  ultimately have "let q' = insert_within config key entry q2 in
    store_ok (cache q') \<and> store_len (cache q') \<le> max_entries config \<and>
    (max_size_bytes config = 0 \<or> size_bytes (cache q') \<le> max_size_bytes config) \<and>
    store_get (cache q') key = Some entry \<and>
    (\<forall>k. k \<noteq> key \<longrightarrow> store_get (cache q') k = None \<or> store_get (cache q') k = store_get (cache q2) k)"
    using assms(2) by (intro insert_within_spec) (auto simp: cacheable_def)
  moreover have "store_get (cache q2) k = store_get (cache q) k" if "k \<noteq> key" for k
    using that by (simp add: q2_def store_get_def store_remove_get)
  moreover have "qc_config (insert_within config key entry q2) = qc_config q"
    by (simp add: insert_within_def q2_def Let_def prod.case_eq_if)
  ultimately show ?thesis unfolding eq entry_def Let_def by auto
qed

lemma qc_store_eq:
  "\<lbrakk>is_enabled q; serialize_payload S val = Inr (Some d);
    cacheable (config_of q) (effective_ttl (config_of q) ttl) d\<rbrakk> \<Longrightarrow>
   qc_store S now key val ttl tables fill_point q =
     (Inr (), replace_entry now (config_of q) key (Some d) (effective_ttl (config_of q) ttl)
       (set (map to_ascii_lowercase tables)) fill_point q)"
  by (simp add: qc_store_def Let_def)

text \<open>Storing respects both budgets, whatever the cache held before and whatever the budgets
  were when it was filled: afterwards there are at most \<open>max_entries\<close> entries and, with a byte
  budget, at most that many bytes; the new entry is there under its key with its tags, and every
  other key answers as before or has been evicted.\<close>

theorem store_within_limits:
  assumes "qc_ok q" "is_enabled q" "serialize_payload S val = Inr (Some d)"
    "cacheable (config_of q) (effective_ttl (config_of q) ttl) d"
    "\<not> stale_fill fill_point (set (map to_ascii_lowercase tables)) (cache q)"
  shows "let q' = snd (qc_store S now key val ttl tables fill_point q) in
    store_len (cache q') \<le> max_entries (config_of q) \<and>
    (max_size_bytes (config_of q) = 0 \<or> size_bytes (cache q') \<le> max_size_bytes (config_of q)) \<and>
    (\<exists>e. store_get (cache q') key = Some e \<and> entry_data e = d \<and>
       entry_tables e = set (map to_ascii_lowercase tables)) \<and>
    (\<forall>k. k \<noteq> key \<longrightarrow> store_get (cache q') k = None \<or> store_get (cache q') k = store_get (cache q) k)"
proof -
  have "store_ok (cache q)" using assms(1) by (simp add: qc_ok_def)
  from replace_entry_stored [OF this assms(4,5), of now key] show ?thesis
    unfolding qc_store_eq [OF assms(2,3,4)] Let_def snd_conv by (auto simp: CacheEntry_new_def)
qed

text \<open>A value that is one byte, for examples.\<close>

definition byte_serde :: "8 word serde" where
  "byte_serde = \<lparr>to_vec = (\<lambda>b. Inr [b]), json_loss_of = (\<lambda>_. Inr \<lparr>non_finite = False, null_in_some = False\<rparr>),
     from_slice = (\<lambda>d. case d of [b] \<Rightarrow> Some b | _ \<Rightarrow> None)\<rparr>"

definition example_cache :: QueryCache where
  "example_cache = enable (with_config (default_cache_config\<lparr>max_entries := 1\<rparr>))"

lemma example_cache_ok:
  "qc_ok example_cache" "is_enabled example_cache"
  "serialize_payload byte_serde 7 = Inr (Some [7])"
  "cacheable (config_of example_cache) (effective_ttl (config_of example_cache) None) [7]"
  "\<not> stale_fill None t c"
  by (simp_all add: example_cache_def qc_ok_def enable_def with_config_def default_store_ok is_enabled_def
      mirrored_def byte_serde_def serialize_payload_def
      has_window_def null_bytes_def cacheable_def effective_ttl_def default_cache_config_def
      toggle_defs stale_fill_def)

theorem store_within_limits_witness:
  "let q' = snd (qc_store byte_serde 0 (lit ''k'') 7 None [lit ''Users''] None example_cache) in
    store_len (cache q') \<le> max_entries (config_of example_cache) \<and>
    (max_size_bytes (config_of example_cache) = 0 \<or> size_bytes (cache q') \<le> max_size_bytes (config_of example_cache)) \<and>
    (\<exists>e. store_get (cache q') (lit ''k'') = Some e \<and> entry_data e = [7] \<and>
       entry_tables e = set (map to_ascii_lowercase [lit ''Users''])) \<and>
    (\<forall>k. k \<noteq> lit ''k'' \<longrightarrow> store_get (cache q') k = None \<or> store_get (cache q') k = store_get (cache example_cache) k)"
  by (rule store_within_limits) (rule example_cache_ok)+

subsection \<open>Reading back\<close>

lemma get_of_present:
  assumes "is_enabled q" "store_get (cache q) key = Some e" "\<not> is_expired now e"
    "from_slice S (entry_data e) = Some v"
  shows "fst (qc_get S now key q) = Some v"
  using assms
  by (auto simp: qc_get_def get_read_def get_write_def get_finish_def next_order_def store_touch_def
      store_get_def Let_def)

text \<open>What was stored is read back: a value whose payload serde_json reads back as the value,
  stored in an enabled cache that accepts it, is what \<open>get\<close> returns for the key until the time
  to live has passed, under every eviction strategy.\<close>

theorem get_after_store:
  assumes "qc_ok q" "is_enabled q" "serialize_payload S val = Inr (Some d)"
    "cacheable (config_of q) (effective_ttl (config_of q) ttl) d"
    "\<not> stale_fill fill_point (set (map to_ascii_lowercase tables)) (cache q)"
    and readable: "from_slice S d = Some val"
    and time: "now + effective_ttl (config_of q) ttl < instant_limit" "later < now + effective_ttl (config_of q) ttl"
  shows "fst (qc_get S later key (snd (qc_store S now key val ttl tables fill_point q))) = Some val"
proof -
  have "store_ok (cache q)" using assms(1) by (simp add: qc_ok_def)
  from replace_entry_stored [OF this assms(4,5), of now key]
  have stored: "store_get (cache (snd (qc_store S now key val ttl tables fill_point q))) key =
      Some ((CacheEntry_new now d (effective_ttl (config_of q) ttl) (set (map to_ascii_lowercase tables)) (order_counter q))
        \<lparr>entry_database := (case fill_point of Some point \<Rightarrow> fp_database point | None \<Rightarrow> None)\<rparr>)"
    "qc_config (snd (qc_store S now key val ttl tables fill_point q)) = qc_config q"
    unfolding qc_store_eq [OF assms(2,3,4)] Let_def snd_conv by auto
  show ?thesis
    by (rule get_of_present [OF _ stored(1)])
      (use assms(2) stored(2) readable time in
        \<open>auto simp: is_enabled_def is_expired_def CacheEntry_new_def instant_checked_add_def\<close>)
qed

theorem get_after_store_witness:
  "fst (qc_get byte_serde 5 (lit ''k'') (snd (qc_store byte_serde 0 (lit ''k'') 7 None [] None example_cache))) = Some 7"
proof (rule get_after_store [OF example_cache_ok])
  have ttl: "effective_ttl (config_of example_cache) None = 60000000000"
    by (simp add: effective_ttl_def example_cache_def enable_def with_config_def default_cache_config_def
        toggle_defs)
  show "from_slice byte_serde [7] = Some 7" by (simp add: byte_serde_def)
  show "0 + effective_ttl (config_of example_cache) None < instant_limit"
    "5 < 0 + effective_ttl (config_of example_cache) None"
    unfolding ttl instant_limit_def by simp_all
qed

text \<open>A lookup never invents, outlives or miscounts: a hit is the readable payload of an entry
  under that very key that has not expired; a miss of an enabled cache leaves the key absent, an
  expired or unreadable payload having been dropped; no other payload changes; and exactly one of
  the hit and miss counters advances by one, none when the cache is disabled.\<close>

theorem get_answers:
  "case qc_get S now key q of
     (Some v, q') \<Rightarrow>
       is_enabled q \<and> hits q' = hits q + 1 \<and> misses q' = misses q \<and>
       (\<exists>e. store_get (cache q) key = Some e \<and> now < expires_at e \<and> from_slice S (entry_data e) = Some v) \<and>
       (\<forall>k. map_option entry_data (store_get (cache q') k) = map_option entry_data (store_get (cache q) k))
   | (None, q') \<Rightarrow>
       hits q' = hits q \<and>
       (if is_enabled q
        then misses q' = misses q + 1 \<and>
             (\<forall>k. store_get (cache q') k = (if k = key then None else store_get (cache q) k))
        else q' = q)"
proof (cases "store_get (cache q) key")
  case None
  then show ?thesis by (simp add: qc_get_def get_read_def)
next
  case (Some e)
  have gone: "map_of (entries (snd (store_remove key s))) key = None"
    "k \<noteq> key \<Longrightarrow> map_of (entries (snd (store_remove key s))) k = map_of (entries s) k" for s k
    by (simp_all add: store_remove_get)
  show ?thesis
  proof (cases "is_enabled q")
    case True
    show ?thesis
    proof (cases "is_expired now e")
      case expired: True
      with Some True show ?thesis
        by (simp add: qc_get_def get_read_def get_write_def get_finish_def store_get_def gone)
    next
      case fresh: False
      show ?thesis
      proof (cases "strategy (config_of q) = LRU")
        case lru: True
        let ?q = "q\<lparr>order_counter := order_counter q + 1, cache := snd (store_touch key (order_counter q) (cache q))\<rparr>"
        have get: "qc_get S now key q = get_finish S key (Some (entry_data e, insert_order e)) ?q"
          using Some True fresh lru
          by (simp add: qc_get_def get_read_def get_write_def next_order_def store_touch_def store_get_def)
        have es: "map_of (entries (cache ?q)) = (map_of (entries (cache q)))(key \<mapsto> e\<lparr>access_order := order_counter q\<rparr>)"
          using Some by (simp add: store_touch_def store_get_def update_conv')
        show ?thesis
        proof (cases "from_slice S (entry_data e)")
          case (Some v)
          with \<open>store_get (cache q) key = Some e\<close> True fresh es show ?thesis
            unfolding get by (simp add: get_finish_def store_get_def is_expired_def)
        next
          case None
          with \<open>store_get (cache q) key = Some e\<close> True fresh es show ?thesis
            unfolding get by (simp add: get_finish_def store_get_def gone)
        qed
      next
        case False
        with Some True fresh show ?thesis
          by (cases "from_slice S (entry_data e)")
            (auto simp: qc_get_def get_read_def get_finish_def store_get_def gone is_expired_def Let_def)
      qed
    qed
  qed (simp add: qc_get_def)
qed

subsection \<open>Invalidation is exact\<close>

lemma map_of_filter_value:
  "distinct (map fst es) \<Longrightarrow> map_of (filter (\<lambda>(k, e). P e) es) k =
     (case map_of es k of Some e \<Rightarrow> if P e then Some e else None | None \<Rightarrow> None)"
proof (induction es)
  case (Cons x es)
  obtain k' e' where x: "x = (k', e')" by fastforce
  have "map_of (filter (\<lambda>(k, e). P e) es) k' = None"
    using Cons(2) by (auto simp: x map_of_eq_None_iff)
  with Cons show ?case by (auto simp: x)
qed simp

lemma remove_where_get:
  "store_ok s \<Longrightarrow> store_get (snd (store_remove_where P s)) k =
     (case store_get s k of Some e \<Rightarrow> if P e then None else Some e | None \<Rightarrow> None)"
  using map_of_filter_value [of "entries s" "\<lambda>e. \<not> P e" k]
  by (auto simp: store_remove_where_def store_get_def store_ok_def indexed_def Let_def split: option.split)

lemma note_entries [simp]:
  "entries (note_invalidated t s) = entries s" "entries (note_database_invalidated d s) = entries s"
  by (simp_all add: note_invalidated_def note_database_invalidated_def Let_def)

text \<open>C30. A write evicts exactly what it must. Invalidating a table drops every entry whose tags
  hold it, letter case aside, and no other; invalidating a database drops the entries read from
  it and those of unknown origin, and no other; clearing drops everything. On the global cache
  each leaves its note for the open transaction.\<close>

theorem invalidation_exact:
  assumes "qc_ok q"
  shows "(let (notes, q') = qc_invalidate_model table q in
      notes = (if is_global q then [NoteTable (to_ascii_lowercase table)] else []) \<and>
      (\<forall>k. store_get (cache q') k =
         (case store_get (cache q) k of
            Some e \<Rightarrow> if to_ascii_lowercase table \<in> entry_tables e then None else Some e | None \<Rightarrow> None))) \<and>
    (let (notes, q') = qc_invalidate_database db q in
      notes = (if is_global q then [NoteDatabase db] else []) \<and>
      (\<forall>k. store_get (cache q') k =
         (case store_get (cache q) k of
            Some e \<Rightarrow> if entry_database e \<in> {None, Some db} then None else Some e | None \<Rightarrow> None))) \<and>
    (let (notes, q') = qc_clear q in
      notes = (if is_global q then [NoteAll] else []) \<and> (\<forall>k. store_get (cache q') k = None))"
proof -
  have ok: "store_ok (note_invalidated t (cache q))" "store_ok (note_database_invalidated db (cache q))" for t
    using assms by (simp_all add: qc_ok_def note_invalidated_ok note_database_invalidated_ok)
  have same: "store_get (note_invalidated t (cache q)) k = store_get (cache q) k"
    "store_get (note_database_invalidated db (cache q)) k = store_get (cache q) k" for t k
    by (simp_all add: store_get_def)
  have db: "in_database db = (\<lambda>e. entry_database e \<in> {None, Some db})"
    by (auto simp: in_database_def fun_eq_iff split: option.split)
  show ?thesis
    unfolding qc_invalidate_model_def qc_invalidate_database_def qc_clear_def Let_def prod.case_eq_if db
    by (simp add: remove_where_get [OF ok(1)] remove_where_get [OF ok(2)] same reads_table_def cong: option.case_cong)
      (simp add: store_clear_def store_get_def)
qed

theorem invalidation_exact_witness:
  "(let (notes, q') = qc_invalidate_model (lit ''Users'') example_cache in
      notes = (if is_global example_cache then [NoteTable (to_ascii_lowercase (lit ''Users''))] else []) \<and>
      (\<forall>k. store_get (cache q') k =
         (case store_get (cache example_cache) k of
            Some e \<Rightarrow> if to_ascii_lowercase (lit ''Users'') \<in> entry_tables e then None else Some e | None \<Rightarrow> None))) \<and>
    (let (notes, q') = qc_invalidate_database (lit ''db'') example_cache in
      notes = (if is_global example_cache then [NoteDatabase (lit ''db'')] else []) \<and>
      (\<forall>k. store_get (cache q') k =
         (case store_get (cache example_cache) k of
            Some e \<Rightarrow> if entry_database e \<in> {None, Some (lit ''db'')} then None else Some e | None \<Rightarrow> None))) \<and>
    (let (notes, q') = qc_clear example_cache in
      notes = (if is_global example_cache then [NoteAll] else []) \<and> (\<forall>k. store_get (cache q') k = None))"
  by (rule invalidation_exact) (rule example_cache_ok)

subsection \<open>Interleavings\<close>

text \<open>
  The steps of the tasks that share a cache, one per section in which the source holds a lock or
  touches an atomic: a task may be stopped between any two. The write section of \<open>store\<close> runs under
  the configuration its task read before, which may be any by then, with data that configuration
  let through; \<open>get\<close> under the strategy its task read before. The flag of the configuration and the
  atomic that mirrors it are written apart. The counters are atomics of their own, so a step may
  leave them at any values. The label says what a step invalidates.
\<close>

datatype CacheLabel = Invalidates_table ustr | Invalidates_database ustr | Invalidates_all | Silent

definition set_flag :: "bool \<Rightarrow> CacheConfig \<Rightarrow> CacheConfig" where
  "set_flag b c = c\<lparr>cfg_enabled := b\<rparr>"

inductive cache_step :: "'v serde \<Rightarrow> QueryCache \<Rightarrow> CacheLabel \<Rightarrow> QueryCache \<Rightarrow> bool" for S where
  step_get_write: "cache_step S q Silent (snd (get_write now strat key q))"
| step_get_finish: "cache_step S q Silent (snd (get_finish S key payload q))"
| step_store: "(\<And>d. data = Some d \<Longrightarrow> cacheable config ttl d) \<Longrightarrow>
    cache_step S q Silent (replace_entry now config key data ttl tags fill_point q)"
| step_invalidate: "cache_step S q Silent (snd (qc_invalidate key q))"
| step_model: "cache_step S q (Invalidates_table (to_ascii_lowercase name)) (snd (qc_invalidate_model name q))"
| step_database: "cache_step S q (Invalidates_database db) (snd (qc_invalidate_database db q))"
| step_clear: "cache_step S q Invalidates_all (snd (qc_clear q))"
| step_evict_expired: "cache_step S q Silent (qc_evict_expired now q)"
| step_reset_stats: "cache_step S q Silent (qc_reset_stats q)"
| step_counters: "cache_step S q Silent (q\<lparr>hits := h, misses := m, evictions := e, invalidations := i\<rparr>)"
| step_write_flag: "cache_step S q Silent (q\<lparr>qc_config := toggle_write (set_flag b) (qc_config q)\<rparr>)"
| step_replace_config: "cache_step S q Silent (q\<lparr>qc_config := toggle_write (\<lambda>_. config) (qc_config q)\<rparr>)"
| step_store_flag: "cache_step S q Silent (q\<lparr>qc_config := toggle_store_flag b (qc_config q)\<rparr>)"
| step_max_entries: "cache_step S q Silent (set_max_entries n q)"
| step_max_size: "cache_step S q Silent (set_max_size_bytes n q)"
| step_default_ttl: "cache_step S q Silent (set_default_ttl n q)"
| step_strategy: "cache_step S q Silent (set_strategy strat q)"
| step_cache_empty: "cache_step S q Silent (set_cache_empty_results b q)"

inductive cache_run :: "'v serde \<Rightarrow> QueryCache \<Rightarrow> CacheLabel list \<Rightarrow> QueryCache \<Rightarrow> bool" for S where
  run_Nil: "cache_run S q [] q"
| run_snoc: "cache_run S q labels q' \<Longrightarrow> cache_step S q' label q'' \<Longrightarrow> cache_run S q (labels @ [label]) q''"

lemma replace_entry_ok:
  assumes "store_ok (cache q)" "\<forall>d. data = Some d \<longrightarrow> cacheable config ttl d"
  shows "store_ok (cache (replace_entry now config key data ttl tags fill_point q)) \<and>
    qc_config (replace_entry now config key data ttl tags fill_point q) = qc_config q"
proof (cases "stale_fill fill_point tags (cache q)")
  case False
  show ?thesis
  proof (cases data)
    case None
    then show ?thesis
      using store_remove_ok' [OF assms(1)] False by (simp add: replace_entry_def prod.case_eq_if Let_def)
  next
    case (Some d)
    with replace_entry_stored [OF assms(1) _ False] assms(2) show ?thesis by (simp add: Let_def)
  qed
qed (simp add: replace_entry_def assms(1))

lemma get_write_ok: "qc_ok q \<Longrightarrow> qc_ok (snd (get_write now strat key q))"
  using store_remove_ok' store_touch_ok
  by (simp add: qc_ok_def get_write_def next_order_def Let_def prod.case_eq_if split: option.split)

lemma get_finish_ok: "qc_ok q \<Longrightarrow> qc_ok (snd (get_finish S key payload q))"
  using store_remove_ok'
  by (simp add: qc_ok_def get_finish_def Let_def prod.case_eq_if split: option.split)

lemma store_section_ok:
  "qc_ok q \<Longrightarrow> (\<And>d. data = Some d \<Longrightarrow> cacheable config ttl d) \<Longrightarrow>
     qc_ok (replace_entry now config key data ttl tags fill_point q)"
  using replace_entry_ok [of q data config ttl] by (simp add: qc_ok_def)

lemma invalidation_ok:
  "qc_ok q \<Longrightarrow> qc_ok (snd (qc_invalidate key q))" "qc_ok q \<Longrightarrow> qc_ok (snd (qc_invalidate_model name q))"
  "qc_ok q \<Longrightarrow> qc_ok (snd (qc_invalidate_database db q))" "qc_ok q \<Longrightarrow> qc_ok (snd (qc_clear q))"
  "qc_ok q \<Longrightarrow> qc_ok (qc_evict_expired now q)" "qc_ok q \<Longrightarrow> qc_ok (qc_reset_stats q)"
  using store_remove_ok' store_remove_where_ok note_invalidated_ok note_database_invalidated_ok store_clear_ok
  by (simp_all add: qc_ok_def qc_invalidate_def qc_invalidate_model_def qc_invalidate_database_def qc_clear_def
      qc_evict_expired_def qc_reset_stats_def Let_def prod.case_eq_if)

lemma control_ok:
  "qc_ok q \<Longrightarrow> qc_ok (q\<lparr>qc_config := t\<rparr>)"
  "qc_ok q \<Longrightarrow> qc_ok (q\<lparr>hits := h, misses := m, evictions := e, invalidations := i\<rparr>)"
  "qc_ok q \<Longrightarrow> qc_ok (set_max_entries n q)" "qc_ok q \<Longrightarrow> qc_ok (set_max_size_bytes n q)"
  "qc_ok q \<Longrightarrow> qc_ok (set_default_ttl n q)" "qc_ok q \<Longrightarrow> qc_ok (set_strategy strat q)"
  "qc_ok q \<Longrightarrow> qc_ok (set_cache_empty_results b q)"
  by (simp_all add: qc_ok_def set_max_entries_def set_max_size_bytes_def
      set_default_ttl_def set_strategy_def set_cache_empty_results_def)

lemmas operation_ok = get_write_ok get_finish_ok store_section_ok invalidation_ok control_ok

lemma cache_step_ok: "cache_step S q label q' \<Longrightarrow> qc_ok q \<Longrightarrow> qc_ok q'"
  by (induction rule: cache_step.induct) (simp_all add: operation_ok)

lemma cache_run_ok: "cache_run S q labels q' \<Longrightarrow> qc_ok q \<Longrightarrow> qc_ok q'"
  by (induction rule: cache_run.induct) (auto intro: cache_step_ok)

lemma with_config_ok: "qc_ok (with_config config)"
  by (simp add: qc_ok_def with_config_def default_store_ok)

text \<open>The operations are runs of these sections.\<close>

lemma run_trans: "cache_run S q' ls' q'' \<Longrightarrow> cache_run S q ls q' \<Longrightarrow> cache_run S q (ls @ ls') q''"
  by (induction rule: cache_run.induct) (auto intro: run_snoc simp flip: append_assoc)

lemma run_step: "cache_step S q l q' \<Longrightarrow> cache_run S q [l] q'"
  using run_snoc [OF run_Nil] by fastforce

lemma run_steps: "cache_step S q l q' \<Longrightarrow> cache_step S q' l' q'' \<Longrightarrow> cache_run S q [l, l'] q''"
  using run_snoc [OF run_step] by fastforce

lemma switch_run:
  "cache_run S q [Silent, Silent] (enable q)" "cache_run S q [Silent, Silent] (disable q)"
  "cache_run S q [Silent, Silent] (apply_config config q)"
proof -
  have "cache_run S q [Silent, Silent] (q\<lparr>qc_config := toggle_store_flag b (toggle_write f (qc_config q))\<rparr>)"
    if "cache_step S q Silent (q\<lparr>qc_config := toggle_write f (qc_config q)\<rparr>)" for b f
    using run_steps [OF that step_store_flag [of S _ b]] by simp
  note two = this [OF step_write_flag [of S q]] this [OF step_replace_config [of S q]]
  show "cache_run S q [Silent, Silent] (enable q)" "cache_run S q [Silent, Silent] (disable q)"
    "cache_run S q [Silent, Silent] (apply_config config q)"
    using two by (simp_all add: enable_def disable_def apply_config_def toggle_set_enabled_def toggle_apply_def
        set_flag_def [abs_def])
qed

lemma store_run: "\<exists>ls. cache_run S q ls (snd (qc_store S now key val ttl tables fill_point q))"
proof -
  have "\<exists>ls. cache_run S q ls (replace_entry now config key
      (case payload of None \<Rightarrow> None | Some d \<Rightarrow> if cacheable config t d then Some d else None) t tags fill_point q)"
    for config payload t tags
    by (rule exI, rule run_step, rule step_store) (simp split: option.splits if_splits)
  moreover have "\<exists>ls. cache_run S q ls q" using run_Nil by blast
  ultimately show ?thesis by (simp add: qc_store_def Let_def split: sum.split)
qed

lemma get_run: "\<exists>ls. cache_run S q ls (snd (qc_get S now key q))"
proof -
  have "cache_run S q [Silent] (q\<lparr>misses := misses q + 1\<rparr>)"
    using run_step [OF step_counters [of S q "invalidations q" "evictions q" "misses q + 1" "hits q"]] by simp
  moreover have "cache_run S q [Silent] (snd (get_finish S key payload q))" for payload
    by (rule run_step) (rule step_get_finish)
  moreover have "cache_run S q [Silent, Silent] (snd (get_finish S key payload (snd (get_write now strat key q))))"
    for payload strat by (rule run_steps [OF step_get_write step_get_finish])
  ultimately show ?thesis
    using run_Nil [of S q] by (auto simp: qc_get_def prod.case_eq_if split: sum.split option.split)
qed

text \<open>C12. However the lock sections of any number of tasks interleave, the store of a cache stays well
  formed: its byte total is exactly the size of its payloads, each key occurs once, every entry can
  be found by each strategy, and no index holds more than four candidates per entry and 64 besides.
  The sections of one operation may be apart: an entry is written under the configuration its task
  read earlier, and the flag of the configuration and its mirror are stored one after the other.\<close>

theorem cache_invariant:
  assumes "cache_run S (with_config config) labels q"
  shows "distinct (map fst (entries (cache q))) \<and>
    size_bytes (cache q) = sum_list (map (\<lambda>(_, e). length (entry_data e)) (entries (cache q))) \<and>
    covers lru_priority (entries (cache q)) (lru_heap (cache q)) \<and>
    covers fifo_priority (entries (cache q)) (fifo_heap (cache q)) \<and>
    covers ttl_priority (entries (cache q)) (ttl_heap (cache q)) \<and>
    max (length (lru_heap (cache q))) (max (length (fifo_heap (cache q))) (length (ttl_heap (cache q)))) \<le>
      4 * qc_len q + 64"
  using cache_run_ok [OF assms with_config_ok]
  by (simp add: qc_ok_def store_ok_def indexed_def index_bound_def entries_size_def qc_len_def store_len_def)

lemma example_run:
  "\<exists>labels. cache_run byte_serde (with_config default_cache_config) labels
     (snd (qc_store byte_serde 0 (lit ''k'') 7 None [] None (enable (with_config default_cache_config))))"
  using store_run [of byte_serde "enable (with_config default_cache_config)"] run_trans [OF _ switch_run(1)] by blast

theorem cache_invariant_witness:
  "\<exists>labels q. cache_run byte_serde (with_config default_cache_config) labels q \<and>
    store_get (cache q) (lit ''k'') \<noteq> None \<and>
    distinct (map fst (entries (cache q))) \<and>
    size_bytes (cache q) = sum_list (map (\<lambda>(_, e). length (entry_data e)) (entries (cache q))) \<and>
    covers lru_priority (entries (cache q)) (lru_heap (cache q)) \<and>
    covers fifo_priority (entries (cache q)) (fifo_heap (cache q)) \<and>
    covers ttl_priority (entries (cache q)) (ttl_heap (cache q)) \<and>
    max (length (lru_heap (cache q))) (max (length (fifo_heap (cache q))) (length (ttl_heap (cache q)))) \<le>
      4 * qc_len q + 64"
proof -
  let ?q = "snd (qc_store byte_serde 0 (lit ''k'') 7 None [] None (enable (with_config default_cache_config)))"
  obtain labels where run: "cache_run byte_serde (with_config default_cache_config) labels ?q"
    using example_run by blast
  have "store_get (cache ?q) (lit ''k'') \<noteq> None" by code_simp
  with run cache_invariant [OF run] show ?thesis by blast
qed

subsection \<open>No stale fill\<close>

lemma silent_history: "cache_step S q label q' \<Longrightarrow> label = Silent \<Longrightarrow> history (cache q') = history (cache q)"
proof (induction rule: cache_step.induct)
  case (step_store data config ttl q now key tags fill_point)
  show ?case
    by (simp add: replace_entry_def insert_within_def next_order_def Let_def prod.case_eq_if split: option.split)
qed (simp_all add: get_write_def get_finish_def next_order_def Let_def prod.case_eq_if qc_invalidate_def
    qc_evict_expired_def qc_reset_stats_def set_max_entries_def
    set_max_size_bytes_def set_default_ttl_def set_strategy_def set_cache_empty_results_def split: option.split)

text \<open>What an invalidation does to the history.\<close>

lemma step_history:
  assumes "cache_step S q label q'"
  shows "history (cache q') =
     (case label of
        Silent \<Rightarrow> history (cache q)
      | Invalidates_table t \<Rightarrow> history (note_invalidated t (cache q))
      | Invalidates_database d \<Rightarrow> history (note_database_invalidated d (cache q))
      | Invalidates_all \<Rightarrow> history (snd (store_clear (cache q))))"
  using assms
proof (cases rule: cache_step.cases)
  case (step_model name)
  then show ?thesis by (simp add: qc_invalidate_model_def Let_def prod.case_eq_if)
next
  case (step_database db)
  then show ?thesis by (simp add: qc_invalidate_database_def Let_def prod.case_eq_if)
next
  case step_clear
  then show ?thesis by (simp add: qc_clear_def prod.case_eq_if)
qed (use silent_history [OF assms] in simp_all)

text \<open>The invalidations that concern a read of these tables from this point.\<close>

definition touches :: "FillPoint \<Rightarrow> ustr set \<Rightarrow> CacheLabel \<Rightarrow> bool" where
  "touches point tags label =
     (case label of
        Invalidates_table t \<Rightarrow> t \<in> tags
      | Invalidates_database d \<Rightarrow> fp_database point = None \<or> fp_database point = Some d
      | Invalidates_all \<Rightarrow> True
      | Silent \<Rightarrow> False)"

lemma after_update:
  "after (map_of (AList.update k n m) x) s \<longleftrightarrow> (if x = k then s < n else after (map_of m x) s)"
  by (simp add: after_def update_conv')

lemma noted_since:
  assumes "fp_sequence point < invalidation_seq s + 1"
  shows "invalidated_since point tags s \<Longrightarrow> invalidated_since point tags (note_invalidated t s)"
    and "invalidated_since point tags s \<Longrightarrow> invalidated_since point tags (note_database_invalidated d s)"
    and "t \<in> tags \<Longrightarrow> invalidated_since point tags (note_invalidated t s)"
    and "fp_database point = None \<or> fp_database point = Some d \<Longrightarrow>
      invalidated_since point tags (note_database_invalidated d s)"
    and "invalidated_since point tags (snd (store_clear s))"
  using assms
  by (auto simp: invalidated_since_def note_invalidated_def note_database_invalidated_def store_clear_def Let_def
      after_update split: option.splits)

lemma step_since:
  assumes "cache_step S q label q'" "fp_sequence point < invalidation_seq (cache q) + 1"
    "invalidated_since point tags (cache q) \<or> touches point tags label"
  shows "invalidated_since point tags (cache q')"
  using assms(3) noted_since [OF assms(2), where tags = tags] step_history [OF assms(1)]
  by (cases label) (auto simp: touches_def dest!: history_fields(2) [of _ _ point tags])

lemma step_seq:
  assumes "cache_step S q label q'"
  shows "invalidation_seq (cache q') = invalidation_seq (cache q) + (if label = Silent then 0 else 1)"
  using step_history [OF assms]
  by (cases label)
    (auto simp: history_def note_invalidated_def note_database_invalidated_def store_clear_def Let_def)

lemma unat_next: "unat (x :: u64) + 1 < 2 ^ 64 \<Longrightarrow> unat (x + 1) = unat x + 1"
  by (simp add: unat_word_ariths)

lemma run_since:
  assumes "cache_run S q labels q'" "unat (invalidation_seq (cache q)) + length labels < 2 ^ 64"
    "fp_sequence point = invalidation_seq (cache q)"
  shows "unat (fp_sequence point) \<le> unat (invalidation_seq (cache q')) \<and>
    unat (invalidation_seq (cache q')) \<le> unat (fp_sequence point) + length labels \<and>
    (list_ex (touches point tags) labels \<longrightarrow> invalidated_since point tags (cache q'))"
  using assms
proof (induction rule: cache_run.induct)
  case (run_snoc q labels q' label q'')
  then have IH: "unat (fp_sequence point) \<le> unat (invalidation_seq (cache q'))"
    "unat (invalidation_seq (cache q')) \<le> unat (fp_sequence point) + length labels"
    "list_ex (touches point tags) labels \<longrightarrow> invalidated_since point tags (cache q')" by simp_all
  then have "unat (invalidation_seq (cache q') + 1) = unat (invalidation_seq (cache q')) + 1"
    using run_snoc.prems by (intro unat_next) simp
  moreover from this have "fp_sequence point < invalidation_seq (cache q') + 1"
    using IH(1) by (simp add: word_less_nat_alt)
  ultimately show ?case
    using IH step_seq [OF run_snoc.hyps(2)] step_since [OF run_snoc.hyps(2), of point tags] by auto
qed simp

text \<open>C2. No stale fill. A read takes its fill point, other tasks then run any operations whatever,
  and the read offers its rows to the cache: if among those operations was an invalidation of one
  of the tables it read, of its database, or of everything, the cache is left exactly as it is.
  This holds however many invalidations came after, also where the history of table or database
  names was compacted in between, as long as the 64-bit sequence does not wrap.\<close>

theorem no_stale_fill:
  assumes "cache_run S q labels q'" "unat (invalidation_seq (cache q)) + length labels < 2 ^ 64"
    "list_ex (touches (fill_point_for_database db q) (set (map to_ascii_lowercase tables))) labels"
  shows "snd (qc_fill_tagged S now (fill_point_for_database db q) key val ttl tables q') = q'"
proof -
  have "invalidated_since (fill_point_for_database db q) (set (map to_ascii_lowercase tables)) (cache q')"
    using run_since [OF assms(1,2), of "fill_point_for_database db q"] assms(3)
    by (simp add: fill_point_for_database_def)
  then show ?thesis
    by (simp add: qc_fill_tagged_def qc_store_def replace_entry_def stale_fill_def Let_def split: sum.split)
qed

theorem no_stale_fill_witness:
  "snd (qc_fill_tagged byte_serde 1 (fill_point_for_database None example_cache) (lit ''k'') 7 None [lit ''Users'']
     (snd (qc_invalidate_model (lit ''users'') example_cache))) = snd (qc_invalidate_model (lit ''users'') example_cache)"
proof (rule no_stale_fill)
  show "cache_run byte_serde example_cache [Invalidates_table (to_ascii_lowercase (lit ''users''))]
      (snd (qc_invalidate_model (lit ''users'') example_cache))"
    using run_snoc [OF run_Nil step_model] by fastforce
qed (simp_all add: touches_def example_cache_def enable_def with_config_def default_store_def lit_def
    to_ascii_lowercase_def to_ascii_lower_def is_ascii_uppercase_def)

end
