(* ===== verification/Pending_Invalidations.thy ===== *)
theory Pending_Invalidations
  imports Query_Cache
begin

text \<open>
  What an open transaction replays when it commits and undoes when it does not,
  \<open>src/src/cache/query_cache/pending.rs\<close>. A savepoint's record sits on the record of the
  transaction it is open in, so the records of one connection form a stack; an operation that
  reaches the enclosing record takes and returns it. Undo closures and cancelled savepoints are
  opaque tokens, and running one is an entry of the log an operation returns. The async gates
  are a boolean: whether the connection is free.
\<close>

subsection \<open>Records\<close>

datatype Abort = Deadlock | SqliteRollback | Savepoint | Cancelled | Leaked

fun abort_reason :: "Abort \<Rightarrow> ustr" where
  "abort_reason Deadlock =
     lit ''a statement inside it deadlocked, and the database rolled the whole transaction back''"
| "abort_reason SqliteRollback = lit ''a failed statement made SQLite roll the whole transaction back''"
| "abort_reason Savepoint =
     lit ''a nested transaction failed or was cancelled while it started, or was cancelled while it ended, which ends the enclosing transaction''"
| "abort_reason Cancelled =
     lit ''a nested transaction was cancelled while another statement of its connection was running, so it could not be rolled back''"
| "abort_reason Leaked =
     lit ''a nested transaction'' @ [ch_quote] @ lit ''s handle leaked outside its scope, so its savepoint stays open until that handle drops''"

definition commit_error :: "Abort \<Rightarrow> ustr" where
  "commit_error a = lit ''the transaction cannot commit: '' @ abort_reason a @
     lit ''; further TideORM statements on this transaction are blocked''"

definition statement_error :: "Abort \<Rightarrow> ustr" where
  "statement_error a = lit ''the statement was not run: '' @ abort_reason a @
     lit ''; further TideORM statements on this transaction are blocked, so retry the whole transaction''"

definition ends_the_connection_transaction :: "Abort \<Rightarrow> bool" where
  "ends_the_connection_transaction a \<longleftrightarrow> a \<noteq> Cancelled"

record 'u PendingInvalidations =
  p_tables :: "ustr list"
  p_databases :: "ustr list"
  p_all :: bool
  p_undo :: "'u list"
  p_statement_failed :: bool
  p_aborted :: "Abort option"
  p_depth :: nat
  p_deferred :: "nat list"

definition pending_new :: "'u PendingInvalidations option \<Rightarrow> 'u PendingInvalidations" where
  "pending_new enclosing = \<lparr>p_tables = [], p_databases = [], p_all = False, p_undo = [],
     p_statement_failed = False, p_aborted = None,
     p_depth = (case enclosing of Some e \<Rightarrow> p_depth e + 1 | None \<Rightarrow> 1), p_deferred = []\<rparr>"

fun pending_note :: "Note \<Rightarrow> 'u PendingInvalidations \<Rightarrow> 'u PendingInvalidations" where
  "pending_note (NoteTable t) p = p\<lparr>p_tables := List.insert t (p_tables p)\<rparr>"
| "pending_note (NoteDatabase d) p = p\<lparr>p_databases := List.insert d (p_databases p)\<rparr>"
| "pending_note NoteAll p = p\<lparr>p_all := True\<rparr>"

definition pending_abort :: "Abort \<Rightarrow> 'u PendingInvalidations \<Rightarrow> 'u PendingInvalidations" where
  "pending_abort a p = p\<lparr>p_aborted := (case p_aborted p of None \<Rightarrow> Some a | Some b \<Rightarrow> Some b)\<rparr>"

definition note_failed_statement :: "bool \<Rightarrow> 'u PendingInvalidations \<Rightarrow> 'u PendingInvalidations" where
  "note_failed_statement deadlocked p =
     (let p' = p\<lparr>p_statement_failed := True\<rparr> in if deadlocked then pending_abort Deadlock p' else p')"

definition clear_sqlite_rollback :: "'u PendingInvalidations \<Rightarrow> 'u PendingInvalidations" where
  "clear_sqlite_rollback p =
     (if p_aborted p = Some SqliteRollback then p\<lparr>p_aborted := None\<rparr> else p)"

definition undo_on_rollback :: "'u \<Rightarrow> 'u PendingInvalidations \<Rightarrow> 'u PendingInvalidations" where
  "undo_on_rollback u p = p\<lparr>p_undo := p_undo p @ [u]\<rparr>"

definition take_deferred :: "'u PendingInvalidations \<Rightarrow> nat list \<times> 'u PendingInvalidations" where
  "take_deferred p = (p_deferred p, p\<lparr>p_deferred := []\<rparr>)"

text \<open>The savepoints dropped now, and the record that holds the others.\<close>

definition defer_or_drop ::
  "bool \<Rightarrow> nat list \<Rightarrow> 'u PendingInvalidations \<Rightarrow> nat list \<times> 'u PendingInvalidations" where
  "defer_or_drop gate_free savepoints p =
     (if gate_free then (savepoints, p)
      else ([], (pending_abort Cancelled p)\<lparr>p_deferred := p_deferred (pending_abort Cancelled p) @ savepoints\<rparr>))"

text \<open>Dropping a record: the undo steps that run, the savepoints that roll back, and the
  enclosing record afterwards. \<open>while let Some(undo) = self.undo.pop()\<close> runs the last first.\<close>

definition pending_drop ::
  "bool \<Rightarrow> 'u PendingInvalidations \<Rightarrow> 'u PendingInvalidations option \<Rightarrow>
     'u list \<times> nat list \<times> 'u PendingInvalidations option" where
  "pending_drop gate_free p enclosing =
     (let enclosing1 =
        (case p_aborted p of
           Some a \<Rightarrow> if ends_the_connection_transaction a then map_option (pending_abort a) enclosing else enclosing
         | None \<Rightarrow> enclosing)
      in if p_deferred p = [] then (rev (p_undo p), [], enclosing1)
         else (case enclosing1 of
                 Some e \<Rightarrow> (let (dropped, e') = defer_or_drop gate_free (p_deferred p) e
                            in (rev (p_undo p), dropped, Some e'))
               | None \<Rightarrow> (rev (p_undo p), p_deferred p, None)))"

text \<open>An invalidation on the global cache, noted in the current record if there is one.\<close>

datatype CacheWrite = WriteModel ustr | WriteDatabase ustr | WriteAll

fun cache_write :: "CacheWrite \<Rightarrow> QueryCache \<Rightarrow> Note list \<times> QueryCache" where
  "cache_write (WriteModel t) q = qc_invalidate_model t q"
| "cache_write (WriteDatabase d) q = qc_invalidate_database d q"
| "cache_write WriteAll q = qc_clear q"

definition noted_write ::
  "CacheWrite \<Rightarrow> 'u PendingInvalidations option \<times> QueryCache \<Rightarrow> 'u PendingInvalidations option \<times> QueryCache" where
  "noted_write w pq =
     (case pq of (p, q) \<Rightarrow> (let (notes, q') = cache_write w q in (map_option (fold pending_note notes) p, q')))"

definition pending_writes :: "'u PendingInvalidations \<Rightarrow> CacheWrite list" where
  "pending_writes p =
     (if p_all p then [WriteAll]
      else map WriteDatabase (p_databases p) @ map WriteModel (p_tables p))"

definition replay_invalidations ::
  "'u PendingInvalidations \<Rightarrow> 'u PendingInvalidations option \<times> QueryCache \<Rightarrow>
     'u PendingInvalidations option \<times> QueryCache" where
  "replay_invalidations p = fold noted_write (pending_writes p)"

text \<open>Replaying consumes the record, so what is left of it is dropped at the end.\<close>

definition pending_replay ::
  "bool \<Rightarrow> 'u PendingInvalidations \<Rightarrow> 'u PendingInvalidations option \<Rightarrow> QueryCache \<Rightarrow>
     'u list \<times> nat list \<times> 'u PendingInvalidations option \<times> QueryCache" where
  "pending_replay gate_free p enclosing q =
     (let (enclosing1, q') = replay_invalidations p
            (map_option (\<lambda>e. e\<lparr>p_undo := p_undo e @ p_undo p\<rparr>) enclosing, q);
          (undone, dropped, enclosing2) = pending_drop gate_free (p\<lparr>p_undo := []\<rparr>) enclosing1
      in (undone, dropped, enclosing2, q'))"

subsection \<open>Transactions\<close>

text \<open>
  A transaction as the sequence of what happens in it: undo steps registered, writes that
  invalidate, statements that fail, aborts, changes other tasks make to the cache meanwhile,
  and savepoints with whether they commit.
\<close>

datatype 'u TxItem =
    Register 'u
  | Write CacheWrite
  | Elsewhere "CacheStore \<Rightarrow> CacheStore"
  | Fail bool
  | AbortTx Abort
  | Nested "'u TxItem list" bool

text \<open>The state inside a transaction: its record, the cache, and the undo steps run so far.\<close>

type_synonym 'u tx_state = "'u PendingInvalidations \<times> QueryCache \<times> 'u list"

fun run_item :: "'u TxItem \<Rightarrow> 'u tx_state \<Rightarrow> 'u tx_state"
  and run_items :: "'u TxItem list \<Rightarrow> 'u tx_state \<Rightarrow> 'u tx_state" where
  "run_item (Register u) (p, q, log) = (undo_on_rollback u p, q, log)"
| "run_item (Write w) (p, q, log) =
     (let (p', q') = noted_write w (Some p, q) in (the p', q', log))"
| "run_item (Elsewhere f) (p, q, log) = (p, q\<lparr>cache := f (cache q)\<rparr>, log)"
| "run_item (Fail deadlocked) (p, q, log) = (note_failed_statement deadlocked p, q, log)"
| "run_item (AbortTx a) (p, q, log) = (pending_abort a p, q, log)"
| "run_item (Nested items commit) (p, q, log) =
     (case run_items items (pending_new (Some p), q, log) of
        (inner, q', log') \<Rightarrow>
          if commit then
            (case pending_replay True inner (Some p) q' of
               (undone, _, p', q'') \<Rightarrow> (the p', q'', log' @ undone))
          else (case pending_drop True inner (Some p) of (undone, _, p') \<Rightarrow> (the p', q', log' @ undone)))"
| "run_items [] s = s"
| "run_items (i # is) s = run_items is (run_item i s)"

definition run_transaction :: "'u TxItem list \<Rightarrow> bool \<Rightarrow> QueryCache \<Rightarrow> QueryCache \<times> 'u list" where
  "run_transaction items commit q =
     (case run_items items (pending_new None, q, []) of
        (p, q', log) \<Rightarrow>
          if commit then (case pending_replay True p None q' of (undone, _, _, q'') \<Rightarrow> (q'', log @ undone))
          else (case pending_drop True p None of (undone, _, _) \<Rightarrow> (q', log @ undone)))"

subsection \<open>Undo steps\<close>

text \<open>What a transaction would undo at its end, what it has undone by then, and all it was given.\<close>

fun kept_item :: "'u TxItem \<Rightarrow> 'u list" and kept :: "'u TxItem list \<Rightarrow> 'u list" where
  "kept_item (Register u) = [u]"
| "kept_item (Nested items commit) = (if commit then kept items else [])"
| "kept_item _ = []"
| "kept [] = []"
| "kept (i # is) = kept_item i @ kept is"

fun undone_item :: "'u TxItem \<Rightarrow> 'u list" and undone_within :: "'u TxItem list \<Rightarrow> 'u list" where
  "undone_item (Nested items commit) = undone_within items @ (if commit then [] else rev (kept items))"
| "undone_item _ = []"
| "undone_within [] = []"
| "undone_within (i # is) = undone_item i @ undone_within is"

fun registered_item :: "'u TxItem \<Rightarrow> 'u list" and registered :: "'u TxItem list \<Rightarrow> 'u list" where
  "registered_item (Register u) = [u]"
| "registered_item (Nested items commit) = registered items"
| "registered_item _ = []"
| "registered [] = []"
| "registered (i # is) = registered_item i @ registered is"

text \<open>The first abort that ends the transaction; a savepoint passes on all but a cancellation.\<close>

fun abort_item :: "'u TxItem \<Rightarrow> Abort option" and first_abort :: "'u TxItem list \<Rightarrow> Abort option" where
  "abort_item (Fail deadlocked) = (if deadlocked then Some Deadlock else None)"
| "abort_item (AbortTx a) = Some a"
| "abort_item (Nested items commit) = (if first_abort items = Some Cancelled then None else first_abort items)"
| "abort_item _ = None"
| "first_abort [] = None"
| "first_abort (i # is) = (case abort_item i of Some a \<Rightarrow> Some a | None \<Rightarrow> first_abort is)"

lemma pending_note_fields [simp]:
  "p_undo (fold pending_note ns p) = p_undo p" "p_aborted (fold pending_note ns p) = p_aborted p"
  "p_deferred (fold pending_note ns p) = p_deferred p"
proof -
  have "p_undo (pending_note n p) = p_undo p \<and> p_aborted (pending_note n p) = p_aborted p \<and>
      p_deferred (pending_note n p) = p_deferred p" for n and p :: "'a PendingInvalidations"
    by (cases n) simp_all
  then show "p_undo (fold pending_note ns p) = p_undo p" "p_aborted (fold pending_note ns p) = p_aborted p"
    "p_deferred (fold pending_note ns p) = p_deferred p"
    by (induction ns arbitrary: p) simp_all
qed

lemma noted_write_Some:
  "noted_write w (Some p, q) = (Some (fold pending_note (fst (cache_write w q)) p), snd (cache_write w q))"
  by (simp add: noted_write_def case_prod_unfold Let_def)

lemma noted_writes_fields:
  "\<exists>p' q'. fold noted_write ws (Some p, q) = (Some p', q') \<and> p_undo p' = p_undo p \<and>
     p_aborted p' = p_aborted p \<and> p_deferred p' = p_deferred p"
proof (induction ws arbitrary: p q)
  case (Cons w ws)
  from Cons [of "fold pending_note (fst (cache_write w q)) p" "snd (cache_write w q)"] show ?case
    by (simp add: noted_write_Some)
qed simp

lemma replay_step:
  assumes "p_deferred inner = []" "p_deferred p = []"
  shows "\<exists>p' q'. pending_replay True inner (Some p) q = ([], [], Some p', q') \<and>
    p_undo p' = p_undo p @ p_undo inner \<and> p_deferred p' = [] \<and>
    p_aborted p' = (case p_aborted p of Some a \<Rightarrow> Some a
      | None \<Rightarrow> if p_aborted inner = Some Cancelled then None else p_aborted inner) \<and>
    fold noted_write (pending_writes inner) (Some (p\<lparr>p_undo := p_undo p @ p_undo inner\<rparr>), q) =
      (Some (p'\<lparr>p_aborted := p_aborted p\<rparr>), q')"
proof -
  obtain e q' where e: "fold noted_write (pending_writes inner) (Some (p\<lparr>p_undo := p_undo p @ p_undo inner\<rparr>), q) = (Some e, q')"
    "p_undo e = p_undo p @ p_undo inner" "p_aborted e = p_aborted p" "p_deferred e = p_deferred p"
    using noted_writes_fields [of "pending_writes inner" "p\<lparr>p_undo := p_undo p @ p_undo inner\<rparr>" q] by auto
  then show ?thesis
    using assms
    by (auto simp: pending_replay_def replay_invalidations_def pending_drop_def pending_abort_def Let_def
        ends_the_connection_transaction_def split: option.splits)
qed

lemma drop_step:
  assumes "p_deferred inner = []" "p_deferred p = []"
  shows "\<exists>p'. pending_drop True inner (Some p) = (rev (p_undo inner), [], Some p') \<and>
    p_undo p' = p_undo p \<and> p_deferred p' = [] \<and>
    p_aborted p' = (case p_aborted p of Some a \<Rightarrow> Some a
      | None \<Rightarrow> if p_aborted inner = Some Cancelled then None else p_aborted inner) \<and>
    p_tables p' = p_tables p \<and> p_databases p' = p_databases p \<and> p_all p' = p_all p"
  using assms
  by (auto simp: pending_drop_def pending_abort_def ends_the_connection_transaction_def split: option.splits)

definition tx_follows :: "'u tx_state \<Rightarrow> 'u list \<Rightarrow> 'u list \<Rightarrow> Abort option \<Rightarrow> 'u tx_state \<Rightarrow> bool" where
  "tx_follows s keep undone abort s' =
     (case s of (p, q, log) \<Rightarrow> case s' of (p', q', log') \<Rightarrow>
        p_deferred p = [] \<longrightarrow> p_undo p' = p_undo p @ keep \<and> log' = log @ undone \<and> p_deferred p' = [] \<and>
          p_aborted p' = (case p_aborted p of Some a \<Rightarrow> Some a | None \<Rightarrow> abort))"

lemma run_follows:
  "tx_follows s (kept_item i) (undone_item i) (abort_item i) (run_item i s)"
  "tx_follows s (kept is) (undone_within is) (first_abort is) (run_items is s)"
proof (induction i s and "is" s rule: run_item_run_items.induct)
  case (6 items commit p q log)
  obtain inner q' log' where r: "run_items items (pending_new (Some p), q, log) = (inner, q', log')"
    using prod_cases3 by blast
  with 6 have inner: "p_undo inner = kept items" "log' = log @ undone_within items" "p_deferred inner = []"
    "p_aborted inner = first_abort items"
    by (simp_all add: tx_follows_def pending_new_def)
  show ?case
  proof (cases "p_deferred p = []")
    case True
    with replay_step [OF inner(3) True, of q'] drop_step [OF inner(3) True] r inner show ?thesis
      by (cases "p_aborted p") (auto simp: tx_follows_def)
  qed (simp add: tx_follows_def case_prod_unfold)
next
  case (8 i "is" s)
  then show ?case by (auto simp: tx_follows_def split: prod.splits option.splits)
qed (auto simp: tx_follows_def undo_on_rollback_def note_failed_statement_def pending_abort_def noted_write_Some Let_def
    split: option.splits)

lemma registered_split:
  fixes i :: "'u TxItem" and "is" :: "'u TxItem list"
  shows "mset (kept_item i) + mset (undone_item i) = mset (registered_item i)"
  "mset (kept is) + mset (undone_within is) = mset (registered is)"
proof (induction i and "is" rule: registered_item_registered.induct)
  case (5 i "is")
  have "mset (kept (i # is)) + mset (undone_within (i # is)) =
      (mset (kept_item i) + mset (undone_item i)) + (mset (kept is) + mset (undone_within is))"
    by (simp add: ac_simps)
  then show ?case by (simp add: 5)
qed (auto simp: ac_simps)

text \<open>C31. State kept beside the database is undone exactly when it must be. However savepoints nest
  and end, a transaction that rolls back runs every undo step registered inside it exactly once,
  later steps before earlier ones within what is undone together; one that commits runs exactly
  the steps of the savepoints that rolled back, and never one of a part that committed all the
  way up.\<close>

theorem undo_exactly_once:
  fixes items :: "'u TxItem list"
  shows "snd (run_transaction items True q) = undone_within items \<and>
    snd (run_transaction items False q) = undone_within items @ rev (kept items) \<and>
    mset (snd (run_transaction items False q)) = mset (registered items) \<and>
    mset (snd (run_transaction items True q)) + mset (kept items) = mset (registered items)"
proof -
  obtain p q' log where r: "run_items items (pending_new None, q, []) = (p, q', log)"
    using prod_cases3 by blast
  with run_follows(2) [of "(pending_new None, q, [])" items]
  have p: "p_undo p = kept items" "log = undone_within items" "p_deferred p = []"
    by (simp_all add: tx_follows_def pending_new_def)
  then have logs: "snd (run_transaction items True q) = undone_within items"
    "snd (run_transaction items False q) = undone_within items @ rev (kept items)"
    using r by (simp_all add: run_transaction_def pending_replay_def pending_drop_def case_prod_unfold Let_def)
  then show ?thesis
    using registered_split(2) [of items] by (simp add: add.commute)
qed

text \<open>The abort reason a transaction ends with is the first one that concerned it, at whatever
  depth it arose: a deadlock, a SQLite rollback, a failed or leaked savepoint reaches every
  enclosing transaction whether the savepoints between commit or not, while a cancelled
  savepoint stops at the transaction it was open in.\<close>

theorem abort_reason_first:
  "p_aborted (fst (run_items items (pending_new None, q, []))) = first_abort items"
  using run_follows(2) [of "(pending_new None, q, [])" items]
  by (auto simp: tx_follows_def pending_new_def split: prod.splits)

subsection \<open>Invalidations on commit\<close>

text \<open>The entries a write must not leave in the cache.\<close>

fun concerns :: "CacheWrite \<Rightarrow> CacheEntry \<Rightarrow> bool" where
  "concerns (WriteModel t) e \<longleftrightarrow> to_ascii_lowercase t \<in> entry_tables e"
| "concerns (WriteDatabase d) e \<longleftrightarrow> in_database d e"
| "concerns WriteAll e \<longleftrightarrow> True"

definition evicted :: "CacheWrite \<Rightarrow> QueryCache \<Rightarrow> bool" where
  "evicted w q \<longleftrightarrow> list_all (\<lambda>(k, e). \<not> concerns w e) (entries (cache q))"

text \<open>The writes of a transaction and of its savepoints that committed.\<close>

fun writes_item :: "'u TxItem \<Rightarrow> CacheWrite list" and committed_writes :: "'u TxItem list \<Rightarrow> CacheWrite list" where
  "writes_item (Write w) = [w]"
| "writes_item (Nested items commit) = (if commit then committed_writes items else [])"
| "writes_item _ = []"
| "committed_writes [] = []"
| "committed_writes (i # is) = writes_item i @ committed_writes is"

lemma cache_write_entries:
  "set (entries (cache (snd (cache_write w q)))) \<subseteq> set (entries (cache q))" "evicted w (snd (cache_write w q))"
  "is_global (snd (cache_write w q)) = is_global q"
  by (cases w; auto simp: qc_invalidate_model_def qc_invalidate_database_def qc_clear_def store_clear_def
      store_remove_where_def reads_table_def evicted_def list_all_iff case_prod_unfold Let_def)+

lemma evicted_subset: "evicted w q \<Longrightarrow> set (entries (cache q')) \<subseteq> set (entries (cache q)) \<Longrightarrow> evicted w q'"
  by (auto simp: evicted_def list_all_iff)

text \<open>Whether a record will replay a write.\<close>

fun covered :: "CacheWrite \<Rightarrow> 'u PendingInvalidations \<Rightarrow> bool" where
  "covered (WriteModel t) p \<longleftrightarrow> p_all p \<or> to_ascii_lowercase t \<in> set (p_tables p)"
| "covered (WriteDatabase d) p \<longleftrightarrow> p_all p \<or> d \<in> set (p_databases p)"
| "covered WriteAll p \<longleftrightarrow> p_all p"

lemma covered_mono:
  "\<lbrakk>covered w p; p_all p \<longrightarrow> p_all p'; set (p_tables p) \<subseteq> set (p_tables p');
    set (p_databases p) \<subseteq> set (p_databases p')\<rbrakk> \<Longrightarrow> covered w p'"
  by (cases w) auto

lemma covered_note: "covered w p \<Longrightarrow> covered w (pending_note n p)"
  by (cases n) (erule covered_mono; auto)+

lemma covered_write:
  assumes "is_global q"
  shows "covered w (fold pending_note (fst (cache_write w q)) p)"
    and "covered v p \<Longrightarrow> covered v (fold pending_note (fst (cache_write w q)) p)"
proof -
  have "covered v (fold pending_note ns p)" if "covered v p" for ns v and p :: "'a PendingInvalidations"
    using that by (induction ns arbitrary: p) (simp_all add: covered_note)
  then show "covered v p \<Longrightarrow> covered v (fold pending_note (fst (cache_write w q)) p)" .
  show "covered w (fold pending_note (fst (cache_write w q)) p)"
    using assms by (cases w) (simp_all add: qc_invalidate_model_def qc_invalidate_database_def qc_clear_def
        case_prod_unfold Let_def)
qed

lemma fold_writes:
  assumes "is_global q"
  shows "\<exists>p' q'. fold noted_write ws (Some p, q) = (Some p', q') \<and> is_global q' \<and>
    (\<forall>v. covered v p \<or> v \<in> set ws \<longrightarrow> covered v p')"
  using assms
proof (induction ws arbitrary: p q)
  case (Cons w ws)
  let ?p = "fold pending_note (fst (cache_write w q)) p" and ?q = "snd (cache_write w q)"
  have "is_global ?q" using Cons.prems by (simp add: cache_write_entries)
  from Cons.IH [OF this, of ?p] show ?case
    using covered_write(1) [OF Cons.prems, of w p] covered_write(2) [OF Cons.prems, where w = w and p = p]
    by (auto simp: noted_write_Some)
qed simp

lemma pending_writes_cover:
  assumes "covered w p" "\<forall>v. v \<in> set (pending_writes p) \<longrightarrow> P v"
    and "\<And>v. P WriteAll \<Longrightarrow> P v" "\<And>t. P (WriteModel (to_ascii_lowercase t)) \<Longrightarrow> P (WriteModel t)"
  shows "P w"
proof (cases "p_all p")
  case True
  then have "P WriteAll" using assms(2) by (simp add: pending_writes_def)
  then show ?thesis by (rule assms(3))
next
  case False
  with assms(1,2,4) show ?thesis by (cases w) (auto simp: pending_writes_def)
qed

lemma covered_cases: "covered WriteAll p \<Longrightarrow> covered v p"
  "covered (WriteModel (to_ascii_lowercase t)) p \<Longrightarrow> covered (WriteModel t) p"
  by (cases v) simp_all

definition tx_covers :: "'u tx_state \<Rightarrow> CacheWrite list \<Rightarrow> 'u tx_state \<Rightarrow> bool" where
  "tx_covers s ws s' =
     (case s of (p, q, log) \<Rightarrow> case s' of (p', q', log') \<Rightarrow>
        is_global q \<and> p_deferred p = [] \<longrightarrow>
          is_global q' \<and> p_deferred p' = [] \<and> (\<forall>v. covered v p \<or> v \<in> set ws \<longrightarrow> covered v p'))"

lemma covered_aborted: "covered v (p\<lparr>p_aborted := a\<rparr>) = covered v p" "covered v (p\<lparr>p_undo := u\<rparr>) = covered v p"
  "covered v (p\<lparr>p_statement_failed := b\<rparr>) = covered v p"
  by (cases v; simp)+

lemma run_covers:
  "tx_covers s (writes_item i) (run_item i s)" "tx_covers s (committed_writes is) (run_items is s)"
proof (induction i s and "is" s rule: run_item_run_items.induct)
  case (2 w p q log)
  show ?case
    using covered_write(1) [of q w p] covered_write(2) [where q = q and w = w and p = p]
    by (auto simp: tx_covers_def noted_write_Some cache_write_entries)
next
  case (6 items commit p q log)
  obtain inner q' log' where r: "run_items items (pending_new (Some p), q, log) = (inner, q', log')"
    using prod_cases3 by blast
  show ?case
  proof (cases "is_global q \<and> p_deferred p = []")
    case True
    with 6 r have inner: "is_global q'" "p_deferred inner = []"
      "\<forall>v. v \<in> set (committed_writes items) \<longrightarrow> covered v inner"
      by (auto simp: tx_covers_def pending_new_def)
    obtain p' where d: "pending_drop True inner (Some p) = (rev (p_undo inner), [], Some p')" "p_deferred p' = []"
      "p_tables p' = p_tables p" "p_databases p' = p_databases p" "p_all p' = p_all p"
      using drop_step [OF inner(2)] True by blast
    obtain e q'' where e: "pending_replay True inner (Some p) q' = ([], [], Some e, q'')" "p_deferred e = []"
      "fold noted_write (pending_writes inner) (Some (p\<lparr>p_undo := p_undo p @ p_undo inner\<rparr>), q') =
        (Some (e\<lparr>p_aborted := p_aborted p\<rparr>), q'')"
      using replay_step [OF inner(2), of p q'] True by blast
    let ?e = "e\<lparr>p_aborted := p_aborted p\<rparr>"
    have "is_global q''" "\<forall>v. covered v (p\<lparr>p_undo := p_undo p @ p_undo inner\<rparr>) \<or>
        v \<in> set (pending_writes inner) \<longrightarrow> covered v ?e"
      using fold_writes [OF inner(1), of "pending_writes inner" "p\<lparr>p_undo := p_undo p @ p_undo inner\<rparr>"]
      unfolding e(3) prod.inject option.inject by blast+
    then have cov: "is_global q''" "\<forall>v. covered v p \<or> v \<in> set (pending_writes inner) \<longrightarrow> covered v e"
      unfolding covered_aborted by blast+
    have "covered v e" if "covered v inner" for v
      by (rule pending_writes_cover [OF that]) (use cov(2) in \<open>auto intro: covered_cases\<close>)
    then have commit: "is_global q'' \<and> p_deferred e = [] \<and>
        (\<forall>v. covered v p \<or> v \<in> set (committed_writes items) \<longrightarrow> covered v e)"
      using inner(3) cov e(2) by blast
    have "covered v p'" if "covered v p" for v
      using that d by (auto intro: covered_mono)
    with commit inner(1) d(1,2) e(1) r show ?thesis
      by (cases commit) (simp_all add: tx_covers_def)
  qed (auto simp: tx_covers_def split: prod.split)
next
  case (8 i "is" s)
  then show ?case by (auto simp: tx_covers_def split: prod.splits)
qed (auto simp: tx_covers_def undo_on_rollback_def note_failed_statement_def pending_abort_def Let_def covered_aborted)

lemma fold_writes_evict:
  fixes p :: "'a PendingInvalidations option"
  shows "w \<in> set ws \<Longrightarrow> evicted w (snd (fold noted_write ws (p, q)))"
  "set (entries (cache (snd (fold noted_write ws (p, q))))) \<subseteq> set (entries (cache q))"
proof (induction ws arbitrary: p q)
  case (Cons v ws)
  have step: "noted_write v (p, q) = (map_option (fold pending_note (fst (cache_write v q))) p, snd (cache_write v q))"
    for p :: "'a PendingInvalidations option" and q
    by (simp add: noted_write_def case_prod_unfold Let_def)
  { case 1
    then show ?case
      using Cons.IH evicted_subset [OF cache_write_entries(2) [of v q]] by (auto simp: step) }
  { case 2
    show ?case using Cons.IH(2) cache_write_entries(1) [of v q] by (simp add: step) blast }
qed simp_all

text \<open>C17. Committed writes leave no stale read behind. Once a transaction has committed, no entry of
  the cache reads a table it or a savepoint it kept wrote, comes from a database they wrote, or
  survives a clear they made, whatever other tasks put into the cache while the writes were not
  yet visible to them.\<close>

theorem commit_replays_invalidations:
  fixes items :: "'u TxItem list"
  assumes "is_global q"
  shows "list_all (\<lambda>w. evicted w (fst (run_transaction items True q))) (committed_writes items)"
proof -
  obtain p q' log where r: "run_items items (pending_new None, q, []) = (p, q', log)"
    using prod_cases3 by blast
  with run_covers(2) [of "(pending_new None, q, [])" items] assms
  have p: "p_deferred p = []" "\<forall>v. v \<in> set (committed_writes items) \<longrightarrow> covered v p"
    by (auto simp: tx_covers_def pending_new_def)
  let ?q = "snd (fold noted_write (pending_writes p) (None :: 'u PendingInvalidations option, q'))"
  have "fst (run_transaction items True q) = ?q"
    using r by (simp add: run_transaction_def pending_replay_def replay_invalidations_def case_prod_unfold Let_def)
  moreover have "evicted v ?q" if "covered v p" for v
  proof (rule pending_writes_cover [OF that])
    show "\<forall>v. v \<in> set (pending_writes p) \<longrightarrow> evicted v ?q" by (simp add: fold_writes_evict)
  qed (auto simp: evicted_def list_all_iff)
  ultimately show ?thesis using p(2) by (simp add: list_all_iff)
qed

theorem commit_replays_invalidations_witness:
  "list_all (\<lambda>w. evicted w (fst (run_transaction
      [Write (WriteModel (lit ''Users'')), Register (), Nested [Write (WriteModel (lit ''posts''))] True] True
      (init_global default_cache_config None))))
    (committed_writes [Write (WriteModel (lit ''Users'')), Register (), Nested [Write (WriteModel (lit ''posts''))] True])"
  by (rule commit_replays_invalidations) (simp add: init_global_def)

end
