(* ===== verification/Errors.thy ===== *)
theory Errors
  imports Tide_Prelude
begin

text \<open>
  The error type of the library, its context and the classification of driver codes:
  \<open>src/src/error.rs\<close> and \<open>src/src/error/context.rs\<close>.

  The engine's own error type and the driver errors it wraps belong to other packages. They are
  modelled by the constructors and the answers the source asks of them; the texts the engine
  renders its errors with are a parameter \<open>engine\<close>.
\<close>

text \<open>\<open>str::contains\<close> and \<open>str::split_once\<close>.\<close>

definition contains :: "ustr \<Rightarrow> ustr \<Rightarrow> bool" where
  "contains s pat \<longleftrightarrow> find_str pat s \<noteq> None"

fun split_once :: "uchar \<Rightarrow> ustr \<Rightarrow> (ustr \<times> ustr) option" where
  "split_once d [] = None"
| "split_once d (c # s) =
     (if c = d then Some ([], s) else map_option (\<lambda>(a, b). (c # a, b)) (split_once d s))"

subsection \<open>Driver and engine errors, as far as the source reads them\<close>

datatype ErrorKind = SqlxUnique | SqlxForeignKey | SqlxNotNull | SqlxCheck | SqlxOther

record DatabaseError =
  de_kind :: ErrorKind
  de_code :: "ustr option"
  de_message :: ustr
  de_constraint :: "ustr option"
  de_table :: "ustr option"
  de_mysql_number :: "nat option"

datatype DriverError = Database DatabaseError | Io | PoolClosed | WorkerCrashed | PoolTimedOut | OtherDriver

datatype RuntimeErr = SqlxError DriverError ustr | InternalErr ustr

fun runtime_text :: "RuntimeErr \<Rightarrow> ustr" where
  "runtime_text (SqlxError d t) = t"
| "runtime_text (InternalErr t) = t"

datatype ConnAcquireErr = Timeout | AcquireClosed

datatype OrmError =
    OrmRecordNotFound ustr
  | OrmConnectionAcquire ConnAcquireErr
  | OrmConn RuntimeErr
  | OrmExec RuntimeErr
  | OrmQuery RuntimeErr
  | OrmConvertFromU64 ustr
  | OrmTryIntoErr ustr ustr ustr
  | OrmType ustr
  | OrmJson ustr
  | OrmAttrNotSet ustr
  | OrmKeyArityMismatch nat nat
  | OrmUnpackInsertId
  | OrmUpdateGetPrimaryKey
  | OrmBackendNotSupported ustr ustr
  | OrmPrimaryKeyNotSet ustr
  | OrmRecordNotInserted
  | OrmRecordNotUpdated
  | OrmMigration ustr
  | OrmAccessDenied ustr ustr
  | OrmRbacError ustr
  | OrmCustom ustr
  | OrmOther ustr

record engine =
  orm_text :: "OrmError \<Rightarrow> ustr"
  acquire_text :: "ConnAcquireErr \<Rightarrow> ustr"

subsection \<open>Classification of a failed statement\<close>

datatype DbFailureKind =
    Unclassified | UniqueViolation | ForeignKeyViolation | NotNullViolation | CheckViolation
  | InvalidValue | SyntaxError | UndefinedColumn | UndefinedTable | InsufficientPrivilege
  | Deadlock | SerializationFailure | LockNotAvailable | StatementTimeout | ConnectionTimeout
  | ConnectionClosed

definition from_sqlstate :: "ustr \<Rightarrow> DbFailureKind" where
  "from_sqlstate s =
     (if s = lit ''23505'' then UniqueViolation
      else if s = lit ''23503'' then ForeignKeyViolation
      else if s = lit ''23502'' then NotNullViolation
      else if s = lit ''23514'' then CheckViolation
      else if starts_with s (lit ''22'') then InvalidValue
      else if s \<in> {lit ''42601'', lit ''42000''} then SyntaxError
      else if s \<in> {lit ''42703'', lit ''42S22''} then UndefinedColumn
      else if s \<in> {lit ''42P01'', lit ''42S02''} then UndefinedTable
      else if s \<in> {lit ''42501'', lit ''28000''} then InsufficientPrivilege
      else if s = lit ''40P01'' then Deadlock
      else if s = lit ''40001'' then SerializationFailure
      else if s = lit ''55P03'' then LockNotAvailable
      else if s = lit ''57014'' then StatementTimeout
      else if s = lit ''53300'' then ConnectionTimeout
      else if s \<in> {lit ''08000'', lit ''08001'', lit ''08003'', lit ''08004'', lit ''08006'',
                    lit ''08007'', lit ''08S01'', lit ''57P01'', lit ''57P02'', lit ''57P03''}
        then ConnectionClosed
      else Unclassified)"

definition from_sqlite_code :: "ustr \<Rightarrow> ustr \<Rightarrow> DbFailureKind" where
  "from_sqlite_code code message =
     (if code \<in> {lit ''5'', lit ''6'', lit ''261'', lit ''262'', lit ''517''} then LockNotAvailable
      else if code = lit ''1'' \<and> starts_with message (lit ''no such table'') then UndefinedTable
      else if code = lit ''1'' \<and> (starts_with message (lit ''no such column'') \<or>
                contains message (lit ''has no column named'')) then UndefinedColumn
      else if code = lit ''1'' \<and> contains message (lit ''syntax error'') then SyntaxError
      else Unclassified)"

definition from_mysql_code :: "nat \<Rightarrow> DbFailureKind" where
  "from_mysql_code n =
     (if n \<in> {1205, 3572} then LockNotAvailable
      else if n = 1366 then InvalidValue
      else if n = 1213 then Deadlock
      else if n \<in> {1317, 1969, 3024} then StatementTimeout
      else if n \<in> {1053, 1927} then ConnectionClosed
      else if n \<in> {1044, 1142, 1143, 1227} then InsufficientPrivilege
      else Unclassified)"

fun kind_as_str :: "DbFailureKind \<Rightarrow> ustr" where
  "kind_as_str Unclassified = lit ''database error''"
| "kind_as_str UniqueViolation = lit ''unique constraint violation''"
| "kind_as_str ForeignKeyViolation = lit ''foreign key constraint violation''"
| "kind_as_str NotNullViolation = lit ''not-null constraint violation''"
| "kind_as_str CheckViolation = lit ''check constraint violation''"
| "kind_as_str InvalidValue = lit ''invalid value''"
| "kind_as_str SyntaxError = lit ''SQL syntax error''"
| "kind_as_str UndefinedColumn = lit ''undefined column''"
| "kind_as_str UndefinedTable = lit ''undefined table''"
| "kind_as_str InsufficientPrivilege = lit ''insufficient privilege''"
| "kind_as_str Deadlock = lit ''deadlock''"
| "kind_as_str SerializationFailure = lit ''serialization failure''"
| "kind_as_str LockNotAvailable = lit ''lock not available''"
| "kind_as_str StatementTimeout = lit ''statement timeout''"
| "kind_as_str ConnectionTimeout = lit ''connection timeout''"
| "kind_as_str ConnectionClosed = lit ''connection closed''"

definition is_constraint_violation :: "DbFailureKind \<Rightarrow> bool" where
  "is_constraint_violation k \<longleftrightarrow>
     k \<in> {UniqueViolation, ForeignKeyViolation, NotNullViolation, CheckViolation}"

definition kind_is_retryable :: "DbFailureKind \<Rightarrow> bool" where
  "kind_is_retryable k \<longleftrightarrow>
     k \<in> {Deadlock, SerializationFailure, LockNotAvailable, StatementTimeout, ConnectionTimeout,
          ConnectionClosed}"

subsection \<open>The driver failure behind an error\<close>

record DbFailure =
  df_kind :: DbFailureKind
  df_code :: "ustr option"
  df_constraint :: "ustr option"
  df_table :: "ustr option"
  df_source :: "OrmError option"

definition DbFailure_new :: "DbFailureKind \<Rightarrow> DbFailure" where
  "DbFailure_new k = \<lparr>df_kind = k, df_code = None, df_constraint = None, df_table = None, df_source = None\<rparr>"

definition failure_detail :: "DbFailure \<Rightarrow> ustr" where
  "failure_detail f =
     (case df_code f of None \<Rightarrow> [] | Some c \<Rightarrow> lit '' (SQLSTATE '' @ c @ lit '')'') @
     (case df_constraint f of None \<Rightarrow> []
      | Some c \<Rightarrow> lit '' on constraint `'' @ c @ [ch_backtick])"

definition display_failure :: "DbFailure \<Rightarrow> ustr" where
  "display_failure f =
     kind_as_str (df_kind f) @ failure_detail f @
     (case df_table f of None \<Rightarrow> [] | Some t \<Rightarrow> lit '' in table `'' @ t @ [ch_backtick])"

subsection \<open>Error context\<close>

record ErrorContext =
  ctx_table :: "ustr option"
  ctx_column :: "ustr option"
  ctx_conditions :: "ustr list"
  ctx_operator_chain :: "ustr option"
  ctx_query :: "ustr option"

definition ErrorContext_new :: ErrorContext where
  "ErrorContext_new = \<lparr>ctx_table = None, ctx_column = None, ctx_conditions = [],
     ctx_operator_chain = None, ctx_query = None\<rparr>"

definition context_table :: "ustr \<Rightarrow> ErrorContext \<Rightarrow> ErrorContext" where
  "context_table t c = c\<lparr>ctx_table := Some t\<rparr>"

definition context_column :: "ustr \<Rightarrow> ErrorContext \<Rightarrow> ErrorContext" where
  "context_column t c = c\<lparr>ctx_column := Some t\<rparr>"

definition context_condition :: "ustr \<Rightarrow> ErrorContext \<Rightarrow> ErrorContext" where
  "context_condition t c = c\<lparr>ctx_conditions := ctx_conditions c @ [t]\<rparr>"

definition context_conditions :: "ustr list \<Rightarrow> ErrorContext \<Rightarrow> ErrorContext" where
  "context_conditions ts c = c\<lparr>ctx_conditions := ts\<rparr>"

definition context_operator_chain :: "ustr \<Rightarrow> ErrorContext \<Rightarrow> ErrorContext" where
  "context_operator_chain t c = c\<lparr>ctx_operator_chain := Some t\<rparr>"

definition context_query :: "ustr \<Rightarrow> ErrorContext \<Rightarrow> ErrorContext" where
  "context_query t c = c\<lparr>ctx_query := Some t\<rparr>"

definition context_entries :: "ErrorContext \<Rightarrow> (ustr \<times> ustr) list" where
  "context_entries c =
     List.map_filter (\<lambda>(name, value). map_option (Pair name) value)
       [(lit ''table'', ctx_table c),
        (lit ''column'', ctx_column c),
        (lit ''conditions'',
          if ctx_conditions c = [] then None else Some (join (lit '' | '') (ctx_conditions c))),
        (lit ''operator_chain'', ctx_operator_chain c),
        (lit ''query'', ctx_query c)]"

definition display_context :: "ErrorContext \<Rightarrow> ustr" where
  "display_context c =
     join (lit '', '') (map (\<lambda>(name, value). name @ lit '': '' @ value) (context_entries c))"

subsection \<open>The error type\<close>

datatype Error =
    NotFound ustr "ErrorContext option"
  | Connection ustr "DbFailure option"
  | Query ustr "ErrorContext option" "DbFailure option"
  | Validation ustr ustr
  | Conversion ustr
  | Transaction ustr "DbFailure option"
  | Configuration ustr
  | Internal ustr
  | AccessDenied ustr ustr
  | Rbac ustr
  | BackendNotSupported ustr ustr
  | PrimaryKeyNotSet ustr ustr
  | Tokenization ustr
  | InvalidToken ustr

abbreviation not_found :: "ustr \<Rightarrow> Error" where "not_found m \<equiv> NotFound m None"
abbreviation connection :: "ustr \<Rightarrow> Error" where "connection m \<equiv> Connection m None"
abbreviation query :: "ustr \<Rightarrow> Error" where "query m \<equiv> Query m None None"
abbreviation transaction :: "ustr \<Rightarrow> Error" where "transaction m \<equiv> Transaction m None"

fun display_error :: "Error \<Rightarrow> ustr" where
  "display_error (NotFound m c) = lit ''Record not found: '' @ m"
| "display_error (Connection m s) = lit ''Connection error: '' @ m"
| "display_error (Query m c s) = lit ''Query error: '' @ m"
| "display_error (Validation f m) = lit ''Validation error: '' @ f @ lit '' - '' @ m"
| "display_error (Conversion m) = lit ''Conversion error: '' @ m"
| "display_error (Transaction m s) = lit ''Transaction error: '' @ m"
| "display_error (Configuration m) = lit ''Configuration error: '' @ m"
| "display_error (Internal m) = lit ''Internal error: '' @ m"
| "display_error (AccessDenied p r) =
     lit ''Access denied: cannot perform `'' @ p @ lit ''` on `'' @ r @ [ch_backtick]"
| "display_error (Rbac m) = lit ''RBAC error: '' @ m"
| "display_error (BackendNotSupported m b) = lit ''Backend not supported: '' @ m"
| "display_error (PrimaryKeyNotSet m md) = lit ''Primary key not set: '' @ m"
| "display_error (Tokenization m) = lit ''Tokenization error: '' @ m"
| "display_error (InvalidToken m) = lit ''Invalid token: '' @ m"

fun error_context :: "Error \<Rightarrow> ErrorContext option" where
  "error_context (NotFound m c) = c"
| "error_context (Query m c s) = c"
| "error_context _ = None"

fun with_context :: "ErrorContext \<Rightarrow> Error \<Rightarrow> Error" where
  "with_context ctx (NotFound m c) = NotFound m (Some ctx)"
| "with_context ctx (Query m c s) = Query m (Some ctx) s"
| "with_context ctx e = e"

fun with_db_failure :: "DbFailure option \<Rightarrow> Error \<Rightarrow> Error" where
  "with_db_failure None e = e"
| "with_db_failure (Some f) (Connection m s) = Connection m (Some f)"
| "with_db_failure (Some f) (Query m c s) = Query m c (Some f)"
| "with_db_failure (Some f) (Transaction m s) = Transaction m (Some f)"
| "with_db_failure (Some f) e = e"

fun into_db_failure :: "Error \<Rightarrow> DbFailure option" where
  "into_db_failure (Connection m s) = s"
| "into_db_failure (Query m c s) = s"
| "into_db_failure (Transaction m s) = s"
| "into_db_failure _ = None"

fun db_failure :: "Error \<Rightarrow> DbFailure option" where
  "db_failure (Connection m s) = s"
| "db_failure (Query m c s) = s"
| "db_failure (Transaction m s) = s"
| "db_failure _ = None"

definition sqlstate :: "Error \<Rightarrow> ustr option" where
  "sqlstate e = Option.bind (db_failure e) df_code"

definition error_constraint :: "Error \<Rightarrow> ustr option" where
  "error_constraint e = Option.bind (db_failure e) df_constraint"

definition failure_kind :: "Error \<Rightarrow> DbFailureKind" where
  "failure_kind e = (case db_failure e of None \<Rightarrow> Unclassified | Some f \<Rightarrow> df_kind f)"

definition is_foreign_key_violation :: "Error \<Rightarrow> bool" where
  "is_foreign_key_violation e \<longleftrightarrow> failure_kind e = ForeignKeyViolation"

end
