(* ===== verification/Error_Translation.thy ===== *)
theory Error_Translation
  imports Error_Presentation
begin

text \<open>
  The boundary at which engine and driver errors become errors of the library, in
  \<open>src/src/internal/mod.rs\<close>: reading a driver failure, translating an engine error, reclassifying a
  connection failure, and masking the credentials of a URL an error quotes. The MySQL error
  number is read in builds with the MySQL driver, which is the configuration modelled.
\<close>

definition transport_failure_kind :: "DriverError \<Rightarrow> DbFailureKind" where
  "transport_failure_kind d =
     (if d \<in> {Io, PoolClosed, WorkerCrashed} then ConnectionClosed
      else if d = PoolTimedOut then ConnectionTimeout
      else Unclassified)"

definition database_failure_kind :: "DatabaseError \<Rightarrow> DbFailureKind" where
  "database_failure_kind d =
     (case de_kind d of
        SqlxUnique \<Rightarrow> UniqueViolation
      | SqlxForeignKey \<Rightarrow> ForeignKeyViolation
      | SqlxNotNull \<Rightarrow> NotNullViolation
      | SqlxCheck \<Rightarrow> CheckViolation
      | SqlxOther \<Rightarrow>
          (case de_code d of
             None \<Rightarrow> Unclassified
           | Some code \<Rightarrow>
               if utf8_len code < 5 \<and> list_all is_ascii_digit code
               then from_sqlite_code code (de_message d)
               else (case map_option from_mysql_code (de_mysql_number d) of
                       Some kind \<Rightarrow> if kind \<noteq> Unclassified then kind else from_sqlstate code
                     | None \<Rightarrow> from_sqlstate code)))"

fun runtime_failure :: "RuntimeErr \<Rightarrow> DbFailure" where
  "runtime_failure (InternalErr t) = DbFailure_new Unclassified"
| "runtime_failure (SqlxError (Database d) t) =
     (DbFailure_new (database_failure_kind d))
       \<lparr>df_code := de_code d, df_constraint := de_constraint d, df_table := de_table d\<rparr>"
| "runtime_failure (SqlxError e t) = DbFailure_new (transport_failure_kind e)"

definition driver_failure :: "OrmError \<Rightarrow> DbFailure option" where
  "driver_failure err =
     map_option (df_source_update (\<lambda>_. Some err))
       (case err of
          OrmConnectionAcquire Timeout \<Rightarrow> Some (DbFailure_new ConnectionTimeout)
        | OrmConnectionAcquire AcquireClosed \<Rightarrow> Some (DbFailure_new ConnectionClosed)
        | OrmConn r \<Rightarrow> Some (runtime_failure r)
        | OrmExec r \<Rightarrow> Some (runtime_failure r)
        | OrmQuery r \<Rightarrow> Some (runtime_failure r)
        | _ \<Rightarrow> None)"

definition TRANSACTION_ABORTED :: ustr where
  "TRANSACTION_ABORTED = lit ''tideorm: transaction aborted: ''"

definition explain_unreadable_type :: "ustr \<Rightarrow> ustr" where
  "explain_unreadable_type m =
     (if contains m (lit ''decoding column '' @ [ch_dquote] @ lit ''typtype'' @ [ch_dquote] @
                     lit '': unknown type code 109'')
      then m @ lit '': a column of the statement is a PostgreSQL multirange, which the driver '' @
           lit ''cannot read; select it as text (`column::text`)''
      else m)"

fun translate_engine_error :: "engine \<Rightarrow> OrmError \<Rightarrow> Error" where
  "translate_engine_error G (OrmRecordNotFound m) = not_found m"
| "translate_engine_error G (OrmConnectionAcquire e) = connection (acquire_text G e)"
| "translate_engine_error G (OrmConn e) = connection (runtime_text e)"
| "translate_engine_error G (OrmExec e) = query (runtime_text e)"
| "translate_engine_error G (OrmQuery e) = query (explain_unreadable_type (runtime_text e))"
| "translate_engine_error G (OrmConvertFromU64 m) = Conversion m"
| "translate_engine_error G (OrmTryIntoErr f i s) =
     Conversion (lit ''Error converting `'' @ f @ lit ''` into `'' @ i @ lit ''`: '' @ s)"
| "translate_engine_error G (OrmType m) = Conversion m"
| "translate_engine_error G (OrmJson m) = Conversion m"
| "translate_engine_error G (OrmAttrNotSet a) = Validation a (lit ''attribute is not set'')"
| "translate_engine_error G (OrmKeyArityMismatch e r) =
     query (lit ''Primary key arity mismatch: expected '' @ show_nat e @
            lit '' key column(s), received '' @ show_nat r)"
| "translate_engine_error G OrmUnpackInsertId = query (lit ''Failed to get insert ID'')"
| "translate_engine_error G OrmUpdateGetPrimaryKey =
     query (lit ''Failed to get primary key after update'')"
| "translate_engine_error G (OrmBackendNotSupported db ctx) = BackendNotSupported ctx db"
| "translate_engine_error G (OrmPrimaryKeyNotSet ctx) =
     PrimaryKeyNotSet (lit ''primary key not set for '' @ ctx) (lit ''model'')"
| "translate_engine_error G OrmRecordNotInserted = query (lit ''None of the records are inserted'')"
| "translate_engine_error G OrmRecordNotUpdated = not_found (lit ''None of the records are updated'')"
| "translate_engine_error G (OrmMigration m) = query m"
| "translate_engine_error G (OrmAccessDenied p r) = AccessDenied p r"
| "translate_engine_error G (OrmRbacError m) = Rbac m"
| "translate_engine_error G (OrmCustom m) =
     (case strip_prefix TRANSACTION_ABORTED m of
        Some message \<Rightarrow> transaction message
      | None \<Rightarrow> Internal m)"
| "translate_engine_error G (OrmOther m) = Internal (orm_text G (OrmOther m))"

definition translate_error :: "engine \<Rightarrow> OrmError \<Rightarrow> Error" where
  "translate_error G err = with_db_failure (driver_failure err) (translate_engine_error G err)"

definition reclassify_error ::
    "engine \<Rightarrow> (ustr \<Rightarrow> DbFailure option \<Rightarrow> Error) \<Rightarrow> OrmError \<Rightarrow> Error" where
  "reclassify_error G class err =
     (case translate_error G err of
        Connection m s \<Rightarrow> Connection m s
      | other \<Rightarrow> class (orm_text G err) (into_db_failure other))"

definition translate_connection_error :: "engine \<Rightarrow> OrmError \<Rightarrow> Error" where
  "translate_connection_error G err = reclassify_error G Connection err"

text \<open>Contexts of the typed model calls, and the count a database returned.\<close>

definition model_error_context :: "ustr \<Rightarrow> ustr \<Rightarrow> ErrorContext" where
  "model_error_context table_name q = context_query q (context_table table_name ErrorContext_new)"

definition primary_key_error_context :: "ustr \<Rightarrow> ustr \<Rightarrow> ustr \<Rightarrow> ErrorContext" where
  "primary_key_error_context table_name key_display q =
     context_operator_chain key_display
       (context_condition key_display (model_error_context table_name q))"

definition show_int :: "int \<Rightarrow> ustr" where
  "show_int n = (if n < 0 then ch_minus # show_nat (nat (- n)) else show_nat (nat n))"

definition count_to_u64 :: "int \<Rightarrow> ustr \<Rightarrow> Error + nat" where
  "count_to_u64 count_value context_text =
     (if 0 \<le> count_value then Inr (nat count_value)
      else Inl (query (lit ''Database returned a negative count ('' @ show_int count_value @
                       lit '') for '' @ context_text)))"

subsection \<open>Masking credentials\<close>

text \<open>The text up to the first character that ends an authority.\<close>

definition authority :: "ustr \<Rightarrow> ustr" where
  "authority s = takeWhile (\<lambda>c. c \<notin> {ch_slash, ch_question, ch_hash}) s"

definition is_host_char :: "uchar \<Rightarrow> bool" where
  "is_host_char c \<longleftrightarrow> is_ascii_alphanumeric c \<or>
     c \<in> {ch_minus, ch_dot, ch_underscore, ch_colon, ch_lbracket, ch_rbracket, 37}"

definition host_follows :: "ustr \<Rightarrow> bool" where
  "host_follows s \<longleftrightarrow> list_all is_host_char (authority s)"

text \<open>\<open>str::rfind\<close> of a character, and \<open>rmatch_indices\<close> with a test on both sides of the match.\<close>

fun rfind_where :: "uchar \<Rightarrow> (ustr \<Rightarrow> ustr \<Rightarrow> bool) \<Rightarrow> ustr \<Rightarrow> ustr \<Rightarrow> nat option" where
  "rfind_where d P before [] = None"
| "rfind_where d P before (c # s) =
     (case rfind_where d P (before @ [c]) s of
        Some i \<Rightarrow> Some (Suc i)
      | None \<Rightarrow> if c = d \<and> P before s then Some 0 else None)"

definition userinfo_end :: "ustr \<Rightarrow> nat option" where
  "userinfo_end rest =
     (case rfind_where ch_at (\<lambda>_ _. True) [] (authority rest) of
        Some i \<Rightarrow> Some i
      | None \<Rightarrow> rfind_where ch_at (\<lambda>before after. ch_colon \<in> set before \<and> host_follows after) [] rest)"

definition is_password_key :: "ustr \<Rightarrow> bool" where
  "is_password_key k \<longleftrightarrow>
     to_ascii_lowercase k \<in> {lit ''password'', lit ''sslpassword'', lit ''passwd'', lit ''pwd''}"

definition mask_pair :: "ustr \<Rightarrow> ustr" where
  "mask_pair pair =
     (case split_once ch_equals pair of
        Some (key, _) \<Rightarrow> if is_password_key key then key @ lit ''=***'' else pair
      | None \<Rightarrow> pair)"

definition mask_query :: "ustr \<Rightarrow> ustr" where
  "mask_query q = join [38] (map mask_pair (split_on 38 q))"

definition mask_url_credentials :: "ustr \<Rightarrow> ustr" where
  "mask_url_credentials url =
     (let (scheme, rest) = (case find_str (lit ''://'') url of
             Some i \<Rightarrow> (take (i + 3) url, drop (i + 3) url)
           | None \<Rightarrow> ([], url));
          rest = (case userinfo_end rest of
             Some at \<Rightarrow> lit ''***'' @ drop at rest
           | None \<Rightarrow> rest)
      in case split_once ch_question rest of
           Some (base, q) \<Rightarrow> scheme @ base @ [ch_question] @ mask_query q
         | None \<Rightarrow> scheme @ rest)"

definition translate_connect_error :: "engine \<Rightarrow> OrmError \<Rightarrow> ustr \<Rightarrow> Error" where
  "translate_connect_error G err url =
     (case translate_connection_error G err of
        Connection m s \<Rightarrow>
          if contains m url then connection (replace url (mask_url_credentials url) m)
          else Connection m s
      | other \<Rightarrow> other)"


subsection \<open>No driver detail is lost\<close>

lemma into_db_failure_eq: "into_db_failure e = db_failure e"
  by (cases e) auto

lemma db_failure_translate: "db_failure (translate_error G err) = driver_failure err"
  by (cases err)
    (auto simp: translate_error_def driver_failure_def split: ConnAcquireErr.splits option.splits)

lemma failure_kind_translate:
  "failure_kind (translate_error G err) =
     (case driver_failure err of None \<Rightarrow> Unclassified | Some f \<Rightarrow> df_kind f)"
  by (simp add: failure_kind_def db_failure_translate)

lemma reclassify_keeps:
  assumes "\<And>m s. db_failure (class m s) = s"
  shows "db_failure (reclassify_error G class err) = driver_failure err"
  using assms db_failure_translate [of G err]
  by (cases "translate_error G err") (auto simp: reclassify_error_def into_db_failure_eq)

text \<open>C33. Translating an engine error loses nothing the driver said: whatever variant the error
  lands on, also after a context is attached, the driver failure read from it is the one the
  boundary recovered, with the engine error as its source; a reclassified connection or
  transaction error carries it too. A failure the driver classified decides whether a retry can
  help, so a constraint violation is never retried, however the backend worded it.\<close>

theorem translation_keeps_driver_failure:
  "db_failure (with_context c (translate_error G err)) = driver_failure err \<and>
   db_failure (reclassify_error G Transaction err) = driver_failure err \<and>
   db_failure (translate_connection_error G err) = driver_failure err \<and>
   map_option df_source (driver_failure err) = map_option (\<lambda>_. Some err) (driver_failure err) \<and>
   (case driver_failure err of
      None \<Rightarrow> True
    | Some f \<Rightarrow>
        if df_kind f = Unclassified
        then is_retryable (translate_error G err) = message_is_retryable (translate_error G err)
        else is_retryable (translate_error G err) = kind_is_retryable (df_kind f) \<and>
             \<not> (is_constraint_violation (df_kind f) \<and> is_retryable (translate_error G err)))"
proof -
  have "is_retryable (translate_error G err) =
          (if df_kind f = Unclassified then message_is_retryable (translate_error G err)
           else kind_is_retryable (df_kind f))" if "driver_failure err = Some f" for f
    using that by (simp add: is_retryable_def failure_kind_translate)
  moreover have "map_option df_source (driver_failure err) = map_option (\<lambda>_. Some err) (driver_failure err)"
    by (simp add: driver_failure_def option.map_comp comp_def)
  ultimately show ?thesis
    using constraint_never_retryable
    by (auto simp: db_failure_translate reclassify_keeps translate_connection_error_def split: option.split)
qed


subsection \<open>Masking hides the credentials\<close>

lemma split_once_none: "d \<notin> set s \<Longrightarrow> split_once d s = None"
  by (induction s) auto

lemma split_once_append: "d \<notin> set a \<Longrightarrow> split_once d (a @ d # b) = Some (a, b)"
  by (induction a) auto

lemma rfind_where_none: "d \<notin> set s \<Longrightarrow> rfind_where d P b s = None"
  by (induction s arbitrary: b) auto

lemma rfind_where_last:
  "d \<notin> set h \<Longrightarrow> P (b @ u) h \<Longrightarrow> rfind_where d P b (u @ d # h) = Some (length u)"
  by (induction u arbitrary: b) (auto simp: rfind_where_none)

lemma find_scheme: "ch_colon \<notin> set s \<Longrightarrow> find_str (lit ''://'') (s @ lit ''://'' @ x) = Some (length s)"
  by (induction s) (auto simp: lit_def)

text \<open>Credentials \<open>u\<close> are delimited before the host text \<open>h\<close> when \<open>u\<close> holds no character that
  ends an authority, or when it holds one, unencoded, after the colon that begins a password
  and the authority it ends early holds no at sign of its own.\<close>

definition delimited :: "ustr \<Rightarrow> ustr \<Rightarrow> bool" where
  "delimited u h \<longleftrightarrow>
     (if set u \<inter> {ch_slash, ch_question, ch_hash} = {} then ch_at \<notin> set (authority h)
      else ch_at \<notin> set (authority u) \<and> ch_colon \<in> set u \<and> ch_at \<notin> set h \<and> host_follows h)"

lemma userinfo_end_delimited:
  assumes "delimited u h"
  shows "userinfo_end (u @ ch_at # h) = Some (length u)"
proof (cases "set u \<inter> {ch_slash, ch_question, ch_hash} = {}")
  case True
  then have "authority (u @ ch_at # h) = u @ ch_at # authority h"
    unfolding authority_def by (subst takeWhile_append2) auto
  with True assms show ?thesis
    by (simp add: userinfo_end_def rfind_where_last delimited_def)
next
  case False
  then obtain x where "x \<in> set u" "x \<in> {ch_slash, ch_question, ch_hash}" by blast
  then have "authority (u @ ch_at # h) = authority u"
    unfolding authority_def by (intro takeWhile_append1) auto
  with False assms show ?thesis
    by (simp add: userinfo_end_def rfind_where_last rfind_where_none delimited_def)
qed

text \<open>A query string from its parameters, and the same with the values of password parameters
  hidden.\<close>

definition query_text :: "(ustr \<times> ustr) list \<Rightarrow> ustr" where
  "query_text kvs = join [38] (map (\<lambda>(k, v). k @ ch_equals # v) kvs)"

definition hide_passwords :: "(ustr \<times> ustr) list \<Rightarrow> (ustr \<times> ustr) list" where
  "hide_passwords kvs = map (\<lambda>(k, v). (k, if is_password_key k then lit ''***'' else v)) kvs"

definition plain_pair :: "ustr \<times> ustr \<Rightarrow> bool" where
  "plain_pair kv \<longleftrightarrow> ch_equals \<notin> set (fst kv) \<and> 38 \<notin> set (fst kv) \<and> 38 \<notin> set (snd kv)"

lemma mask_query_text:
  assumes "kvs \<noteq> []" "list_all plain_pair kvs"
  shows "mask_query (query_text kvs) = query_text (hide_passwords kvs)"
proof -
  have "split_on 38 (query_text kvs) = map (\<lambda>(k, v). k @ ch_equals # v) kvs"
    unfolding query_text_def using assms
    by (intro split_on_join) (auto simp: list_all_iff plain_pair_def)
  moreover have "map mask_pair (map (\<lambda>(k, v). k @ ch_equals # v) kvs) =
      map (\<lambda>(k, v). k @ ch_equals # v) (hide_passwords kvs)"
    using assms(2)
    by (auto simp: hide_passwords_def list_all_iff plain_pair_def mask_pair_def split_once_append lit_def)
  ultimately show ?thesis by (simp add: mask_query_def query_text_def)
qed

text \<open>C23. A masked URL shows neither the user nor the password: for credentials delimited before
  the host, also a password that holds an unencoded slash, question mark or hash, the result
  has three stars in their place, and stars in place of the value of every password parameter
  of the query; scheme, host, path and the other parameters are unchanged. The right-hand sides
  do not mention the credentials, so no two of them can be told apart.\<close>

theorem mask_hides_credentials:
  assumes "ch_colon \<notin> set scheme" "delimited u (h @ ch_question # query_text kvs)"
    "delimited u h" "ch_question \<notin> set h" "kvs \<noteq> []" "list_all plain_pair kvs"
  shows "mask_url_credentials (scheme @ lit ''://'' @ u @ ch_at # h) = scheme @ lit ''://***@'' @ h \<and>
         mask_url_credentials (scheme @ lit ''://'' @ u @ ch_at # h @ ch_question # query_text kvs) =
           scheme @ lit ''://***@'' @ h @ ch_question # query_text (hide_passwords kvs)"
proof -
  have star: "lit ''***'' @ ch_at # h = lit ''***@'' @ h" "ch_question \<notin> set (lit ''***@'' @ h)"
    "lit ''://'' @ lit ''***@'' = lit ''://***@''"
    using assms(4) by (simp_all add: lit_def)
  have len: "length (lit ''://'') = 3" by (simp add: lit_def)
  have cut: "mask_url_credentials (scheme @ lit ''://'' @ u @ ch_at # x) =
      (case split_once ch_question (lit ''***'' @ ch_at # x) of
         Some (base, q) \<Rightarrow> scheme @ lit ''://'' @ base @ [ch_question] @ mask_query q
       | None \<Rightarrow> scheme @ lit ''://'' @ lit ''***'' @ ch_at # x)" if "delimited u x" for x
    using find_scheme [OF assms(1), of "u @ ch_at # x"] userinfo_end_delimited [OF that] len
    by (simp add: mask_url_credentials_def Let_def split: option.split)
  have "mask_url_credentials (scheme @ lit ''://'' @ u @ ch_at # h) = scheme @ lit ''://***@'' @ h"
    unfolding cut [OF assms(3)] star(1) by (simp add: split_once_none [OF star(2)] flip: star(3))
  moreover have "lit ''***'' @ ch_at # h @ ch_question # query_text kvs =
      (lit ''***@'' @ h) @ ch_question # query_text kvs"
    by (simp add: lit_def)
  then have "mask_url_credentials (scheme @ lit ''://'' @ u @ ch_at # h @ ch_question # query_text kvs) =
           scheme @ lit ''://***@'' @ h @ ch_question # query_text (hide_passwords kvs)"
    unfolding cut [OF assms(2)]
    by (simp only: split_once_append [OF star(2)] mask_query_text [OF assms(5,6)] option.case prod.case
        flip: star(3)) simp
  ultimately show ?thesis ..
qed

theorem mask_hides_credentials_witness:
  "mask_url_credentials (lit ''pg'' @ lit ''://'' @ lit ''u:p/q'' @ ch_at # lit ''h'' @
       ch_question # query_text [(lit ''PassWord'', lit ''x''), (lit ''a'', lit ''b'')]) =
     lit ''pg'' @ lit ''://***@'' @ lit ''h'' @
       ch_question # query_text (hide_passwords [(lit ''PassWord'', lit ''x''), (lit ''a'', lit ''b'')])"
  by (rule mask_hides_credentials [THEN conjunct2])
    (simp_all add: delimited_def plain_pair_def host_follows_def authority_def lit_def query_text_def
      is_host_char_def ascii_defs)

text \<open>A password that holds an unencoded at sign before an unencoded slash is not delimited, and
  its tail is printed.\<close>

lemma mask_prints_password_tail:
  "mask_url_credentials (lit ''postgres://user:p@ss/word@host/db'') = lit ''postgres://***@ss/word@host/db''"
  by (simp add: lit_def) code_simp

end
