(* ===== verification/Transactions.thy ===== *)
theory Transactions
  imports Pending_Invalidations Error_Translation
begin

text \<open>
  Transactions and savepoints: \<open>src/src/database/transaction.rs\<close> and the statement executor of
  \<open>src/src/internal/executor.rs\<close>. The database and its driver are a parameter. What one of them
  may answer to a request, and what then becomes of the connection's transaction, is the step
  relation \<open>answers\<close>: a failed statement that poisons a PostgreSQL transaction, whose
  \<open>COMMIT\<close> then rolls back and reports success; a deadlock or an SQLite failure that rolls the
  whole transaction back, after which statements would commit one by one; a savepoint that fails
  to start and takes the enclosing level with it; a lost connection, also one lost while it
  commits. The main theorem holds for every driver that stays within it. Statements that a
  backend commits implicitly, MySQL's DDL, and cancelled futures are not part of it.
\<close>

subsection \<open>The database, as far as the code relies on it\<close>

text \<open>A connection: what its statements see, what was seen when each open transaction or
  savepoint began (the innermost first), whether PostgreSQL refuses statements until a rollback,
  and whether the connection is lost.\<close>

record 'c server =
  view :: 'c
  saved :: "'c list"
  poisoned :: bool
  lost :: bool

text \<open>What stays when the connection is closed now.\<close>

definition durable :: "'c server \<Rightarrow> 'c" where
  "durable c = (if saved c = [] then view c else last (saved c))"

datatype 'c request = Execute "'c \<Rightarrow> 'c" | Begin | Savepoint | Commit | Release | Rollback | RollbackTo

datatype Backend = PgBackend | MySqlBackend | SqliteBackend

record ('s, 'c) driver =
  seen :: "'s \<Rightarrow> 'c server"
  send :: "'c request \<Rightarrow> 's \<Rightarrow> (OrmError + unit) \<times> 's"

definition is_deadlock :: "OrmError \<Rightarrow> bool" where
  "is_deadlock e = (case driver_failure e of Some f \<Rightarrow> df_kind f = Errors.Deadlock | None \<Rightarrow> False)"

definition nested_begin :: "engine \<Rightarrow> OrmError \<Rightarrow> bool" where
  "nested_begin G e = contains (orm_text G e) (lit ''cannot start a transaction within a transaction'')"

text \<open>A rollback of everything, and of the innermost level.\<close>

definition rolled_back :: "'c server \<Rightarrow> 'c server" where
  "rolled_back c = c\<lparr>view := durable c, saved := [], poisoned := False\<rparr>"

definition popped :: "'c server \<Rightarrow> 'c server" where
  "popped c = (case saved c of [] \<Rightarrow> c | x # r \<Rightarrow> c\<lparr>view := x, saved := r, poisoned := False\<rparr>)"

inductive answers ::
  "engine \<Rightarrow> Backend \<Rightarrow> 'c request \<Rightarrow> 'c server \<Rightarrow> OrmError + unit \<Rightarrow> 'c server \<Rightarrow> bool"
  for G :: engine and b :: Backend where
  already_lost: "lost c \<Longrightarrow> answers G b r c (Inl e) c"
| becomes_lost: "\<not> lost c \<Longrightarrow> answers G b r c (Inl e) ((rolled_back c)\<lparr>lost := True\<rparr>)"
| executed: "\<lbrakk>\<not> lost c; \<not> poisoned c\<rbrakk> \<Longrightarrow> answers G b (Execute f) c (Inr ()) (c\<lparr>view := f (view c)\<rparr>)"
| not_executed: "\<not> lost c \<Longrightarrow>
    answers G b (Execute f) c (Inl e) (c\<lparr>poisoned := b = PgBackend \<and> saved c \<noteq> []\<rparr>)"
| executed_but_lost: "\<lbrakk>\<not> lost c; saved c = []\<rbrakk> \<Longrightarrow>
    answers G b (Execute f) c (Inl e) (c\<lparr>view := f (view c), lost := True\<rparr>)"
| rolled_back_by_failure: "\<lbrakk>\<not> lost c; b = SqliteBackend \<or> b = MySqlBackend \<and> is_deadlock e\<rbrakk> \<Longrightarrow>
    answers G b (Execute f) c (Inl e) (rolled_back c)"
| begun: "\<lbrakk>\<not> lost c; saved c = []\<rbrakk> \<Longrightarrow> answers G b Begin c (Inr ()) (c\<lparr>saved := [view c]\<rparr>)"
| not_begun: "\<lbrakk>\<not> lost c; saved c = []; \<not> nested_begin G e\<rbrakk> \<Longrightarrow> answers G b Begin c (Inl e) c"
| begun_inside: "\<lbrakk>\<not> lost c; saved c \<noteq> []; nested_begin G e\<rbrakk> \<Longrightarrow> answers G b Begin c (Inl e) c"
| begun_inside_elsewhere: "\<lbrakk>\<not> lost c; saved c \<noteq> []; b \<noteq> SqliteBackend\<rbrakk> \<Longrightarrow> answers G b Begin c r c'"
| savepoint_set: "\<lbrakk>\<not> lost c; saved c \<noteq> []; \<not> poisoned c\<rbrakk> \<Longrightarrow>
    answers G b Savepoint c (Inr ()) (c\<lparr>saved := view c # saved c\<rparr>)"
| savepoint_refused: "\<lbrakk>\<not> lost c; saved c \<noteq> []\<rbrakk> \<Longrightarrow> answers G b Savepoint c (Inl e) (popped c)"
| savepoint_outside: "\<lbrakk>\<not> lost c; saved c = []\<rbrakk> \<Longrightarrow> answers G b Savepoint c r c'"
| committed: "\<lbrakk>\<not> lost c; saved c = [x]; \<not> poisoned c\<rbrakk> \<Longrightarrow> answers G b Commit c (Inr ()) (c\<lparr>saved := []\<rparr>)"
| committed_but_lost: "\<lbrakk>\<not> lost c; saved c = [x]; \<not> poisoned c\<rbrakk> \<Longrightarrow>
    answers G b Commit c (Inl e) (c\<lparr>saved := [], lost := True\<rparr>)"
| committed_poisoned: "\<lbrakk>\<not> lost c; poisoned c\<rbrakk> \<Longrightarrow> answers G b Commit c (Inr ()) (rolled_back c)"
| not_committed: "\<not> lost c \<Longrightarrow> answers G b Commit c (Inl e) (rolled_back c)"
| committed_outside: "\<lbrakk>\<not> lost c; length (saved c) \<noteq> 1\<rbrakk> \<Longrightarrow> answers G b Commit c r c'"
| released: "\<lbrakk>\<not> lost c; 2 \<le> length (saved c); \<not> poisoned c\<rbrakk> \<Longrightarrow>
    answers G b Release c (Inr ()) (c\<lparr>saved := tl (saved c)\<rparr>)"
| not_released: "\<lbrakk>\<not> lost c; 2 \<le> length (saved c)\<rbrakk> \<Longrightarrow> answers G b Release c (Inl e) (popped c)"
| released_outside: "\<lbrakk>\<not> lost c; length (saved c) < 2\<rbrakk> \<Longrightarrow> answers G b Release c r c'"
| rolls_back: "\<not> lost c \<Longrightarrow> answers G b Rollback c r (rolled_back c)"
| still_open: "\<lbrakk>\<not> lost c; saved c \<noteq> []\<rbrakk> \<Longrightarrow> answers G b Rollback c (Inl e) c"
| rolls_back_to: "\<not> lost c \<Longrightarrow> answers G b RollbackTo c r (popped c)"

definition documented :: "engine \<Rightarrow> Backend \<Rightarrow> ('s, 'c) driver \<Rightarrow> bool" where
  "documented G b D \<longleftrightarrow>
     (\<forall>r s. answers G b r (seen D s) (fst (send D r s)) (seen D (snd (send D r s))))"

subsection \<open>The executor\<close>

text \<open>What a session keeps: the connection, the query cache, and the undo steps that ran.\<close>

record ('s, 'u) session =
  db :: 's
  tx_cache :: QueryCache
  undone :: "'u list"

definition request :: "('s, 'c) driver \<Rightarrow> 'c request \<Rightarrow> ('s, 'u) session \<Rightarrow> (OrmError + unit) \<times> ('s, 'u) session" where
  "request D r s = (case send D r (db s) of (reply, d) \<Rightarrow> (reply, s\<lparr>db := d\<rparr>))"

definition ensure_transaction_active :: "'u PendingInvalidations \<Rightarrow> OrmError + unit" where
  "ensure_transaction_active p =
     (case p_aborted p of
        Some abort \<Rightarrow> Inl (OrmCustom (TRANSACTION_ABORTED @ statement_error abort))
      | None \<Rightarrow> Inr ())"

definition note_failure :: "OrmError + unit \<Rightarrow> 'u PendingInvalidations \<Rightarrow> 'u PendingInvalidations" where
  "note_failure result p =
     (case result of Inl e \<Rightarrow> note_failed_statement (is_deadlock e) p | Inr _ \<Rightarrow> p)"

fun recreate_savepoints :: "('s, 'c) driver \<Rightarrow> nat \<Rightarrow> ('s, 'u) session \<Rightarrow> ('s, 'u) session" where
  "recreate_savepoints D 0 s = s"
| "recreate_savepoints D (Suc n) s =
     (case request D Savepoint s of (Inl e, s') \<Rightarrow> s' | (Inr _, s') \<Rightarrow> recreate_savepoints D n s')"

definition check_sqlite_failure ::
  "engine \<Rightarrow> Backend \<Rightarrow> ('s, 'c) driver \<Rightarrow> OrmError + unit \<Rightarrow>
     'u PendingInvalidations \<times> ('s, 'u) session \<Rightarrow> 'u PendingInvalidations \<times> ('s, 'u) session" where
  "check_sqlite_failure G b D result ps =
     (case ps of (p, s) \<Rightarrow>
        if isl result \<and> b = SqliteBackend then
          (let p1 = pending_abort SqliteRollback p in
           case request D Begin s of
             (Inl e, s') \<Rightarrow> (if nested_begin G e then clear_sqlite_rollback p1 else p1, s')
           | (Inr _, s') \<Rightarrow> (p1, recreate_savepoints D (p_depth p1 - 1) s'))
        else (p, s))"

definition execute_unprepared ::
  "engine \<Rightarrow> Backend \<Rightarrow> ('s, 'c) driver \<Rightarrow> ('c \<Rightarrow> 'c) \<Rightarrow>
     'u PendingInvalidations \<times> ('s, 'u) session \<Rightarrow>
     (OrmError + unit) \<times> 'u PendingInvalidations \<times> ('s, 'u) session" where
  "execute_unprepared G b D f ps =
     (case ps of (p, s) \<Rightarrow>
        case ensure_transaction_active p of
          Inl e \<Rightarrow> (Inl e, p, s)
        | Inr _ \<Rightarrow>
            (case request D (Execute f) s of
               (result, s') \<Rightarrow> (result, check_sqlite_failure G b D result (note_failure result p, s'))))"

text \<open>A savepoint that cannot start marks the enclosing transaction aborted.\<close>

definition begin_savepoint ::
  "('s, 'c) driver \<Rightarrow> 'u PendingInvalidations \<Rightarrow> ('s, 'u) session \<Rightarrow>
     (OrmError + unit) \<times> 'u PendingInvalidations \<times> ('s, 'u) session" where
  "begin_savepoint D p s =
     (case ensure_transaction_active p of
        Inl e \<Rightarrow> (Inl e, p, s)
      | Inr _ \<Rightarrow>
          (case request D Savepoint s of
             (Inl e, s') \<Rightarrow> (Inl e, pending_abort Pending_Invalidations.Savepoint p, s')
           | (Inr _, s') \<Rightarrow> (Inr (), p, s')))"

subsection \<open>Ending a transaction\<close>

definition transaction_error :: "engine \<Rightarrow> OrmError \<Rightarrow> Error" where
  "transaction_error G err = reclassify_error G Transaction err"

definition LEAKED_TRANSACTION_MESSAGE :: ustr where
  "LEAKED_TRANSACTION_MESSAGE = lit ''transaction handle leaked outside the transaction scope''"

fun can_rollback_leaked_transaction :: "Backend option \<Rightarrow> bool \<Rightarrow> bool" where
  "can_rollback_leaked_transaction backend nested \<longleftrightarrow>
     \<not> nested \<and> (backend = Some PgBackend \<or> backend = Some MySqlBackend)"

datatype LeakedRollback = RolledBack | DeferredToDrop | Failed Error

definition end_leaked_transaction ::
  "engine \<Rightarrow> Backend \<Rightarrow> ('s, 'c) driver \<Rightarrow> bool \<Rightarrow> ('s, 'u) session \<Rightarrow> LeakedRollback \<times> ('s, 'u) session" where
  "end_leaked_transaction G b D nested s =
     (if \<not> can_rollback_leaked_transaction (Some b) nested then (DeferredToDrop, s)
      else (case request D Rollback s of
              (Inr _, s') \<Rightarrow> (RolledBack, snd (request D Begin s'))
            | (Inl e, s') \<Rightarrow> (Failed (transaction_error G e), s')))"

definition leaked_transaction_error :: "LeakedRollback \<Rightarrow> Error option \<Rightarrow> Error" where
  "leaked_transaction_error rb closure_error =
     (let (outcome, source) =
        (case rb of
           RolledBack \<Rightarrow> (lit ''it was rolled back explicitly'', None)
         | DeferredToDrop \<Rightarrow> (lit ''it rolls back when the stray handle drops'', None)
         | Failed err \<Rightarrow> (lit ''rolling it back failed: '' @ display_error err, into_db_failure err));
          message = LEAKED_TRANSACTION_MESSAGE @ lit '', so '' @ outcome
      in case closure_error of
           None \<Rightarrow> Transaction message source
         | Some e \<Rightarrow> Transaction (message @ lit ''; the closure had already failed: '' @ display_error e)
             (case source of Some f \<Rightarrow> Some f | None \<Rightarrow> into_db_failure e))"

definition ensure_transaction_can_commit ::
  "engine \<Rightarrow> Backend \<Rightarrow> ('s, 'c) driver \<Rightarrow> ('s, 'u) session \<Rightarrow> (Error + unit) \<times> ('s, 'u) session" where
  "ensure_transaction_can_commit G b D s =
     (if b \<noteq> PgBackend then (Inr (), s)
      else (case request D (Execute (\<lambda>c. c)) s of
              (Inr _, s') \<Rightarrow> (Inr (), s')
            | (Inl err, s') \<Rightarrow>
                (Inl (Transaction
                   (lit ''the transaction cannot commit: a statement inside it failed, which aborted it, so it was rolled back ('' @
                      orm_text G err @ lit '')'')
                   (into_db_failure (transaction_error G err))), s')))"

text \<open>The record is dropped: its undo steps run, its abort reaches the enclosing one.\<close>

definition drop_record ::
  "'u PendingInvalidations \<Rightarrow> 'u PendingInvalidations option \<Rightarrow> ('s, 'u) session \<Rightarrow>
     'u PendingInvalidations option \<times> ('s, 'u) session" where
  "drop_record p enclosing s =
     (case pending_drop True p enclosing of (steps, _, enclosing') \<Rightarrow> (enclosing', s\<lparr>undone := undone s @ steps\<rparr>))"

definition replay_record ::
  "'u PendingInvalidations \<Rightarrow> 'u PendingInvalidations option \<Rightarrow> ('s, 'u) session \<Rightarrow>
     'u PendingInvalidations option \<times> ('s, 'u) session" where
  "replay_record p enclosing s =
     (case pending_replay True p enclosing (tx_cache s) of
        (steps, _, enclosing', q) \<Rightarrow> (enclosing', s\<lparr>tx_cache := q, undone := undone s @ steps\<rparr>))"

definition unknown_commit ::
  "'u PendingInvalidations \<Rightarrow> 'u PendingInvalidations option \<Rightarrow> ('s, 'u) session \<Rightarrow>
     'u PendingInvalidations option \<times> ('s, 'u) session" where
  "unknown_commit p enclosing s =
     (case replay_invalidations p (enclosing, tx_cache s) of (enclosing', q) \<Rightarrow> (enclosing', s\<lparr>tx_cache := q\<rparr>))"

definition rollback_request :: "bool \<Rightarrow> 'c request" where
  "rollback_request nested = (if nested then RollbackTo else Rollback)"

definition commit_request :: "bool \<Rightarrow> 'c request" where
  "commit_request nested = (if nested then Release else Commit)"

text \<open>The three branches of \<open>TransactionScope::end\<close>. A driver transaction dropped without an
  end, as the early return after a failed probe does, is rolled back.\<close>

definition end_committing ::
  "engine \<Rightarrow> Backend \<Rightarrow> ('s, 'c) driver \<Rightarrow> bool \<Rightarrow> 'a \<Rightarrow> 'u PendingInvalidations \<Rightarrow>
     'u PendingInvalidations option \<Rightarrow> ('s, 'u) session \<Rightarrow>
     (Error + 'a) \<times> 'u PendingInvalidations option \<times> ('s, 'u) session" where
  "end_committing G b D nested x p enclosing s =
     (case p_aborted p of
        Some abort \<Rightarrow>
          (Inl (transaction (commit_error abort)), drop_record p enclosing (snd (request D (rollback_request nested) s)))
      | None \<Rightarrow>
          (case (if p_statement_failed p then ensure_transaction_can_commit G b D s else (Inr (), s)) of
             (Inl e, s') \<Rightarrow> (Inl e, drop_record p enclosing (snd (request D (rollback_request nested) s')))
           | (Inr _, s') \<Rightarrow>
               (case request D (commit_request nested) s' of
                  (Inl e, s'') \<Rightarrow>
                    (case unknown_commit p enclosing s'' of
                       (enclosing', s3) \<Rightarrow> (Inl (transaction_error G e), drop_record p enclosing' s3))
                | (Inr _, s'') \<Rightarrow> (Inr x, replay_record p enclosing s''))))"

definition scope_end ::
  "engine \<Rightarrow> Backend \<Rightarrow> ('s, 'c) driver \<Rightarrow> bool \<Rightarrow> bool \<Rightarrow> Error + 'a \<Rightarrow> 'u PendingInvalidations \<Rightarrow>
     'u PendingInvalidations option \<Rightarrow> ('s, 'u) session \<Rightarrow>
     (Error + 'a) \<times> 'u PendingInvalidations option \<times> ('s, 'u) session" where
  "scope_end G b D nested leaked outcome record enclosing s =
     (let p = snd (take_deferred record) in
      if leaked then
        (case end_leaked_transaction G b D nested s of
           (rb, s') \<Rightarrow>
             (Inl (leaked_transaction_error rb (case outcome of Inl e \<Rightarrow> Some e | Inr _ \<Rightarrow> None)),
              drop_record p (map_option (pending_abort Leaked) enclosing) s'))
      else (case outcome of
              Inr x \<Rightarrow> end_committing G b D nested x p enclosing s
            | Inl e \<Rightarrow> (Inl e, drop_record p enclosing (snd (request D (rollback_request nested) s)))))"

subsection \<open>Closures\<close>

text \<open>
  What a closure does on its transaction: statements, undo steps and invalidations it registers,
  and transactions of its own, which are savepoints, with their outcome and whether a clone of
  the handle outlives them. A closure that catches errors goes on after them. The effects of the
  statements and savepoints reported successful are collected beside the run: they are what the
  closure was told has happened.
\<close>

datatype ('c, 'u) item =
    Statement "'c \<Rightarrow> 'c"
  | UndoStep 'u
  | Invalidate CacheWrite
  | Within "('c, 'u) item list" "Error + unit" bool

type_synonym ('s, 'c, 'u) scope = "'u PendingInvalidations \<times> ('s, 'u) session \<times> ('c \<Rightarrow> 'c) list"

definition invalidating ::
  "CacheWrite \<Rightarrow> 'u PendingInvalidations \<Rightarrow> ('s, 'u) session \<Rightarrow> 'u PendingInvalidations \<times> ('s, 'u) session" where
  "invalidating w p s =
     (case noted_write w (Some p, tx_cache s) of (p', q) \<Rightarrow> (the p', s\<lparr>tx_cache := q\<rparr>))"

fun run_in_scope :: "engine \<Rightarrow> Backend \<Rightarrow> ('s, 'c) driver \<Rightarrow> ('c, 'u) item \<Rightarrow> ('s, 'c, 'u) scope \<Rightarrow> ('s, 'c, 'u) scope"
  and run_all :: "engine \<Rightarrow> Backend \<Rightarrow> ('s, 'c) driver \<Rightarrow> ('c, 'u) item list \<Rightarrow> ('s, 'c, 'u) scope \<Rightarrow> ('s, 'c, 'u) scope" where
  "run_in_scope G b D (Statement f) (p, s, acks) =
     (case execute_unprepared G b D f (p, s) of
        (reply, p', s') \<Rightarrow> (p', s', if isl reply then acks else acks @ [f]))"
| "run_in_scope G b D (UndoStep u) (p, s, acks) = (undo_on_rollback u p, s, acks)"
| "run_in_scope G b D (Invalidate w) (p, s, acks) = (case invalidating w p s of (p', s') \<Rightarrow> (p', s', acks))"
| "run_in_scope G b D (Within items outcome leaked) (p, s, acks) =
     (case begin_savepoint D p s of
        (Inl e, p', s') \<Rightarrow> (p', s', acks)
      | (Inr _, p', s') \<Rightarrow>
          (case run_all G b D items (pending_new (Some p'), s', []) of
             (inner, s'', done_inside) \<Rightarrow>
               (case scope_end G b D True leaked outcome inner (Some p') s'' of
                  (reply, enclosing, s3) \<Rightarrow>
                    (the enclosing, s3, if isl reply then acks else acks @ done_inside))))"
| "run_all G b D [] st = st"
| "run_all G b D (i # is) st = run_all G b D is (run_in_scope G b D i st)"

text \<open>\<open>Database::transaction\<close> on a pool: the closure is given the scope it runs in.\<close>

definition transaction ::
  "engine \<Rightarrow> Backend \<Rightarrow> ('s, 'c) driver \<Rightarrow> (('s, 'c, 'u) scope \<Rightarrow> (Error + 'a) \<times> ('s, 'c, 'u) scope) \<Rightarrow>
     bool \<Rightarrow> ('s, 'u) session \<Rightarrow> (Error + 'a) \<times> ('s, 'u) session \<times> ('c \<Rightarrow> 'c) list" where
  "transaction G b D f leaked s =
     (case request D Begin s of
        (Inl e, s') \<Rightarrow> (Inl (transaction_error G e), s', [])
      | (Inr _, s') \<Rightarrow>
          (case f (pending_new None, s', []) of
             (outcome, p, s'', acks) \<Rightarrow>
               (case scope_end G b D False leaked outcome p None s'' of
                  (result, _, s3) \<Rightarrow> (result, s3, acks))))"

text \<open>A closure is any way to run items and to decide the outcome.\<close>

definition closure ::
  "engine \<Rightarrow> Backend \<Rightarrow> ('s, 'c) driver \<Rightarrow> (('s, 'c, 'u) scope \<Rightarrow> (Error + 'a) \<times> ('s, 'c, 'u) scope) \<Rightarrow> bool" where
  "closure G b D f \<longleftrightarrow> (\<forall>st. \<exists>items. snd (f st) = run_all G b D items st)"

subsection \<open>What a request leaves behind\<close>

inductive_simps answers_execute: "answers G b (Execute f) c r c'"
inductive_simps answers_begin: "answers G b Begin c r c'"
inductive_simps answers_savepoint: "answers G b Savepoint c r c'"
inductive_simps answers_commit: "answers G b Commit c r c'"
inductive_simps answers_release: "answers G b Release c r c'"
inductive_simps answers_rollback: "answers G b Rollback c r c'"
inductive_simps answers_rollback_to: "answers G b RollbackTo c r c'"

abbreviation conn :: "('s, 'c) driver \<Rightarrow> ('s, 'u) session \<Rightarrow> 'c server" where
  "conn D s \<equiv> seen D (db s)"

lemma durable_rolled_back [simp]:
  "durable (rolled_back c) = durable c" "durable ((rolled_back c)\<lparr>lost := True\<rparr>) = durable c"
  "saved (rolled_back c) = []" "lost (rolled_back c) = lost c" "view (rolled_back c) = durable c"
  "poisoned (rolled_back c) = False"
  by (simp_all add: durable_def rolled_back_def)

lemma durable_popped [simp]: "durable (popped c) = durable c" "lost (popped c) = lost c"
  by (auto simp: durable_def popped_def split: list.splits)

lemma durable_inside [simp]: "saved c \<noteq> [] \<Longrightarrow> durable (c\<lparr>view := v\<rparr>) = durable c"
  "durable (c\<lparr>poisoned := q\<rparr>) = durable c" "durable (c\<lparr>saved := v # saved c\<rparr>) = (if saved c = [] then v else durable c)"
  by (simp_all add: durable_def)

lemma durable_committed [simp]:
  "durable (c\<lparr>saved := []\<rparr>) = view c" "durable (c\<lparr>saved := [], lost := l\<rparr>) = view c"
  by (simp_all add: durable_def)

lemma request_answers:
  "\<lbrakk>documented G b D; request D r s = (reply, s')\<rbrakk> \<Longrightarrow> answers G b r (conn D s) reply (conn D s')"
  by (auto simp: documented_def request_def split: prod.splits) (metis fst_conv snd_conv)

lemma snd_request_answers:
  "documented G b D \<Longrightarrow> answers G b r (conn D s) (fst (request D r s)) (conn D (snd (request D r s)))"
  by (rule request_answers) simp_all

lemma rollback_keeps_durable:
  "documented G b D \<Longrightarrow> durable (conn D (snd (request D (rollback_request nested) s))) = durable (conn D s)"
  using snd_request_answers [of G b D "rollback_request nested" s]
  by (auto simp: rollback_request_def answers_rollback answers_rollback_to split: if_splits)

lemma recreate_keeps_durable:
  "\<lbrakk>documented G b D; lost (conn D s) \<or> saved (conn D s) \<noteq> []\<rbrakk> \<Longrightarrow>
     durable (conn D (recreate_savepoints D n s)) = durable (conn D s)"
proof (induction n arbitrary: s)
  case (Suc n)
  obtain reply s' where r: "request D Savepoint s = (reply, s')" by fastforce
  from request_answers [OF Suc.prems(1) r] Suc.prems(2)
  have s': "durable (conn D s') = durable (conn D s)" "\<not> isl reply \<Longrightarrow> saved (conn D s') \<noteq> []"
    by (auto simp: answers_savepoint)
  show ?case
  proof (cases reply)
    case (Inr _)
    with s' Suc.IH [OF Suc.prems(1), of s'] r show ?thesis by simp
  qed (use r s' in simp)
qed simp

subsection \<open>The invariant of an open scope\<close>

text \<open>
  While a scope is open, what is durable is what it was when the transaction began. As long as
  its record is not marked aborted and the connection is alive, the levels below it are those it
  started on, and it sees exactly the effects it was told of, unless PostgreSQL refuses its
  statements, which its record then shows.
\<close>

definition in_step ::
  "Backend \<Rightarrow> 'c \<Rightarrow> 'c list \<Rightarrow> 'u PendingInvalidations \<Rightarrow> 'c server \<Rightarrow> ('c \<Rightarrow> 'c) list \<Rightarrow> bool" where
  "in_step b v levels p c acks \<longleftrightarrow>
     lost c \<or> saved c = levels \<and>
       (if poisoned c then b = PgBackend \<and> p_statement_failed p else view c = fold (\<lambda>f. f) acks v)"

definition scope_inv ::
  "Backend \<Rightarrow> 'c \<Rightarrow> 'c \<Rightarrow> 'c list \<Rightarrow> 'u PendingInvalidations \<Rightarrow> 'c server \<Rightarrow> ('c \<Rightarrow> 'c) list \<Rightarrow> bool" where
  "scope_inv b d v levels p c acks \<longleftrightarrow>
     durable c = d \<and> p_deferred p = [] \<and> p_aborted p \<noteq> Some Cancelled \<and>
     (p_aborted p = None \<longrightarrow> in_step b v levels p c acks)"

lemma scope_inv_aborted:
  "\<lbrakk>durable c = d; p_deferred p = []; p_aborted p = Some a; a \<noteq> Cancelled\<rbrakk> \<Longrightarrow> scope_inv b d v levels p c acks"
  by (simp add: scope_inv_def)

lemma pending_abort_simps [simp]:
  "p_deferred (pending_abort a p) = p_deferred p"
  "p_statement_failed (pending_abort a p) = p_statement_failed p"
  "p_aborted p = None \<Longrightarrow> p_aborted (pending_abort a p) = Some a"
  "p_aborted (pending_abort a p) \<noteq> None"
  by (simp_all add: pending_abort_def split: option.split)

lemma note_failure_simps [simp]:
  "note_failure (Inr x) p = p"
  "p_deferred (note_failure r p) = p_deferred p"
  "p_statement_failed (note_failure (Inl e) p)"
  by (simp_all add: note_failure_def note_failed_statement_def Let_def split: sum.split)

lemma note_failure_aborted:
  "p_aborted p = None \<Longrightarrow> p_aborted (note_failure (Inl e) p) = (if is_deadlock e then Some Abort.Deadlock else None)"
  by (simp add: note_failure_def note_failed_statement_def pending_abort_def Let_def)

lemma failed_statement_leaves:
  assumes "answers G b (Execute f) c (Inl e) c'" "levels \<noteq> []" "p_aborted p = None" "scope_inv b d v levels p c acks"
  shows "durable c' = d \<and> (in_step b v levels (note_failure (Inl e) p) c' acks \<or>
    \<not> lost c' \<and> saved c' = [] \<and> (b = SqliteBackend \<or> is_deadlock e))"
  using assms by (auto simp: answers_execute scope_inv_def in_step_def split: if_splits)

lemma sqlite_check_keeps:
  assumes doc: "documented G b D" and b: "b = SqliteBackend" and d: "durable (conn D s) = d" "p_deferred p = []"
    and a: "p_aborted p = (if is_deadlock e then Some Abort.Deadlock else None)"
    and c: "in_step b v levels p (conn D s) acks \<or> \<not> lost (conn D s) \<and> saved (conn D s) = []"
    and l: "levels \<noteq> []"
    and check: "check_sqlite_failure G b D (Inl e) (p, s) = (p', s')"
  shows "scope_inv b d v levels p' (conn D s') acks"
proof -
  obtain reply s1 where r: "request D Begin s = (reply, s1)" by fastforce
  note ans = request_answers [OF doc r]
  have d1: "durable (conn D s1) = d" using ans d b by (auto simp: answers_begin durable_def)
  let ?p = "pending_abort SqliteRollback p"
  have p: "p_aborted ?p = Some (if is_deadlock e then Abort.Deadlock else SqliteRollback)"
    using a by (simp add: pending_abort_def)
  show ?thesis
  proof (cases reply)
    case (Inr u)
    with ans have "lost (conn D s1) \<or> saved (conn D s1) \<noteq> []" using b by (auto simp: answers_begin)
    then have "durable (conn D (recreate_savepoints D (p_depth ?p - 1) s1)) = d"
      using recreate_keeps_durable [OF doc] d1 by blast
    with Inr check b r p d(2) show ?thesis
      by (auto simp: check_sqlite_failure_def Let_def intro!: scope_inv_aborted split: if_splits)
  next
    case (Inl e')
    show ?thesis
    proof (cases "nested_begin G e' \<and> \<not> is_deadlock e")
      case False
      with Inl check b r p d1 d(2) show ?thesis
        by (auto simp: check_sqlite_failure_def Let_def clear_sqlite_rollback_def intro!: scope_inv_aborted
            split: if_splits)
    next
      case True
      then have "in_step b v levels p (conn D s1) acks"
        using ans Inl c b l by (auto simp: answers_begin in_step_def)
      with True Inl check b r p d1 d(2) show ?thesis
        by (auto simp: check_sqlite_failure_def Let_def clear_sqlite_rollback_def scope_inv_def in_step_def)
    qed
  qed
qed

lemma statement_keeps:
  assumes doc: "documented G b D" and l: "levels \<noteq> []" and inv: "scope_inv b d v levels p (conn D s) acks"
    and run: "execute_unprepared G b D f (p, s) = (reply, p', s')"
  shows "scope_inv b d v levels p' (conn D s') (if isl reply then acks else acks @ [f])"
proof (cases "p_aborted p")
  case (Some a)
  with run inv show ?thesis by (auto simp: execute_unprepared_def ensure_transaction_active_def scope_inv_def)
next
  case None
  obtain r s1 where req: "request D (Execute f) s = (r, s1)" by fastforce
  note ans = request_answers [OF doc req]
  from run None req have r: "reply = r"
    and check: "check_sqlite_failure G b D r (note_failure r p, s1) = (p', s')"
    by (auto simp: execute_unprepared_def ensure_transaction_active_def split: prod.splits)
  show ?thesis
  proof (cases r)
    case (Inr u)
    with check have "p' = p" "s' = s1" by (simp_all add: check_sqlite_failure_def)
    with ans Inr inv l None r show ?thesis
      by (auto simp: answers_execute scope_inv_def in_step_def)
  next
    case (Inl e)
    let ?p = "note_failure (Inl e) p"
    note c = failed_statement_leaves [OF ans [unfolded Inl] l None inv]
    have p: "p_deferred ?p = []" "p_aborted ?p = (if is_deadlock e then Some Abort.Deadlock else None)"
      using inv None by (simp_all add: scope_inv_def note_failure_aborted)
    show ?thesis
    proof (cases "b = SqliteBackend")
      case True
      have "in_step b v levels ?p (conn D s1) acks \<or> \<not> lost (conn D s1) \<and> saved (conn D s1) = []"
        using c by blast
      from sqlite_check_keeps [OF doc True _ p this l] c check r Inl show ?thesis by simp
    next
      case False
      with check Inl have "p' = ?p" "s' = s1" by (simp_all add: check_sqlite_failure_def)
      with c p False r Inl show ?thesis by (auto simp: scope_inv_def)
    qed
  qed
qed

subsection \<open>Ending a savepoint\<close>

text \<open>The fields of a record that decide how its transaction ends.\<close>

abbreviation marks :: "'u PendingInvalidations \<Rightarrow> nat list \<times> Abort option \<times> bool" where
  "marks p \<equiv> (p_deferred p, p_aborted p, p_statement_failed p)"

lemma marks_note [simp]: "p_statement_failed (fold pending_note ns p) = p_statement_failed p"
proof (induction ns arbitrary: p)
  case (Cons n ns)
  then show ?case by (cases n) simp_all
qed simp

lemma marks_writes: "\<exists>p' q'. fold noted_write ws (Some p, q) = (Some p', q') \<and> marks p' = marks p"
proof (induction ws arbitrary: p q)
  case (Cons w ws)
  from Cons [of "fold pending_note (fst (cache_write w q)) p" "snd (cache_write w q)"] show ?case
    by (simp add: noted_write_Some)
qed simp

lemma drop_record_marks:
  assumes "p_deferred p = []" "p_aborted p \<noteq> Some Cancelled" "p_aborted e = None"
  shows "\<exists>e' s'. drop_record p (Some e) s = (Some e', s') \<and> db s' = db s \<and>
    marks e' = (p_deferred e, p_aborted p, p_statement_failed e)"
  using assms
  by (auto simp: drop_record_def pending_drop_def Let_def ends_the_connection_transaction_def split: option.splits)

lemma replay_record_marks:
  assumes "p_deferred p = []" "p_aborted p = None"
  shows "\<exists>e' s'. replay_record p (Some e) s = (Some e', s') \<and> db s' = db s \<and> marks e' = marks e"
proof -
  obtain e1 q where "fold noted_write (pending_writes p) (Some (e\<lparr>p_undo := p_undo e @ p_undo p\<rparr>), tx_cache s) = (Some e1, q)"
    "marks e1 = marks e"
    using marks_writes [of "pending_writes p" "e\<lparr>p_undo := p_undo e @ p_undo p\<rparr>" "tx_cache s"] by auto
  with assms show ?thesis
    by (simp add: replay_record_def pending_replay_def replay_invalidations_def pending_drop_def Let_def)
qed

lemma unknown_commit_marks:
  "\<exists>e' s'. unknown_commit p (Some e) s = (Some e', s') \<and> db s' = db s \<and> marks e' = marks e"
proof -
  obtain e1 q where "fold noted_write (pending_writes p) (Some e, tx_cache s) = (Some e1, q)" "marks e1 = marks e"
    using marks_writes [of "pending_writes p" e "tx_cache s"] by blast
  then show ?thesis by (simp add: unknown_commit_def replay_invalidations_def)
qed

lemma scope_inv_marks:
  "\<lbrakk>scope_inv b d v levels p c acks; marks p' = marks p\<rbrakk> \<Longrightarrow> scope_inv b d v levels p' c acks"
  by (auto simp: scope_inv_def in_step_def)

text \<open>A level that was popped, with its record dropped, leaves the enclosing scope in step.\<close>

lemma popped_level:
  assumes c: "durable c = d" "p_aborted q = None \<longrightarrow> lost c \<or> saved c = levels \<and> \<not> poisoned c \<and> view c = fold (\<lambda>f. f) acks v"
    and q: "p_deferred q = []" "p_aborted q \<noteq> Some Cancelled"
    and p: "p_deferred p = []" "p_aborted p = None"
    and drop: "drop_record q (Some p) s = (enclosing, s')" and s: "conn D s = c"
  shows "enclosing \<noteq> None \<and> scope_inv b d v levels (the enclosing) (conn D s') acks"
proof -
  obtain e' where e': "enclosing = Some e'" "db s' = db s" "marks e' = (p_deferred p, p_aborted q, p_statement_failed p)"
    using drop_record_marks [OF q p(2), of s] drop by auto
  with c q p s show ?thesis by (auto simp: scope_inv_def in_step_def)
qed

lemma savepoint_rolled_back:
  assumes doc: "documented G b D" and inv: "scope_inv b d (fold (\<lambda>f. f) acks v) (fold (\<lambda>f. f) acks v # levels) q (conn D s) inner"
    and p: "p_deferred p = []" "p_aborted p = None"
    and drop: "drop_record q (Some p) (snd (request D RollbackTo s)) = (enclosing, s')"
  shows "enclosing \<noteq> None \<and> scope_inv b d v levels (the enclosing) (conn D s') acks"
proof (rule popped_level [OF _ _ _ _ p drop refl])
  note ans = snd_request_answers [OF doc, of RollbackTo s]
  show "durable (conn D (snd (request D RollbackTo s))) = d"
    using rollback_keeps_durable [OF doc, of True s] inv by (simp add: rollback_request_def scope_inv_def)
  show "p_aborted q = None \<longrightarrow> lost (conn D (snd (request D RollbackTo s))) \<or>
     saved (conn D (snd (request D RollbackTo s))) = levels \<and> \<not> poisoned (conn D (snd (request D RollbackTo s))) \<and>
     view (conn D (snd (request D RollbackTo s))) = fold (\<lambda>f. f) acks v"
    using ans inv by (auto simp: answers_rollback_to scope_inv_def in_step_def popped_def)
qed (use inv in \<open>simp_all add: scope_inv_def\<close>)

text \<open>The probe before a commit leaves the scope as it is, and passes only when statements run.\<close>

lemma can_commit_probe:
  assumes doc: "documented G b D" and l: "levels \<noteq> []" and inv: "scope_inv b d v levels p (conn D s) acks"
    and a: "p_aborted p = None" "p_statement_failed p"
    and probe: "ensure_transaction_can_commit G b D s = (reply, s')"
  shows "scope_inv b d v levels p (conn D s') acks \<and>
    (\<not> isl reply \<longrightarrow> lost (conn D s') \<or> \<not> poisoned (conn D s'))"
proof (cases "b = PgBackend")
  case False
  with probe inv a show ?thesis
    by (auto simp: ensure_transaction_can_commit_def scope_inv_def in_step_def split: if_splits)
next
  case True
  obtain r s1 where req: "request D (Execute (\<lambda>c. c)) s = (r, s1)" by fastforce
  note ans = request_answers [OF doc req]
  from probe True req have "s' = s1" "isl reply = isl r"
    by (auto simp: ensure_transaction_can_commit_def split: sum.splits)
  with ans inv a l True show ?thesis
    by (auto simp: answers_execute scope_inv_def in_step_def split: if_splits)
qed

lemma passed_probe:
  assumes doc: "documented G b D" and l: "levels \<noteq> []" and inv: "scope_inv b d v levels p (conn D s) acks"
    and a: "p_aborted p = None"
    and probe: "(if p_statement_failed p then ensure_transaction_can_commit G b D s else (Inr (), s)) = (reply, s')"
  shows "scope_inv b d v levels p (conn D s') acks"
    "\<not> isl reply \<Longrightarrow> lost (conn D s') \<or> \<not> poisoned (conn D s')"
  using can_commit_probe [OF doc l inv a, of reply s'] probe inv a
  by (auto simp: scope_inv_def in_step_def split: if_splits)

lemma savepoint_committing:
  assumes doc: "documented G b D" and l: "levels \<noteq> []"
    and inv: "scope_inv b d (fold (\<lambda>f. f) acks v) (fold (\<lambda>f. f) acks v # levels) q (conn D s) inner"
    and p: "p_deferred p = []" "p_aborted p = None"
    and run: "end_committing G b D True x q (Some p) s = (reply, enclosing, s')"
  shows "enclosing \<noteq> None \<and> scope_inv b d v levels (the enclosing) (conn D s') (if isl reply then acks else acks @ inner)"
proof (cases "p_aborted q")
  case (Some a)
  with run have "isl reply" "drop_record q (Some p) (snd (request D RollbackTo s)) = (enclosing, s')"
    by (auto simp: end_committing_def rollback_request_def)
  with savepoint_rolled_back [OF doc inv p] show ?thesis by simp
next
  case None
  obtain r1 s1 where probe: "(if p_statement_failed q then ensure_transaction_can_commit G b D s else (Inr (), s)) = (r1, s1)"
    by fastforce
  note inv1 = passed_probe(1) [OF doc _ inv None probe, simplified]
  note live = passed_probe(2) [OF doc _ inv None probe, simplified]
  show ?thesis
  proof (cases r1)
    case (Inl e)
    with run None probe have "isl reply" "drop_record q (Some p) (snd (request D RollbackTo s1)) = (enclosing, s')"
      by (auto simp: end_committing_def rollback_request_def)
    with savepoint_rolled_back [OF doc inv1 p] show ?thesis by simp
  next
    case (Inr u)
    obtain r2 s2 where req: "request D Release s1 = (r2, s2)" by fastforce
    note ans = request_answers [OF doc req]
    have q: "p_deferred q = []" "p_aborted q \<noteq> Some Cancelled" using inv by (simp_all add: scope_inv_def)
    show ?thesis
    proof (cases r2)
      case (Inl e)
      obtain e1 s3 where e1: "unknown_commit q (Some p) s2 = (Some e1, s3)" "db s3 = db s2" "marks e1 = marks p"
        using unknown_commit_marks [of q p s2] by blast
      with run None probe Inr req Inl have r: "isl reply" "drop_record q (Some e1) s3 = (enclosing, s')"
        by (auto simp: end_committing_def commit_request_def)
      have "enclosing \<noteq> None \<and> scope_inv b d v levels (the enclosing) (conn D s') acks"
      proof (rule popped_level [OF _ _ q _ _ r(2), where D = D])
        show "durable (conn D s2) = d"
          using ans Inl inv1 None l by (auto simp: answers_release scope_inv_def in_step_def)
        show "p_aborted q = None \<longrightarrow> lost (conn D s2) \<or>
            saved (conn D s2) = levels \<and> \<not> poisoned (conn D s2) \<and> view (conn D s2) = fold (\<lambda>f. f) acks v"
          using ans Inl inv1 None l by (auto simp: answers_release scope_inv_def in_step_def popped_def)
      qed (use e1 p in simp_all)
      with r(1) show ?thesis by simp
    next
      case (Inr u')
      obtain e1 s3 where e1: "replay_record q (Some p) s2 = (Some e1, s3)" "db s3 = db s2" "marks e1 = marks p"
        using replay_record_marks [OF q(1) None, of p s2] by blast
      with run None probe \<open>r1 = Inr u\<close> req Inr have r: "\<not> isl reply" "enclosing = Some e1" "s' = s3"
        by (auto simp: end_committing_def commit_request_def)
      have "levels = [] \<or> durable (conn D s2) = d \<and> saved (conn D s2) = levels \<and> \<not> poisoned (conn D s2) \<and>
          view (conn D s2) = fold (\<lambda>f. f) (acks @ inner) v"
        using ans Inr inv1 None live \<open>r1 = Inr u\<close> l
        by (auto simp: answers_release scope_inv_def in_step_def durable_def split: if_splits)
      with r e1 p l show ?thesis by (simp add: scope_inv_def in_step_def)
    qed
  qed
qed

lemma savepoint_end:
  assumes doc: "documented G b D" and l: "levels \<noteq> []"
    and inv: "scope_inv b d (fold (\<lambda>f. f) acks v) (fold (\<lambda>f. f) acks v # levels) q (conn D s) inner"
    and p: "p_deferred p = []" "p_aborted p = None"
    and run: "scope_end G b D True leaked outcome q (Some p) s = (reply, enclosing, s')"
  shows "enclosing \<noteq> None \<and> scope_inv b d v levels (the enclosing) (conn D s') (if isl reply then acks else acks @ inner)"
proof -
  have q: "snd (take_deferred q) = q" using inv by (simp add: take_deferred_def scope_inv_def)
  consider (leaked) "leaked" | (failed) e where "\<not> leaked" "outcome = Inl e" | (ok) x where "\<not> leaked" "outcome = Inr x"
    by (cases outcome) auto
  then show ?thesis
  proof cases
    case leaked
    with run q have r: "isl reply" "drop_record q (Some (pending_abort Leaked p)) s = (enclosing, s')"
      by (auto simp: scope_end_def end_leaked_transaction_def)
    obtain e' where "enclosing = Some e'" "p_aborted e' = Some Leaked" "p_deferred e' = []" "db s' = db s"
      using r(2) inv p
      by (auto simp: drop_record_def pending_drop_def pending_abort_def scope_inv_def Let_def
          ends_the_connection_transaction_def split: option.splits)
    with r(1) inv show ?thesis by (auto simp: scope_inv_def)
  next
    case failed
    with run q have "isl reply" "drop_record q (Some p) (snd (request D RollbackTo s)) = (enclosing, s')"
      by (auto simp: scope_end_def rollback_request_def)
    with savepoint_rolled_back [OF doc inv p] show ?thesis by simp
  next
    case ok
    then have "end_committing G b D True x q (Some p) s = (reply, enclosing, s')"
      using run q by (simp add: scope_end_def)
    then show ?thesis by (rule savepoint_committing [OF doc l inv p])
  qed
qed

subsection \<open>Running a closure\<close>

lemma begin_savepoint_keeps:
  assumes doc: "documented G b D" and l: "levels \<noteq> []" and inv: "scope_inv b d v levels p (conn D s) acks"
    and run: "begin_savepoint D p s = (reply, p', s')"
  shows "if isl reply then scope_inv b d v levels p' (conn D s') acks
    else p' = p \<and> p_aborted p = None \<and>
      scope_inv b d (fold (\<lambda>f. f) acks v) (fold (\<lambda>f. f) acks v # levels) (pending_new (Some p)) (conn D s') []"
proof (cases "p_aborted p")
  case (Some a)
  with run inv show ?thesis by (auto simp: begin_savepoint_def ensure_transaction_active_def)
next
  case None
  obtain r s1 where req: "request D Savepoint s = (r, s1)" by fastforce
  note ans = request_answers [OF doc req]
  show ?thesis
  proof (cases r)
    case (Inl e)
    with run None req have "isl reply" "p' = pending_abort Pending_Invalidations.Savepoint p" "s' = s1"
      by (auto simp: begin_savepoint_def ensure_transaction_active_def)
    moreover have "durable (conn D s1) = d"
      using ans Inl inv None l by (auto simp: answers_savepoint scope_inv_def in_step_def)
    ultimately show ?thesis using inv None by (auto simp: scope_inv_def)
  next
    case (Inr u)
    with run None req have "\<not> isl reply" "p' = p" "s' = s1"
      by (auto simp: begin_savepoint_def ensure_transaction_active_def)
    with ans Inr inv None l show ?thesis
      by (auto simp: answers_savepoint scope_inv_def in_step_def pending_new_def durable_def split: if_splits)
  qed
qed

definition keeps_inv ::
  "Backend \<Rightarrow> ('s, 'c) driver \<Rightarrow> (('s, 'c, 'u) scope \<Rightarrow> ('s, 'c, 'u) scope) \<Rightarrow> bool" where
  "keeps_inv b D f \<longleftrightarrow>
     (\<forall>d v levels p s acks. levels \<noteq> [] \<longrightarrow> scope_inv b d v levels p (conn D s) acks \<longrightarrow>
        (case f (p, s, acks) of (p', s', acks') \<Rightarrow> scope_inv b d v levels p' (conn D s') acks'))"

lemma keeps_invD:
  "\<lbrakk>keeps_inv b D f; levels \<noteq> []; scope_inv b d v levels p (conn D s) acks; f (p, s, acks) = (p', s', acks')\<rbrakk> \<Longrightarrow>
     scope_inv b d v levels p' (conn D s') acks'"
  by (fastforce simp: keeps_inv_def)

lemma run_all_keeps:
  "(\<And>i. i \<in> set items \<Longrightarrow> keeps_inv b D (run_in_scope G b D i)) \<Longrightarrow> keeps_inv b D (run_all G b D items)"
proof (induction items)
  case (Cons i items)
  then have "keeps_inv b D (run_in_scope G b D i)" "keeps_inv b D (run_all G b D items)" by simp_all
  then show ?case by (fastforce simp: keeps_inv_def)
qed (simp add: keeps_inv_def)

lemma within_keeps:
  fixes D :: "('s, 'c) driver" and items :: "('c, 'u) item list"
  assumes doc: "documented G b D" and inner: "keeps_inv b D (run_all G b D items)"
  shows "keeps_inv b D (run_in_scope G b D (Within items outcome leaked))"
  unfolding keeps_inv_def
proof (intro allI impI)
  fix d v levels and p :: "'u PendingInvalidations" and s :: "('s, 'u) session" and acks
  assume l: "levels \<noteq> []" and inv: "scope_inv b d v levels p (conn D s) acks"
  obtain r p1 s1 where beg: "begin_savepoint D p s = (r, p1, s1)" by (cases "begin_savepoint D p s")
  note begun = begin_savepoint_keeps [OF doc l inv beg]
  show "case run_in_scope G b D (Within items outcome leaked) (p, s, acks) of
      (p', s', acks') \<Rightarrow> scope_inv b d v levels p' (conn D s') acks'"
  proof (cases r)
    case (Inl e)
    with begun beg show ?thesis by simp
  next
    case (Inr u)
    let ?v = "fold (\<lambda>f. f) acks v"
    from begun Inr have p: "p1 = p" "p_aborted p = None" "p_deferred p = []"
      and start: "scope_inv b d ?v (?v # levels) (pending_new (Some p)) (conn D s1) []"
      using inv by (simp_all add: scope_inv_def)
    obtain q s2 inner_acks where run: "run_all G b D items (pending_new (Some p), s1, []) = (q, s2, inner_acks)"
      by (cases "run_all G b D items (pending_new (Some p), s1, [])")
    obtain reply enclosing s3 where fin: "scope_end G b D True leaked outcome q (Some p) s2 = (reply, enclosing, s3)"
      by (cases "scope_end G b D True leaked outcome q (Some p) s2")
    have "scope_inv b d ?v (?v # levels) q (conn D s2) inner_acks"
      by (rule keeps_invD [OF inner _ start run]) simp
    from savepoint_end [OF doc l this p(3,2) fin] show ?thesis
      using beg Inr run fin p(1) by simp
  qed
qed

lemma run_in_scope_keeps:
  assumes doc: "documented G b D"
  shows "keeps_inv b D (run_in_scope G b D i)"
proof (induction i)
  case (Statement f)
  then show ?case
    unfolding keeps_inv_def
    by (auto split: prod.splits dest: statement_keeps [OF doc])
next
  case (UndoStep u)
  then show ?case by (auto simp: keeps_inv_def undo_on_rollback_def intro: scope_inv_marks)
next
  case (Invalidate w)
  then show ?case
    by (auto simp: keeps_inv_def invalidating_def noted_write_Some intro: scope_inv_marks split: prod.splits)
next
  case (Within items outcome leaked)
  then have "keeps_inv b D (run_all G b D items)" by (blast intro: run_all_keeps)
  then show ?case by (rule within_keeps [OF doc])
qed

subsection \<open>Transactions commit what they report, or nothing\<close>

lemma drop_record_db: "db (snd (drop_record p enclosing s)) = db s"
  by (simp add: drop_record_def split: prod.splits)

lemma replay_record_db: "db (snd (replay_record p enclosing s)) = db s"
  by (simp add: replay_record_def split: prod.splits)

lemma unknown_commit_db: "db (snd (unknown_commit p enclosing s)) = db s"
  by (simp add: unknown_commit_def split: prod.splits)

lemma top_committing:
  assumes doc: "documented G b D" and inv: "scope_inv b d d [d] p (conn D s) acks"
    and run: "end_committing G b D False x p None s = (reply, enclosing, s')"
  shows "case reply of
      Inr y \<Rightarrow> y = x \<and> \<not> lost (conn D s') \<and> \<not> poisoned (conn D s') \<and> saved (conn D s') = [] \<and> view (conn D s') = fold (\<lambda>f. f) acks d
    | Inl e \<Rightarrow> durable (conn D s') = d \<or> lost (conn D s') \<and> durable (conn D s') = fold (\<lambda>f. f) acks d"
proof (cases "p_aborted p")
  case (Some a)
  let ?s = "snd (request D Rollback s)"
  have "durable (conn D ?s) = d"
    using rollback_keeps_durable [OF doc, of False s] inv by (simp add: rollback_request_def scope_inv_def)
  with Some run show ?thesis
    by (auto simp: end_committing_def rollback_request_def drop_record_db [of p None ?s, symmetric])
next
  case None
  obtain r1 s1 where probe: "(if p_statement_failed p then ensure_transaction_can_commit G b D s else (Inr (), s)) = (r1, s1)"
    by fastforce
  note inv1 = passed_probe(1) [OF doc _ inv None probe, simplified]
  note live = passed_probe(2) [OF doc _ inv None probe, simplified]
  show ?thesis
  proof (cases r1)
    case (Inl e)
    let ?s = "snd (request D Rollback s1)"
    have "durable (conn D ?s) = d"
      using rollback_keeps_durable [OF doc, of False s1] inv1 by (simp add: rollback_request_def scope_inv_def)
    with Inl None run probe show ?thesis
      by (auto simp: end_committing_def rollback_request_def drop_record_db [of p None ?s, symmetric])
  next
    case (Inr u)
    have c1: "durable (conn D s1) = d"
      "lost (conn D s1) \<or> saved (conn D s1) = [d] \<and> \<not> poisoned (conn D s1) \<and> view (conn D s1) = fold (\<lambda>f. f) acks d"
      using inv1 None live Inr by (auto simp: scope_inv_def in_step_def split: if_splits)
    obtain r2 s2 where req: "request D Commit s1 = (r2, s2)" by fastforce
    note ans = request_answers [OF doc req]
    show ?thesis
    proof (cases r2)
      case (Inl e)
      have "durable (conn D s2) = d \<or> lost (conn D s2) \<and> durable (conn D s2) = fold (\<lambda>f. f) acks d"
        using ans Inl c1 by (auto simp: answers_commit)
      moreover have "isl reply" "db s' = db s2"
        using run None probe \<open>r1 = Inr u\<close> req Inl
        by (auto simp: end_committing_def commit_request_def split: prod.splits)
          (metis drop_record_db unknown_commit_db snd_conv)
      ultimately show ?thesis by (auto split: sum.splits)
    next
      case (Inr u')
      have "\<not> lost (conn D s2)" "\<not> poisoned (conn D s2)" "saved (conn D s2) = []" "view (conn D s2) = fold (\<lambda>f. f) acks d"
        using ans Inr c1(2) by (auto simp: answers_commit)
      moreover have "reply = Inr x" "db s' = db s2"
        using run None probe \<open>r1 = Inr u\<close> req Inr
        by (auto simp: end_committing_def commit_request_def split: prod.splits)
          (metis replay_record_db snd_conv)
      ultimately show ?thesis by simp
    qed
  qed
qed

lemma leaked_keeps_durable:
  assumes "documented G b D"
  shows "durable (conn D (snd (end_leaked_transaction G b D nested s))) = durable (conn D s)"
proof -
  obtain r s1 where req: "request D Rollback s = (r, s1)" by fastforce
  note ans = request_answers [OF assms req]
  note ans' = snd_request_answers [OF assms, of Begin s1]
  show ?thesis
  proof (cases r)
    case (Inr u)
    then have "durable (conn D s1) = durable (conn D s)" "saved (conn D s1) = [] \<and> \<not> lost (conn D s1)"
      using ans by (auto simp: answers_rollback)
    with ans' have "durable (conn D (snd (request D Begin s1))) = durable (conn D s)"
      by (auto simp: answers_begin durable_def rolled_back_def)
    with Inr req show ?thesis by (auto simp: end_leaked_transaction_def)
  qed (use ans req in \<open>auto simp: end_leaked_transaction_def answers_rollback\<close>)
qed

lemma top_end:
  assumes doc: "documented G b D" and inv: "scope_inv b d d [d] p (conn D s) acks"
    and run: "scope_end G b D False leaked outcome p None s = (reply, enclosing, s')"
  shows "case reply of
      Inr y \<Rightarrow> outcome = Inr y \<and> \<not> leaked \<and> \<not> lost (conn D s') \<and> \<not> poisoned (conn D s') \<and> saved (conn D s') = [] \<and>
        view (conn D s') = fold (\<lambda>f. f) acks d
    | Inl e \<Rightarrow> durable (conn D s') = d \<or>
        \<not> isl outcome \<and> lost (conn D s') \<and> durable (conn D s') = fold (\<lambda>f. f) acks d"
proof -
  have p: "snd (take_deferred p) = p" using inv by (simp add: take_deferred_def scope_inv_def)
  have d: "durable (conn D s) = d" using inv by (simp add: scope_inv_def)
  consider (leaked) "leaked" | (failed) e where "\<not> leaked" "outcome = Inl e" | (ok) x where "\<not> leaked" "outcome = Inr x"
    by (cases outcome) auto
  then show ?thesis
  proof cases
    case leaked
    obtain rb s1 where l: "end_leaked_transaction G b D False s = (rb, s1)" by fastforce
    with leaked run p have "isl reply" "db s' = db s1"
      by (auto simp: scope_end_def) (metis drop_record_db snd_conv)
    with leaked_keeps_durable [OF doc, of False s] l d show ?thesis by (auto split: sum.splits)
  next
    case failed
    with run p have "isl reply" "db s' = db (snd (request D Rollback s))"
      by (auto simp: scope_end_def rollback_request_def) (metis drop_record_db snd_conv)
    with rollback_keeps_durable [OF doc, of False s] d show ?thesis
      by (auto simp: rollback_request_def split: sum.splits)
  next
    case ok
    then have "end_committing G b D False x p None s = (reply, enclosing, s')"
      using run p by (simp add: scope_end_def)
    from top_committing [OF doc inv this] ok show ?thesis by (auto split: sum.splits)
  qed
qed

text \<open>The abstract transaction: either everything the closure was told of, or nothing.\<close>

lemma transaction_refines:
  assumes doc: "documented G b D" and clo: "closure G b D f" and out: "saved (conn D s) = []" "\<not> poisoned (conn D s)"
    and run: "transaction G b D f leaked s = (result, s', acks)"
  shows "case result of
      Inr y \<Rightarrow> \<not> leaked \<and> \<not> lost (conn D s') \<and> \<not> poisoned (conn D s') \<and> saved (conn D s') = [] \<and> view (conn D s') = fold (\<lambda>f. f) acks (view (conn D s))
    | Inl e \<Rightarrow> durable (conn D s') = view (conn D s) \<or>
        lost (conn D s') \<and> durable (conn D s') = fold (\<lambda>f. f) acks (view (conn D s))"
    and "\<not> isl result \<or> durable (conn D s') \<noteq> view (conn D s) \<Longrightarrow>
      \<exists>p1 s1 y p2 s2. f (p1, s1, []) = (Inr y, p2, s2, acks)"
proof -
  let ?claim = "(case result of
      Inr y \<Rightarrow> \<not> leaked \<and> \<not> lost (conn D s') \<and> \<not> poisoned (conn D s') \<and> saved (conn D s') = [] \<and> view (conn D s') = fold (\<lambda>f. f) acks (view (conn D s))
    | Inl e \<Rightarrow> durable (conn D s') = view (conn D s) \<or>
        lost (conn D s') \<and> durable (conn D s') = fold (\<lambda>f. f) acks (view (conn D s))) \<and>
    (\<not> isl result \<or> durable (conn D s') \<noteq> view (conn D s) \<longrightarrow>
      (\<exists>p1 s1 y p2 s2. f (p1, s1, []) = (Inr y, p2, s2, acks)))"
  obtain r s1 where req: "request D Begin s = (r, s1)" by fastforce
  note ans = request_answers [OF doc req]
  have ?claim
  proof (cases r)
    case (Inl e)
    with ans out have "durable (conn D s1) = view (conn D s)"
      by (auto simp: answers_begin durable_def rolled_back_def)
    with Inl req run show ?thesis by (auto simp: transaction_def)
  next
    case (Inr u)
    let ?d = "view (conn D s)"
    from ans Inr out have start: "scope_inv b ?d ?d [?d] (pending_new None) (conn D s1) []"
      by (auto simp: answers_begin scope_inv_def in_step_def durable_def pending_new_def)
    obtain outcome p s2 acks' where f: "f (pending_new None, s1, []) = (outcome, p, s2, acks')"
      by (metis prod_cases4)
    with clo obtain items where "run_all G b D items (pending_new None, s1, []) = (p, s2, acks')"
      unfolding closure_def by (metis snd_conv)
    from keeps_invD [OF run_all_keeps [OF run_in_scope_keeps [OF doc]] _ start this]
    have inv: "scope_inv b ?d ?d [?d] p (conn D s2) acks'" by simp
    obtain reply enclosing s3 where fin: "scope_end G b D False leaked outcome p None s2 = (reply, enclosing, s3)"
      by (metis prod_cases3)
    with run req Inr f have "result = reply" "s' = s3" "acks = acks'" by (auto simp: transaction_def)
    moreover have "\<exists>p1 s1 y p2 s2. f (p1, s1, []) = (Inr y, p2, s2, acks')" if "\<not> isl outcome"
      using f that by (metis sum.collapse(2))
    ultimately show ?thesis using top_end [OF doc inv fin] by (cases outcome) (auto split: sum.splits)
  qed
  then show "case result of
      Inr y \<Rightarrow> \<not> leaked \<and> \<not> lost (conn D s') \<and> \<not> poisoned (conn D s') \<and> saved (conn D s') = [] \<and> view (conn D s') = fold (\<lambda>f. f) acks (view (conn D s))
    | Inl e \<Rightarrow> durable (conn D s') = view (conn D s) \<or>
        lost (conn D s') \<and> durable (conn D s') = fold (\<lambda>f. f) acks (view (conn D s))"
    and "\<not> isl result \<or> durable (conn D s') \<noteq> view (conn D s) \<Longrightarrow>
      \<exists>p1 s1 y p2 s2. f (p1, s1, []) = (Inr y, p2, s2, acks)" by blast+
qed

text \<open>C1. Whatever the database and its driver do within their documented behaviour, a transaction
  refines an atomic step. When it reports success, exactly the statements and savepoints its closure was told
  had succeeded are in effect, in their order, no transaction is left open and no handle leaked; when
  it reports an error, nothing of the closure is durable, unless the connection was lost while it
  committed, and then all of it is.\<close>

theorem transaction_all_or_nothing:
  assumes "documented G b D" and "closure G b D f"
    and "saved (seen D (db s)) = []" and "\<not> poisoned (seen D (db s))"
  shows "case transaction G b D f leaked s of
      (Inr y, s', acks) \<Rightarrow> \<not> leaked \<and> \<not> lost (seen D (db s')) \<and> saved (seen D (db s')) = [] \<and>
        view (seen D (db s')) = fold (\<lambda>f. f) acks (view (seen D (db s)))
    | (Inl e, s', acks) \<Rightarrow> durable (seen D (db s')) = view (seen D (db s)) \<or>
        lost (seen D (db s')) \<and> durable (seen D (db s')) = fold (\<lambda>f. f) acks (view (seen D (db s)))"
proof -
  obtain result s' acks where run: "transaction G b D f leaked s = (result, s', acks)" by (metis prod_cases3)
  from transaction_refines(1) [OF assms run] run show ?thesis by (cases result) simp_all
qed

text \<open>An instance: a PostgreSQL server that refuses statements leading to contents it does not allow.\<close>

definition refusal :: OrmError where
  "refusal = OrmOther (lit ''odd'')"

definition plain_engine :: engine where
  "plain_engine = \<lparr>orm_text = (\<lambda>_. lit ''cannot start a transaction within a transaction''), acquire_text = (\<lambda>_. [])\<rparr>"

fun guarded_send :: "('c \<Rightarrow> bool) \<Rightarrow> 'c request \<Rightarrow> 'c server \<Rightarrow> (OrmError + unit) \<times> 'c server" where
  "guarded_send allowed r c =
     (if lost c then (Inl refusal, c) else
      case r of
        Execute f \<Rightarrow> if poisoned c \<or> \<not> allowed (f (view c)) then (Inl refusal, c\<lparr>poisoned := saved c \<noteq> []\<rparr>)
                     else (Inr (), c\<lparr>view := f (view c)\<rparr>)
      | Begin \<Rightarrow> if saved c = [] then (Inr (), c\<lparr>saved := [view c]\<rparr>) else (Inl refusal, c)
      | request.Savepoint \<Rightarrow> if saved c = [] then (Inl refusal, c)
                     else if poisoned c then (Inl refusal, popped c)
                     else (Inr (), c\<lparr>saved := view c # saved c\<rparr>)
      | Commit \<Rightarrow> if poisoned c \<or> length (saved c) \<noteq> 1 then (Inr (), rolled_back c) else (Inr (), c\<lparr>saved := []\<rparr>)
      | Release \<Rightarrow> if poisoned c \<or> length (saved c) < 2 then (Inl refusal, popped c)
                   else (Inr (), c\<lparr>saved := tl (saved c)\<rparr>)
      | Rollback \<Rightarrow> (Inr (), rolled_back c)
      | RollbackTo \<Rightarrow> (Inr (), popped c))"

definition guarded_server :: "('c \<Rightarrow> bool) \<Rightarrow> ('c server, 'c) driver" where
  "guarded_server allowed = \<lparr>seen = (\<lambda>c. c), send = guarded_send allowed\<rparr>"

lemma find_str_self: "find_str pat pat = Some 0"
  by (cases pat) simp_all

lemma guarded_server_documented: "documented plain_engine PgBackend (guarded_server allowed)"
proof -
  have "nested_begin plain_engine refusal"
    by (simp add: nested_begin_def plain_engine_def contains_def find_str_self)
  then have "answers plain_engine PgBackend r c (fst (guarded_send allowed r c)) (snd (guarded_send allowed r c))" for r c
    by (cases r) (auto simp: answers_execute answers_begin answers_savepoint answers_commit answers_release
        answers_rollback answers_rollback_to refusal_def Suc_le_eq not_less length_Suc_conv)
  then show ?thesis by (simp add: documented_def guarded_server_def)
qed

definition session_on :: "'c \<Rightarrow> ('c server, unit) session" where
  "session_on n = \<lparr>db = \<lparr>view = n, saved = [], poisoned = False, lost = False\<rparr>,
     tx_cache = QueryCache_new, undone = []\<rparr>"

text \<open>A closure on an even number that adds two and catches the error of a statement the server refuses.\<close>

definition even_closure :: "(nat server, nat, unit) scope \<Rightarrow> (Error + unit) \<times> (nat server, nat, unit) scope" where
  "even_closure st = (Inr (), run_all plain_engine PgBackend (guarded_server even) [Statement (\<lambda>n. n + 2), Statement Suc] st)"

lemma even_closure: "closure plain_engine PgBackend (guarded_server even) even_closure"
  unfolding closure_def even_closure_def snd_conv by blast

lemmas transaction_eval = transaction_def request_def pending_new_def execute_unprepared_def
  ensure_transaction_active_def check_sqlite_failure_def note_failure_def note_failed_statement_def
  scope_end_def end_committing_def take_deferred_def ensure_transaction_can_commit_def drop_record_def
  pending_drop_def rollback_request_def commit_request_def rolled_back_def durable_def

lemma refusal_not_deadlock: "\<not> is_deadlock refusal"
  by (simp add: is_deadlock_def refusal_def driver_failure_def)

theorem transaction_all_or_nothing_witness:
  "(case transaction plain_engine PgBackend (guarded_server even) even_closure False (session_on 4) of
      (Inr y, s', acks) \<Rightarrow> False | (Inl e, s', acks) \<Rightarrow> acks \<noteq> [] \<and> view (db s') = 4)"
  using transaction_all_or_nothing [OF guarded_server_documented even_closure, of "session_on (4 :: nat)" False]
  by (simp add: session_on_def even_closure_def guarded_server_def refusal_not_deadlock Let_def transaction_eval)

subsection \<open>Transactions that go through\<close>

text \<open>A database that refuses nothing; a second \<open>BEGIN\<close> inside a transaction is an error on SQLite.\<close>

definition reliable :: "('s, 'c) driver \<Rightarrow> bool" where
  "reliable D \<longleftrightarrow> (\<forall>r s. (r = Begin \<longrightarrow> saved (seen D s) = []) \<longrightarrow> \<not> isl (fst (send D r s)))"

lemma reliable_request:
  assumes "reliable D" "r = Begin \<Longrightarrow> saved (seen D (db s)) = []"
  shows "\<exists>s'. request D r s = (Inr (), s')"
proof -
  obtain a d where send: "send D r (db s) = (a, d)" by fastforce
  then have "\<not> isl a" using assms unfolding reliable_def by (metis fst_conv)
  then have "a = Inr ()" by (cases a) auto
  with send show ?thesis by (simp add: request_def)
qed

lemma take_none: "p_deferred p = [] \<Longrightarrow> snd (take_deferred p) = p"
  by (simp add: take_deferred_def)

text \<open>No handle outlives a savepoint of the closure; and the effects the closure keeps.\<close>

fun intact :: "('c, 'u) item \<Rightarrow> bool" where
  "intact (Within items outcome leaked) \<longleftrightarrow> \<not> leaked \<and> list_all intact items"
| "intact _ \<longleftrightarrow> True"

fun kept_effects :: "('c, 'u) item \<Rightarrow> ('c \<Rightarrow> 'c) list" where
  "kept_effects (Statement f) = [f]"
| "kept_effects (Within items outcome leaked) = (if isl outcome then [] else concat (map kept_effects items))"
| "kept_effects _ = []"

abbreviation clean :: "'u PendingInvalidations \<Rightarrow> bool" where
  "clean p \<equiv> marks p = ([], None, False)"

definition smooth :: "('s, 'c, 'u) scope \<Rightarrow> ('c \<Rightarrow> 'c) list \<Rightarrow> ('s, 'c, 'u) scope \<Rightarrow> bool" where
  "smooth st effects st' \<longleftrightarrow> (clean (fst st) \<longrightarrow> clean (fst st') \<and> snd (snd st') = snd (snd st) @ effects)"

lemma clean_end:
  assumes "reliable D" "clean q"
  shows "\<exists>enclosing s'. scope_end G b D nested False outcome q e s = (outcome, enclosing, s') \<and>
    (\<forall>p. e = Some p \<and> clean p \<longrightarrow> (\<exists>p'. enclosing = Some p' \<and> clean p'))"
proof (cases outcome)
  case (Inl err)
  obtain s1 where "request D (rollback_request nested) s = (Inr (), s1)" using reliable_request [OF assms(1), of "rollback_request nested" s]
    by (cases nested) (auto simp: rollback_request_def)
  with assms(2) Inl show ?thesis
    by (cases e) (auto simp: scope_end_def take_deferred_def drop_record_def pending_drop_def)
next
  case (Inr x)
  obtain s1 where s1: "request D (commit_request nested) s = (Inr (), s1)"
    using reliable_request [OF assms(1), of "commit_request nested" s] by (cases nested) (auto simp: commit_request_def)
  obtain enclosing s' where r: "replay_record q e s1 = (enclosing, s')" by fastforce
  have "\<exists>p'. enclosing = Some p' \<and> clean p'" if "e = Some p" "clean p" for p
    using replay_record_marks [of q p s1] assms(2) that r by auto
  moreover have "scope_end G b D nested False outcome q e s = (outcome, enclosing, s')"
    using assms(2) Inr s1 r by (simp add: scope_end_def take_none end_committing_def)
  ultimately show ?thesis by blast
qed

lemma run_all_smooth:
  assumes "\<And>i st. i \<in> set items \<Longrightarrow> intact i \<Longrightarrow> smooth st (kept_effects i) (run_in_scope G b D i st)"
  shows "list_all intact items \<Longrightarrow> smooth st (concat (map kept_effects items)) (run_all G b D items st)"
  using assms
proof (induction items arbitrary: st)
  case (Cons i items)
  have "smooth st (kept_effects i) (run_in_scope G b D i st)" using Cons.prems by simp
  moreover have "smooth (run_in_scope G b D i st) (concat (map kept_effects items)) (run_all G b D (i # items) st)"
    using Cons.IH Cons.prems by simp
  ultimately show ?case by (auto simp: smooth_def)
qed (simp add: smooth_def)

lemma run_in_scope_smooth:
  assumes rel: "reliable D"
  shows "intact i \<Longrightarrow> smooth st (kept_effects i) (run_in_scope G b D i st)"
proof (induction i arbitrary: st)
  case (Statement f)
  obtain p s acks where st: "st = (p, s, acks)" by (metis prod_cases3)
  obtain s1 where "request D (Execute f) s = (Inr (), s1)" using reliable_request [OF rel] by fastforce
  with st show ?case
    by (simp add: smooth_def execute_unprepared_def ensure_transaction_active_def check_sqlite_failure_def)
next
  case (UndoStep u)
  then show ?case by (cases st) (simp add: smooth_def undo_on_rollback_def)
next
  case (Invalidate w)
  then show ?case by (cases st) (auto simp: smooth_def invalidating_def noted_write_Some)
next
  case (Within items outcome leaked)
  obtain p s acks where st: "st = (p, s, acks)" by (metis prod_cases3)
  obtain s1 where s1: "request D request.Savepoint s = (Inr (), s1)" using reliable_request [OF rel] by fastforce
  obtain q s2 inner where run: "run_all G b D items (pending_new (Some p), s1, []) = (q, s2, inner)" by (metis prod_cases3)
  have "smooth (pending_new (Some p), s1, []) (concat (map kept_effects items)) (q, s2, inner)"
    unfolding run [symmetric] using Within by (intro run_all_smooth) simp_all
  then have q: "clean q" "inner = concat (map kept_effects items)" by (simp_all add: smooth_def pending_new_def)
  from clean_end [OF rel q(1), of G b True outcome "Some p" s2] obtain enclosing s3 where
    fin: "scope_end G b D True False outcome q (Some p) s2 = (outcome, enclosing, s3)"
    and rest: "\<forall>p'. Some p = Some p' \<and> clean p' \<longrightarrow> (\<exists>p''. enclosing = Some p'' \<and> clean p'')" by (elim exE conjE)
  from rest have "clean p \<Longrightarrow> \<exists>p'. enclosing = Some p' \<and> clean p'" by simp
  with fin st s1 run q(2) Within.prems show ?case
    by (auto simp: smooth_def begin_savepoint_def ensure_transaction_active_def)
qed

text \<open>C36. When the database refuses nothing and no handle outlives its scope, a transaction returns its
  closure's value and commits: no transaction is left open, and the database holds what it held
  before with the effects of all the closure's statements applied in their order, those of
  savepoints rolled back by their own outcome excepted. The guards never refuse a healthy
  transaction.\<close>

theorem transaction_goes_through:
  assumes "documented G b D" and "reliable D" and "list_all intact items"
    and "saved (seen D (db s)) = []" and "\<not> poisoned (seen D (db s))"
  shows "case transaction G b D (\<lambda>st. (Inr x, run_all G b D items st)) False s of (result, s', _) \<Rightarrow>
    result = Inr x \<and> \<not> lost (seen D (db s')) \<and> saved (seen D (db s')) = [] \<and>
    view (seen D (db s')) = fold (\<lambda>f. f) (concat (map kept_effects items)) (view (seen D (db s)))"
proof -
  let ?f = "\<lambda>st. (Inr x, run_all G b D items st)"
  obtain s1 where s1: "request D Begin s = (Inr (), s1)" using reliable_request [OF assms(2)] assms(4) by blast
  obtain q s2 acks where run: "run_all G b D items (pending_new None, s1, []) = (q, s2, acks)" by (metis prod_cases3)
  have "smooth (pending_new None, s1, []) (concat (map kept_effects items)) (q, s2, acks)"
    unfolding run [symmetric] by (rule run_all_smooth [OF run_in_scope_smooth [OF assms(2)] assms(3)])
  then have q: "clean q" "acks = concat (map kept_effects items)" by (simp_all add: smooth_def pending_new_def)
  from clean_end [OF assms(2) q(1), of G b False "Inr x" None s2] obtain enclosing s3 where
    "scope_end G b D False False (Inr x) q None s2 = (Inr x, enclosing, s3)" by (elim exE conjE)
  with s1 run q have out: "transaction G b D ?f False s = (Inr x, s3, concat (map kept_effects items))"
    by (simp add: transaction_def)
  moreover have "closure G b D ?f" unfolding closure_def snd_conv by blast
  ultimately show ?thesis using transaction_refines(1) [OF assms(1) _ assms(4,5) out] by simp
qed

text \<open>An instance: an SQLite connection on which every statement succeeds.\<close>

fun steady_send :: "'c request \<Rightarrow> 'c \<times> 'c list \<Rightarrow> (OrmError + unit) \<times> 'c \<times> 'c list" where
  "steady_send (Execute f) (v, vs) = (Inr (), f v, vs)"
| "steady_send Begin (v, vs) = (if vs = [] then (Inr (), v, [v]) else (Inl refusal, v, vs))"
| "steady_send request.Savepoint (v, vs) = (Inr (), v, v # vs)"
| "steady_send Commit (v, vs) = (Inr (), v, [])"
| "steady_send Release (v, vs) = (Inr (), v, tl vs)"
| "steady_send Rollback (v, vs) = (Inr (), if vs = [] then v else last vs, [])"
| "steady_send RollbackTo (v, vs) = (Inr (), if vs = [] then (v, vs) else (hd vs, tl vs))"

definition steady_server :: "('c \<times> 'c list, 'c) driver" where
  "steady_server = \<lparr>seen = (\<lambda>(v, vs). \<lparr>view = v, saved = vs, poisoned = False, lost = False\<rparr>), send = steady_send\<rparr>"

lemma steady_server_documented: "documented plain_engine SqliteBackend (steady_server :: ('c \<times> 'c list, 'c) driver)"
proof -
  have "nested_begin plain_engine refusal"
    by (simp add: nested_begin_def plain_engine_def contains_def find_str_self)
  then have "answers plain_engine SqliteBackend r \<lparr>view = v, saved = vs, poisoned = False, lost = False\<rparr> (fst (steady_send r (v, vs)))
      (case snd (steady_send r (v, vs)) of (v', vs') \<Rightarrow> \<lparr>view = v', saved = vs', poisoned = False, lost = False\<rparr>)"
    for r and v :: 'c and vs
    by (cases r) (auto simp: answers_execute answers_begin answers_savepoint answers_commit answers_release
        answers_rollback answers_rollback_to rolled_back_def popped_def durable_def length_Suc_conv split: list.split)
  then show ?thesis by (simp add: documented_def steady_server_def prod.case_eq_if)
qed

lemma steady_server_reliable: "reliable steady_server"
proof -
  have "\<not> isl (fst (steady_send r s))" if "r = Begin \<longrightarrow> snd s = []" for r and s :: "'a \<times> 'a list"
    using that by (cases s; cases r) auto
  then show ?thesis by (auto simp: reliable_def steady_server_def)
qed

theorem transaction_goes_through_witness:
  "case transaction plain_engine SqliteBackend steady_server
      (\<lambda>st. (Inr (), run_all plain_engine SqliteBackend steady_server
         [Statement (\<lambda>n. n + 2), Within [Statement Suc] (Inl (query [])) False,
          Within [Statement (\<lambda>n. 2 * n)] (Inr ()) False, UndoStep ()] st)) False
      \<lparr>db = (4 :: nat, []), tx_cache = QueryCache_new, undone = []\<rparr> of (result, s', _) \<Rightarrow>
    result = Inr () \<and> db s' = (12, [])"
  using transaction_goes_through [OF steady_server_documented steady_server_reliable,
      of "[Statement (\<lambda>n. n + 2), Within [Statement Suc] (Inl (query [])) False,
          Within [Statement (\<lambda>n. 2 * n)] (Inr ()) False, UndoStep ()]"
        "\<lparr>db = (4 :: nat, []), tx_cache = QueryCache_new, undone = []\<rparr>" "()"]
  by (auto simp: steady_server_def split: prod.splits)

end
