(* ===== verification/Config_Database.thy ===== *)
theory Config_Database
  imports Tide_Prelude
begin

text \<open>
  The configured backend of \<open>src/src/config/database.rs\<close> and the capability questions asked of
  it, with \<open>placeholder\<close> of \<open>src/src/internal/mod.rs\<close>, the marker a backend uses for the n-th
  bound value.
\<close>

datatype DatabaseType = Postgres | MySQL | MariaDB | SQLite

definition supports_arrays :: "DatabaseType \<Rightarrow> bool" where
  "supports_arrays db = (db = Postgres)"

fun supports_returning :: "DatabaseType \<Rightarrow> bool" where
  "supports_returning Postgres = True"
| "supports_returning MySQL = False"
| "supports_returning MariaDB = False"
| "supports_returning SQLite = True"

fun optimal_batch_size :: "DatabaseType \<Rightarrow> nat" where
  "optimal_batch_size Postgres = 1000"
| "optimal_batch_size MySQL = 500"
| "optimal_batch_size MariaDB = 500"
| "optimal_batch_size SQLite = 100"

fun quote_char :: "DatabaseType \<Rightarrow> uchar" where
  "quote_char Postgres = ch_dquote"
| "quote_char SQLite = ch_dquote"
| "quote_char MySQL = ch_backtick"
| "quote_char MariaDB = ch_backtick"

text \<open>\<open>url.split_once("://")\<close> splits at the first occurrence.\<close>

definition split_once :: "ustr \<Rightarrow> ustr \<Rightarrow> (ustr \<times> ustr) option" where
  "split_once pat s =
     map_option (\<lambda>n. (take n s, drop (n + length pat) s)) (find_str pat s)"

definition rewrite_driver_url :: "ustr \<Rightarrow> ustr" where
  "rewrite_driver_url url =
     (case split_once (lit ''://'') url of
        Some (scheme, remainder) \<Rightarrow>
          if eq_ignore_ascii_case scheme (lit ''mariadb'') then lit ''mysql://'' @ remainder
          else url
      | None \<Rightarrow> url)"

fun display_database :: "DatabaseType \<Rightarrow> ustr" where
  "display_database Postgres = lit ''PostgreSQL''"
| "display_database MySQL = lit ''MySQL''"
| "display_database MariaDB = lit ''MariaDB''"
| "display_database SQLite = lit ''SQLite''"

fun placeholder :: "DatabaseType \<Rightarrow> nat \<Rightarrow> ustr" where
  "placeholder Postgres index = ch_dollar # show_nat index"
| "placeholder MySQL index = [ch_question]"
| "placeholder MariaDB index = [ch_question]"
| "placeholder SQLite index = [ch_question]"

lemma quote_char_cases: "quote_char db = ch_dquote \<or> quote_char db = ch_backtick"
  by (cases db) auto

lemma quote_char_neq [simp]:
  "quote_char db \<noteq> ch_quote" "quote_char db \<noteq> ch_lbracket" "quote_char db \<noteq> ch_backslash"
  "quote_char db \<noteq> ch_rbracket"
  by (cases db; simp)+

end
