(* ===== verification/Sql_Lexer.thy ===== *)
theory Sql_Lexer
  imports Config_Database
begin

text \<open>
  The lexical scanner of \<open>src/src/internal/sql_lexer.rs\<close>, which every inspection of SQL text
  shares. Rust slices the text by byte offsets that always fall on character boundaries; here
  a length counts characters and a slice is \<open>take\<close> or \<open>drop\<close>, while a token's \<open>start\<close> stays the
  byte offset the source stores. The iterator \<open>scan\<close> returns is the list of the tokens it
  yields. The characters before the current offset are kept reversed, for the look behind at
  a PostgreSQL \<open>E'...'\<close> string.
\<close>

subsection \<open>Tokens\<close>

datatype Kind = KWord | KIdentifier | KLiteral | KComment | KSpace | KSymbol | KParameter

record Token =
  tok_text :: ustr
  tok_start :: nat
  tok_kind :: Kind

definition is_word :: "Token \<Rightarrow> ustr list \<Rightarrow> bool" where
  "is_word t words \<longleftrightarrow>
     tok_kind t = KWord \<and> list_ex (\<lambda>w. eq_ignore_ascii_case (tok_text t) w) words"

definition is_symbol :: "Token \<Rightarrow> ustr list \<Rightarrow> bool" where
  "is_symbol t symbols \<longleftrightarrow> tok_kind t = KSymbol \<and> tok_text t \<in> set symbols"

definition unquoted :: "Token \<Rightarrow> ustr option" where
  "unquoted t =
     (let s = tok_text t in
      if tok_kind t \<noteq> KIdentifier \<and>
         \<not> (tok_kind t = KLiteral \<and> starts_with s [ch_quote])
      then Some s
      else (case s of
          [] \<Rightarrow> None
        | c # _ \<Rightarrow>
            (let close = (if c = ch_lbracket then ch_rbracket else c) in
             if last s \<noteq> close then None
             else if butlast s = [] then None
             else Some (replace [close, close] [close] (tl (butlast s))))))"

subsection \<open>Quoted runs\<close>

datatype EscapeMode = Doubled | Backslash | RejectAmbiguous

datatype QuotedRun = Closed | Unterminated | AmbiguousEscape

text \<open>\<open>chars.peek()\<close> compared with a character.\<close>

definition peek_is :: "(nat \<times> uchar) list \<Rightarrow> uchar \<Rightarrow> bool" where
  "peek_is chars c = (case chars of [] \<Rightarrow> False | (_, d) # _ \<Rightarrow> d = c)"

fun quoted_end ::
  "(nat \<times> uchar) list \<Rightarrow> uchar \<Rightarrow> EscapeMode \<Rightarrow> nat \<Rightarrow> (uchar \<Rightarrow> nat) \<Rightarrow> nat \<times> QuotedRun" where
  "quoted_end [] close mode fin width = (fin, Unterminated)"
| "quoted_end ((index, ch) # chars) close mode fin width =
     (if ch = ch_backslash \<and> mode \<noteq> Doubled then
        if mode = RejectAmbiguous then
          if peek_is chars close then (index, AmbiguousEscape)
          else if peek_is chars ch_backslash then quoted_end (tl chars) close mode fin width
          else quoted_end chars close mode fin width
        else quoted_end (tl chars) close mode fin width
      else if ch = close then
        if peek_is chars close then quoted_end (tl chars) close mode fin width
        else (index + width ch, Closed)
      else quoted_end chars close mode fin width)"

definition quoted_len :: "ustr \<Rightarrow> uchar \<Rightarrow> bool \<Rightarrow> nat" where
  "quoted_len sql delimiter backslash =
     (let close = (if delimiter = ch_lbracket then ch_rbracket else delimiter);
          mode = (if backslash then Backslash else Doubled)
      in fst (quoted_end (tl (enumerate 0 sql)) close mode (length sql) (\<lambda>_. 1)))"

subsection \<open>Comments, parameters, dollar quotes\<close>

definition identifier_char :: "unicode \<Rightarrow> uchar \<Rightarrow> bool" where
  "identifier_char U c \<longleftrightarrow> c = ch_underscore \<or> c = ch_dollar \<or> is_alphanumeric U c"

lemma lit_delimiters [simp]:
  "lit ''--'' = [ch_minus, ch_minus]" "lit ''/*'' = [ch_slash, ch_star]"
  "lit ''*/'' = [ch_star, ch_slash]" "lit ''::'' = [ch_colon, ch_colon]"
  by (simp_all add: lit_def)

fun block_comment_loop :: "ustr \<Rightarrow> bool \<Rightarrow> nat \<Rightarrow> nat \<Rightarrow> nat" where
  "block_comment_loop [] nested depth pos = pos"
| "block_comment_loop (c # s) nested depth pos =
     (if nested \<and> prefix (lit ''/*'') (c # s) then
        block_comment_loop (tl s) nested (depth + 1) (pos + 2)
      else if prefix (lit ''*/'') (c # s) then
        (if depth - 1 = 0 then pos + 2
         else block_comment_loop (tl s) nested (depth - 1) (pos + 2))
      else block_comment_loop s nested depth (pos + 1))"

definition block_comment_len :: "ustr \<Rightarrow> bool \<Rightarrow> nat" where
  "block_comment_len sql nested = block_comment_loop (drop 2 sql) nested 1 2"

fun parameter_suffix_loop :: "ustr \<Rightarrow> nat \<Rightarrow> nat" where
  "parameter_suffix_loop [] pos = pos"
| "parameter_suffix_loop (c # s) pos =
     (if is_ascii_whitespace c then pos
      else if c = ch_rparen then pos + 1
      else parameter_suffix_loop s (pos + 1))"

fun sqlite_parameter_loop :: "unicode \<Rightarrow> ustr \<Rightarrow> bool \<Rightarrow> nat \<Rightarrow> nat" where
  "sqlite_parameter_loop U [] has_name pos = pos"
| "sqlite_parameter_loop U (c # s) has_name pos =
     (if identifier_char U c \<or> \<not> is_ascii c then sqlite_parameter_loop U s True (pos + 1)
      else if prefix (lit ''::'') (c # s) then sqlite_parameter_loop U (tl s) has_name (pos + 2)
      else if c = ch_lparen \<and> has_name then parameter_suffix_loop s (pos + 1)
      else pos)"

definition sqlite_parameter_len :: "unicode \<Rightarrow> ustr \<Rightarrow> nat" where
  "sqlite_parameter_len U sql = sqlite_parameter_loop U (tl sql) False 1"

definition dollar_tag_len :: "unicode \<Rightarrow> ustr \<Rightarrow> nat option" where
  "dollar_tag_len U sql =
     (case find_str [ch_dollar] (tl sql) of
        None \<Rightarrow> None
      | Some n \<Rightarrow>
          (let tag = take n (tl sql) in
           if \<not> (tag \<noteq> [] \<and> is_ascii_digit (hd tag)) \<and>
              list_all (\<lambda>c. c = ch_underscore \<or> is_alphanumeric U c) tag
           then Some (n + 2) else None))"

definition dollar_len :: "unicode \<Rightarrow> ustr \<Rightarrow> nat option" where
  "dollar_len U sql =
     (case dollar_tag_len U sql of
        None \<Rightarrow> None
      | Some opn \<Rightarrow>
          map_option (\<lambda>n. opn + n + opn) (find_str (take opn sql) (drop opn sql)))"

subsection \<open>The scanner\<close>

definition lexer_whitespace :: "bool \<Rightarrow> uchar \<Rightarrow> bool" where
  "lexer_whitespace sqlite c \<longleftrightarrow> is_whitespace c \<or> (sqlite \<and> c = ch_bom)"

text \<open>Whether the quote after \<open>before\<close> (reversed) opens a PostgreSQL \<open>E'...'\<close> string.\<close>

definition escape_string_prefix :: "unicode \<Rightarrow> ustr \<Rightarrow> bool" where
  "escape_string_prefix U before =
     (case before of
        [] \<Rightarrow> False
      | e # earlier \<Rightarrow>
          (e = 101 \<or> e = 69) \<and>
          (case earlier of [] \<Rightarrow> True | c # _ \<Rightarrow> \<not> identifier_char U c))"

text \<open>The kind and length of the token that starts \<open>rest\<close>, a non-empty text.\<close>

definition next_token :: "unicode \<Rightarrow> bool \<Rightarrow> ustr \<Rightarrow> ustr \<Rightarrow> Kind \<times> nat" where
  "next_token U sqlite before rest =
     (let first = hd rest in
      if lexer_whitespace sqlite first then
        (KSpace, length (takeWhile (lexer_whitespace sqlite) rest))
      else if prefix (lit ''--'') rest then
        (KComment, length (takeWhile (\<lambda>c. c \<noteq> ch_newline) rest))
      else if prefix (lit ''/*'') rest then
        (KComment, block_comment_len rest (\<not> sqlite))
      else if first = ch_quote \<or> first = ch_dquote \<or> first = ch_backtick \<or> first = ch_lbracket then
        ((if first = ch_quote then KLiteral else KIdentifier),
         quoted_len rest first
           (\<not> sqlite \<and> first = ch_quote \<and> escape_string_prefix U before))
      else if sqlite \<and> (first = ch_dollar \<or> first = ch_colon \<or> first = ch_at \<or> first = ch_hash) then
        (KParameter, sqlite_parameter_len U rest)
      else if first = ch_dollar then
        (case (if \<not> sqlite then dollar_len U rest else None) of
           Some n \<Rightarrow> (KLiteral, n)
         | None \<Rightarrow>
             (let len = 1 + length (takeWhile is_ascii_digit (tl rest))
              in ((if len > 1 then KParameter else KSymbol), len)))
      else if first = ch_underscore \<or> is_alphabetic U first then
        (KWord, length (takeWhile (identifier_char U) rest))
      else (KSymbol, 1))"

text \<open>
  Every branch of the scanner advances, so the iterator ends. A quoted run is first related to
  a scan of the bare characters that counts what it consumes.
\<close>

definition peek_char :: "ustr \<Rightarrow> uchar \<Rightarrow> bool" where
  "peek_char s c = (case s of [] \<Rightarrow> False | d # _ \<Rightarrow> d = c)"

fun run_scan :: "uchar \<Rightarrow> EscapeMode \<Rightarrow> ustr \<Rightarrow> nat \<times> QuotedRun" where
  "run_scan close mode [] = (0, Unterminated)"
| "run_scan close mode (ch # s) =
     (if ch = ch_backslash \<and> mode \<noteq> Doubled then
        if mode = RejectAmbiguous then
          if peek_char s close then (0, AmbiguousEscape)
          else if peek_char s ch_backslash then apfst ((+) 2) (run_scan close mode (tl s))
          else apfst Suc (run_scan close mode s)
        else apfst ((+) (1 + min 1 (length s))) (run_scan close mode (tl s))
      else if ch = close then
        if peek_char s close then apfst ((+) 2) (run_scan close mode (tl s))
        else (1, Closed)
      else apfst Suc (run_scan close mode s))"

lemma peek_is_enumerate [simp]: "peek_is (enumerate n s) c = peek_char s c"
  by (cases s) (simp_all add: peek_is_def peek_char_def)

lemma tl_enumerate: "tl (enumerate n s) = enumerate (Suc n) (tl s)"
  by (cases s) simp_all

lemma peek_char_length: "peek_char s c \<Longrightarrow> Suc (length (tl s)) = length s"
  by (cases s) (simp_all add: peek_char_def)

lemma quoted_end_run_scan:
  "quoted_end (enumerate n s) close mode (n + length s) (\<lambda>_. 1) =
     apfst ((+) n) (run_scan close mode s)"
proof (induction close mode s arbitrary: n rule: run_scan.induct)
  case (2 close mode ch s)
  have fin: "n + length (ch # s) = Suc n + length s" by simp
  have fin2: "s \<noteq> [] \<Longrightarrow> n + length (ch # s) = Suc (Suc n) + length (tl s)" by (cases s) auto
  have ne: "peek_char s c \<Longrightarrow> s \<noteq> []" for c by (auto simp: peek_char_def)
  show ?case
  proof (cases "s = []")
    case True
    then show ?thesis by (simp add: peek_char_def peek_is_def)
  next
    case False
    note fin2' = fin2 [OF False]
    have step: "quoted_end (enumerate (Suc (Suc n)) (tl s)) close mode (n + length (ch # s)) (\<lambda>_. 1)
        = apfst ((+) (Suc (Suc n))) (run_scan close mode (tl s))"
      if "(ch = ch_backslash \<and> mode \<noteq> Doubled \<and> mode \<noteq> RejectAmbiguous) \<or>
          (ch = ch_backslash \<and> mode = RejectAmbiguous \<and> \<not> peek_char s close \<and> peek_char s ch_backslash) \<or>
          (\<not> (ch = ch_backslash \<and> mode \<noteq> Doubled) \<and> ch = close \<and> peek_char s close)"
      unfolding fin2' using that 2 by blast
    have one: "quoted_end (enumerate (Suc n) s) close mode (n + length (ch # s)) (\<lambda>_. 1)
        = apfst ((+) (Suc n)) (run_scan close mode s)"
      if "(ch = ch_backslash \<and> mode = RejectAmbiguous \<and> \<not> peek_char s close \<and>
            \<not> peek_char s ch_backslash) \<or>
          (\<not> (ch = ch_backslash \<and> mode \<noteq> Doubled) \<and> ch \<noteq> close)"
      unfolding fin using that 2 by blast
    have "min 1 (length s) = 1" using False by (cases s) auto
    then show ?thesis
      using step one
      by (auto simp: tl_enumerate apfst_compose [unfolded comp_def] prod.case_eq_if
          split: if_splits)
  qed
qed simp

text \<open>Induction on the length of a run: the recursive calls are on the rest or on its tail.\<close>

lemma run_induct [case_names Nil Cons]:
  assumes "P []" and "\<And>c s. P s \<Longrightarrow> P (tl s) \<Longrightarrow> P (c # s)"
  shows "P s"
proof (induction "length s" arbitrary: s rule: less_induct)
  case less
  then show ?case using assms by (cases s) (auto simp: less_Suc_eq_le)
qed

lemma if_intro: "(b \<Longrightarrow> P x) \<Longrightarrow> (\<not> b \<Longrightarrow> P y) \<Longrightarrow> P (if b then x else y)"
  by simp

lemma if_transfer:
  "\<lbrakk>P (if b then x else y); b \<Longrightarrow> P x \<Longrightarrow> Q x'; \<not> b \<Longrightarrow> P y \<Longrightarrow> Q y'\<rbrakk> \<Longrightarrow> Q (if b then x' else y')"
  by (cases b) simp_all

lemma run_scan_le: "fst (run_scan close mode s) \<le> length s"
proof (induction s rule: run_induct)
  case (Cons ch s)
  let ?ok = "\<lambda>r :: nat \<times> QuotedRun. fst r \<le> Suc (length s)"
  have two: "?ok (apfst ((+) 2) (run_scan close mode (tl s)))" if "peek_char s c" for c
    using Cons(2) peek_char_length [OF that] by simp
  have one: "?ok (apfst Suc (run_scan close mode s))" "?ok (0, r)" "?ok (1, r)" for r
    using Cons(1) by simp_all
  have "?ok (apfst ((+) (1 + min 1 (length s))) (run_scan close mode (tl s)))"
    using Cons(2) by (cases s) simp_all
  with one two show ?case
    unfolding run_scan.simps length_Cons by (intro if_intro [where P = ?ok]) assumption+
qed simp

lemma run_scan_Unterminated:
  "snd (run_scan close mode s) = Unterminated \<Longrightarrow> fst (run_scan close mode s) = length s"
proof (induction s rule: run_induct)
  case (Cons ch s)
  let ?ok = "\<lambda>r. snd r = Unterminated \<longrightarrow> fst r = Suc (length s)"
  have two: "?ok (apfst ((+) 2) (run_scan close mode (tl s)))" if "peek_char s c" for c
    using Cons(2) peek_char_length [OF that] by simp
  have one: "?ok (apfst Suc (run_scan close mode s))" "?ok (0, AmbiguousEscape)" "?ok (1, Closed)"
    using Cons(1) by simp_all
  have "?ok (apfst ((+) (1 + min 1 (length s))) (run_scan close mode (tl s)))"
    using Cons(2) by (cases s) simp_all
  with one two have "?ok (run_scan close mode (ch # s))"
    unfolding run_scan.simps by (intro if_intro [where P = ?ok]) assumption+
  with Cons(3) show ?case by simp
qed simp

lemma quoted_len_run_scan:
  "quoted_len (q # s) d b =
     Suc (fst (run_scan (if d = ch_lbracket then ch_rbracket else d)
        (if b then Backslash else Doubled) s))"
  using quoted_end_run_scan [of 1 s] by (simp add: quoted_len_def Let_def)

lemma block_comment_loop_bounds:
  "pos \<le> block_comment_loop s nested depth pos \<and>
   block_comment_loop s nested depth pos \<le> pos + length s"
proof (induction s arbitrary: depth pos rule: run_induct)
  case (Cons c s)
  have pair: "Suc (length (tl s)) = length s" if "prefix [a, b] (c # s)" for a b
    using that by (cases s) simp_all
  let ?in = "\<lambda>n. pos \<le> n \<and> n \<le> pos + Suc (length s)"
  have one: "?in (block_comment_loop s nested depth (pos + 1))"
    using Cons(1) [of "pos + 1" depth] by simp
  have two: "?in (block_comment_loop (tl s) nested d (pos + 2))" if "prefix [a, b] (c # s)" for a b d
    using Cons(2) [of "pos + 2" d] pair [OF that] by linarith
  have "?in (pos + 2)" if "prefix [a, b] (c # s)" for a b
    using pair [OF that] by linarith
  with one two show ?case
    unfolding block_comment_loop.simps lit_delimiters length_Cons
    by (intro if_intro [where P = ?in]) blast+
qed simp

lemma parameter_suffix_loop_bounds:
  "pos \<le> parameter_suffix_loop s pos \<and> parameter_suffix_loop s pos \<le> pos + length s"
  by (induction s pos rule: parameter_suffix_loop.induct) auto

lemma sqlite_parameter_loop_bounds:
  "pos \<le> sqlite_parameter_loop U s has_name pos \<and>
   sqlite_parameter_loop U s has_name pos \<le> pos + length s"
proof (induction s arbitrary: has_name pos rule: run_induct)
  case (Cons c s)
  let ?in = "\<lambda>n. pos \<le> n \<and> n \<le> pos + Suc (length s)"
  have "?in (sqlite_parameter_loop U s True (pos + 1))" "?in (parameter_suffix_loop s (pos + 1))"
    "?in pos"
    using Cons(1) [of "pos + 1" True] parameter_suffix_loop_bounds [of "pos + 1" s] by simp_all
  moreover have "?in (sqlite_parameter_loop U (tl s) has_name (pos + 2))"
    if "prefix [a, b] (c # s)" for a b
    using that Cons(2) [of "pos + 2" has_name] by (cases s) simp_all
  ultimately show ?case
    unfolding sqlite_parameter_loop.simps lit_delimiters length_Cons
    by (intro if_intro [where P = ?in]) blast+
qed simp

lemma dollar_len_bounds: "dollar_len U sql = Some n \<Longrightarrow> 0 < n \<and> n \<le> length sql"
proof -
  assume "dollar_len U sql = Some n"
  then obtain opn m where opn: "dollar_tag_len U sql = Some opn"
    and m: "find_str (take opn sql) (drop opn sql) = Some m" and n: "n = opn + m + opn"
    by (auto simp: dollar_len_def split: option.splits)
  from opn obtain k where k: "find_str [ch_dollar] (tl sql) = Some k" and "opn = k + 2"
    by (auto simp: dollar_tag_len_def Let_def split: option.splits if_splits)
  moreover from find_str_Some_le [OF k] have "k + 1 \<le> length (tl sql)" by simp
  ultimately have "opn \<le> length sql" "0 < opn" by auto
  with find_str_Some_le [OF m] n show ?thesis by auto
qed

lemma takeWhile_hd_pos: "rest \<noteq> [] \<Longrightarrow> P (hd rest) \<Longrightarrow> 0 < length (takeWhile P rest)"
  by (cases rest) auto

lemma is_alphabetic_identifier_char: "is_alphabetic U c \<Longrightarrow> identifier_char U c"
  by (auto simp: is_alphabetic_def identifier_char_def is_alphanumeric_def
      is_ascii_alphanumeric_def split: if_splits)

lemma next_token_bounds [progress]:
  assumes ne: "rest \<noteq> []"
  shows "0 < snd (next_token U sqlite before rest) \<and>
         snd (next_token U sqlite before rest) \<le> length rest"
proof -
  from ne obtain c s where rest: "rest = c # s" by (cases rest) auto
  have while: "P (hd rest) \<Longrightarrow> 0 < length (takeWhile P rest) \<and> length (takeWhile P rest) \<le> length rest"
    for P using takeWhile_hd_pos [OF ne, of P] length_takeWhile_le [of P rest] by blast
  have comment: "prefix (lit ''--'') rest \<Longrightarrow> hd rest \<noteq> ch_newline"
    by (auto simp: rest)
  have block: "prefix (lit ''/*'') rest \<Longrightarrow>
      0 < block_comment_len rest b \<and> block_comment_len rest b \<le> length rest" for b
    using block_comment_loop_bounds [of 2 "drop 2 rest" b 1]
    by (auto simp: block_comment_len_def dest: prefix_length_le)
  have quoted: "0 < quoted_len rest d b \<and> quoted_len rest d b \<le> length rest" for d b
    by (simp add: rest quoted_len_run_scan run_scan_le)
  have param: "0 < sqlite_parameter_len U rest \<and> sqlite_parameter_len U rest \<le> length rest"
    using sqlite_parameter_loop_bounds [of 1 U s False] by (simp add: sqlite_parameter_len_def rest)
  have digits: "length (takeWhile P (tl rest)) < length rest" for P
    using length_takeWhile_le [of P s] by (simp add: rest)
  have word: "hd rest = ch_underscore \<or> is_alphabetic U (hd rest) \<Longrightarrow> identifier_char U (hd rest)"
    using is_alphabetic_identifier_char by (auto simp: identifier_char_def)
  have one: "Suc 0 \<le> length rest" by (simp add: rest)
  let ?ok = "\<lambda>r. 0 < snd r \<and> snd r \<le> length rest"
  have dollar: "?ok (case (if b then dollar_len U rest else None) of Some n \<Rightarrow> (KLiteral, n)
      | None \<Rightarrow> (k, 1 + length (takeWhile is_ascii_digit (tl rest))))" for b k
    using dollar_len_bounds [of U rest] digits [of is_ascii_digit]
    by (simp add: Suc_le_eq split: option.split)
  show ?thesis
    unfolding next_token_def Let_def
    by (intro if_intro [where P = ?ok] dollar; use while comment word block quoted param one in simp)
qed

lemmas next_token_pos = next_token_bounds [THEN conjunct1]
  and next_token_le = next_token_bounds [THEN conjunct2]

function scan_from :: "unicode \<Rightarrow> bool \<Rightarrow> ustr \<Rightarrow> nat \<Rightarrow> ustr \<Rightarrow> Token list" where
  "scan_from U sqlite before offset [] = []"
| "scan_from U sqlite before offset (c # s) =
     (let (kind, len) = next_token U sqlite before (c # s);
          txt = take len (c # s)
      in \<lparr>tok_text = txt, tok_start = offset, tok_kind = kind\<rparr> #
         scan_from U sqlite (rev txt @ before) (offset + utf8_len txt) (drop len (c # s)))"
  by pat_completeness auto
termination
proof (relation "measure (\<lambda>(_, _, _, _, rest). length rest)", simp)
  fix U sqlite before offset c s x xa y xb
  assume "x = next_token U sqlite before (c # s)" and "(xa, y) = x"
  then have "0 < y" using next_token_pos [of "c # s" U sqlite before] by (metis list.simps(3) snd_conv)
  then show "((U, sqlite, rev xb @ before, offset + utf8_len xb, drop y (c # s)),
      U, sqlite, before, offset, c # s) \<in> measure (\<lambda>(_, _, _, _, rest). length rest)"
    by simp
qed

declare scan_from.simps [simp del]
lemmas scan_from_Nil [simp] = scan_from.simps(1)

definition scan :: "unicode \<Rightarrow> ustr \<Rightarrow> bool \<Rightarrow> Token list" where
  "scan U sql sqlite = scan_from U sqlite [] 0 sql"

definition tokens :: "unicode \<Rightarrow> ustr \<Rightarrow> Token list" where
  "tokens U sql = scan U sql False"

definition sqlite_tokens :: "unicode \<Rightarrow> ustr \<Rightarrow> Token list" where
  "sqlite_tokens U sql = scan U sql True"

definition is_significant :: "Token \<Rightarrow> bool" where
  "is_significant t \<longleftrightarrow> tok_kind t \<noteq> KSpace \<and> tok_kind t \<noteq> KComment"

definition significant :: "unicode \<Rightarrow> ustr \<Rightarrow> Token list" where
  "significant U sql = filter is_significant (tokens U sql)"

definition sqlite_significant :: "unicode \<Rightarrow> ustr \<Rightarrow> Token list" where
  "sqlite_significant U sql = filter is_significant (sqlite_tokens U sql)"

fun top_words_loop :: "nat \<Rightarrow> Token list \<Rightarrow> ustr list" where
  "top_words_loop depth [] = []"
| "top_words_loop depth (t # ts) =
     (let depth' = (if tok_text t = [ch_lparen] then depth + 1
                    else if tok_text t = [ch_rparen] then depth - 1 else depth)
      in if depth' = 0 \<and> tok_kind t = KWord then tok_text t # top_words_loop depth' ts
         else top_words_loop depth' ts)"

definition top_words :: "unicode \<Rightarrow> ustr \<Rightarrow> ustr list" where
  "top_words U sql = top_words_loop 0 (significant U sql)"

subsection \<open>The tokens are the text\<close>

lemma scan_from_Cons:
  "scan_from U sqlite before offset (c # s) =
     (let n = snd (next_token U sqlite before (c # s)); txt = take n (c # s)
      in \<lparr>tok_text = txt, tok_start = offset, tok_kind = fst (next_token U sqlite before (c # s))\<rparr> #
         scan_from U sqlite (rev txt @ before) (offset + utf8_len txt) (drop n (c # s)))"
  by (simp add: scan_from.simps(2) prod.case_eq_if Let_def)

text \<open>Induction along the tokens: the text, the offset and what lies before move on together.\<close>

lemma scan_from_induct [case_names Nil Cons]:
  assumes "\<And>before offset. P before offset []"
    and "\<And>before offset c s n. \<lbrakk>n = snd (next_token U sqlite before (c # s)); 0 < n; n \<le> length (c # s);
      P (rev (take n (c # s)) @ before) (offset + utf8_len (take n (c # s))) (drop n (c # s))\<rbrakk>
      \<Longrightarrow> P before offset (c # s)"
  shows "P before offset rest"
proof (induction "length rest" arbitrary: before offset rest rule: less_induct)
  case less
  show ?case
  proof (cases rest)
    case Nil
    then show ?thesis using assms(1) by simp
  next
    case (Cons c s)
    let ?n = "snd (next_token U sqlite before (c # s))"
    have b: "0 < ?n" "?n \<le> length (c # s)"
      using next_token_bounds [of "c # s" U sqlite before] by auto
    then have "length (drop ?n (c # s)) < length rest" by (simp add: Cons)
    then show ?thesis unfolding Cons by (intro assms(2) [OF refl b] less) (simp add: Cons)
  qed
qed

lemma scan_from_concat: "concat (map tok_text (scan_from U sqlite before offset rest)) = rest"
  by (induction before offset rest rule: scan_from_induct [where U = U and sqlite = sqlite]) (simp_all add: scan_from_Cons Let_def)

lemma scan_from_nonempty: "list_all (\<lambda>t. tok_text t \<noteq> []) (scan_from U sqlite before offset rest)"
  by (induction before offset rest rule: scan_from_induct [where U = U and sqlite = sqlite]) (simp_all add: scan_from_Cons Let_def)

text \<open>The byte offset at which each token of a list starts.\<close>

fun token_offsets :: "nat \<Rightarrow> Token list \<Rightarrow> nat list" where
  "token_offsets offset [] = []"
| "token_offsets offset (t # ts) = offset # token_offsets (offset + utf8_len (tok_text t)) ts"

lemma scan_from_starts:
  "map tok_start (scan_from U sqlite before offset rest) =
     token_offsets offset (scan_from U sqlite before offset rest)"
  by (induction before offset rest rule: scan_from_induct [where U = U and sqlite = sqlite]) (simp_all add: scan_from_Cons Let_def)

text \<open>C24. The scanner is lossless for every text, dialect and Unicode table: the tokens, none of
  them empty, concatenate to exactly the input, and each token's \<open>start\<close> is the UTF-8 byte
  offset of the text before it. In particular no character is skipped or read twice, and the
  iterator ends.\<close>

theorem scan_partition:
  "concat (map tok_text (scan U sql sqlite)) = sql \<and>
   list_all (\<lambda>t. tok_text t \<noteq> []) (scan U sql sqlite) \<and>
   map tok_start (scan U sql sqlite) = token_offsets 0 (scan U sql sqlite)"
  by (simp add: scan_def scan_from_concat scan_from_nonempty scan_from_starts)

subsection \<open>Quoted runs under the doubling rule\<close>

text \<open>Scanning a run as the doubling rule writes it: every closing quote inside is doubled.\<close>

lemma peek_char_simps [simp]: "peek_char [] c = False" "peek_char (d # s) c = (d = c)"
  by (simp_all add: peek_char_def)

definition double_char :: "uchar \<Rightarrow> ustr \<Rightarrow> ustr" where
  "double_char q s = concat (map (\<lambda>c. if c = q then [q, q] else [c]) s)"

lemma double_char_simps [simp]:
  "double_char q [] = []"
  "double_char q (c # s) = (if c = q then [q, q] else [c]) @ double_char q s"
  by (simp_all add: double_char_def)

lemma run_scan_doubled:
  "\<not> peek_char rest q \<Longrightarrow>
   run_scan q Doubled (double_char q s @ q # rest) = (Suc (length (double_char q s)), Closed)"
  by (induction s) auto

lemma replace_double_char: "replace [q, q] [q] (double_char q s) = s"
  by (induction s) auto

text \<open>
  A run the strict mode closes is closed at the same place under either reading of a
  backslash, so a validator that uses it agrees with every server about where the run ends.
\<close>

lemma run_scan_agree:
  "\<lbrakk>run_scan q RejectAmbiguous s = (n, Closed); q \<noteq> ch_backslash\<rbrakk> \<Longrightarrow> run_scan q mode s = (n, Closed)"
proof (induction q RejectAmbiguous s arbitrary: n rule: run_scan.induct)
  case (2 q ch s)
  show ?case
  proof (cases s)
    case Nil
    with 2(5,6) show ?thesis by (auto split: if_splits)
  next
    case (Cons d t)
    with 2 show ?thesis
      by (cases mode) (auto simp: apfst_def map_prod_def split: if_splits prod.splits)
  qed
qed simp

end
