(* ===== verification/Sql_Safety.thy ===== *)
theory Sql_Safety
  imports Sql_Lexer
begin

text \<open>
  The SQL text guards of \<open>src/src/internal/sql_safety.rs\<close>: escaping of literals, quoting of
  identifiers, and the validators every raw fragment passes before it is spliced into a
  statement. The index loops over a \<open>Vec<char>\<close> become recursion on the remaining characters;
  where the source looks at the character before the index, the loop carries it. Error
  messages are the texts the source formats.
\<close>

subsection \<open>Literals and identifier segments\<close>

definition escape_sql_literal_for_db :: "DatabaseType \<Rightarrow> ustr \<Rightarrow> ustr" where
  "escape_sql_literal_for_db db_type val =
     (let escaped = replace [ch_quote] [ch_quote, ch_quote] val in
      case db_type of
        MySQL \<Rightarrow> replace [ch_backslash] [ch_backslash, ch_backslash] escaped
      | MariaDB \<Rightarrow> replace [ch_backslash] [ch_backslash, ch_backslash] escaped
      | Postgres \<Rightarrow> escaped
      | SQLite \<Rightarrow> escaped)"

definition is_safe_identifier_segment :: "ustr \<Rightarrow> bool" where
  "is_safe_identifier_segment segment =
     (case segment of
        [] \<Rightarrow> False
      | c # s \<Rightarrow>
          (c = ch_underscore \<or> is_ascii_alphabetic c) \<and>
          list_all (\<lambda>ch. ch = ch_underscore \<or> is_ascii_alphanumeric ch) s)"

subsection \<open>Raw fragments\<close>

text \<open>The characters a run covers, opening quote included, and how it ended.\<close>

definition consume_quoted_run :: "ustr \<Rightarrow> uchar \<Rightarrow> nat \<times> QuotedRun" where
  "consume_quoted_run tail quote =
     quoted_end (tl (enumerate 0 tail)) quote RejectAmbiguous (length tail) (\<lambda>_. 1)"

definition starts_dollar_quote :: "unicode \<Rightarrow> uchar option \<Rightarrow> ustr \<Rightarrow> bool" where
  "starts_dollar_quote U previous tail =
     ((case previous of None \<Rightarrow> True | Some p \<Rightarrow> \<not> identifier_char U p) \<and>
      (case find_str [ch_dollar] (tl tail) of
         None \<Rightarrow> False
       | Some close \<Rightarrow> dollar_tag_len U (take (close + 2) tail) \<noteq> None))"

definition bracket_holds_quote :: "ustr \<Rightarrow> bool" where
  "bracket_holds_quote tail =
     list_ex (\<lambda>ch. ch = ch_quote \<or> ch = ch_dquote \<or> ch = ch_backtick)
       (takeWhile (\<lambda>ch. ch \<noteq> ch_rbracket) (tl tail))"

lemma consume_quoted_run_scan:
  "consume_quoted_run (c # s) q = apfst Suc (run_scan q RejectAmbiguous s)"
  using quoted_end_run_scan [of 1 s q RejectAmbiguous]
  by (simp add: consume_quoted_run_def)

lemma consume_quoted_run_pos [progress]: "(n, r) = consume_quoted_run (c # s) q \<Longrightarrow> 0 < n"
  by (cases "run_scan q RejectAmbiguous s") (simp add: consume_quoted_run_scan)

function find_forbidden_loop :: "unicode \<Rightarrow> uchar option \<Rightarrow> ustr \<Rightarrow> ustr option" where
  "find_forbidden_loop U previous [] = None"
| "find_forbidden_loop U previous (ch # s) =
     (if ch = ch_quote then
        (case consume_quoted_run (ch # s) ch_quote of
           (n, Closed) \<Rightarrow> find_forbidden_loop U (Some ch_quote) (drop n (ch # s))
         | (n, Unterminated) \<Rightarrow> Some (lit ''unterminated string literals'')
         | (n, AmbiguousEscape) \<Rightarrow> Some (lit ''backslash-escaped quotes inside string literals''))
      else if ch = ch_dquote \<or> ch = ch_backtick then
        (case consume_quoted_run (ch # s) ch of
           (n, Closed) \<Rightarrow> find_forbidden_loop U (Some ch) (drop n (ch # s))
         | (n, Unterminated) \<Rightarrow> Some (lit ''unterminated quoted identifiers'')
         | (n, AmbiguousEscape) \<Rightarrow>
             Some (lit ''backslash-escaped quotes inside quoted identifiers''))
      else if ch = ch_dollar \<and> starts_dollar_quote U previous (ch # s) then
        Some (lit ''dollar-quoted strings'')
      else if ch = ch_lbracket \<and> bracket_holds_quote (ch # s) then
        Some (lit ''quotes inside square brackets'')
      else if ch = ch_semicolon then Some (lit ''statement separators'')
      else if ch = ch_nul then Some (lit ''NUL bytes'')
      else if ch = ch_hash then Some (lit ''SQL comments'')
      else if ch = ch_minus \<and> peek_char s ch_minus then Some (lit ''SQL comments'')
      else if ch = ch_slash \<and> peek_char s ch_star then Some (lit ''SQL comments'')
      else if ch = ch_star \<and> peek_char s ch_slash then Some (lit ''SQL comments'')
      else find_forbidden_loop U (Some ch) s)"
  by pat_completeness auto
termination
  by (relation "measure (\<lambda>(_, _, rest). length rest)") (auto dest: consume_quoted_run_pos)

definition find_forbidden_raw_sql_token :: "unicode \<Rightarrow> ustr \<Rightarrow> ustr option" where
  "find_forbidden_raw_sql_token U sql = find_forbidden_loop U None sql"

definition validate_raw_sql_fragment :: "unicode \<Rightarrow> ustr \<Rightarrow> ustr \<Rightarrow> ustr + unit" where
  "validate_raw_sql_fragment U kind sql =
     (let trimmed = trim sql in
      if trimmed = [] then
        Inl (lit ''unsafe '' @ kind @ lit '': SQL fragment cannot be empty'')
      else (case find_forbidden_raw_sql_token U trimmed of
          Some reason \<Rightarrow>
            Inl (lit ''unsafe '' @ kind @ lit '': raw SQL fragments may not contain '' @ reason @
                 lit ''; use parameterized query builder APIs instead'')
        | None \<Rightarrow> Inr ()))"

subsection \<open>Words and symbols of a fragment\<close>

text \<open>How many characters of \<open>tail\<close>, which starts with a digit, the number covers.\<close>

definition consume_numeric_literal :: "ustr \<Rightarrow> nat" where
  "consume_numeric_literal tail =
     (let n = 1 + length (takeWhile (\<lambda>c. is_ascii_digit c \<or> c = ch_dot \<or> c = ch_underscore) (tl tail));
          rest = drop n tail
      in if peek_char rest 101 \<or> peek_char rest 69 then
           (let signed = tl rest;
                sign = (if peek_char signed 43 \<or> peek_char signed ch_minus then 1 else 0);
                digits = length (takeWhile is_ascii_digit (drop sign signed))
            in if digits = 0 then n else n + 1 + sign + digits)
         else n)"

datatype SqlToken =
    SqlWord (word_text: ustr) (word_depth: nat) (word_called: bool)
  | SqlSymbol uchar

lemma consume_numeric_literal_pos [progress]: "0 < consume_numeric_literal tail"
  by (simp add: consume_numeric_literal_def Let_def)

text \<open>
  One iteration of the scanning loop over a non-empty rest: it fails, moves on with a
  parenthesis depth, or hands a token to the visitor and then moves on.
\<close>

datatype ScanStep = ScanFail ustr | ScanSkip nat ustr | ScanVisit SqlToken ustr

definition scan_sql_step :: "ustr \<Rightarrow> nat \<Rightarrow> ustr \<Rightarrow> ScanStep" where
  "scan_sql_step kind paren_depth tail =
     (let ch = hd tail; s = tl tail in
      if is_whitespace ch then ScanSkip paren_depth s
      else if ch = ch_quote then
        (case consume_quoted_run tail ch_quote of
           (n, Closed) \<Rightarrow> ScanSkip paren_depth (drop n tail)
         | _ \<Rightarrow> ScanFail (lit ''unsafe '' @ kind @ lit '': unterminated string literal''))
      else if ch = ch_dquote \<or> ch = ch_backtick then
        (case consume_quoted_run tail ch of
           (n, Closed) \<Rightarrow> ScanSkip paren_depth (drop n tail)
         | _ \<Rightarrow> ScanFail (lit ''unsafe '' @ kind @ lit '': unterminated quoted identifier''))
      else if ch = ch_lparen then ScanSkip (paren_depth + 1) s
      else if ch = ch_rparen then
        (if paren_depth = 0 then
           ScanFail (lit ''unsafe '' @ kind @ lit '': unbalanced closing parenthesis'')
         else ScanSkip (paren_depth - 1) s)
      else if is_ascii_digit ch then
        ScanSkip paren_depth (drop (consume_numeric_literal tail) tail)
      else if ch = ch_underscore \<or> is_ascii_alphabetic ch then
        (let more = takeWhile (\<lambda>c. c = ch_underscore \<or> is_ascii_alphanumeric c) s;
             rest = drop (length more) s
         in ScanVisit (SqlWord (ch # more) paren_depth
              (peek_char (dropWhile is_whitespace rest) ch_lparen)) rest)
      else ScanVisit (SqlSymbol ch) s)"

definition step_within :: "nat \<Rightarrow> ScanStep \<Rightarrow> bool" where
  "step_within n r = (case r of ScanFail _ \<Rightarrow> True | ScanSkip _ rest \<Rightarrow> length rest < n
     | ScanVisit _ rest \<Rightarrow> length rest < n)"

lemma scan_sql_step_within: "step_within (Suc (length s)) (scan_sql_step kind d (c # s))"
proof -
  have quoted: "step_within (Suc (length s)) (case consume_quoted_run (c # s) q of
      (n, Closed) \<Rightarrow> ScanSkip d (drop n (c # s)) | _ \<Rightarrow> ScanFail e)" for q e
    using consume_quoted_run_pos [OF sym, of c s q]
    by (auto simp: step_within_def split: prod.split QuotedRun.split)
  have ifI: "(b \<Longrightarrow> step_within n x) \<Longrightarrow> (\<not> b \<Longrightarrow> step_within n y) \<Longrightarrow> step_within n (if b then x else y)"
    for b n x y by simp
  show ?thesis
    unfolding scan_sql_step_def Let_def list.sel
    using consume_numeric_literal_pos [of "c # s"]
    by (intro ifI quoted) (simp_all add: step_within_def less_Suc_eq_le)
qed

lemma scan_sql_step_shrinks [progress]:
  "scan_sql_step kind d (c # s) = ScanSkip d' rest \<Longrightarrow> length rest < Suc (length s)"
  "scan_sql_step kind d (c # s) = ScanVisit t rest \<Longrightarrow> length rest < Suc (length s)"
  using scan_sql_step_within [of s kind d c] by (simp_all add: step_within_def)

text \<open>The visitor closure updates what it captures: it takes that state and returns it.\<close>

function scan_sql_loop ::
  "ustr \<Rightarrow> ('s \<Rightarrow> SqlToken \<Rightarrow> ustr + 's) \<Rightarrow> nat \<Rightarrow> 's \<Rightarrow> ustr \<Rightarrow> ustr + 's" where
  "scan_sql_loop kind visit paren_depth st [] =
     (if paren_depth \<noteq> 0 then Inl (lit ''unsafe '' @ kind @ lit '': unbalanced parentheses'')
      else Inr st)"
| "scan_sql_loop kind visit paren_depth st (ch # s) =
     (case scan_sql_step kind paren_depth (ch # s) of
        ScanFail e \<Rightarrow> Inl e
      | ScanSkip depth rest \<Rightarrow> scan_sql_loop kind visit depth st rest
      | ScanVisit token rest \<Rightarrow>
          (case visit st token of
             Inl e \<Rightarrow> Inl e
           | Inr st' \<Rightarrow> scan_sql_loop kind visit paren_depth st' rest))"
  by pat_completeness auto
termination
  by (relation "measure (\<lambda>(_, _, _, _, rest). length rest)") (auto dest: scan_sql_step_shrinks)

definition scan_sql_tokens ::
  "ustr \<Rightarrow> ustr \<Rightarrow> ('s \<Rightarrow> SqlToken \<Rightarrow> ustr + 's) \<Rightarrow> 's \<Rightarrow> ustr + 's" where
  "scan_sql_tokens sql kind visit st = scan_sql_loop kind visit 0 st sql"

fun collect_word :: "(ustr \<times> bool) list \<Rightarrow> SqlToken \<Rightarrow> ustr + (ustr \<times> bool) list" where
  "collect_word words (SqlWord txt depth called) =
     Inr (if depth = 0 then words @ [(to_ascii_lowercase txt, called)] else words)"
| "collect_word words (SqlSymbol c) = Inr words"

definition collect_top_level_sql_words :: "ustr \<Rightarrow> ustr \<Rightarrow> ustr + (ustr \<times> bool) list" where
  "collect_top_level_sql_words sql kind = scan_sql_tokens sql kind collect_word []"

subsection \<open>Subqueries and HAVING clauses\<close>

definition is_forbidden_top_level_subquery_keyword :: "ustr \<Rightarrow> bool" where
  "is_forbidden_top_level_subquery_keyword token \<longleftrightarrow>
     token \<in> set (map lit [''insert'', ''update'', ''delete'', ''drop'', ''alter'', ''create'',
       ''truncate'', ''returning'', ''merge'', ''replace'', ''upsert'', ''grant'', ''revoke'',
       ''call'', ''execute'', ''values''])"

definition is_set_operation :: "ustr \<Rightarrow> bool" where
  "is_set_operation token \<longleftrightarrow> token \<in> set (map lit [''union'', ''intersect'', ''except''])"

definition validate_subquery_sql_with_mode :: "unicode \<Rightarrow> ustr \<Rightarrow> bool \<Rightarrow> ustr + unit" where
  "validate_subquery_sql_with_mode U sql allow_top_level_set_ops =
     try_bind (validate_raw_sql_fragment U (lit ''subquery'') sql) (\<lambda>_.
     try_bind (collect_top_level_sql_words sql (lit ''subquery'')) (\<lambda>top_level_words.
       (let first_word = (case top_level_words of [] \<Rightarrow> None | (w, _) # _ \<Rightarrow> Some w) in
        if \<not> (first_word = Some (lit ''select'') \<or> first_word = Some (lit ''with'')) then
          Inl (lit ''unsafe subquery: expected a SELECT/WITH query generated by QueryBuilder'')
        else if first_word = Some (lit ''with'') \<and>
                \<not> list_ex (\<lambda>(w, _). w = lit ''select'') top_level_words then
          Inl (lit ''unsafe subquery: WITH queries must terminate in a top-level SELECT statement'')
        else
          (case List.find (\<lambda>(w, called). \<not> called \<and> is_forbidden_top_level_subquery_keyword w)
                  top_level_words of
             Some (w, _) \<Rightarrow>
               Inl (lit ''unsafe subquery: keyword '' @ [ch_quote] @ w @ [ch_quote] @
                    lit '' is not allowed in raw subquery fragments'')
           | None \<Rightarrow>
               (case (if allow_top_level_set_ops then None
                      else List.find (\<lambda>(w, _). is_set_operation w) top_level_words) of
                  Some (w, _) \<Rightarrow>
                    Inl (lit ''unsafe subquery: top-level '' @ [ch_quote] @ w @ [ch_quote] @
                         lit '' queries are not allowed here; use QueryBuilder union()/union_all()/with_recursive_cte() APIs instead'')
                | None \<Rightarrow> Inr ())))))"

definition is_forbidden_having_keyword :: "ustr \<Rightarrow> bool" where
  "is_forbidden_having_keyword token \<longleftrightarrow>
     token \<in> set (map lit [''select'', ''with'', ''join'', ''inner'', ''left'', ''right'',
       ''cross'', ''union'', ''intersect'', ''except'', ''insert'', ''update'', ''delete'',
       ''drop'', ''alter'', ''create'', ''truncate'', ''returning'', ''exists'', ''into'',
       ''limit'', ''offset'', ''window'', ''over''])"

definition having_symbols :: ustr where
  "having_symbols = lit ''.,*+-/%=<>!|&@?:''"

fun visit_having :: "ustr \<Rightarrow> unit \<Rightarrow> SqlToken \<Rightarrow> ustr + unit" where
  "visit_having kind _ (SqlWord txt depth called) =
     (if called \<and> to_ascii_lowercase txt \<in> {lit ''left'', lit ''right''} then Inr ()
      else if is_forbidden_having_keyword (to_ascii_lowercase txt) then
        Inl (lit ''unsafe '' @ kind @ lit '': keyword '' @ [ch_quote] @ txt @ [ch_quote] @
             lit '' is not allowed in raw HAVING clauses'')
      else Inr ())"
| "visit_having kind _ (SqlSymbol c) =
     (if c \<in> set having_symbols then Inr ()
      else Inl (lit ''unsafe '' @ kind @ lit '': unexpected character '' @ [ch_quote, c, ch_quote] @
                lit '' in raw HAVING clause''))"

definition validate_having_sql_fragment :: "unicode \<Rightarrow> ustr \<Rightarrow> ustr \<Rightarrow> ustr + unit" where
  "validate_having_sql_fragment U kind sql =
     try_bind (validate_raw_sql_fragment U kind sql)
       (\<lambda>_. scan_sql_tokens sql kind (visit_having kind) ())"

definition validate_subquery_sql :: "unicode \<Rightarrow> ustr \<Rightarrow> ustr + unit" where
  "validate_subquery_sql U sql = validate_subquery_sql_with_mode U sql False"

definition validate_compound_subquery_sql :: "unicode \<Rightarrow> ustr \<Rightarrow> ustr + unit" where
  "validate_compound_subquery_sql U sql = validate_subquery_sql_with_mode U sql True"

subsection \<open>Identifiers\<close>

definition validate_identifier :: "ustr \<Rightarrow> ustr \<Rightarrow> ustr + unit" where
  "validate_identifier kind val =
     (if val \<noteq> [] \<and> is_safe_identifier_segment val then Inr ()
      else Inl (lit ''unsafe '' @ kind @ [ch_space, ch_quote] @ val @ [ch_quote] @
        lit '': identifiers may only contain ASCII letters, numbers, and underscores, and must not start with a number''))"

definition validate_identifier_reference :: "ustr \<Rightarrow> ustr \<Rightarrow> ustr + unit" where
  "validate_identifier_reference kind val =
     (let parts = split_on ch_dot val in
      if parts \<noteq> [] \<and> length parts \<le> 3 \<and>
         list_all (\<lambda>p. p \<noteq> [] \<and> is_safe_identifier_segment p) parts
      then Inr ()
      else Inl (lit ''invalid '' @ kind @ [ch_space, ch_quote] @ val @ [ch_quote] @
        lit '': expected column, table.column or schema.table.column using only ASCII letters, numbers, and underscores''))"

definition validate_join_column :: "ustr \<Rightarrow> ustr + unit" where
  "validate_join_column val =
     (let parts = split_on ch_dot val in
      if length parts = 2 \<and> list_all is_safe_identifier_segment parts then Inr ()
      else Inl (lit ''unsafe JOIN column reference '' @ [ch_quote] @ val @ [ch_quote] @
        lit '': expected table.column using only ASCII letters, numbers, and underscores''))"

fun push_quoted_chars :: "uchar \<Rightarrow> ustr \<Rightarrow> ustr" where
  "push_quoted_chars q [] = []"
| "push_quoted_chars q (ch # s) =
     (if ch = q then [q, ch] else [ch]) @ push_quoted_chars q s"

definition push_quoted_ident :: "ustr \<Rightarrow> DatabaseType \<Rightarrow> ustr \<Rightarrow> ustr" where
  "push_quoted_ident out db_type name =
     (let q = quote_char db_type in out @ [q] @ push_quoted_chars q name @ [q])"

definition quote_ident :: "DatabaseType \<Rightarrow> ustr \<Rightarrow> ustr" where
  "quote_ident db_type name = push_quoted_ident [] db_type name"

definition column_list :: "DatabaseType \<Rightarrow> ustr list \<Rightarrow> ustr \<Rightarrow> ustr" where
  "column_list db_type columns pre =
     join (lit '', '') (map (\<lambda>column. pre @ quote_ident db_type column) columns)"

definition identifier_reference_parts :: "ustr \<Rightarrow> ustr list option" where
  "identifier_reference_parts val =
     (let trimmed = trim val in
      if trimmed = [] \<or> starts_with trimmed [ch_dquote] \<or> ends_with trimmed [ch_dquote] \<or>
         starts_with trimmed [ch_backtick] \<or> ends_with trimmed [ch_backtick] \<or>
         list_ex (\<lambda>c. c = ch_lparen \<or> c = ch_rparen \<or> c = ch_star \<or> c = ch_space) trimmed
      then None
      else (let parts = split_on ch_dot trimmed
            in if list_ex (\<lambda>p. p = []) parts then None else Some parts))"

fun format_parts :: "DatabaseType \<Rightarrow> nat \<Rightarrow> ustr \<Rightarrow> ustr list \<Rightarrow> ustr" where
  "format_parts db_type index reference [] = reference"
| "format_parts db_type index reference (part # parts) =
     format_parts db_type (index + 1)
       (push_quoted_ident (if index > 0 then reference @ [ch_dot] else reference) db_type part)
       parts"

definition format_identifier_reference :: "DatabaseType \<Rightarrow> ustr \<Rightarrow> ustr option" where
  "format_identifier_reference db_type val =
     map_option (format_parts db_type 0 []) (identifier_reference_parts val)"

end
