(* ===== verification/Sql_Quoting.thy ===== *)
theory Sql_Quoting
  imports Sql_Safety
begin

text \<open>
  What the quoting and escaping functions of \<open>src/src/internal/sql_safety.rs\<close> promise, stated
  against the scanner of \<open>src/src/internal/sql_lexer.rs\<close>: quoted names and column lists read
  back as what was quoted, escaped literals close where they are meant to, and identifiers
  the validators accept are read as single words.
\<close>

subsection \<open>Quoting is inverted by the scanner\<close>

lemma push_quoted_chars_double: "push_quoted_chars q s = double_char q s"
  by (induction s) auto

lemma quote_ident_eq: "quote_ident db name = quote_char db # double_char (quote_char db) name @ [quote_char db]"
  by (simp add: quote_ident_def push_quoted_ident_def Let_def push_quoted_chars_double)

lemma not_whitespace_punct [simp]:
  "\<not> lexer_whitespace q ch_dquote" "\<not> lexer_whitespace q ch_backtick" "\<not> lexer_whitespace q ch_quote"
  "\<not> lexer_whitespace q ch_comma" "\<not> lexer_whitespace q ch_dot"
  by (simp_all add: lexer_whitespace_def is_whitespace_def)

lemma next_token_quoted_ident:
  assumes "\<not> peek_char rest (quote_char db)"
  shows "next_token U sqlite before (quote_ident db name @ rest) =
    (KIdentifier, length (quote_ident db name))"
  using assms quote_char_cases [of db]
  by (auto simp: next_token_def quote_ident_eq quoted_len_run_scan run_scan_doubled)

lemma scan_from_quoted_ident:
  assumes "\<not> peek_char rest (quote_char db)"
  shows "scan_from U sqlite before offset (quote_ident db name @ rest) =
    \<lparr>tok_text = quote_ident db name, tok_start = offset, tok_kind = KIdentifier\<rparr> #
    scan_from U sqlite (rev (quote_ident db name) @ before)
      (offset + utf8_len (quote_ident db name)) rest"
proof -
  have "quote_ident db name @ rest = quote_char db # (double_char (quote_char db) name @ quote_char db # rest)"
    by (simp add: quote_ident_eq)
  then show ?thesis
    using next_token_quoted_ident [OF assms, of U sqlite before name]
    by (metis (no_types, lifting) append_eq_conv_conj fst_conv scan_from_Cons snd_conv)
qed

lemma unquoted_quote_ident:
  "unquoted \<lparr>tok_text = quote_ident db name, tok_start = n, tok_kind = KIdentifier\<rparr> = Some name"
  by (simp add: unquoted_def quote_ident_eq Let_def butlast_append replace_double_char)

text \<open>C3. Quoting an identifier is injection-proof: for every backend and every name whatever
  (quotes, semicolons, comment openers, non-ASCII), the scanner reads the quoted form as one
  identifier token that covers it all, and unquoting that token gives the name back.\<close>

theorem quote_ident_roundtrip:
  "scan U (quote_ident db name) sqlite =
     [\<lparr>tok_text = quote_ident db name, tok_start = 0, tok_kind = KIdentifier\<rparr>] \<and>
   unquoted (hd (scan U (quote_ident db name) sqlite)) = Some name"
  using scan_from_quoted_ident [of "[]" db U sqlite "[]" 0 name]
  by (simp add: scan_def unquoted_quote_ident)

fun intersperse :: "'a \<Rightarrow> 'a list \<Rightarrow> 'a list" where
  "intersperse sep (x # y # xs) = x # sep # intersperse sep (y # xs)"
| "intersperse sep xs = xs"

lemma quote_char_not_whitespace [simp]: "\<not> lexer_whitespace sqlite (quote_char db)"
  using quote_char_cases [of db] by auto

text \<open>The scanner on the separators the renderers write.\<close>

lemma scan_from_comma:
  "scan_from U sqlite before offset (ch_comma # s) =
     \<lparr>tok_text = [ch_comma], tok_start = offset, tok_kind = KSymbol\<rparr> #
     scan_from U sqlite (ch_comma # before) (Suc offset) s"
  by (simp add: scan_from_Cons next_token_def is_alphabetic_def ascii_defs len_utf8_def Let_def)

lemma scan_from_dot:
  "scan_from U sqlite before offset (ch_dot # s) =
     \<lparr>tok_text = [ch_dot], tok_start = offset, tok_kind = KSymbol\<rparr> #
     scan_from U sqlite (ch_dot # before) (Suc offset) s"
  by (simp add: scan_from_Cons next_token_def is_alphabetic_def ascii_defs len_utf8_def Let_def)

lemma scan_from_space:
  "\<lbrakk>s \<noteq> []; \<not> lexer_whitespace sqlite (hd s)\<rbrakk> \<Longrightarrow>
   scan_from U sqlite before offset (ch_space # s) =
     \<lparr>tok_text = [ch_space], tok_start = offset, tok_kind = KSpace\<rparr> #
     scan_from U sqlite (ch_space # before) (Suc offset) s"
proof -
  assume "s \<noteq> []" "\<not> lexer_whitespace sqlite (hd s)"
  then have "next_token U sqlite before (ch_space # s) = (KSpace, 1)"
    by (cases s) (simp_all add: next_token_def lexer_whitespace_def is_whitespace_def)
  then show ?thesis
    by (subst scan_from_Cons) (simp add: Let_def len_utf8_def)
qed

lemma unquoted_symbol [simp]:
  "unquoted \<lparr>tok_text = s, tok_start = n, tok_kind = KSymbol\<rparr> = Some s"
  by (simp add: unquoted_def)

lemma significant_kinds [simp]:
  "is_significant \<lparr>tok_text = s, tok_start = n, tok_kind = k\<rparr> \<longleftrightarrow> k \<noteq> KSpace \<and> k \<noteq> KComment"
  by (simp add: is_significant_def)

lemma column_list_starts:
  "column_list db (d # cols) [] \<noteq> []" "hd (column_list db (d # cols) []) = quote_char db"
  by (cases cols; simp add: column_list_def quote_ident_eq)+

lemma scan_from_column_list:
  "map (\<lambda>t. (tok_kind t, unquoted t))
     (filter is_significant (scan_from U sqlite before offset (column_list db cols []))) =
   intersperse (KSymbol, Some [ch_comma]) (map (\<lambda>c. (KIdentifier, Some c)) cols)"
proof (induction cols arbitrary: before offset rule: induct_list012)
  case 1
  then show ?case by (simp add: column_list_def)
next
  case (2 c)
  then show ?case
    using scan_from_quoted_ident [of "[]" db U sqlite before offset c]
    by (simp add: column_list_def unquoted_quote_ident)
next
  case (3 c d cols)
  let ?rest = "column_list db (d # cols) []"
  have split: "column_list db (c # d # cols) [] = quote_ident db c @ ch_comma # ch_space # ?rest"
    by (simp add: column_list_def lit_def)
  have "\<not> peek_char (ch_comma # ch_space # ?rest) (quote_char db)"
    using quote_char_cases [of db] by auto
  then show ?case
    unfolding split
    by (simp add: scan_from_quoted_ident scan_from_comma scan_from_space column_list_starts
        unquoted_quote_ident 3)
qed

text \<open>A rendered column list names exactly the columns it was given, whatever their names:
  reading it back, the significant tokens are one quoted identifier per column, unquoting to
  that column, separated by commas, and nothing else.\<close>

theorem column_list_roundtrip:
  "map (\<lambda>t. (tok_kind t, unquoted t)) (significant U (column_list db cols [])) =
   intersperse (KSymbol, Some [ch_comma]) (map (\<lambda>c. (KIdentifier, Some c)) cols)"
  by (simp add: significant_def tokens_def scan_def scan_from_column_list)

subsection \<open>Escaped literals\<close>

text \<open>How each backend reads a string literal: MySQL and MariaDB honour backslash escapes.\<close>

fun literal_mode :: "DatabaseType \<Rightarrow> EscapeMode" where
  "literal_mode MySQL = Backslash"
| "literal_mode MariaDB = Backslash"
| "literal_mode Postgres = Doubled"
| "literal_mode SQLite = Doubled"

text \<open>The value between the quotes of a literal in that reading.\<close>

fun literal_value :: "EscapeMode \<Rightarrow> ustr \<Rightarrow> ustr" where
  "literal_value mode [] = []"
| "literal_value mode [c] = [c]"
| "literal_value mode (c # d # s) =
     (if (mode = Backslash \<and> c = ch_backslash) \<or> (c = ch_quote \<and> d = ch_quote)
      then d # literal_value mode s else c # literal_value mode (d # s))"

lemma escape_literal_double:
  "escape_sql_literal_for_db db v =
     (if literal_mode db = Backslash then double_char ch_backslash (double_char ch_quote v)
      else double_char ch_quote v)"
  by (cases db) (auto simp: escape_sql_literal_for_db_def Let_def replace_char double_char_def
      cong: map_cong)

lemma run_scan_backslashed:
  "\<not> peek_char rest ch_quote \<Longrightarrow>
   run_scan ch_quote Backslash (double_char ch_backslash (double_char ch_quote v) @ ch_quote # rest) =
     (Suc (length (double_char ch_backslash (double_char ch_quote v))), Closed)"
  by (induction v) auto

lemma literal_value_other:
  "\<lbrakk>c \<noteq> ch_quote; mode = Backslash \<longrightarrow> c \<noteq> ch_backslash\<rbrakk> \<Longrightarrow>
   literal_value mode (c # s) = c # literal_value mode s"
  by (cases s) auto

lemma literal_value_doubled: "literal_value Doubled (double_char ch_quote v) = v"
  by (induction v) (auto simp: literal_value_other)

lemma literal_value_backslashed:
  "literal_value Backslash (double_char ch_backslash (double_char ch_quote v)) = v"
  by (induction v) (auto simp: literal_value_other)

text \<open>C25. An escaped literal cannot be left early: on every backend, in that backend's own
  reading of quotes and backslashes, the literal written around the escaped text of any value
  ends exactly at its closing quote, and the value between the quotes is the one escaped.\<close>

theorem escaped_literal_closed:
  "run_scan ch_quote (literal_mode db) (escape_sql_literal_for_db db v @ [ch_quote]) =
     (Suc (length (escape_sql_literal_for_db db v)), Closed) \<and>
   literal_value (literal_mode db) (escape_sql_literal_for_db db v) = v"
  using run_scan_doubled [of "[]" ch_quote v] run_scan_backslashed [of "[]" v]
  by (cases db) (simp_all add: escape_literal_double literal_value_doubled literal_value_backslashed)

subsection \<open>Accepted identifiers are single words\<close>

lemma segment_start:
  "c = ch_underscore \<or> is_ascii_alphabetic c \<Longrightarrow>
   \<not> lexer_whitespace q c \<and> c \<noteq> ch_minus \<and> c \<noteq> ch_slash \<and> c \<noteq> ch_quote \<and> c \<noteq> ch_dquote \<and>
   c \<noteq> ch_backtick \<and> c \<noteq> ch_lbracket \<and> c \<noteq> ch_dollar \<and> c \<noteq> ch_colon \<and> c \<noteq> ch_at \<and>
   c \<noteq> ch_hash \<and> (c = ch_underscore \<or> is_alphabetic U c)"
  by (auto simp: ascii_defs lexer_whitespace_def is_whitespace_def is_alphabetic_def)

lemma segment_char: "c = ch_underscore \<or> is_ascii_alphanumeric c \<Longrightarrow> identifier_char U c"
  by (auto simp: identifier_char_def is_alphanumeric_def ascii_defs)

lemma segment_identifier_chars: "is_safe_identifier_segment v \<Longrightarrow> \<forall>c \<in> set v. identifier_char U c"
  by (auto simp: is_safe_identifier_segment_def list_all_iff is_ascii_alphanumeric_def
      intro!: segment_char split: list.splits)

lemma next_token_segment:
  assumes v: "is_safe_identifier_segment v" and rest: "\<not> (rest \<noteq> [] \<and> identifier_char U (hd rest))"
  shows "next_token U sqlite before (v @ rest) = (KWord, length v)"
proof -
  obtain c s where cs: "v = c # s" and c: "c = ch_underscore \<or> is_ascii_alphabetic c"
    using v by (auto simp: is_safe_identifier_segment_def split: list.splits)
  have "takeWhile (identifier_char U) (v @ rest) = v"
    using segment_identifier_chars [OF v, of U] rest
    by (subst takeWhile_append2) (auto simp: takeWhile_eq_Nil_iff)
  moreover note segment_start [OF c, of sqlite U]
  ultimately show ?thesis by (auto simp: next_token_def cs Let_def)
qed

lemma scan_from_segment:
  assumes v: "is_safe_identifier_segment v" and rest: "\<not> (rest \<noteq> [] \<and> identifier_char U (hd rest))"
  shows "scan_from U sqlite before offset (v @ rest) =
    \<lparr>tok_text = v, tok_start = offset, tok_kind = KWord\<rparr> #
    scan_from U sqlite (rev v @ before) (offset + utf8_len v) rest"
proof -
  obtain c s where cs: "v @ rest = c # s" using v by (cases v) (auto simp: is_safe_identifier_segment_def)
  show ?thesis
    unfolding cs using next_token_segment [OF assms, of sqlite before]
    by (subst scan_from_Cons) (simp add: cs [symmetric] Let_def)
qed

text \<open>An identifier the validator accepts is read by the scanner, under every Unicode table,
  as one bare word covering the whole text: it cannot end a statement, open a comment or add
  a token.\<close>

theorem validated_identifier_single_word:
  assumes "validate_identifier kind v = Inr ()"
  shows "scan U v sqlite = [\<lparr>tok_text = v, tok_start = 0, tok_kind = KWord\<rparr>]"
proof -
  have "is_safe_identifier_segment v"
    using assms by (auto simp: validate_identifier_def split: if_splits)
  from scan_from_segment [OF this, of "[]" U sqlite "[]" 0] show ?thesis
    by (simp add: scan_def)
qed

theorem validated_identifier_single_word_witness:
  "scan ascii_only (lit ''user_id2'') True =
     [\<lparr>tok_text = lit ''user_id2'', tok_start = 0, tok_kind = KWord\<rparr>]"
  by (rule validated_identifier_single_word [of "[]"]) code_simp

lemma identifier_char_dot: "\<not> identifier_char U ch_dot"
  by (simp add: identifier_char_def is_alphanumeric_def ascii_defs)

lemma scan_from_dotted:
  "\<lbrakk>ps \<noteq> []; list_all is_safe_identifier_segment ps\<rbrakk> \<Longrightarrow>
   map (\<lambda>t. (tok_kind t, tok_text t)) (scan_from U sqlite before offset (join [ch_dot] ps)) =
   intersperse (KSymbol, [ch_dot]) (map (\<lambda>p. (KWord, p)) ps)"
proof (induction ps arbitrary: before offset rule: induct_list012)
  case (2 p)
  then show ?case using scan_from_segment [of p "[]" U sqlite before offset] by simp
next
  case (3 p q ps)
  then show ?case
    using scan_from_segment [of p "ch_dot # join [ch_dot] (q # ps)" U sqlite before offset]
    by (simp add: identifier_char_dot scan_from_dot)
qed simp

text \<open>An accepted column reference is read as its dot-separated parts: one to three bare
  words, separated by single dots.\<close>

theorem validated_reference_words:
  assumes "validate_identifier_reference kind v = Inr ()"
  shows "map (\<lambda>t. (tok_kind t, tok_text t)) (scan U v sqlite) =
      intersperse (KSymbol, [ch_dot]) (map (\<lambda>p. (KWord, p)) (split_on ch_dot v)) \<and>
    length (split_on ch_dot v) \<in> {1, 2, 3}"
proof -
  have ps: "list_all is_safe_identifier_segment (split_on ch_dot v)" and len: "length (split_on ch_dot v) \<le> 3"
    using assms by (auto simp: validate_identifier_reference_def Let_def list_all_iff split: if_splits)
  have "split_on ch_dot v \<noteq> []" by simp
  then have "length (split_on ch_dot v) \<in> {1, 2, 3}"
    using len by (cases "length (split_on ch_dot v)" rule: nat.exhaust) auto
  then show ?thesis
    using scan_from_dotted [OF _ ps, of U sqlite "[]" 0] by (simp add: scan_def join_split_on)
qed

theorem validated_reference_words_witness:
  "map (\<lambda>t. (tok_kind t, tok_text t)) (scan ascii_only (lit ''users.id'') False) =
      intersperse (KSymbol, [ch_dot]) (map (\<lambda>p. (KWord, p)) (split_on ch_dot (lit ''users.id''))) \<and>
    length (split_on ch_dot (lit ''users.id'')) \<in> {1, 2, 3}"
  by (rule validated_reference_words [of "[]"]) code_simp

lemma format_parts_join:
  "format_parts db n acc ps =
     (if ps = [] then acc
      else (if n > 0 then acc @ [ch_dot] else acc) @ join [ch_dot] (map (quote_ident db) ps))"
proof (induction db n acc ps rule: format_parts.induct)
  case (2 db n acc p ps)
  then show ?case
    by (cases ps) (auto simp: push_quoted_ident_def quote_ident_def Let_def)
qed simp

lemma scan_from_quoted_parts:
  "ps \<noteq> [] \<Longrightarrow>
   map (\<lambda>t. (tok_kind t, unquoted t)) (scan_from U sqlite before offset (join [ch_dot] (map (quote_ident db) ps))) =
   intersperse (KSymbol, Some [ch_dot]) (map (\<lambda>p. (KIdentifier, Some p)) ps)"
proof (induction ps arbitrary: before offset rule: induct_list012)
  case (2 p)
  then show ?case
    using scan_from_quoted_ident [of "[]" db U sqlite before offset p] by (simp add: unquoted_quote_ident)
next
  case (3 p q ps)
  have "\<not> peek_char (ch_dot # r) (quote_char db)" for r
    using quote_char_cases [of db] by auto
  with 3 show ?case
    by (simp add: scan_from_quoted_ident scan_from_dot unquoted_quote_ident)
qed simp

text \<open>Formatting a plain identifier reference never loses or adds a part: whenever the
  reference splits into parts, its quoted form reads back as exactly these parts, each one a
  quoted identifier, separated by dots; otherwise nothing is formatted.\<close>

theorem format_reference_roundtrip:
  "(case identifier_reference_parts v of
      None \<Rightarrow> format_identifier_reference db v = None
    | Some parts \<Rightarrow>
        \<exists>r. format_identifier_reference db v = Some r \<and>
            map (\<lambda>t. (tok_kind t, unquoted t)) (scan U r sqlite) =
              intersperse (KSymbol, Some [ch_dot]) (map (\<lambda>p. (KIdentifier, Some p)) parts))"
proof (cases "identifier_reference_parts v")
  case None
  then show ?thesis by (simp add: format_identifier_reference_def)
next
  case (Some parts)
  then have "parts \<noteq> []"
    by (auto simp: identifier_reference_parts_def Let_def split: if_splits)
  with Some show ?thesis
    by (simp add: format_identifier_reference_def format_parts_join scan_def scan_from_quoted_parts)
qed

end
