(* ===== verification/Migration_Ledger.thy ===== *)
theory Migration_Ledger
  imports Transactions Sql_Quoting
begin

text \<open>
  The tables migrations and seeds are recorded in, \<open>src/src/migration/ledger.rs\<close>, and what the
  migrator and the seeder share: statements on the pool, statements inside a transaction, and
  runs of steps each of which happens whole or not at all. The contents of a database are the
  application's own objects and the rows of the ledger tables, in the order they were written.
\<close>

subsection \<open>The ledger and its statements\<close>

record Ledger =
  lg_table :: ustr
  key_column :: ustr
  detail_columns :: "ustr list"
  recorded_at_column :: ustr

definition migrations :: "ustr \<Rightarrow> Ledger" where
  "migrations table = \<lparr>lg_table = table, key_column = lit ''version'', detail_columns = [lit ''name''],
     recorded_at_column = lit ''applied_at''\<rparr>"

definition seeds :: Ledger where
  "seeds = \<lparr>lg_table = lit ''_seeds'', key_column = lit ''name'', detail_columns = [],
     recorded_at_column = lit ''executed_at''\<rparr>"

fun ledger_types :: "DatabaseType \<Rightarrow> ustr \<times> ustr \<times> ustr" where
  "ledger_types Postgres = (lit ''SERIAL PRIMARY KEY'', lit ''VARCHAR(255)'', lit ''TIMESTAMP'')"
| "ledger_types SQLite = (lit ''INTEGER PRIMARY KEY AUTOINCREMENT'', lit ''TEXT'', lit ''TEXT'')"
| "ledger_types _ = (lit ''INT AUTO_INCREMENT PRIMARY KEY'', lit ''VARCHAR(255)'', lit ''TIMESTAMP'')"

definition create_table_sql :: "Ledger \<Rightarrow> DatabaseType \<Rightarrow> ustr" where
  "create_table_sql l db_type =
     (case ledger_types db_type of (id_type, text_type, timestamp_type) \<Rightarrow>
        let columns =
          [quote_ident db_type (lit ''id'') @ lit '' '' @ id_type,
           quote_ident db_type (key_column l) @ lit '' '' @ text_type @ lit '' NOT NULL UNIQUE''] @
          map (\<lambda>column. quote_ident db_type column @ lit '' '' @ text_type @ lit '' NOT NULL'') (detail_columns l) @
          [quote_ident db_type (recorded_at_column l) @ lit '' '' @ timestamp_type @
             lit '' NOT NULL DEFAULT CURRENT_TIMESTAMP'']
        in lit ''CREATE TABLE IF NOT EXISTS '' @ quote_ident db_type (lg_table l) @ lit '' ('' @
           join (lit '', '') columns @ lit '')'')"

definition keys_sql :: "Ledger \<Rightarrow> DatabaseType \<Rightarrow> ustr" where
  "keys_sql l db_type =
     lit ''SELECT '' @ quote_ident db_type (key_column l) @ lit '' FROM '' @ quote_ident db_type (lg_table l) @
     lit '' ORDER BY '' @ quote_ident db_type (lit ''id'') @ lit '' ASC''"

definition push_param :: "DatabaseType \<Rightarrow> 'v list \<Rightarrow> 'v \<Rightarrow> ustr \<times> 'v list" where
  "push_param db_type params v = (placeholder db_type (length params + 1), params @ [v])"

fun push_params :: "DatabaseType \<Rightarrow> 'v list \<Rightarrow> 'v list \<Rightarrow> ustr list \<times> 'v list" where
  "push_params db_type params [] = ([], params)"
| "push_params db_type params (v # vs) =
     (case push_param db_type params v of (mark, params') \<Rightarrow>
        case push_params db_type params' vs of (markers, params'') \<Rightarrow> (mark # markers, params''))"

definition insert_sql :: "Ledger \<Rightarrow> DatabaseType \<Rightarrow> ustr \<Rightarrow> ustr list \<Rightarrow> ustr \<times> ustr list" where
  "insert_sql l db_type key details =
     (case push_params db_type [] (key # details) of (markers, params) \<Rightarrow>
        (lit ''INSERT INTO '' @ quote_ident db_type (lg_table l) @ lit '' ('' @
           column_list db_type (key_column l # detail_columns l) [] @ lit '') VALUES ('' @
           join (lit '', '') markers @ lit '')'', params))"

definition delete_sql :: "Ledger \<Rightarrow> DatabaseType \<Rightarrow> ustr \<Rightarrow> ustr \<times> ustr list" where
  "delete_sql l db_type key =
     (case push_param db_type [] key of (mark, params) \<Rightarrow>
        (lit ''DELETE FROM '' @ quote_ident db_type (lg_table l) @ lit '' WHERE '' @
           quote_ident db_type (key_column l) @ lit '' = '' @ mark, params))"

text \<open>The values of an insert are the key and the details, each at the place its marker names.\<close>

lemma push_params_eq:
  "push_params db_type params vs =
     (map (\<lambda>i. placeholder db_type (length params + i + 1)) [0..<length vs], params @ vs)"
proof (induction vs arbitrary: params)
  case (Cons v vs)
  then show ?case by (simp add: push_param_def map_upt_Suc del: upt_Suc)
qed simp

lemma insert_sql_params: "snd (insert_sql l db_type key details) = key # details"
  by (simp add: insert_sql_def push_params_eq)

subsection \<open>What the statements do\<close>

type_synonym ledger_row = "ustr \<times> ustr list"

record 'x contents =
  objects :: 'x
  ledgers :: "ustr \<Rightarrow> ledger_row list option"

definition rows_of :: "Ledger \<Rightarrow> 'x contents \<Rightarrow> ledger_row list" where
  "rows_of l c = (case ledgers c (lg_table l) of None \<Rightarrow> [] | Some rows \<Rightarrow> rows)"

definition keys_of :: "Ledger \<Rightarrow> 'x contents \<Rightarrow> ustr list" where
  "keys_of l c = map fst (rows_of l c)"

definition created :: "Ledger \<Rightarrow> 'x contents \<Rightarrow> 'x contents" where
  "created l c = c\<lparr>ledgers := (ledgers c)(lg_table l \<mapsto> rows_of l c)\<rparr>"

definition recorded :: "Ledger \<Rightarrow> ustr \<Rightarrow> ustr list \<Rightarrow> 'x contents \<Rightarrow> 'x contents" where
  "recorded l key details c = c\<lparr>ledgers := (ledgers c)(lg_table l \<mapsto> rows_of l c @ [(key, details)])\<rparr>"

definition removed :: "Ledger \<Rightarrow> ustr \<Rightarrow> 'x contents \<Rightarrow> 'x contents" where
  "removed l key c = c\<lparr>ledgers := (ledgers c)(lg_table l \<mapsto> filter (\<lambda>row. fst row \<noteq> key) (rows_of l c))\<rparr>"

lemma ledger_effects [simp]:
  "objects (created l c) = objects c" "keys_of l (created l c) = keys_of l c"
  "objects (recorded l key details c) = objects c" "keys_of l (recorded l key details c) = keys_of l c @ [key]"
  "objects (removed l key c) = objects c" "keys_of l (removed l key c) = filter (\<lambda>k. k \<noteq> key) (keys_of l c)"
  by (simp_all add: created_def recorded_def removed_def keys_of_def rows_of_def filter_map o_def)

subsection \<open>Statements on the pool\<close>

text \<open>The backend a configured database type runs on.\<close>

fun backend_of :: "DatabaseType \<Rightarrow> Backend" where
  "backend_of Postgres = PgBackend"
| "backend_of SQLite = SqliteBackend"
| "backend_of _ = MySqlBackend"

definition pool_execute ::
  "engine \<Rightarrow> ('s, 'c) driver \<Rightarrow> ('c \<Rightarrow> 'c) \<Rightarrow> ('s, 'u) session \<Rightarrow> (Error + unit) \<times> ('s, 'u) session" where
  "pool_execute G D f s =
     (case request D (Execute f) s of (Inl e, s') \<Rightarrow> (Inl (translate_error G e), s') | (Inr _, s') \<Rightarrow> (Inr (), s'))"

text \<open>A query changes nothing and returns what the connection sees.\<close>

definition pool_fetch ::
  "engine \<Rightarrow> ('s, 'c) driver \<Rightarrow> ('c \<Rightarrow> 'a) \<Rightarrow> ('s, 'u) session \<Rightarrow> (Error + 'a) \<times> ('s, 'u) session" where
  "pool_fetch G D read s =
     (case pool_execute G D (\<lambda>c. c) s of (Inl e, s') \<Rightarrow> (Inl e, s') | (Inr _, s') \<Rightarrow> (Inr (read (view (conn D s'))), s'))"

text \<open>The \<open>?\<close> operator between steps that keep their state.\<close>

fun and_then :: "(Error + 'a) \<times> 's \<Rightarrow> ('a \<Rightarrow> 's \<Rightarrow> (Error + 'b) \<times> 's) \<Rightarrow> (Error + 'b) \<times> 's" where
  "and_then (Inl e, s) f = (Inl e, s)"
| "and_then (Inr x, s) f = f x s"

lemma and_then_Inr:
  "and_then r f = (Inr y, s') \<longleftrightarrow> (\<exists>x s. r = (Inr x, s) \<and> f x s = (Inr y, s'))"
  by (cases r; cases "fst r") auto

lemma and_then_Inl:
  "and_then r f = (Inl e, s') \<longleftrightarrow> r = (Inl e, s') \<or> (\<exists>x s. r = (Inr x, s) \<and> f x s = (Inl e, s'))"
  by (cases r; cases "fst r") auto

definition ledger_ensure ::
  "engine \<Rightarrow> DatabaseType \<Rightarrow> ('s, 'x contents) driver \<Rightarrow> Ledger \<Rightarrow> ('s, 'u) session \<Rightarrow> (Error + unit) \<times> ('s, 'u) session" where
  "ledger_ensure G db_type D l s =
     (if db_type = MySQL \<or> db_type = MariaDB then
        and_then (pool_fetch G D (\<lambda>c. ledgers c (lg_table l) \<noteq> None) s)
          (\<lambda>present s'. if present then (Inr (), s') else pool_execute G D (created l) s')
      else pool_execute G D (created l) s)"

definition ledger_keys ::
  "engine \<Rightarrow> ('s, 'x contents) driver \<Rightarrow> Ledger \<Rightarrow> ('s, 'u) session \<Rightarrow> (Error + ustr list) \<times> ('s, 'u) session" where
  "ledger_keys G D l = pool_fetch G D (keys_of l)"

definition ledger_record ::
  "engine \<Rightarrow> ('s, 'x contents) driver \<Rightarrow> Ledger \<Rightarrow> ustr \<Rightarrow> ustr list \<Rightarrow> ('s, 'u) session \<Rightarrow> (Error + unit) \<times> ('s, 'u) session" where
  "ledger_record G D l key details = pool_execute G D (recorded l key details)"

definition ledger_remove ::
  "engine \<Rightarrow> ('s, 'x contents) driver \<Rightarrow> Ledger \<Rightarrow> ustr \<Rightarrow> ('s, 'u) session \<Rightarrow> (Error + unit) \<times> ('s, 'u) session" where
  "ledger_remove G D l key = pool_execute G D (removed l key)"

subsection \<open>Statements inside a transaction\<close>

definition scope_execute ::
  "engine \<Rightarrow> Backend \<Rightarrow> ('s, 'c) driver \<Rightarrow> ('c \<Rightarrow> 'c) \<Rightarrow> ('s, 'c, 'u) scope \<Rightarrow> (Error + unit) \<times> ('s, 'c, 'u) scope" where
  "scope_execute G b D f st =
     (case st of (p, s, acks) \<Rightarrow>
        (case execute_unprepared G b D f (p, s) of (Inl e, _) \<Rightarrow> Inl (translate_error G e) | (Inr _, _) \<Rightarrow> Inr (),
         run_in_scope G b D (Statement f) st))"

fun scope_execute_all ::
  "engine \<Rightarrow> Backend \<Rightarrow> ('s, 'c) driver \<Rightarrow> ('c \<Rightarrow> 'c) list \<Rightarrow> ('s, 'c, 'u) scope \<Rightarrow> (Error + unit) \<times> ('s, 'c, 'u) scope" where
  "scope_execute_all G b D [] st = (Inr (), st)"
| "scope_execute_all G b D (f # fs) st = and_then (scope_execute G b D f st) (\<lambda>_. scope_execute_all G b D fs)"

fun pool_execute_all ::
  "engine \<Rightarrow> ('s, 'c) driver \<Rightarrow> ('c \<Rightarrow> 'c) list \<Rightarrow> ('s, 'u) session \<Rightarrow> (Error + unit) \<times> ('s, 'u) session" where
  "pool_execute_all G D [] s = (Inr (), s)"
| "pool_execute_all G D (f # fs) s = and_then (pool_execute G D f s) (\<lambda>_. pool_execute_all G D fs)"

lemma scope_execute_acks:
  assumes "scope_execute G b D f (p, s, acks) = (Inr u, p', s', acks')"
  shows "acks' = acks @ [f]"
proof -
  obtain r p1 s1 where e: "execute_unprepared G b D f (p, s) = (r, p1, s1)" by (metis prod_cases3)
  with assms show ?thesis by (cases r) (auto simp: scope_execute_def)
qed

lemma scope_execute_all_acks:
  "scope_execute_all G b D fs (p, s, acks) = (Inr u, p', s', acks') \<Longrightarrow> acks' = acks @ fs"
proof (induction fs arbitrary: p s acks)
  case (Cons f fs)
  obtain r p1 s1 acks1 where r: "scope_execute G b D f (p, s, acks) = (r, p1, s1, acks1)" by (metis prod_cases4)
  show ?case
  proof (cases r)
    case (Inr u')
    with r Cons.prems have "scope_execute_all G b D fs (p1, s1, acks1) = (Inr u, p', s', acks')" by simp
    with Cons.IH scope_execute_acks r Inr show ?thesis by fastforce
  qed (use r Cons.prems in simp)
qed simp

text \<open>Whatever it returns, a sequence of statements is a run of some of them.\<close>

lemma scope_execute_run: "snd (scope_execute G b D f st) = run_all G b D [Statement f] st"
  by (cases st) (simp add: scope_execute_def)

lemma run_all_append: "run_all G b D (xs @ ys) st = run_all G b D ys (run_all G b D xs st)"
  by (induction xs arbitrary: st) simp_all

lemma scope_execute_all_run: "\<exists>items. snd (scope_execute_all G b D fs st) = run_all G b D items st"
proof (induction fs arbitrary: st)
  case Nil
  have "snd (scope_execute_all G b D [] st) = run_all G b D [] st" by simp
  then show ?case ..
next
  case (Cons f fs)
  obtain r st' where r: "scope_execute G b D f st = (r, st')" by (cases "scope_execute G b D f st")
  then have st': "st' = run_all G b D [Statement f] st" using scope_execute_run by (metis snd_conv)
  show ?case
  proof (cases r)
    case (Inl e)
    with r st' have "snd (scope_execute_all G b D (f # fs) st) = run_all G b D [Statement f] st" by simp
    then show ?thesis ..
  next
    case (Inr u)
    obtain items where "snd (scope_execute_all G b D fs st') = run_all G b D items st'" using Cons.IH by blast
    with Inr r st' have "snd (scope_execute_all G b D (f # fs) st) = run_all G b D ([Statement f] @ items) st"
      by (simp only: run_all_append scope_execute_all.simps and_then.simps)
    then show ?thesis ..
  qed
qed

subsection \<open>Steps that happen whole or not at all\<close>

definition good :: "engine \<Rightarrow> Backend \<Rightarrow> ('s, 'c) driver \<Rightarrow> ('s, 'u) session \<Rightarrow> bool" where
  "good G b D s \<longleftrightarrow> documented G b D \<and> saved (conn D s) = [] \<and> \<not> poisoned (conn D s) \<and> \<not> lost (conn D s)"

definition kept :: "('s, 'c) driver \<Rightarrow> ('s, 'u) session \<Rightarrow> 'c" where
  "kept D s = durable (conn D s)"

lemma good_kept: "good G b D s \<Longrightarrow> kept D s = view (conn D s)"
  by (simp add: good_def kept_def durable_def)

fun run_steps :: "('m \<Rightarrow> 's \<Rightarrow> (Error + unit) \<times> 's) \<Rightarrow> 'm list \<Rightarrow> 's \<Rightarrow> (Error + unit) \<times> 's" where
  "run_steps step [] s = (Inr (), s)"
| "run_steps step (m # ms) s = and_then (step m s) (\<lambda>_. run_steps step ms)"

locale atomic_steps =
  fixes step :: "'m \<Rightarrow> 's \<Rightarrow> (Error + unit) \<times> 's"
    and fine :: "'s \<Rightarrow> bool"
    and keeps :: "'s \<Rightarrow> 'c"
    and effect :: "'m \<Rightarrow> 'c \<Rightarrow> 'c"
  assumes step_done: "fine s \<Longrightarrow> step m s = (Inr u, s') \<Longrightarrow> fine s' \<and> keeps s' = effect m (keeps s)"
    and step_failed: "fine s \<Longrightarrow> step m s = (Inl e, s') \<Longrightarrow> keeps s' = keeps s \<or> keeps s' = effect m (keeps s)"
begin

lemma steps_done:
  "fine s \<Longrightarrow> run_steps step ms s = (Inr u, s') \<Longrightarrow> fine s' \<and> keeps s' = fold effect ms (keeps s)"
proof (induction ms arbitrary: s)
  case (Cons m ms)
  obtain r s1 where r: "step m s = (r, s1)" by fastforce
  show ?case
  proof (cases r)
    case (Inr u')
    with r step_done [OF Cons.prems(1)] have "fine s1" "keeps s1 = effect m (keeps s)" by blast+
    with Cons.IH Cons.prems(2) r Inr show ?thesis by simp
  qed (use r Cons.prems in simp)
qed simp

text \<open>A run that fails has done the steps before the one that failed, and that one whole or not at all.\<close>

lemma steps_failed:
  "fine s \<Longrightarrow> run_steps step ms s = (Inl e, s') \<Longrightarrow> \<exists>n \<le> length ms. keeps s' = fold effect (take n ms) (keeps s)"
proof (induction ms arbitrary: s)
  case (Cons m ms)
  obtain r s1 where r: "step m s = (r, s1)" by fastforce
  show ?case
  proof (cases r)
    case (Inl e')
    with r Cons.prems step_failed have "keeps s' = keeps s \<or> keeps s' = effect m (keeps s)" by auto
    then have "keeps s' = fold effect (take 0 (m # ms)) (keeps s) \<or> keeps s' = fold effect (take 1 (m # ms)) (keeps s)"
      by simp
    then show ?thesis using zero_le by (metis One_nat_def Suc_le_mono list.size(4) add.right_neutral add_Suc_right)
  next
    case (Inr u)
    with r step_done [OF Cons.prems(1)] have s1: "fine s1" "keeps s1 = effect m (keeps s)" by blast+
    with Cons.IH [OF s1(1)] Cons.prems(2) r Inr obtain n where "n \<le> length ms" "keeps s' = fold effect (take n ms) (keeps s1)"
      by auto
    then have "Suc n \<le> length (m # ms)" "keeps s' = fold effect (take (Suc n) (m # ms)) (keeps s)" using s1 by simp_all
    then show ?thesis by blast
  qed
qed simp

end

text \<open>A statement on the pool commits on its own; one transaction makes a step of many statements.\<close>

definition in_transaction ::
  "engine \<Rightarrow> Backend \<Rightarrow> ('s, 'c) driver \<Rightarrow> (('s, 'c, 'u) scope \<Rightarrow> (Error + 'a) \<times> ('s, 'c, 'u) scope) \<Rightarrow>
     ('s, 'u) session \<Rightarrow> (Error + 'a) \<times> ('s, 'u) session" where
  "in_transaction G b D work s = (case transaction G b D work False s of (result, s', _) \<Rightarrow> (result, s'))"

lemma pool_execute_done:
  "good G b D s \<Longrightarrow> pool_execute G D f s = (Inr u, s') \<Longrightarrow> good G b D s' \<and> kept D s' = f (kept D s)"
  using request_answers [of G b D "Execute f" s]
  by (fastforce simp: pool_execute_def good_def kept_def durable_def answers_execute split: prod.splits sum.splits)

lemma pool_execute_failed:
  "good G b D s \<Longrightarrow> pool_execute G D f s = (Inl e, s') \<Longrightarrow> kept D s' = kept D s \<or> kept D s' = f (kept D s)"
  using request_answers [of G b D "Execute f" s]
  by (fastforce simp: pool_execute_def good_def kept_def durable_def rolled_back_def answers_execute split: prod.splits sum.splits)

interpretation statement: atomic_steps "pool_execute G D" "good G b D" "kept D" "\<lambda>f. f" for G b D
proof
  show "good G b D s \<Longrightarrow> pool_execute G D m s = (Inr u, s') \<Longrightarrow> good G b D s' \<and> kept D s' = m (kept D s)" for s m u s'
    by (rule pool_execute_done)
  show "good G b D s \<Longrightarrow> pool_execute G D m s = (Inl e, s') \<Longrightarrow> kept D s' = kept D s \<or> kept D s' = m (kept D s)" for s m e s'
    by (rule pool_execute_failed)
qed

lemma transaction_done:
  assumes "good G b D s" and "closure G b D work"
    and acks: "\<And>p1 s1 y p2 s2 acks. work (p1, s1, []) = (Inr y, p2, s2, acks) \<Longrightarrow> fold (\<lambda>f. f) acks (kept D s) = v"
    and run: "in_transaction G b D work s = (Inr x, s')"
  shows "good G b D s' \<and> kept D s' = v"
proof -
  obtain a where t: "transaction G b D work False s = (Inr x, s', a)"
    using run by (auto simp: in_transaction_def split: prod.splits)
  note r = transaction_refines [OF _ assms(2) _ _ t]
  have "fold (\<lambda>f. f) a (kept D s) = v" using r(2) acks assms(1) by (auto simp: good_def)
  with r(1) assms(1) good_kept [OF assms(1)] show ?thesis by (auto simp: good_def kept_def durable_def)
qed

lemma transaction_failed:
  assumes "good G b D s" and "closure G b D work"
    and acks: "\<And>p1 s1 y p2 s2 acks. work (p1, s1, []) = (Inr y, p2, s2, acks) \<Longrightarrow> fold (\<lambda>f. f) acks (kept D s) = v"
    and run: "in_transaction G b D work s = (Inl e, s')"
  shows "kept D s' = kept D s \<or> kept D s' = v"
proof -
  obtain a where t: "transaction G b D work False s = (Inl e, s', a)"
    using run by (auto simp: in_transaction_def split: prod.splits)
  note r = transaction_refines [OF _ assms(2) _ _ t]
  show ?thesis
  proof (cases "kept D s' = kept D s")
    case False
    then have "durable (conn D s') \<noteq> view (conn D s)" using good_kept [OF assms(1)] by (simp add: kept_def)
    then have "fold (\<lambda>f. f) a (kept D s) = v" using r(2) acks assms(1) by (auto simp: good_def)
    with r(1) assms(1) good_kept [OF assms(1)] show ?thesis by (auto simp: good_def kept_def)
  qed simp
qed

end
