(* ===== verification/Migrator.thy ===== *)
theory Migrator
  imports Migration_Ledger "HOL-Library.List_Lexorder"
begin

text \<open>
  The migrator: \<open>src/src/migration/migrator.rs\<close>, \<open>api.rs\<close> and the transaction of
  \<open>sqlite_foreign_keys.rs\<close>, on a pool, outside any transaction of the caller. A migration is user
  code: the statements it runs on the application's objects, in order, each ending it when it
  fails, and the error it may end with itself. The lock sessions are third-party connections:
  whether the lock is acquired and released is a parameter, and so is whether SQLite gives a
  connection of its own with foreign keys off.
\<close>

subsection \<open>Migrations and their reports\<close>

record 'x Migration =
  mg_version :: ustr
  mg_name :: ustr
  foreign_keys_off :: bool
  up :: "('x \<Rightarrow> 'x) list"
  up_error :: "Error option"
  down :: "('x \<Rightarrow> 'x) list"
  down_error :: "Error option"

record MigrationInfo =
  mi_version :: ustr
  mi_name :: ustr

record MigrationResult =
  applied :: "MigrationInfo list"
  skipped :: "MigrationInfo list"
  rolled_back_infos :: "MigrationInfo list"

definition empty_result :: MigrationResult where
  "empty_result = \<lparr>applied = [], skipped = [], rolled_back_infos = []\<rparr>"

definition has_applied :: "MigrationResult \<Rightarrow> bool" where
  "has_applied r \<longleftrightarrow> applied r \<noteq> []"

definition write_report_section :: "ustr \<Rightarrow> ustr \<Rightarrow> 'a list \<Rightarrow> ('a \<Rightarrow> ustr) \<Rightarrow> ustr" where
  "write_report_section heading marker infos label =
     (if infos = [] then []
      else heading @ [ch_colon, 10] @ concat (map (\<lambda>x. lit ''  '' @ marker @ lit '' '' @ label x @ [10]) infos))"

definition display_migration_result :: "MigrationResult \<Rightarrow> ustr" where
  "display_migration_result r =
     (let label = (\<lambda>m. mi_version m @ lit '' - '' @ mi_name m) in
      write_report_section (lit ''Applied migrations'') [10003] (applied r) label @
      write_report_section (lit ''Skipped migrations (already applied)'') (lit ''-'') (skipped r) label @
      write_report_section (lit ''Rolled back migrations'') [8617] (rolled_back_infos r) label)"

record MigrationStatus =
  ms_version :: ustr
  ms_name :: ustr
  ms_applied :: bool

definition display_migration_status :: "MigrationStatus \<Rightarrow> ustr" where
  "display_migration_status s =
     lit ''['' @ [if ms_applied s then 10003 else 9675] @ lit ''] '' @ ms_version s @ lit '' - '' @ ms_name s"

subsection \<open>The database a migrator runs on\<close>

datatype LockKind = MigrationLock | SeedLock

fun lock_suffix :: "LockKind \<Rightarrow> ustr" where
  "lock_suffix MigrationLock = lit ''.tideorm-migrations.lock''"
| "lock_suffix SeedLock = lit ''.tideorm-seeds.lock''"

fun lock_key :: "LockKind \<Rightarrow> int" where
  "lock_key MigrationLock = 0x00544944454F524D"
| "lock_key SeedLock = 0x0054494445534544"

fun lock_name :: "LockKind \<Rightarrow> ustr" where
  "lock_name MigrationLock = lit ''tideorm_migrations''"
| "lock_name SeedLock = lit ''tideorm_seeds''"

record ('s, 'x) database =
  db_engine :: engine
  db_type :: DatabaseType
  db_driver :: "('s, 'x contents) driver"
  lock_acquire :: "LockKind \<Rightarrow> Error + unit"
  lock_release :: "LockKind \<Rightarrow> Error + unit"
  own_connection :: "Error + unit"
  foreign_key_check :: "'x contents \<Rightarrow> (ustr \<times> ustr \<times> ustr) list"

abbreviation pool_good :: "('s, 'x) database \<Rightarrow> ('s, 'u) session \<Rightarrow> bool" where
  "pool_good B s \<equiv> good (db_engine B) (backend_of (db_type B)) (db_driver B) s"

abbreviation pool_kept :: "('s, 'x) database \<Rightarrow> ('s, 'u) session \<Rightarrow> 'x contents" where
  "pool_kept B s \<equiv> kept (db_driver B) s"

fun supports_transactional_ddl :: "DatabaseType \<Rightarrow> bool" where
  "supports_transactional_ddl Postgres = True"
| "supports_transactional_ddl SQLite = True"
| "supports_transactional_ddl _ = False"

text \<open>A failure of the work is reported before a failure to release the lock.\<close>

definition with_ledger_lock ::
  "('s, 'x) database \<Rightarrow> LockKind \<Rightarrow> (('s, 'u) session \<Rightarrow> (Error + 'a) \<times> ('s, 'u) session) \<Rightarrow>
     ('s, 'u) session \<Rightarrow> (Error + 'a) \<times> ('s, 'u) session" where
  "with_ledger_lock B kind work s =
     (case lock_acquire B kind of
        Inl e \<Rightarrow> (Inl e, s)
      | Inr _ \<Rightarrow>
          (case work s of
             (Inl e, s') \<Rightarrow> (Inl e, s')
           | (Inr x, s') \<Rightarrow> (case lock_release B kind of Inl e \<Rightarrow> (Inl e, s') | Inr _ \<Rightarrow> (Inr x, s'))))"

definition scope_fetch ::
  "engine \<Rightarrow> Backend \<Rightarrow> ('s, 'c) driver \<Rightarrow> ('c \<Rightarrow> 'a) \<Rightarrow> ('s, 'c, 'u) scope \<Rightarrow> (Error + 'a) \<times> ('s, 'c, 'u) scope" where
  "scope_fetch G b D read st =
     and_then (scope_execute G b D (\<lambda>c. c) st) (\<lambda>_ st'. (Inr (read (view (conn D (fst (snd st'))))), st'))"

definition foreign_key_violations ::
  "('s, 'x) database \<Rightarrow> ('s, 'x contents, 'u) scope \<Rightarrow> (Error + ustr option) \<times> ('s, 'x contents, 'u) scope" where
  "foreign_key_violations B =
     scope_fetch (db_engine B) (backend_of (db_type B)) (db_driver B)
       (\<lambda>c. case foreign_key_check B c of
               [] \<Rightarrow> None
             | (table, rowid, parent) # rest \<Rightarrow>
                 Some (show_nat (length rest + 1) @
                   lit '' row(s) whose foreign key matches no row, the first in table '' @ table @ lit '' (rowid '' @
                   rowid @ lit '') pointing at table '' @ parent))"

definition checked_foreign_keys ::
  "('s, 'x) database \<Rightarrow> (('s, 'x contents, 'u) scope \<Rightarrow> (Error + unit) \<times> ('s, 'x contents, 'u) scope) \<Rightarrow>
     ('s, 'x contents, 'u) scope \<Rightarrow> (Error + unit) \<times> ('s, 'x contents, 'u) scope" where
  "checked_foreign_keys B work st =
     and_then (foreign_key_violations B st) (\<lambda>before st1.
       case before of
         Some violations \<Rightarrow> (Inl (query (lit ''the database already has '' @ violations @
           lit ''; fix them before running a migration with foreign keys off'')), st1)
       | None \<Rightarrow>
           and_then (work st1) (\<lambda>_ st2.
             and_then (foreign_key_violations B st2) (\<lambda>after st3.
               case after of
                 Some violations \<Rightarrow> (Inl (query (lit ''the migration ran with foreign keys off and leaves '' @ violations @
                   lit ''; it was rolled back'')), st3)
               | None \<Rightarrow> (Inr (), st3))))"

definition run_with_foreign_keys_off ::
  "('s, 'x) database \<Rightarrow> (('s, 'x contents, 'u) scope \<Rightarrow> (Error + unit) \<times> ('s, 'x contents, 'u) scope) \<Rightarrow>
     ('s, 'u) session \<Rightarrow> (Error + unit) \<times> ('s, 'u) session" where
  "run_with_foreign_keys_off B work s =
     (case own_connection B of
        Inl e \<Rightarrow> (Inl e, s)
      | Inr _ \<Rightarrow> in_transaction (db_engine B) (backend_of (db_type B)) (db_driver B) (checked_foreign_keys B work) s)"

text \<open>The work takes its connection from the ambient scope: the pool where DDL is not
  transactional, the transaction elsewhere.\<close>

definition in_ddl_scope ::
  "('s, 'x) database \<Rightarrow> bool \<Rightarrow> (('s, 'u) session \<Rightarrow> (Error + unit) \<times> ('s, 'u) session) \<Rightarrow>
     (('s, 'x contents, 'u) scope \<Rightarrow> (Error + unit) \<times> ('s, 'x contents, 'u) scope) \<Rightarrow>
     ('s, 'u) session \<Rightarrow> (Error + unit) \<times> ('s, 'u) session" where
  "in_ddl_scope B fk_off on_pool in_scope s =
     (if \<not> supports_transactional_ddl (db_type B) then on_pool s
      else if fk_off \<and> db_type B = SQLite then run_with_foreign_keys_off B in_scope s
      else in_transaction (db_engine B) (backend_of (db_type B)) (db_driver B) in_scope s)"

subsection \<open>One migration\<close>

definition on_objects :: "('x \<Rightarrow> 'x) \<Rightarrow> 'x contents \<Rightarrow> 'x contents" where
  "on_objects f c = c\<lparr>objects := f (objects c)\<rparr>"

definition ended :: "Error option \<Rightarrow> 's \<Rightarrow> (Error + unit) \<times> 's" where
  "ended err s = (case err of None \<Rightarrow> (Inr (), s) | Some e \<Rightarrow> (Inl e, s))"

definition ledger_effect :: "ustr \<Rightarrow> 'x Migration \<Rightarrow> bool \<Rightarrow> 'x contents \<Rightarrow> 'x contents" where
  "ledger_effect table m apply =
     (if apply then recorded (migrations table) (mg_version m) [mg_name m]
      else removed (migrations table) (mg_version m))"

definition migrate_in_scope ::
  "('s, 'x) database \<Rightarrow> ustr \<Rightarrow> 'x Migration \<Rightarrow> bool \<Rightarrow> ('s, 'x contents, 'u) scope \<Rightarrow>
     (Error + unit) \<times> ('s, 'x contents, 'u) scope" where
  "migrate_in_scope B table m apply st =
     and_then (scope_execute_all (db_engine B) (backend_of (db_type B)) (db_driver B)
                 (map on_objects (if apply then up m else down m)) st)
       (\<lambda>_ st1. and_then (ended (if apply then up_error m else down_error m) st1)
          (\<lambda>_. scope_execute (db_engine B) (backend_of (db_type B)) (db_driver B) (ledger_effect table m apply)))"

definition migrate_on_pool ::
  "('s, 'x) database \<Rightarrow> ustr \<Rightarrow> 'x Migration \<Rightarrow> bool \<Rightarrow> ('s, 'u) session \<Rightarrow> (Error + unit) \<times> ('s, 'u) session" where
  "migrate_on_pool B table m apply s =
     and_then (pool_execute_all (db_engine B) (db_driver B) (map on_objects (if apply then up m else down m)) s)
       (\<lambda>_ s1. and_then (ended (if apply then up_error m else down_error m) s1)
          (\<lambda>_. pool_execute (db_engine B) (db_driver B) (ledger_effect table m apply)))"

definition run_migration ::
  "('s, 'x) database \<Rightarrow> ustr \<Rightarrow> bool \<Rightarrow> 'x Migration \<Rightarrow> ('s, 'u) session \<Rightarrow> (Error + unit) \<times> ('s, 'u) session" where
  "run_migration B table apply m =
     in_ddl_scope B (foreign_keys_off m) (migrate_on_pool B table m apply) (migrate_in_scope B table m apply)"

subsection \<open>The migrator\<close>

record 'x Migrator =
  registered_migrations :: "'x Migration list"
  migrator_table :: ustr

definition Migrator_new :: "'x Migrator" where
  "Migrator_new = \<lparr>registered_migrations = [], migrator_table = lit ''_migrations''\<rparr>"

definition add_migration :: "'x Migration \<Rightarrow> 'x Migrator \<Rightarrow> 'x Migrator" where
  "add_migration m M = M\<lparr>registered_migrations := registered_migrations M @ [m]\<rparr>"

definition migrations_table :: "ustr \<Rightarrow> 'x Migrator \<Rightarrow> 'x Migrator" where
  "migrations_table name M = M\<lparr>migrator_table := name\<rparr>"

definition checked_ledger :: "ustr \<Rightarrow> Error + Ledger" where
  "checked_ledger table =
     (if \<not> is_safe_identifier_segment table then
        Inl (Configuration (lit ''invalid migrations table name '' @ [39] @ table @ [39] @
          lit '': expected ASCII letters, numbers, and underscores''))
      else Inr (migrations table))"

definition sorted_migrations :: "'x Migrator \<Rightarrow> 'x Migration list" where
  "sorted_migrations M = sort_key mg_version (registered_migrations M)"

definition registered_versions :: "'x Migrator \<Rightarrow> ustr set" where
  "registered_versions M = mg_version ` set (registered_migrations M)"

definition applied_versions ::
  "('s, 'x) database \<Rightarrow> 'x Migrator \<Rightarrow> Ledger \<Rightarrow> ('s, 'u) session \<Rightarrow> (Error + ustr list) \<times> ('s, 'u) session" where
  "applied_versions B M l s =
     and_then (ledger_keys (db_engine B) (db_driver B) l s)
       (\<lambda>keys s'. (Inr (filter (\<lambda>version. version \<in> registered_versions M) keys), s'))"

definition info_of :: "'x Migration \<Rightarrow> MigrationInfo" where
  "info_of m = \<lparr>mi_version = mg_version m, mi_name = mg_name m\<rparr>"

fun run_loop ::
  "('s, 'x) database \<Rightarrow> ustr \<Rightarrow> ustr list \<Rightarrow> 'x Migration list \<Rightarrow> MigrationResult \<Rightarrow> ('s, 'u) session \<Rightarrow>
     (Error + MigrationResult) \<times> ('s, 'u) session" where
  "run_loop B table done_versions [] result s = (Inr result, s)"
| "run_loop B table done_versions (m # ms) result s =
     (if mg_version m \<in> set done_versions then
        run_loop B table done_versions ms (result\<lparr>skipped := skipped result @ [info_of m]\<rparr>) s
      else and_then (run_migration B table True m s)
             (\<lambda>_. run_loop B table done_versions ms (result\<lparr>applied := applied result @ [info_of m]\<rparr>)))"

text \<open>Every operation first checks the ledger's name and makes sure the table is there.\<close>

definition with_ledger ::
  "('s, 'x) database \<Rightarrow> 'x Migrator \<Rightarrow> (Ledger \<Rightarrow> ('s, 'u) session \<Rightarrow> (Error + 'a) \<times> ('s, 'u) session) \<Rightarrow>
     ('s, 'u) session \<Rightarrow> (Error + 'a) \<times> ('s, 'u) session" where
  "with_ledger B M work s =
     (case checked_ledger (migrator_table M) of
        Inl e \<Rightarrow> (Inl e, s)
      | Inr l \<Rightarrow> and_then (ledger_ensure (db_engine B) (db_type B) (db_driver B) l s) (\<lambda>_. work l))"

definition run_locked ::
  "('s, 'x) database \<Rightarrow> 'x Migrator \<Rightarrow> ('s, 'u) session \<Rightarrow> (Error + MigrationResult) \<times> ('s, 'u) session" where
  "run_locked B M =
     with_ledger B M (\<lambda>l s.
       and_then (applied_versions B M l s)
         (\<lambda>versions. run_loop B (lg_table l) versions (sorted_migrations M) empty_result))"

definition revert_last ::
  "('s, 'x) database \<Rightarrow> 'x Migrator \<Rightarrow> ustr list \<Rightarrow> ('s, 'u) session \<Rightarrow> (Error + MigrationResult) \<times> ('s, 'u) session" where
  "revert_last B M keys s =
     (if keys = [] then (Inr empty_result, s)
      else (case find (\<lambda>m. mg_version m = last keys) (registered_migrations M) of
              None \<Rightarrow> (Inl (query (lit ''Cannot roll back migration '' @ last keys @
                lit '': it is recorded but not registered'')), s)
            | Some m \<Rightarrow> and_then (run_migration B (migrator_table M) False m s)
                (\<lambda>_ s'. (Inr (empty_result\<lparr>rolled_back_infos := [info_of m]\<rparr>), s'))))"

definition rollback_locked ::
  "('s, 'x) database \<Rightarrow> 'x Migrator \<Rightarrow> ('s, 'u) session \<Rightarrow> (Error + MigrationResult) \<times> ('s, 'u) session" where
  "rollback_locked B M =
     with_ledger B M (\<lambda>l s. and_then (ledger_keys (db_engine B) (db_driver B) l s) (revert_last B M))"

fun rollback_steps_loop ::
  "('s, 'x) database \<Rightarrow> 'x Migrator \<Rightarrow> nat \<Rightarrow> MigrationResult \<Rightarrow> ('s, 'u) session \<Rightarrow>
     (Error + MigrationResult) \<times> ('s, 'u) session" where
  "rollback_steps_loop B M 0 result s = (Inr result, s)"
| "rollback_steps_loop B M (Suc steps) result s =
     and_then (rollback_locked B M s) (\<lambda>step_result s'.
       if rolled_back_infos step_result = [] then (Inr result, s')
       else rollback_steps_loop B M steps
              (result\<lparr>rolled_back_infos := rolled_back_infos result @ rolled_back_infos step_result\<rparr>) s')"

definition rollback_steps_locked ::
  "('s, 'x) database \<Rightarrow> 'x Migrator \<Rightarrow> nat \<Rightarrow> ('s, 'u) session \<Rightarrow> (Error + MigrationResult) \<times> ('s, 'u) session" where
  "rollback_steps_locked B M steps = rollback_steps_loop B M steps empty_result"

definition reset_locked ::
  "('s, 'x) database \<Rightarrow> 'x Migrator \<Rightarrow> ('s, 'u) session \<Rightarrow> (Error + MigrationResult) \<times> ('s, 'u) session" where
  "reset_locked B M =
     with_ledger B M (\<lambda>l s.
       and_then (ledger_keys (db_engine B) (db_driver B) l s) (\<lambda>keys s1.
         let unknown = filter (\<lambda>version. version \<notin> registered_versions M) keys in
         if unknown \<noteq> [] then
           (Inl (query (lit ''Cannot reset migrations: recorded versions are not registered: '' @ join (lit '', '') unknown)), s1)
         else rollback_steps_locked B M (length keys) s1))"

definition migrator_run ::
  "('s, 'x) database \<Rightarrow> 'x Migrator \<Rightarrow> ('s, 'u) session \<Rightarrow> (Error + MigrationResult) \<times> ('s, 'u) session" where
  "migrator_run B M = with_ledger_lock B MigrationLock (run_locked B M)"

definition migrator_rollback ::
  "('s, 'x) database \<Rightarrow> 'x Migrator \<Rightarrow> ('s, 'u) session \<Rightarrow> (Error + MigrationResult) \<times> ('s, 'u) session" where
  "migrator_rollback B M = with_ledger_lock B MigrationLock (rollback_locked B M)"

definition migrator_rollback_steps ::
  "('s, 'x) database \<Rightarrow> 'x Migrator \<Rightarrow> nat \<Rightarrow> ('s, 'u) session \<Rightarrow> (Error + MigrationResult) \<times> ('s, 'u) session" where
  "migrator_rollback_steps B M steps s =
     (if steps = 0 then (Inr empty_result, s)
      else with_ledger_lock B MigrationLock (rollback_steps_locked B M steps) s)"

definition migrator_reset ::
  "('s, 'x) database \<Rightarrow> 'x Migrator \<Rightarrow> ('s, 'u) session \<Rightarrow> (Error + MigrationResult) \<times> ('s, 'u) session" where
  "migrator_reset B M = with_ledger_lock B MigrationLock (reset_locked B M)"

definition migrator_refresh ::
  "('s, 'x) database \<Rightarrow> 'x Migrator \<Rightarrow> ('s, 'u) session \<Rightarrow> (Error + MigrationResult) \<times> ('s, 'u) session" where
  "migrator_refresh B M =
     with_ledger_lock B MigrationLock (\<lambda>s.
       and_then (reset_locked B M s) (\<lambda>reset_result s1.
         and_then (run_locked B M s1) (\<lambda>run_result s2.
           (Inr \<lparr>applied = applied run_result, skipped = skipped run_result,
                 rolled_back_infos = rolled_back_infos reset_result\<rparr>, s2))))"

definition migrator_status ::
  "('s, 'x) database \<Rightarrow> 'x Migrator \<Rightarrow> ('s, 'u) session \<Rightarrow> (Error + MigrationStatus list) \<times> ('s, 'u) session" where
  "migrator_status B M =
     with_ledger B M (\<lambda>l s.
       and_then (applied_versions B M l s) (\<lambda>versions s'.
         (Inr (map (\<lambda>m. \<lparr>ms_version = mg_version m, ms_name = mg_name m, ms_applied = mg_version m \<in> set versions\<rparr>)
                 (sorted_migrations M)), s')))"

text \<open>The entry points of the command line: a migration given as SQL, and marking one without running it.\<close>

definition run_sql_migration ::
  "('s, 'x) database \<Rightarrow> ustr \<Rightarrow> ustr \<Rightarrow> ustr \<Rightarrow> ('x \<Rightarrow> 'x) list \<Rightarrow> bool \<Rightarrow> ('s, 'u) session \<Rightarrow>
     (Error + bool) \<times> ('s, 'u) session" where
  "run_sql_migration B table version name statements apply s =
     (case checked_ledger table of
        Inl e \<Rightarrow> (Inl e, s)
      | Inr l \<Rightarrow>
          with_ledger_lock B MigrationLock (\<lambda>s.
            and_then (ledger_ensure (db_engine B) (db_type B) (db_driver B) l s) (\<lambda>_ s1.
              and_then (ledger_keys (db_engine B) (db_driver B) l s1) (\<lambda>keys s2.
                if (version \<in> set keys) = apply then (Inr False, s2)
                else (let m = \<lparr>mg_version = version, mg_name = name, foreign_keys_off = False, up = statements,
                               up_error = None, down = statements, down_error = None\<rparr> in
                      and_then (run_migration B table apply m s2) (\<lambda>_ s3. (Inr True, s3)))))) s)"

definition mark_migration ::
  "('s, 'x) database \<Rightarrow> ustr \<Rightarrow> ustr \<Rightarrow> ustr \<Rightarrow> bool \<Rightarrow> ('s, 'u) session \<Rightarrow> (Error + unit) \<times> ('s, 'u) session" where
  "mark_migration B table version name mark s =
     (case checked_ledger table of
        Inl e \<Rightarrow> (Inl e, s)
      | Inr l \<Rightarrow>
          and_then (ledger_ensure (db_engine B) (db_type B) (db_driver B) l s) (\<lambda>_.
            if mark then ledger_record (db_engine B) (db_driver B) l version [name]
            else ledger_remove (db_engine B) (db_driver B) l version))"

definition ensure_migration_ledger ::
  "('s, 'x) database \<Rightarrow> ustr \<Rightarrow> ('s, 'u) session \<Rightarrow> (Error + unit) \<times> ('s, 'u) session" where
  "ensure_migration_ledger B table s =
     (case checked_ledger table of
        Inl e \<Rightarrow> (Inl e, s)
      | Inr l \<Rightarrow> ledger_ensure (db_engine B) (db_type B) (db_driver B) l s)"

subsection \<open>A migration happens whole or not at all\<close>

definition migration_effect :: "ustr \<Rightarrow> bool \<Rightarrow> 'x Migration \<Rightarrow> 'x contents \<Rightarrow> 'x contents" where
  "migration_effect table apply m c =
     ledger_effect table m apply (on_objects (fold (\<lambda>f. f) (if apply then up m else down m)) c)"

lemma closure_and_then:
  assumes "closure G b D f" "\<And>x. closure G b D (g x)"
  shows "closure G b D (\<lambda>st. and_then (f st) g)"
  unfolding closure_def
proof
  fix st
  obtain r st' where f: "f st = (r, st')" by (cases "f st")
  then obtain items where items: "st' = run_all G b D items st" using assms(1) unfolding closure_def by (metis snd_conv)
  show "\<exists>items. snd (and_then (f st) g) = run_all G b D items st"
  proof (cases r)
    case (Inr x)
    obtain items' where "snd (g x st') = run_all G b D items' st'" using assms(2) unfolding closure_def by blast
    with f items Inr have "snd (and_then (f st) g) = run_all G b D (items @ items') st" by (simp add: run_all_append)
    then show ?thesis ..
  qed (use f items in auto)
qed

lemma closure_return: "(\<And>st. snd (f st) = st) \<Longrightarrow> closure G b D f"
  unfolding closure_def by (metis run_all.simps(1))

lemma closure_execute: "closure G b D (scope_execute G b D f)"
  unfolding closure_def scope_execute_run by blast

lemma closure_execute_all: "closure G b D (scope_execute_all G b D fs)"
  unfolding closure_def by (blast intro: scope_execute_all_run)

lemmas closure_intros = closure_and_then closure_execute closure_execute_all

lemma closure_migrate:
  "closure (db_engine B) (backend_of (db_type B)) (db_driver B) (migrate_in_scope B table m apply)"
  unfolding migrate_in_scope_def
  by (intro closure_intros) (auto intro: closure_return simp: ended_def split: option.splits)

lemma closure_violations:
  "closure (db_engine B) (backend_of (db_type B)) (db_driver B) (foreign_key_violations B)"
  unfolding foreign_key_violations_def scope_fetch_def by (intro closure_intros) (auto intro: closure_return)

lemma closure_unless:
  "closure G b D f \<Longrightarrow> closure G b D (\<lambda>st. case v of None \<Rightarrow> f st | Some x \<Rightarrow> (Inl (err x), st))"
  by (cases v) (simp_all add: closure_return)

lemma closure_checked:
  assumes "closure (db_engine B) (backend_of (db_type B)) (db_driver B) work"
  shows "closure (db_engine B) (backend_of (db_type B)) (db_driver B) (checked_foreign_keys B work)"
  unfolding checked_foreign_keys_def
  by (rule closure_and_then [OF closure_violations], rule closure_unless, rule closure_and_then [OF assms],
      rule closure_and_then [OF closure_violations], rule closure_unless, rule closure_return) simp

lemma migrate_acks:
  assumes "migrate_in_scope B table m apply (p, s, acks) = (Inr y, p', s', acks')"
  shows "acks' = acks @ map on_objects (if apply then up m else down m) @ [ledger_effect table m apply]"
proof -
  obtain p1 s1 acks1 u where "scope_execute_all (db_engine B) (backend_of (db_type B)) (db_driver B)
      (map on_objects (if apply then up m else down m)) (p, s, acks) = (Inr u, p1, s1, acks1)"
    and "scope_execute (db_engine B) (backend_of (db_type B)) (db_driver B) (ledger_effect table m apply)
      (p1, s1, acks1) = (Inr y, p', s', acks')"
    using assms by (auto simp: migrate_in_scope_def and_then_Inr ended_def split: option.splits)
  then show ?thesis by (metis scope_execute_acks scope_execute_all_acks append.assoc)
qed

lemma violations_acks:
  "foreign_key_violations B (p, s, acks) = (Inr y, p', s', acks') \<Longrightarrow> acks' = acks @ [\<lambda>c. c]"
  by (auto simp: foreign_key_violations_def scope_fetch_def and_then_Inr dest: scope_execute_acks)

lemma checked_acks:
  assumes "checked_foreign_keys B work (p, s, acks) = (Inr y, p', s', acks')"
  shows "\<exists>p1 s1 y' p2 s2 acks2. work (p1, s1, acks @ [\<lambda>c. c]) = (Inr y', p2, s2, acks2) \<and> acks' = acks2 @ [\<lambda>c. c]"
proof -
  obtain v p1 s1 acks1 where v: "foreign_key_violations B (p, s, acks) = (Inr v, p1, s1, acks1)"
    and rest: "(case v of None \<Rightarrow> and_then (work (p1, s1, acks1)) (\<lambda>_ st2.
             and_then (foreign_key_violations B st2) (\<lambda>after st3.
               case after of
                 Some violations \<Rightarrow> (Inl (query (lit ''the migration ran with foreign keys off and leaves '' @ violations @
                   lit ''; it was rolled back'')), st3)
               | None \<Rightarrow> (Inr (), st3)))
       | Some violations \<Rightarrow> (Inl (query (lit ''the database already has '' @ violations @
           lit ''; fix them before running a migration with foreign keys off'')), (p1, s1, acks1))) = (Inr y, p', s', acks')"
    using assms unfolding checked_foreign_keys_def and_then_Inr by auto
  from rest obtain y' p2 s2 acks2 v' where w: "work (p1, s1, acks1) = (Inr y', p2, s2, acks2)"
    and "foreign_key_violations B (p2, s2, acks2) = (Inr v', p', s', acks')"
    by (auto simp: and_then_Inr split: option.splits)
  with v violations_acks show ?thesis by metis
qed

lemma fold_on_objects: "fold (\<lambda>f. f) (map on_objects fs) c = on_objects (fold (\<lambda>f. f) fs) c"
  by (induction fs arbitrary: c) (simp_all add: on_objects_def)

definition wraps_ddl :: "('s, 'x) database \<Rightarrow> ('s, 'u) session \<Rightarrow> bool" where
  "wraps_ddl B s \<longleftrightarrow> pool_good B s \<and> supports_transactional_ddl (db_type B)"

lemma migrate_effect:
  "migrate_in_scope B table m apply (p1, s1, acks0) = (Inr y, p2, s2, acks) \<Longrightarrow>
     fold (\<lambda>f. f) acks c = migration_effect table apply m (fold (\<lambda>f. f) acks0 c)"
  using migrate_acks by (fastforce simp: migration_effect_def fold_on_objects)

lemma migrate_effect_whole:
  "migrate_in_scope B table m apply (p1, s1, []) = (Inr y, p2, s2, acks) \<Longrightarrow>
     fold (\<lambda>f. f) acks c = migration_effect table apply m c"
  using migrate_effect by fastforce

lemma checked_effect:
  fixes p1 :: "'u PendingInvalidations" and s1 :: "('s, 'u) session"
  assumes "checked_foreign_keys B (migrate_in_scope B table m fwd) (p1, s1, []) = (Inr y, p2, s2, acks)"
  shows "fold (\<lambda>f. f) acks c = migration_effect table fwd m c"
proof -
  obtain p3 :: "'u PendingInvalidations" and s3 :: "('s, 'u) session" and y' p4 s4 inner where
    run: "migrate_in_scope B table m fwd (p3, s3, [] @ [\<lambda>c. c]) = (Inr y', p4, s4, inner)" and "acks = inner @ [\<lambda>c. c]"
    using checked_acks [OF assms] by blast
  with migrate_effect [OF run, of c] show ?thesis by simp
qed

interpretation migration: atomic_steps "run_migration B table fwd" "wraps_ddl B" "pool_kept B" "migration_effect table fwd"
  for B table fwd
proof
  fix s m u s'
  assume ok: "wraps_ddl B s" and run: "run_migration B table fwd m s = (Inr u, s')"
  let ?G = "db_engine B" and ?b = "backend_of (db_type B)" and ?D = "db_driver B"
  have good: "pool_good B s" using ok by (simp add: wraps_ddl_def)
  show "wraps_ddl B s' \<and> pool_kept B s' = migration_effect table fwd m (pool_kept B s)"
  proof (cases "foreign_keys_off m \<and> db_type B = SQLite")
    case True
    with run ok have "in_transaction ?G ?b ?D (checked_foreign_keys B (migrate_in_scope B table m fwd)) s = (Inr u, s')"
      by (auto simp: run_migration_def in_ddl_scope_def run_with_foreign_keys_off_def wraps_ddl_def split: sum.splits)
    from transaction_done [OF good closure_checked [OF closure_migrate] _ this] checked_effect ok
    show ?thesis unfolding wraps_ddl_def by blast
  next
    case False
    with run ok have "in_transaction ?G ?b ?D (migrate_in_scope B table m fwd) s = (Inr u, s')"
      by (auto simp: run_migration_def in_ddl_scope_def wraps_ddl_def)
    from transaction_done [OF good closure_migrate _ this] migrate_effect_whole ok
    show ?thesis unfolding wraps_ddl_def by blast
  qed
next
  fix s m e s'
  assume ok: "wraps_ddl B s" and run: "run_migration B table fwd m s = (Inl e, s')"
  let ?G = "db_engine B" and ?b = "backend_of (db_type B)" and ?D = "db_driver B"
  have good: "pool_good B s" using ok by (simp add: wraps_ddl_def)
  show "pool_kept B s' = pool_kept B s \<or> pool_kept B s' = migration_effect table fwd m (pool_kept B s)"
  proof (cases "foreign_keys_off m \<and> db_type B = SQLite")
    case True
    with run ok have "s' = s \<or> in_transaction ?G ?b ?D (checked_foreign_keys B (migrate_in_scope B table m fwd)) s = (Inl e, s')"
      by (auto simp: run_migration_def in_ddl_scope_def run_with_foreign_keys_off_def wraps_ddl_def split: sum.splits)
    with transaction_failed [OF good closure_checked [OF closure_migrate]] checked_effect show ?thesis by metis
  next
    case False
    with run ok have "in_transaction ?G ?b ?D (migrate_in_scope B table m fwd) s = (Inl e, s')"
      by (auto simp: run_migration_def in_ddl_scope_def wraps_ddl_def)
    from transaction_failed [OF good closure_migrate _ this] migrate_effect_whole
    show ?thesis by blast
  qed
qed

subsection \<open>Running, rolling back, resetting\<close>

lemma with_ledger_lock_Inr:
  "with_ledger_lock B k work s = (Inr x, s') \<Longrightarrow> work s = (Inr x, s')"
  by (auto simp: with_ledger_lock_def split: sum.splits prod.splits)

lemma with_ledger_lock_Inl:
  "with_ledger_lock B k work s = (Inl e, s') \<Longrightarrow> s' = s \<or> work s = (Inl e, s') \<or> (\<exists>x. work s = (Inr x, s'))"
  by (auto simp: with_ledger_lock_def split: sum.splits prod.splits)

lemma ensure_wrapped:
  "supports_transactional_ddl (db_type B) \<Longrightarrow>
     ledger_ensure (db_engine B) (db_type B) (db_driver B) l s = pool_execute (db_engine B) (db_driver B) (created l) s"
  by (cases "db_type B") (simp_all add: ledger_ensure_def)

lemma pool_fetch_done:
  assumes "good G b D s" and "pool_fetch G D read s = (Inr x, s')"
  shows "good G b D s' \<and> kept D s' = kept D s \<and> x = read (kept D s)"
proof -
  obtain u where "pool_execute G D (\<lambda>c. c) s = (Inr u, s')" and x: "x = read (view (conn D s'))"
    using assms(2) by (auto simp: pool_fetch_def split: prod.splits sum.splits)
  from pool_execute_done [OF assms(1) this(1)] have "good G b D s'" "kept D s' = kept D s" by simp_all
  with x good_kept [OF this(1)] show ?thesis by simp
qed

lemma pool_fetch_failed:
  assumes "good G b D s" and "pool_fetch G D read s = (Inl e, s')"
  shows "kept D s' = kept D s"
proof -
  have "pool_execute G D (\<lambda>c. c) s = (Inl e, s')"
    using assms(2) by (auto simp: pool_fetch_def split: prod.splits sum.splits)
  from pool_execute_failed [OF assms(1) this] show ?thesis by simp
qed

text \<open>Opening the ledger and reading its keys: the table is there, and nothing else has changed.\<close>

lemma ledger_opened:
  assumes "wraps_ddl B s" and "with_ledger B M work s = (Inr x, s')"
  shows "\<exists>s1. wraps_ddl B s1 \<and> pool_kept B s1 = created (migrations (migrator_table M)) (pool_kept B s) \<and>
    work (migrations (migrator_table M)) s1 = (Inr x, s')"
proof -
  let ?l = "migrations (migrator_table M)"
  obtain u s1 where "pool_execute (db_engine B) (db_driver B) (created ?l) s = (Inr u, s1)" "work ?l s1 = (Inr x, s')"
    using assms
    by (auto simp: with_ledger_def checked_ledger_def wraps_ddl_def ensure_wrapped and_then_Inr split: if_splits)
  with pool_execute_done assms(1) show ?thesis unfolding wraps_ddl_def by blast
qed

lemma ledger_not_opened:
  assumes "wraps_ddl B s" and "with_ledger B M work s = (Inl e, s')"
  shows "pool_kept B s' = pool_kept B s \<or> pool_kept B s' = created (migrations (migrator_table M)) (pool_kept B s) \<or>
    (\<exists>s1. wraps_ddl B s1 \<and> pool_kept B s1 = created (migrations (migrator_table M)) (pool_kept B s) \<and>
      work (migrations (migrator_table M)) s1 = (Inl e, s'))"
proof -
  let ?l = "migrations (migrator_table M)"
  have "s' = s \<or> pool_execute (db_engine B) (db_driver B) (created ?l) s = (Inl e, s') \<or>
      (\<exists>u s1. pool_execute (db_engine B) (db_driver B) (created ?l) s = (Inr u, s1) \<and> work ?l s1 = (Inl e, s'))"
    using assms
    by (auto simp: with_ledger_def checked_ledger_def wraps_ddl_def ensure_wrapped and_then_Inl split: if_splits)
  with pool_execute_done pool_execute_failed assms(1) show ?thesis unfolding wraps_ddl_def by blast
qed

lemma ledger_keys_read:
  assumes "wraps_ddl B s" and "ledger_keys (db_engine B) (db_driver B) l s = (Inr ks, s')"
  shows "wraps_ddl B s' \<and> pool_kept B s' = pool_kept B s \<and> ks = keys_of l (pool_kept B s)"
proof -
  have "pool_good B s" using assms(1) by (simp add: wraps_ddl_def)
  from pool_fetch_done [OF this assms(2) [unfolded ledger_keys_def]] assms(1) show ?thesis by (simp add: wraps_ddl_def)
qed

lemma ledger_keys_unread:
  assumes "wraps_ddl B s" and "ledger_keys (db_engine B) (db_driver B) l s = (Inl e, s')"
  shows "pool_kept B s' = pool_kept B s"
proof -
  have "pool_good B s" using assms(1) by (simp add: wraps_ddl_def)
  from pool_fetch_failed [OF this assms(2) [unfolded ledger_keys_def]] show ?thesis .
qed

text \<open>The migrations still to run: registered and not recorded, in version order.\<close>

definition pending_migrations :: "'x Migrator \<Rightarrow> 'x contents \<Rightarrow> 'x Migration list" where
  "pending_migrations M c =
     filter (\<lambda>m. mg_version m \<notin> set (keys_of (migrations (migrator_table M)) c)) (sorted_migrations M)"

lemma run_loop_steps:
  "run_loop B table vs ms r s =
     and_then (run_steps (run_migration B table True) (filter (\<lambda>m. mg_version m \<notin> set vs) ms) s)
       (\<lambda>_ s'. (Inr (r\<lparr>applied := applied r @ map info_of (filter (\<lambda>m. mg_version m \<notin> set vs) ms),
                      skipped := skipped r @ map info_of (filter (\<lambda>m. mg_version m \<in> set vs) ms)\<rparr>), s'))"
proof (induction ms arbitrary: r s)
  case (Cons m ms)
  obtain x s1 where "run_migration B table True m s = (x, s1)" by fastforce
  then show ?case using Cons by (cases x) simp_all
qed simp

lemma pending_from_versions:
  assumes "vs = filter (\<lambda>v. v \<in> registered_versions M) (keys_of (migrations (migrator_table M)) c)"
  shows "filter (\<lambda>m. mg_version m \<notin> set vs) (sorted_migrations M) = pending_migrations M c"
    and "filter (\<lambda>m. mg_version m \<in> set vs) (sorted_migrations M) =
      filter (\<lambda>m. mg_version m \<in> set (keys_of (migrations (migrator_table M)) c)) (sorted_migrations M)"
  using assms
  by (auto simp: pending_migrations_def registered_versions_def sorted_migrations_def intro!: filter_cong)

lemma pending_created: "pending_migrations M (created (migrations (migrator_table M)) c) = pending_migrations M c"
  by (simp add: pending_migrations_def)

lemma run_locked_done:
  assumes ok: "wraps_ddl B s" and run: "run_locked B M s = (Inr r, s')"
  shows "wraps_ddl B s' \<and> pool_kept B s' = fold (migration_effect (migrator_table M) True) (pending_migrations M (pool_kept B s))
      (created (migrations (migrator_table M)) (pool_kept B s)) \<and>
    r = \<lparr>applied = map info_of (pending_migrations M (pool_kept B s)),
      skipped = map info_of (filter (\<lambda>m. mg_version m \<in> set (keys_of (migrations (migrator_table M)) (pool_kept B s)))
        (sorted_migrations M)), rolled_back_infos = []\<rparr>"
proof -
  let ?l = "migrations (migrator_table M)" and ?c = "created (migrations (migrator_table M)) (pool_kept B s)"
  obtain s1 where s1: "wraps_ddl B s1" "pool_kept B s1 = ?c"
    and run1: "and_then (applied_versions B M ?l s1)
         (\<lambda>versions. run_loop B (lg_table ?l) versions (sorted_migrations M) empty_result) = (Inr r, s')"
    using ledger_opened [OF ok run [unfolded run_locked_def]] by blast
  then obtain vs s2 where keys: "applied_versions B M ?l s1 = (Inr vs, s2)"
    and loop: "run_loop B (migrator_table M) vs (sorted_migrations M) empty_result s2 = (Inr r, s')"
    by (auto simp: and_then_Inr migrations_def)
  then obtain ks where k: "ledger_keys (db_engine B) (db_driver B) ?l s1 = (Inr ks, s2)"
    and vs: "vs = filter (\<lambda>v. v \<in> registered_versions M) ks"
    by (auto simp: applied_versions_def and_then_Inr)
  from ledger_keys_read [OF s1(1) k] s1(2) have s2: "wraps_ddl B s2" "pool_kept B s2 = ?c" "ks = keys_of ?l ?c" by simp_all
  note pending = pending_from_versions [OF vs [unfolded s2(3)], unfolded pending_created]
  from loop obtain u where "run_steps (run_migration B (migrator_table M) True) (pending_migrations M (pool_kept B s)) s2 = (Inr u, s')"
    and "r = empty_result\<lparr>applied := map info_of (pending_migrations M (pool_kept B s)),
        skipped := map info_of (filter (\<lambda>m. mg_version m \<in> set (keys_of ?l ?c)) (sorted_migrations M))\<rparr>"
    unfolding run_loop_steps pending and_then_Inr by (auto simp: empty_result_def)
  with migration.steps_done [OF s2(1) this(1)] s2(2) show ?thesis by (simp add: empty_result_def)
qed

lemma run_locked_failed:
  assumes ok: "wraps_ddl B s" and run: "run_locked B M s = (Inl e, s')"
  shows "pool_kept B s' = pool_kept B s \<or> (\<exists>n \<le> length (pending_migrations M (pool_kept B s)).
    pool_kept B s' = fold (migration_effect (migrator_table M) True) (take n (pending_migrations M (pool_kept B s)))
      (created (migrations (migrator_table M)) (pool_kept B s)))"
proof -
  let ?l = "migrations (migrator_table M)" and ?c = "created (migrations (migrator_table M)) (pool_kept B s)"
  let ?work = "\<lambda>s1. and_then (applied_versions B M ?l s1)
         (\<lambda>versions. run_loop B (lg_table ?l) versions (sorted_migrations M) empty_result)"
  have whole: "\<exists>n \<le> length ms. x = fold f (take n ms) c" if "x = c" for x c :: "'b contents" and f and ms :: "'b Migration list"
    using that by (metis fold_simps(1) take_0 zero_le)
  from ledger_not_opened [OF ok run [unfolded run_locked_def]]
  consider "pool_kept B s' = pool_kept B s" | "pool_kept B s' = ?c"
    | s1 where "wraps_ddl B s1" "pool_kept B s1 = ?c" "?work s1 = (Inl e, s')" by blast
  then show ?thesis
  proof cases
    case 2
    then show ?thesis by (intro disjI2 exI [of _ 0]) simp
  next
    case s1: 3
    show ?thesis
    proof (cases "applied_versions B M ?l s1 = (Inl e, s')")
      case True
      then have "ledger_keys (db_engine B) (db_driver B) ?l s1 = (Inl e, s')" by (auto simp: applied_versions_def and_then_Inl)
      with ledger_keys_unread [OF s1(1)] s1(2) whole show ?thesis by metis
    next
      case False
      with s1(3) obtain vs s2 where keys: "applied_versions B M ?l s1 = (Inr vs, s2)"
        and loop: "run_loop B (migrator_table M) vs (sorted_migrations M) empty_result s2 = (Inl e, s')"
        by (auto simp: and_then_Inl migrations_def)
      then obtain ks where k: "ledger_keys (db_engine B) (db_driver B) ?l s1 = (Inr ks, s2)"
        and vs: "vs = filter (\<lambda>v. v \<in> registered_versions M) ks"
        by (auto simp: applied_versions_def and_then_Inr)
      from ledger_keys_read [OF s1(1) k] s1(2) have s2: "wraps_ddl B s2" "pool_kept B s2 = ?c" "ks = keys_of ?l ?c" by simp_all
      note pending = pending_from_versions [OF vs [unfolded s2(3)], unfolded pending_created]
      from loop have "run_steps (run_migration B (migrator_table M) True) (pending_migrations M (pool_kept B s)) s2 = (Inl e, s')"
        unfolding run_loop_steps pending and_then_Inl by auto
      from migration.steps_failed [OF s2(1) this] s2(2) show ?thesis by simp
    qed
  qed simp
qed

text \<open>C6. On a backend with transactional DDL a run applies the registered migrations that the ledger does
  not record, in version order, each together with its ledger row; and a run that fails, at any
  statement, commit or lost connection, has applied a first part of them, every one whole with
  its row, and nothing of the next.\<close>

theorem migrations_run_in_order:
  assumes "wraps_ddl B s"
  shows "case migrator_run B M s of
      (Inr r, s') \<Rightarrow>
        pool_kept B s' = fold (migration_effect (migrator_table M) True) (pending_migrations M (pool_kept B s))
          (created (migrations (migrator_table M)) (pool_kept B s)) \<and>
        applied r = map info_of (pending_migrations M (pool_kept B s)) \<and> sorted (map mi_version (applied r)) \<and>
        skipped r = map info_of (filter (\<lambda>m. mg_version m \<in> set (keys_of (migrations (migrator_table M)) (pool_kept B s)))
          (sorted_migrations M))
    | (Inl e, s') \<Rightarrow> pool_kept B s' = pool_kept B s \<or> (\<exists>n \<le> length (pending_migrations M (pool_kept B s)).
        pool_kept B s' = fold (migration_effect (migrator_table M) True) (take n (pending_migrations M (pool_kept B s)))
          (created (migrations (migrator_table M)) (pool_kept B s)))"
proof -
  obtain res s' where run: "migrator_run B M s = (res, s')" by fastforce
  have sorted: "sorted (map (mi_version \<circ> info_of) (pending_migrations M c))" for c
    by (simp add: pending_migrations_def sorted_migrations_def info_of_def o_def sorted_filter)
  show ?thesis
  proof (cases res)
    case (Inr r)
    with run have "run_locked B M s = (Inr r, s')" by (auto simp: migrator_run_def dest: with_ledger_lock_Inr)
    from run_locked_done [OF assms this] run Inr sorted show ?thesis by simp
  next
    case (Inl e)
    with run have "with_ledger_lock B MigrationLock (run_locked B M) s = (Inl e, s')" by (simp add: migrator_run_def)
    from with_ledger_lock_Inl [OF this]
    consider "s' = s" | "run_locked B M s = (Inl e, s')" | x where "run_locked B M s = (Inr x, s')" by blast
    then show ?thesis
    proof cases
      case 2
      from run_locked_failed [OF assms this] run Inl show ?thesis by simp
    next
      case 3
      from run_locked_done [OF assms this] have "pool_kept B s' = fold (migration_effect (migrator_table M) True)
          (take (length (pending_migrations M (pool_kept B s))) (pending_migrations M (pool_kept B s)))
          (created (migrations (migrator_table M)) (pool_kept B s))" by simp
      with run Inl show ?thesis by (simp del: take_all) blast
    qed (use run Inl in simp)
  qed
qed

lemma revert_last_done:
  assumes "wraps_ddl B s" and "revert_last B M keys s = (Inr r, s')"
  shows "wraps_ddl B s' \<and> (if keys = [] then r = empty_result \<and> pool_kept B s' = pool_kept B s
    else \<exists>m. find (\<lambda>m. mg_version m = last keys) (registered_migrations M) = Some m \<and>
      r = empty_result\<lparr>rolled_back_infos := [info_of m]\<rparr> \<and>
      pool_kept B s' = migration_effect (migrator_table M) False m (pool_kept B s))"
  using assms migration.step_done [OF assms(1)]
  by (auto simp: revert_last_def and_then_Inr split: if_splits option.splits)

lemma revert_last_failed:
  assumes "wraps_ddl B s" and "revert_last B M keys s = (Inl e, s')"
  shows "keys \<noteq> [] \<and> (pool_kept B s' = pool_kept B s \<or>
    (\<exists>m. find (\<lambda>m. mg_version m = last keys) (registered_migrations M) = Some m \<and>
      pool_kept B s' = migration_effect (migrator_table M) False m (pool_kept B s)))"
  using assms migration.step_failed [OF assms(1)]
  by (auto simp: revert_last_def and_then_Inl split: if_splits option.splits)

lemma rollback_locked_done:
  assumes ok: "wraps_ddl B s" and run: "rollback_locked B M s = (Inr r, s')"
  shows "\<exists>s1. wraps_ddl B s1 \<and> pool_kept B s1 = created (migrations (migrator_table M)) (pool_kept B s) \<and>
    revert_last B M (keys_of (migrations (migrator_table M)) (pool_kept B s)) s1 = (Inr r, s')"
proof -
  let ?l = "migrations (migrator_table M)"
  obtain s1 ks s2 where s1: "wraps_ddl B s1" "pool_kept B s1 = created ?l (pool_kept B s)"
    and k: "ledger_keys (db_engine B) (db_driver B) ?l s1 = (Inr ks, s2)" and rest: "revert_last B M ks s2 = (Inr r, s')"
    using ledger_opened [OF ok run [unfolded rollback_locked_def]] unfolding and_then_Inr by blast
  from ledger_keys_read [OF s1(1) k] s1(2) rest show ?thesis by auto
qed

lemma rollback_locked_failed:
  assumes ok: "wraps_ddl B s" and run: "rollback_locked B M s = (Inl e, s')"
  shows "pool_kept B s' = pool_kept B s \<or> pool_kept B s' = created (migrations (migrator_table M)) (pool_kept B s) \<or>
    (\<exists>s1. wraps_ddl B s1 \<and> pool_kept B s1 = created (migrations (migrator_table M)) (pool_kept B s) \<and>
       revert_last B M (keys_of (migrations (migrator_table M)) (pool_kept B s)) s1 = (Inl e, s'))"
proof -
  let ?l = "migrations (migrator_table M)"
  from ledger_not_opened [OF ok run [unfolded rollback_locked_def]]
  consider "pool_kept B s' = pool_kept B s" | "pool_kept B s' = created ?l (pool_kept B s)"
    | s1 where "wraps_ddl B s1" "pool_kept B s1 = created ?l (pool_kept B s)"
      "and_then (ledger_keys (db_engine B) (db_driver B) ?l s1) (revert_last B M) = (Inl e, s')" by blast
  then show ?thesis
  proof cases
    case s1: 3
    from s1(3) consider "ledger_keys (db_engine B) (db_driver B) ?l s1 = (Inl e, s')"
      | ks s2 where "ledger_keys (db_engine B) (db_driver B) ?l s1 = (Inr ks, s2)" "revert_last B M ks s2 = (Inl e, s')"
      unfolding and_then_Inl by blast
    then show ?thesis
    proof cases
      case 1
      from ledger_keys_unread [OF s1(1) this] s1(2) show ?thesis by simp
    next
      case 2
      from ledger_keys_read [OF s1(1) 2(1)] s1(2) 2(2) show ?thesis by auto
    qed
  qed simp_all
qed

text \<open>A rollback reverts exactly the migration applied last, as the ledger's order tells and not the
  versions, together with its row; with nothing recorded it does nothing; and one that is
  recorded but not registered stops it before anything is reverted.\<close>

theorem rollback_reverts_last:
  assumes "wraps_ddl B s" and "keys_of (migrations (migrator_table M)) (pool_kept B s) = ks"
  shows "case migrator_rollback B M s of
      (Inr r, s') \<Rightarrow>
        (if ks = [] then r = empty_result \<and> pool_kept B s' = created (migrations (migrator_table M)) (pool_kept B s)
         else \<exists>m \<in> set (registered_migrations M). mg_version m = last ks \<and> rolled_back_infos r = [info_of m] \<and>
           pool_kept B s' = migration_effect (migrator_table M) False m (created (migrations (migrator_table M)) (pool_kept B s)))
    | (Inl e, s') \<Rightarrow>
        pool_kept B s' \<in> {pool_kept B s, created (migrations (migrator_table M)) (pool_kept B s)} \<or>
        (\<exists>m \<in> set (registered_migrations M). ks \<noteq> [] \<and> mg_version m = last ks \<and>
           pool_kept B s' = migration_effect (migrator_table M) False m (created (migrations (migrator_table M)) (pool_kept B s)))"
proof -
  have found: "m \<in> set (registered_migrations M) \<and> mg_version m = v"
    if "find (\<lambda>m. mg_version m = v) (registered_migrations M) = Some m" for m v
    using that by (auto simp: find_Some_iff)
  have reverted: "if ks = [] then r = empty_result \<and> pool_kept B s' = created (migrations (migrator_table M)) (pool_kept B s)
         else \<exists>m \<in> set (registered_migrations M). mg_version m = last ks \<and> rolled_back_infos r = [info_of m] \<and>
           pool_kept B s' = migration_effect (migrator_table M) False m (created (migrations (migrator_table M)) (pool_kept B s))"
    if went: "rollback_locked B M s = (Inr r, s')" for r s'
  proof -
    obtain s1 where s1: "wraps_ddl B s1" "pool_kept B s1 = created (migrations (migrator_table M)) (pool_kept B s)"
      and rev: "revert_last B M ks s1 = (Inr r, s')"
      using rollback_locked_done [OF assms(1) went, unfolded assms(2)] by blast
    show ?thesis
    proof (cases "ks = []")
      case False
      with revert_last_done [OF s1(1) rev] obtain m where
        "find (\<lambda>m. mg_version m = last ks) (registered_migrations M) = Some m"
        "r = empty_result\<lparr>rolled_back_infos := [info_of m]\<rparr>"
        "pool_kept B s' = migration_effect (migrator_table M) False m (pool_kept B s1)" by auto
      with found [OF this(1)] False s1(2) show ?thesis by auto
    qed (use revert_last_done [OF s1(1) rev] s1(2) in simp)
  qed
  obtain res s' where run: "migrator_rollback B M s = (res, s')" by fastforce
  show ?thesis
  proof (cases res)
    case (Inr r)
    with run have "rollback_locked B M s = (Inr r, s')" by (auto simp: migrator_rollback_def dest: with_ledger_lock_Inr)
    from reverted [OF this] run Inr show ?thesis by simp
  next
    case (Inl e)
    with run have "with_ledger_lock B MigrationLock (rollback_locked B M) s = (Inl e, s')" by (simp add: migrator_rollback_def)
    from with_ledger_lock_Inl [OF this]
    consider "s' = s" | "rollback_locked B M s = (Inl e, s')" | x where "rollback_locked B M s = (Inr x, s')" by blast
    then show ?thesis
    proof cases
      case 2
      from rollback_locked_failed [OF assms(1) this, unfolded assms(2)]
      consider "pool_kept B s' \<in> {pool_kept B s, created (migrations (migrator_table M)) (pool_kept B s)}"
        | s1 where "wraps_ddl B s1" "pool_kept B s1 = created (migrations (migrator_table M)) (pool_kept B s)"
          "revert_last B M ks s1 = (Inl e, s')" by blast
      then show ?thesis
      proof cases
        case s1: 2
        from revert_last_failed [OF s1(1,3)] consider "pool_kept B s' = pool_kept B s1"
          | m where "ks \<noteq> []" "find (\<lambda>m. mg_version m = last ks) (registered_migrations M) = Some m"
            "pool_kept B s' = migration_effect (migrator_table M) False m (pool_kept B s1)" by blast
        then show ?thesis
        proof cases
          case (2 m)
          with found [OF 2(2)] s1(2) run Inl show ?thesis by auto
        qed (use s1(2) run Inl in simp)
      qed (use run Inl in auto)
    next
      case 3
      from reverted [OF this] run Inl show ?thesis by (auto split: if_splits)
    qed (use run Inl in simp)
  qed
qed

text \<open>The migration registered under a version, and what reverting it does to the objects.\<close>

definition reverting :: "'x Migrator \<Rightarrow> ustr \<Rightarrow> 'x \<Rightarrow> 'x" where
  "reverting M version =
     (case find (\<lambda>m. mg_version m = version) (registered_migrations M) of
        None \<Rightarrow> (\<lambda>x. x) | Some m \<Rightarrow> fold (\<lambda>f. f) (down m))"

lemma migration_effect_parts [simp]:
  "objects (migration_effect table fwd m c) = fold (\<lambda>f. f) (if fwd then up m else down m) (objects c)"
  "keys_of (migrations table) (migration_effect table True m c) = keys_of (migrations table) c @ [mg_version m]"
  "keys_of (migrations table) (migration_effect table False m c) =
     filter (\<lambda>k. k \<noteq> mg_version m) (keys_of (migrations table) c)"
proof -
  have "keys_of l (on_objects f c) = keys_of l c" for l f by (simp add: keys_of_def rows_of_def on_objects_def)
  then show "keys_of (migrations table) (migration_effect table True m c) = keys_of (migrations table) c @ [mg_version m]"
    "keys_of (migrations table) (migration_effect table False m c) =
       filter (\<lambda>k. k \<noteq> mg_version m) (keys_of (migrations table) c)"
    by (simp_all add: migration_effect_def ledger_effect_def)
  show "objects (migration_effect table fwd m c) = fold (\<lambda>f. f) (if fwd then up m else down m) (objects c)"
    by (simp add: migration_effect_def ledger_effect_def on_objects_def)
qed

lemma rollback_steps_all:
  assumes "wraps_ddl B s" "keys_of (migrations (migrator_table M)) (pool_kept B s) = ks" "distinct ks"
    and "rollback_steps_loop B M (length ks) r s = (Inr r', s')"
  shows "wraps_ddl B s' \<and> keys_of (migrations (migrator_table M)) (pool_kept B s') = [] \<and>
    map mi_version (rolled_back_infos r') = map mi_version (rolled_back_infos r) @ rev ks \<and>
    objects (pool_kept B s') = fold (reverting M) (rev ks) (objects (pool_kept B s))"
  using assms
proof (induction ks arbitrary: r s rule: rev_induct)
  case (snoc k ks)
  let ?l = "migrations (migrator_table M)"
  obtain r1 s1 where step: "rollback_locked B M s = (Inr r1, s1)"
    and rest: "(if rolled_back_infos r1 = [] then (Inr r, s1)
       else rollback_steps_loop B M (length ks) (r\<lparr>rolled_back_infos := rolled_back_infos r @ rolled_back_infos r1\<rparr>) s1) =
        (Inr r', s')"
    using snoc.prems(4) by (auto simp: and_then_Inr)
  obtain s0 where s0: "wraps_ddl B s0" "pool_kept B s0 = created ?l (pool_kept B s)" "revert_last B M (ks @ [k]) s0 = (Inr r1, s1)"
    using rollback_locked_done [OF snoc.prems(1) step, unfolded snoc.prems(2)] by blast
  from revert_last_done [OF s0(1,3)] obtain m where ok: "wraps_ddl B s1"
    and m: "find (\<lambda>m. mg_version m = k) (registered_migrations M) = Some m" "r1 = empty_result\<lparr>rolled_back_infos := [info_of m]\<rparr>"
      "pool_kept B s1 = migration_effect (migrator_table M) False m (pool_kept B s0)"
    by auto
  have k: "mg_version m = k" using m(1) by (auto simp: find_Some_iff)
  have keys: "keys_of ?l (pool_kept B s1) = ks"
    using snoc.prems(2,3) m(3) s0(2) k by (auto simp: filter_id_conv)
  have obj: "objects (pool_kept B s1) = reverting M k (objects (pool_kept B s))"
    using m s0(2) by (simp add: reverting_def)
  from rest m(2) have "rollback_steps_loop B M (length ks) (r\<lparr>rolled_back_infos := rolled_back_infos r @ [info_of m]\<rparr>) s1 = (Inr r', s')"
    by simp
  from snoc.IH [OF ok keys _ this] snoc.prems(3) obj k show ?case by (simp add: info_of_def)
qed simp

lemma reset_locked_done:
  assumes ok: "wraps_ddl B s" and d: "distinct (keys_of (migrations (migrator_table M)) (pool_kept B s))"
    and run: "reset_locked B M s = (Inr r, s')"
  shows "wraps_ddl B s' \<and> keys_of (migrations (migrator_table M)) (pool_kept B s') = [] \<and>
    map mi_version (rolled_back_infos r) = rev (keys_of (migrations (migrator_table M)) (pool_kept B s)) \<and>
    objects (pool_kept B s') =
      fold (reverting M) (rev (keys_of (migrations (migrator_table M)) (pool_kept B s))) (objects (pool_kept B s))"
proof -
  let ?l = "migrations (migrator_table M)"
  obtain s1 ks s2 where s1: "wraps_ddl B s1" "pool_kept B s1 = created ?l (pool_kept B s)"
    and k: "ledger_keys (db_engine B) (db_driver B) ?l s1 = (Inr ks, s2)"
    and rest: "(let unknown = filter (\<lambda>version. version \<notin> registered_versions M) ks in
         if unknown \<noteq> [] then
           (Inl (query (lit ''Cannot reset migrations: recorded versions are not registered: '' @ join (lit '', '') unknown)), s2)
         else rollback_steps_locked B M (length ks) s2) = (Inr r, s')"
    using ledger_opened [OF ok run [unfolded reset_locked_def]] unfolding and_then_Inr by blast
  from ledger_keys_read [OF s1(1) k] s1(2)
  have s2: "wraps_ddl B s2" "pool_kept B s2 = created ?l (pool_kept B s)" "keys_of ?l (pool_kept B s2) = ks" by simp_all
  from rest have "rollback_steps_loop B M (length ks) empty_result s2 = (Inr r, s')"
    by (simp add: rollback_steps_locked_def Let_def split: if_splits)
  from rollback_steps_all [OF s2(1,3) _ this] s2 d show ?thesis by (simp add: empty_result_def)
qed

lemma reverting_registered:
  assumes "distinct (map mg_version ms)" and "m \<in> set ms" and "registered_migrations M = ms"
  shows "reverting M (mg_version m) = fold (\<lambda>f. f) (down m)"
proof -
  obtain m' where m': "find (\<lambda>m'. mg_version m' = mg_version m) ms = Some m'"
    using assms(2) by (metis (mono_tags, lifting) find_None_iff option.exhaust)
  then have "m' \<in> set ms" "mg_version m' = mg_version m" by (auto simp: find_Some_iff)
  with assms(1,2) have "m' = m" by (auto simp: distinct_map dest: inj_onD)
  with m' assms(3) show ?thesis by (simp add: reverting_def)
qed

lemma undo_all:
  assumes "\<And>m x. m \<in> set ms \<Longrightarrow> undo (mg_version m) (fold (\<lambda>f. f) (up m) x) = x"
  shows "fold undo (rev (map mg_version ms)) (fold (\<lambda>m. fold (\<lambda>f. f) (up m)) ms x) = x"
  using assms by (induction ms arbitrary: x) simp_all

lemma fold_effect_parts:
  "objects (fold (migration_effect table True) ms c) = fold (\<lambda>m. fold (\<lambda>f. f) (up m)) ms (objects c)"
  "keys_of (migrations table) (fold (migration_effect table True) ms c) = keys_of (migrations table) c @ map mg_version ms"
  by (induction ms arbitrary: c) simp_all

text \<open>C35. Resetting after a run on a database that records nothing gives the objects back as they were, with
  an empty ledger, when every migration's \<open>down\<close> undoes its \<open>up\<close>: the migrations are reverted in
  the opposite order of their application.\<close>

theorem reset_undoes_run:
  assumes ok: "wraps_ddl B s" and fresh: "keys_of (migrations (migrator_table M)) (pool_kept B s) = []"
    and versions: "distinct (map mg_version (registered_migrations M))"
    and inverse: "\<forall>m \<in> set (registered_migrations M). \<forall>x. fold (\<lambda>f. f) (down m) (fold (\<lambda>f. f) (up m) x) = x"
    and run: "migrator_run B M s = (Inr r1, s1)" and reset: "migrator_reset B M s1 = (Inr r2, s2)"
  shows "objects (pool_kept B s2) = objects (pool_kept B s) \<and>
    keys_of (migrations (migrator_table M)) (pool_kept B s2) = [] \<and>
    map mi_version (rolled_back_infos r2) = rev (map mi_version (applied r1))"
proof -
  let ?l = "migrations (migrator_table M)" and ?ms = "sorted_migrations M"
  have "run_locked B M s = (Inr r1, s1)" using run by (auto simp: migrator_run_def dest: with_ledger_lock_Inr)
  note ran = run_locked_done [OF ok this]
  have p: "pending_migrations M (pool_kept B s) = ?ms" using fresh by (simp add: pending_migrations_def)
  have ms: "set ?ms = set (registered_migrations M)" "distinct (map mg_version ?ms)"
    using versions by (simp_all add: sorted_migrations_def distinct_map)
  have keys: "keys_of ?l (pool_kept B s1) = map mg_version ?ms" "applied r1 = map info_of ?ms"
    and obj: "objects (pool_kept B s1) = fold (\<lambda>m. fold (\<lambda>f. f) (up m)) ?ms (objects (pool_kept B s))"
    using ran p fresh by (simp_all add: fold_effect_parts)
  have "reset_locked B M s1 = (Inr r2, s2)" using reset by (auto simp: migrator_reset_def dest: with_ledger_lock_Inr)
  note was = reset_locked_done [OF conjunct1 [OF ran] _ this, unfolded keys]
  have "fold (reverting M) (rev (map mg_version ?ms)) (fold (\<lambda>m. fold (\<lambda>f. f) (up m)) ?ms (objects (pool_kept B s))) =
      objects (pool_kept B s)"
    using inverse ms(1) by (intro undo_all) (simp add: reverting_registered [OF versions])
  with was ms(2) obj keys(2) show ?thesis by (simp add: info_of_def o_def)
qed

subsection \<open>An instance\<close>

definition demo_migrator :: "nat Migrator" where
  "demo_migrator =
     add_migration \<lparr>mg_version = lit ''1'', mg_name = lit ''add'', foreign_keys_off = True, up = [Suc, Suc], up_error = None,
         down = [\<lambda>n. n - 2], down_error = None\<rparr>
      (add_migration \<lparr>mg_version = lit ''2'', mg_name = lit ''double'', foreign_keys_off = False, up = [\<lambda>n. 2 * n], up_error = None,
         down = [\<lambda>n. n div 2], down_error = None\<rparr> Migrator_new)"

definition demo_database :: "(nat contents server, nat) database" where
  "demo_database = \<lparr>db_engine = plain_engine, db_type = Postgres, db_driver = guarded_server (\<lambda>_. True),
     lock_acquire = (\<lambda>_. Inr ()), lock_release = (\<lambda>_. Inr ()), own_connection = Inr (), foreign_key_check = (\<lambda>_. [])\<rparr>"

definition demo_session :: "(nat contents server, unit) session" where
  "demo_session = session_on \<lparr>objects = 5, ledgers = (\<lambda>_. None)\<rparr>"

lemma demo_wraps: "wraps_ddl demo_database demo_session"
  by (simp add: wraps_ddl_def good_def demo_database_def demo_session_def session_on_def guarded_server_documented)
    (simp add: guarded_server_def)

lemma demo_goes_through:
  "\<not> isl (fst (migrator_run demo_database demo_migrator demo_session))"
  "\<not> isl (fst (migrator_reset demo_database demo_migrator (snd (migrator_run demo_database demo_migrator demo_session))))"
  by code_simp+

lemma demo_sorted: "sorted_migrations demo_migrator = rev (registered_migrations demo_migrator)"
  by (simp add: demo_migrator_def sorted_migrations_def add_migration_def Migrator_new_def lit_def)

theorem migrations_run_in_order_witness:
  "case migrator_run demo_database demo_migrator demo_session of
      (Inr r, s') \<Rightarrow> objects (pool_kept demo_database s') = 14 \<and> map mi_version (applied r) = [lit ''1'', lit ''2'']
    | (Inl e, s') \<Rightarrow> False"
proof -
  obtain r s' where r: "migrator_run demo_database demo_migrator demo_session = (Inr r, s')"
    using demo_goes_through(1) by (metis prod.collapse sum.collapse(2))
  have "keys_of (migrations (migrator_table demo_migrator)) (pool_kept demo_database demo_session) = []" by code_simp
  then have p: "pending_migrations demo_migrator (pool_kept demo_database demo_session) = rev (registered_migrations demo_migrator)"
    by (simp add: pending_migrations_def demo_sorted)
  have o: "objects (fold (migration_effect (migrator_table demo_migrator) True) (rev (registered_migrations demo_migrator))
      (created (migrations (migrator_table demo_migrator)) (pool_kept demo_database demo_session))) = 14"
    by code_simp
  have v: "map mi_version (map info_of (rev (registered_migrations demo_migrator))) = [lit ''1'', lit ''2'']" by code_simp
  from migrations_run_in_order [OF demo_wraps, of demo_migrator] r p o v show ?thesis by simp
qed

theorem rollback_reverts_last_witness:
  "case migrator_rollback demo_database demo_migrator demo_session of
      (Inr r, s') \<Rightarrow> r = empty_result \<and>
        pool_kept demo_database s' = created (migrations (migrator_table demo_migrator)) (pool_kept demo_database demo_session)
    | (Inl e, s') \<Rightarrow> pool_kept demo_database s' \<in> {pool_kept demo_database demo_session,
        created (migrations (migrator_table demo_migrator)) (pool_kept demo_database demo_session)}"
proof -
  have "keys_of (migrations (migrator_table demo_migrator)) (pool_kept demo_database demo_session) = []" by code_simp
  from rollback_reverts_last [OF demo_wraps this] show ?thesis by (simp split: prod.splits sum.splits)
qed

theorem reset_undoes_run_witness:
  "objects (pool_kept demo_database (snd (migrator_reset demo_database demo_migrator
      (snd (migrator_run demo_database demo_migrator demo_session))))) = 5"
proof -
  obtain r1 s1 where r1: "migrator_run demo_database demo_migrator demo_session = (Inr r1, s1)"
    using demo_goes_through(1) by (metis prod.collapse sum.collapse(2))
  obtain r2 s2 where r2: "migrator_reset demo_database demo_migrator s1 = (Inr r2, s2)"
    using demo_goes_through(2) r1 by (metis prod.collapse sum.collapse(2) snd_conv)
  have "keys_of (migrations (migrator_table demo_migrator)) (pool_kept demo_database demo_session) = []" by code_simp
  moreover have "distinct (map mg_version (registered_migrations demo_migrator))" by code_simp
  moreover have "\<forall>m \<in> set (registered_migrations demo_migrator). \<forall>x. fold (\<lambda>f. f) (down m) (fold (\<lambda>f. f) (up m) x) = x"
    by (simp add: demo_migrator_def add_migration_def Migrator_new_def)
  ultimately have "objects (pool_kept demo_database s2) = objects (pool_kept demo_database demo_session)"
    using reset_undoes_run [OF demo_wraps _ _ _ r1 r2] by blast
  moreover have "objects (pool_kept demo_database demo_session) = 5" by code_simp
  ultimately show ?thesis using r1 r2 by simp
qed

end
