(* ===== verification/Topology.thy ===== *)
theory Topology
  imports Binary_Heap
begin

text \<open>
  Kahn's algorithm of \<open>src/src/internal/topology.rs\<close>, which orders saves, seeders and schema
  objects after what they depend on. An index out of range and a counter below zero are
  panics of the source, \<open>None\<close> here; the theorems show that edges between the \<open>count\<close> nodes
  never cause one.
\<close>

subsection \<open>The algorithm\<close>

fun link_edges ::
  "(nat \<times> nat) list \<Rightarrow> nat list \<Rightarrow> nat list list \<Rightarrow> (nat list \<times> nat list list) option" where
  "link_edges [] unmet followers = Some (unmet, followers)"
| "link_edges ((before, after) # edges) unmet followers =
     (if before < length followers \<and> after < length unmet then
        link_edges edges (unmet[after := unmet ! after + 1])
          (followers[before := followers ! before @ [after]])
      else None)"

text \<open>The inner loop over the followers of a node that has been taken.\<close>

fun release ::
  "(nat \<Rightarrow> 'k::linorder) \<Rightarrow> nat list \<Rightarrow> nat list \<Rightarrow> ('k \<times> nat) list \<Rightarrow>
     (nat list \<times> ('k \<times> nat) list) option" where
  "release key [] unmet ready = Some (unmet, ready)"
| "release key (follower # fs) unmet ready =
     (if follower < length unmet \<and> 0 < unmet ! follower then
        (let unmet' = unmet[follower := unmet ! follower - 1] in
         release key fs unmet'
           (if unmet' ! follower = 0 then heap_push (key follower, follower) ready else ready))
      else None)"

lemma release_measure:
  "release key fs unmet ready = Some (unmet', ready') \<Longrightarrow>
     sum_list unmet' + length ready' \<le> sum_list unmet + length ready"
proof (induction key fs unmet ready rule: release.induct)
  case (2 key f fs unmet ready)
  then have f: "f < length unmet" "0 < unmet ! f" by (auto split: if_splits)
  have "unmet ! f \<le> sum_list unmet" using f(1) by (simp add: elem_le_sum_list)
  then have "Suc (sum_list (unmet[f := unmet ! f - 1])) = sum_list unmet"
    using f by (simp add: sum_list_update)
  moreover from 2(2) f have rest: "release key fs (unmet[f := unmet ! f - 1])
     (if unmet[f := unmet ! f - 1] ! f = 0 then heap_push (key f, f) ready else ready) =
       Some (unmet', ready')"
    by (simp add: Let_def)
  ultimately show ?case using 2(1) [OF conjI [OF f] refl rest] by (auto split: if_splits)
qed simp

function kahn ::
  "(nat \<Rightarrow> 'k::linorder) \<Rightarrow> nat list list \<Rightarrow> nat list \<Rightarrow> ('k \<times> nat) list \<Rightarrow> nat list \<Rightarrow>
     (nat list \<times> nat list) option" where
  "kahn key followers unmet ready ordered =
     (case heap_pop ready of
        None \<Rightarrow> Some (ordered, unmet)
      | Some ((_, node), ready') \<Rightarrow>
          if node < length followers then
            (case release key (followers ! node) unmet ready' of
               None \<Rightarrow> None
             | Some (unmet', ready'') \<Rightarrow>
                 kahn key followers unmet' ready'' (ordered @ [node]))
          else None)"
  by pat_completeness auto
termination
  by (relation "measure (\<lambda>(_, _, unmet, ready, _). sum_list unmet + length ready)")
    (auto dest!: release_measure heap_pop_length)

declare kahn.simps [simp del]

definition topological_order ::
  "nat \<Rightarrow> (nat \<times> nat) list \<Rightarrow> (nat \<Rightarrow> 'k::linorder) \<Rightarrow> (nat list \<times> nat list) option" where
  "topological_order cnt edges key =
     (case link_edges edges (replicate cnt 0) (replicate cnt []) of
        None \<Rightarrow> None
      | Some (unmet, followers) \<Rightarrow>
          (let ready = foldr heap_push
                 (map (\<lambda>node. (key node, node)) (filter (\<lambda>node. unmet ! node = 0) [0..<cnt])) []
           in case kahn key followers unmet ready [] of
                None \<Rightarrow> None
              | Some (ordered, unmet') \<Rightarrow>
                  Some (ordered, filter (\<lambda>node. unmet' ! node > 0) [0..<cnt])))"

subsection \<open>What the edges say\<close>

definition edges_within :: "nat \<Rightarrow> (nat \<times> nat) list \<Rightarrow> bool" where
  "edges_within cnt edges = list_all (\<lambda>(b, a). b < cnt \<and> a < cnt) edges"

text \<open>How many edges into a node start outside the taken nodes, and the targets of a node.\<close>

definition waiting :: "(nat \<times> nat) list \<Rightarrow> nat set \<Rightarrow> nat \<Rightarrow> nat" where
  "waiting edges taken n = length (filter (\<lambda>(b, a). a = n \<and> b \<notin> taken) edges)"

definition targets :: "(nat \<times> nat) list \<Rightarrow> nat \<Rightarrow> nat list" where
  "targets edges n = map snd (filter (\<lambda>(b, a). b = n) edges)"

text \<open>A node may go next when it has not been taken and all its predecessors have.\<close>

definition available :: "(nat \<times> nat) list \<Rightarrow> nat set \<Rightarrow> nat \<Rightarrow> bool" where
  "available edges taken n \<longleftrightarrow> n \<notin> taken \<and> list_all (\<lambda>(b, a). a = n \<longrightarrow> b \<in> taken) edges"

lemma waiting_zero: "waiting edges taken n = 0 \<longleftrightarrow> list_all (\<lambda>(b, a). a = n \<longrightarrow> b \<in> taken) edges"
  by (auto simp: waiting_def filter_empty_conv list_all_iff)

lemma waiting_insert:
  "m \<notin> taken \<Longrightarrow> waiting edges taken n = waiting edges (insert m taken) n + count_list (targets edges m) n"
  by (induction edges) (auto simp: waiting_def targets_def)

lemma targets_within: "edges_within cnt edges \<Longrightarrow> f \<in> set (targets edges n) \<Longrightarrow> f < cnt"
  by (auto simp: edges_within_def targets_def list_all_iff)

lemma link_edges_spec:
  assumes "edges_within cnt edges" "length unmet = cnt" "length followers = cnt"
  shows "\<exists>unmet' followers'. link_edges edges unmet followers = Some (unmet', followers') \<and>
    length unmet' = cnt \<and> length followers' = cnt \<and>
    (\<forall>n < cnt. unmet' ! n = unmet ! n + waiting edges {} n \<and>
                 followers' ! n = followers ! n @ targets edges n)"
  using assms
proof (induction edges arbitrary: unmet followers)
  case Nil
  then show ?case by (simp add: waiting_def targets_def)
next
  case (Cons e edges)
  obtain b a where e: "e = (b, a)" by fastforce
  from Cons have ba: "b < cnt" "a < cnt" and rest: "edges_within cnt edges"
    by (auto simp: e edges_within_def)
  have "\<exists>unmet' followers'. link_edges edges (unmet[a := unmet ! a + 1])
      (followers[b := followers ! b @ [a]]) = Some (unmet', followers') \<and>
    length unmet' = cnt \<and> length followers' = cnt \<and>
    (\<forall>n < cnt. unmet' ! n = unmet[a := unmet ! a + 1] ! n + waiting edges {} n \<and>
                 followers' ! n = followers[b := followers ! b @ [a]] ! n @ targets edges n)"
    using rest Cons(3,4) by (intro Cons(1)) simp_all
  then show ?case
    using ba Cons(3,4) by (auto simp: e waiting_def targets_def nth_list_update)
qed

text \<open>Releasing a node's followers lowers each by its multiplicity and readies those at zero.\<close>

lemma release_spec:
  assumes "\<forall>f \<in> set fs. f < length unmet \<and> count_list fs f \<le> unmet ! f"
    and "distinct ready" and "\<forall>f \<in> set fs. (key f, f) \<notin> set ready"
  shows "\<exists>unmet' ready'. release key fs unmet ready = Some (unmet', ready') \<and>
    length unmet' = length unmet \<and> (\<forall>n < length unmet. unmet' ! n = unmet ! n - count_list fs n) \<and>
    distinct ready' \<and>
    set ready' = set ready \<union> {(key f, f) | f. f \<in> set fs \<and> unmet ! f = count_list fs f}"
  using assms
proof (induction fs arbitrary: unmet ready)
  case Nil
  then show ?case by simp
next
  case (Cons f fs)
  let ?unmet = "unmet[f := unmet ! f - 1]"
  let ?ready = "if ?unmet ! f = 0 then heap_push (key f, f) ready else ready"
  have f: "f < length unmet" "0 < unmet ! f" "Suc (count_list fs f) \<le> unmet ! f"
    using Cons(2) by auto
  have zero: "?unmet ! f = 0 \<longleftrightarrow> unmet ! f = 1" using f by auto
  have last: "unmet ! f = 1 \<Longrightarrow> f \<notin> set fs"
    using f(3) by (simp add: count_list_0_iff)
  have "\<exists>unmet' ready'. release key fs ?unmet ?ready = Some (unmet', ready') \<and>
    length unmet' = length ?unmet \<and> (\<forall>n < length ?unmet. unmet' ! n = ?unmet ! n - count_list fs n) \<and>
    distinct ready' \<and>
    set ready' = set ?ready \<union> {(key g, g) | g. g \<in> set fs \<and> ?unmet ! g = count_list fs g}"
  proof (rule Cons(1))
    show "\<forall>g \<in> set fs. g < length ?unmet \<and> count_list fs g \<le> ?unmet ! g"
      using Cons(2) by (auto simp: nth_list_update split: if_splits)
    show "distinct ?ready" using Cons(3,4) by (simp split: if_split)
    show "\<forall>g \<in> set fs. (key g, g) \<notin> set ?ready"
      using Cons(4) zero last by auto
  qed
  then obtain unmet' ready' where r: "release key fs ?unmet ?ready = Some (unmet', ready')"
    "length unmet' = length unmet" "\<forall>n < length unmet. unmet' ! n = ?unmet ! n - count_list fs n"
    "distinct ready'"
    "set ready' = set ?ready \<union> {(key g, g) | g. g \<in> set fs \<and> ?unmet ! g = count_list fs g}"
    by auto
  have "release key (f # fs) unmet ready = Some (unmet', ready')"
    using f r(1) by (simp add: Let_def)
  moreover have "\<forall>n < length unmet. unmet' ! n = unmet ! n - count_list (f # fs) n"
    using r(3) f by (auto simp: nth_list_update)
  moreover have "set ready' =
      set ready \<union> {(key g, g) | g. g \<in> set (f # fs) \<and> unmet ! g = count_list (f # fs) g}"
  proof (cases "unmet ! f = 1")
    case True
    have eq: "(g \<in> set (f # fs) \<and> unmet ! g = count_list (f # fs) g) \<longleftrightarrow>
        g = f \<or> (g \<in> set fs \<and> ?unmet ! g = count_list fs g)" for g
      using True last f by (cases "g = f") (auto simp: count_list_0_iff)
    have rd: "?ready = heap_push (key f, f) ready" unfolding zero using True by simp
    show ?thesis unfolding r(5) eq rd by auto
  next
    case False
    have eq: "(g \<in> set (f # fs) \<and> unmet ! g = count_list (f # fs) g) \<longleftrightarrow>
        (g \<in> set fs \<and> ?unmet ! g = count_list fs g)" for g
      using False f by (cases "g = f"; cases "f \<in> set fs") (auto simp: count_list_0_iff)
    have rd: "?ready = ready" unfolding zero using False by simp
    show ?thesis unfolding r(5) eq rd by (rule refl)
  qed
  ultimately show ?case
    by (intro exI [of _ unmet'] exI [of _ ready'] conjI r(2,4))
qed

subsection \<open>The loop invariant\<close>

text \<open>Each node was available when it was taken, and least among the available ones.\<close>

definition greedy :: "nat \<Rightarrow> (nat \<times> nat) list \<Rightarrow> (nat \<Rightarrow> 'k::linorder) \<Rightarrow> nat list \<Rightarrow> bool" where
  "greedy cnt edges key ordered \<longleftrightarrow>
     (\<forall>i < length ordered. available edges (set (take i ordered)) (ordered ! i) \<and>
        (\<forall>m < cnt. available edges (set (take i ordered)) m \<longrightarrow>
           (key (ordered ! i), ordered ! i) \<le> (key m, m)))"

definition kahn_inv ::
  "nat \<Rightarrow> (nat \<times> nat) list \<Rightarrow> (nat \<Rightarrow> 'k::linorder) \<Rightarrow> nat list \<Rightarrow> ('k \<times> nat) list \<Rightarrow> nat list \<Rightarrow> bool" where
  "kahn_inv cnt edges key unmet ready ordered \<longleftrightarrow>
     length unmet = cnt \<and> distinct ordered \<and> set ordered \<subseteq> {..<cnt} \<and>
     (\<forall>n < cnt. unmet ! n = waiting edges (set ordered) n) \<and>
     (\<forall>n \<in> set ordered. waiting edges (set ordered) n = 0) \<and>
     distinct ready \<and> set ready = {(key n, n) | n. n < cnt \<and> available edges (set ordered) n} \<and>
     greedy cnt edges key ordered"

lemma available_iff: "available edges taken n \<longleftrightarrow> n \<notin> taken \<and> waiting edges taken n = 0"
  by (simp add: available_def waiting_zero)

lemma greedy_snoc:
  "greedy cnt edges key (ordered @ [node]) \<longleftrightarrow>
     greedy cnt edges key ordered \<and> available edges (set ordered) node \<and>
     (\<forall>m < cnt. available edges (set ordered) m \<longrightarrow> (key node, node) \<le> (key m, m))"
  by (auto simp: greedy_def less_Suc_eq nth_append)

text \<open>What becomes available when an available node is taken.\<close>

lemma available_insert:
  assumes "available edges taken node" and "\<forall>n \<in> taken. waiting edges taken n = 0"
  shows "available edges (insert node taken) n \<longleftrightarrow>
    available edges taken n \<and> n \<noteq> node \<or>
    n \<in> set (targets edges node) \<and> waiting edges taken n = count_list (targets edges node) n"
proof -
  have node: "node \<notin> taken" "waiting edges taken node = 0"
    using assms(1) by (simp_all add: available_iff)
  note split = waiting_insert [OF node(1), of edges n]
  have "n \<in> set (targets edges node) \<Longrightarrow> 0 < count_list (targets edges node) n"
    by (simp add: count_list_0_iff neq0_conv [symmetric])
  moreover have "n \<notin> set (targets edges node) \<Longrightarrow> count_list (targets edges node) n = 0"
    by (simp add: count_list_0_iff)
  ultimately show ?thesis
    using split node assms(2) by (auto simp: available_iff)
qed

lemma waiting_insert_zero:
  "\<lbrakk>available edges taken node; \<forall>n \<in> taken. waiting edges taken n = 0\<rbrakk> \<Longrightarrow>
   \<forall>n \<in> insert node taken. waiting edges (insert node taken) n = 0"
  using waiting_insert [of node taken edges] by (auto simp: available_iff)

lemma kahn_step:
  assumes inv: "kahn_inv cnt edges key unmet ready ordered" and edges: "edges_within cnt edges"
    and pop: "heap_pop ready = Some ((k, node), ready')"
  shows "node < cnt \<and> (\<exists>unmet' ready''. release key (targets edges node) unmet ready' = Some (unmet', ready'') \<and>
    kahn_inv cnt edges key unmet' ready'' (ordered @ [node]))"
proof -
  let ?taken = "set ordered" and ?fs = "targets edges node"
  from inv have len: "length unmet = cnt" and unmet: "\<forall>n < cnt. unmet ! n = waiting edges ?taken n"
    and closed: "\<forall>n \<in> ?taken. waiting edges ?taken n = 0"
    and ready: "distinct ready" "set ready = {(key n, n) | n. n < cnt \<and> available edges ?taken n}"
    by (auto simp: kahn_inv_def)
  note popped = heap_pop_distinct [OF pop ready(1)]
  then have "(k, node) \<in> set ready" by simp
  with ready(2) have node: "node < cnt" "available edges ?taken node" "k = key node" by auto
  have least: "(key node, node) \<le> (key m, m)" if "m < cnt" "available edges ?taken m" for m
    using list_heap.pop_least [OF pop, of "(key m, m)"] ready(2) that node(3) by auto
  have count: "waiting edges ?taken n = waiting edges (insert node ?taken) n + count_list ?fs n" for n
    using node(2) by (intro waiting_insert) (simp add: available_iff)
  have ready': "set ready' = {(key n, n) | n. n < cnt \<and> available edges ?taken n \<and> n \<noteq> node}"
    using popped ready(2) node(3) by auto
  have fs: "\<forall>f \<in> set ?fs. f < length unmet \<and> count_list ?fs f \<le> unmet ! f"
    using targets_within [OF edges, of _ node] count len unmet by simp
  moreover have "\<forall>f \<in> set ?fs. (key f, f) \<notin> set ready'"
  proof
    fix f
    assume "f \<in> set ?fs"
    then have "0 < count_list ?fs f" by (simp add: count_list_0_iff neq0_conv [symmetric])
    with count [of f] have "\<not> available edges ?taken f" by (simp add: available_iff)
    then show "(key f, f) \<notin> set ready'" by (simp add: ready')
  qed
  ultimately obtain unmet' ready'' where r: "release key ?fs unmet ready' = Some (unmet', ready'')"
    "length unmet' = length unmet" "\<forall>n < length unmet. unmet' ! n = unmet ! n - count_list ?fs n"
    "distinct ready''"
    "set ready'' = set ready' \<union> {(key f, f) | f. f \<in> set ?fs \<and> unmet ! f = count_list ?fs f}"
    using release_spec [of ?fs unmet ready' key] popped by auto
  have "set ready'' = {(key n, n) | n. n < cnt \<and> available edges (insert node ?taken) n}"
    unfolding r(5) ready' available_insert [OF node(2) closed] using unmet fs len by auto
  moreover have "\<forall>n < cnt. unmet' ! n = waiting edges (insert node ?taken) n"
    using r(3) unmet count len by simp
  ultimately have "kahn_inv cnt edges key unmet' ready'' (ordered @ [node])"
    using inv r(2,4) node least waiting_insert_zero [OF node(2) closed]
    by (auto simp: kahn_inv_def greedy_snoc available_iff)
  with r(1) node(1) show ?thesis by blast
qed

lemma kahn_spec:
  assumes "kahn_inv cnt edges key unmet ready ordered" "edges_within cnt edges"
    and "length followers = cnt" "\<forall>n < cnt. followers ! n = targets edges n"
  shows "\<exists>ordered' unmet'. kahn key followers unmet ready ordered = Some (ordered', unmet') \<and>
    kahn_inv cnt edges key unmet' [] ordered'"
  using assms
proof (induction key followers unmet ready ordered rule: kahn.induct)
  case (1 key followers unmet ready ordered)
  show ?case
  proof (cases "heap_pop ready")
    case None
    then have "ready = []" using list_heap.pop_None [of ready] by simp
    with None 1(2) show ?thesis by (subst kahn.simps) auto
  next
    case (Some p)
    obtain k node ready' where p: "p = ((k, node), ready')" by (metis surj_pair)
    from kahn_step [OF 1(2,3), of k node ready'] Some p obtain unmet' ready'' where
      node: "node < cnt" and rel: "release key (targets edges node) unmet ready' = Some (unmet', ready'')"
      and inv: "kahn_inv cnt edges key unmet' ready'' (ordered @ [node])"
      by auto
    with 1(4,5) have len: "node < length followers"
      and rel': "release key (followers ! node) unmet ready' = Some (unmet', ready'')" by simp_all
    from 1(1) [OF Some p [symmetric] refl len rel' refl inv 1(3,4,5)]
    show ?thesis using Some p len rel' by (subst kahn.simps) simp
  qed
qed

lemma foldr_heap_push: "foldr heap_push xs [] = xs"
  by (induction xs) (simp_all add: heap_push_def)

lemma kahn_inv_init:
  assumes "length unmet = cnt" "\<forall>n < cnt. unmet ! n = waiting edges {} n"
  shows "kahn_inv cnt edges key unmet
    (foldr heap_push (map (\<lambda>node. (key node, node)) (filter (\<lambda>node. unmet ! node = 0) [0..<cnt])) []) []"
  using assms by (auto simp: kahn_inv_def greedy_def available_iff distinct_map inj_on_def foldr_heap_push)

lemma topological_order_correct:
  fixes key :: "nat \<Rightarrow> 'k::linorder"
  assumes "edges_within cnt edges"
  shows "\<exists>ordered left_over. topological_order cnt edges key = Some (ordered, left_over) \<and>
    distinct (ordered @ left_over) \<and> set (ordered @ left_over) = {..<cnt} \<and> sorted left_over \<and>
    greedy cnt edges key ordered \<and>
    (\<forall>n \<in> set left_over. \<exists>b \<in> set left_over. (b, n) \<in> set edges)"
proof -
  obtain unmet followers where link: "link_edges edges (replicate cnt 0) (replicate cnt []) = Some (unmet, followers)"
    and len: "length unmet = cnt" "length followers = cnt"
    and elems: "\<forall>n < cnt. unmet ! n = waiting edges {} n" "\<forall>n < cnt. followers ! n = targets edges n"
    using link_edges_spec [OF assms, of "replicate cnt 0" "replicate cnt []"] by auto
  obtain ordered unmet' where run: "kahn key followers unmet
      (foldr heap_push (map (\<lambda>node. (key node, node)) (filter (\<lambda>node. unmet ! node = 0) [0..<cnt])) []) []
      = Some (ordered, unmet')" and inv: "kahn_inv cnt edges key unmet' [] ordered"
    using kahn_spec [OF kahn_inv_init [OF len(1) elems(1)] assms len(2) elems(2)] by blast
  let ?left = "filter (\<lambda>node. unmet' ! node > 0) [0..<cnt]"
  have left: "n \<in> set ?left \<longleftrightarrow> n < cnt \<and> n \<notin> set ordered" for n
    using inv by (auto simp: kahn_inv_def available_iff)
  have "\<exists>b \<in> set ?left. (b, n) \<in> set edges" if n: "n \<in> set ?left" for n
  proof -
    from n inv have "waiting edges (set ordered) n \<noteq> 0" by (auto simp: kahn_inv_def)
    then obtain b where "(b, n) \<in> set edges" "b \<notin> set ordered"
      by (auto simp: waiting_zero list_all_iff)
    with assms left show ?thesis by (auto simp: edges_within_def list_all_iff)
  qed
  moreover have "topological_order cnt edges key = Some (ordered, ?left)"
    using link run by (simp add: topological_order_def)
  moreover have "set (ordered @ ?left) = {..<cnt}" "distinct (ordered @ ?left)" "greedy cnt edges key ordered"
    using inv left by (auto simp: kahn_inv_def)
  ultimately show ?thesis by (intro exI conjI) (auto simp: sorted_wrt_filter)
qed

text \<open>C28. The ordering never panics on edges between its nodes, and it is the documented one: the
  order and the nodes left over partition the nodes; every node of the order was available
  when taken, all its predecessors already there, and least by key (index breaking ties)
  among the nodes then available; and nothing left over is available, so each waits for
  another node left over, on or behind a cycle.\<close>

theorem topological_order_spec:
  fixes key :: "nat \<Rightarrow> 'k::linorder"
  assumes "edges_within cnt edges"
  shows "\<exists>ordered left_over. topological_order cnt edges key = Some (ordered, left_over) \<and>
    distinct (ordered @ left_over) \<and> set (ordered @ left_over) = {..<cnt} \<and> sorted left_over \<and>
    greedy cnt edges key ordered \<and>
    (\<forall>n \<in> set left_over. \<exists>b \<in> set left_over. (b, n) \<in> set edges)"
  using assms by (rule topological_order_correct)

theorem topological_order_spec_witness:
  "\<exists>ordered left_over. topological_order 4 [(2, 0), (3, 1), (1, 3)] (\<lambda>n. n) = Some (ordered, left_over) \<and>
    distinct (ordered @ left_over) \<and> set (ordered @ left_over) = {..<4} \<and> sorted left_over \<and>
    greedy 4 [(2, 0), (3, 1), (1, 3)] (\<lambda>n. n) ordered \<and>
    (\<forall>n \<in> set left_over. \<exists>b \<in> set left_over. (b, n) \<in> set [(2, 0), (3, 1), (1, 3)])"
  by (rule topological_order_spec) (simp add: edges_within_def)

lemma greedy_respects:
  assumes "greedy cnt edges key ordered" "(b, a) \<in> set edges" "i < length ordered" "ordered ! i = a"
  shows "b \<in> set (take i ordered)"
  using assms by (auto simp: greedy_def available_def list_all_iff)

text \<open>Without a cycle nothing is left over: the order is then a permutation of the nodes in
  which both ends of every edge stand in the edge's direction.\<close>

theorem topological_order_acyclic:
  fixes key :: "nat \<Rightarrow> 'k::linorder"
  assumes "edges_within cnt edges" and "acyclic (set edges)"
  shows "\<exists>ordered. topological_order cnt edges key = Some (ordered, []) \<and>
    distinct ordered \<and> set ordered = {..<cnt} \<and>
    (\<forall>(b, a) \<in> set edges. \<exists>i j. i < j \<and> j < cnt \<and> ordered ! i = b \<and> ordered ! j = a)"
proof -
  obtain ordered left_over where t: "topological_order cnt edges key = Some (ordered, left_over)"
    and parts: "distinct (ordered @ left_over)" "set (ordered @ left_over) = {..<cnt}"
    and g: "greedy cnt edges key ordered"
    and waits: "\<forall>n \<in> set left_over. \<exists>b \<in> set left_over. (b, n) \<in> set edges"
    using topological_order_correct [OF assms(1), of key] by blast
  have "wf (set edges)" using assms(2) by (simp add: finite_acyclic_wf)
  then have "left_over = []"
    using waits by (metis list.set_intros(1) neq_Nil_conv wfE_min)
  with parts have o: "distinct ordered" "set ordered = {..<cnt}" by simp_all
  then have "length ordered = cnt" using distinct_card [of ordered] by simp
  note o = o this
  have "\<exists>i j. i < j \<and> j < cnt \<and> ordered ! i = b \<and> ordered ! j = a" if e: "(b, a) \<in> set edges" for b a
  proof -
    have "a \<in> set ordered" using assms(1) e o(2) by (auto simp: edges_within_def list_all_iff)
    then obtain j where j: "j < length ordered" "ordered ! j = a" by (auto simp: in_set_conv_nth)
    from greedy_respects [OF g e j] obtain i where "i < j" "ordered ! i = b"
      by (auto simp: in_set_conv_nth)
    with j o(3) show ?thesis by blast
  qed
  with t \<open>left_over = []\<close> o(1,2) show ?thesis by blast
qed

theorem topological_order_acyclic_witness:
  "\<exists>ordered. topological_order 3 [(2, 0), (0, 1)] (\<lambda>n. n) = Some (ordered, []) \<and>
    distinct ordered \<and> set ordered = {..<3} \<and>
    (\<forall>(b, a) \<in> set [(2, 0), (0, 1)]. \<exists>i j. i < j \<and> j < 3 \<and> ordered ! i = b \<and> ordered ! j = a)"
proof (rule topological_order_acyclic)
  show "edges_within 3 [(2, 0), (0, 1)]" by (simp add: edges_within_def)
  show "acyclic (set [(2, 0), (0, 1 :: nat)])"
    by (rule acyclicI_order [of _ "\<lambda>n :: nat. if n = 2 then 2 else if n = 0 then 1 else (0 :: nat)"]) auto
qed

end
