(* ===== verification/Seeder.thy ===== *)
theory Seeder
  imports Migrator Topology "HOL-Library.Product_Lexorder"
begin

text \<open>
  The seeder: \<open>src/src/seeding.rs\<close> and \<open>src/src/seeding/results.rs\<close>, on a pool, outside any
  transaction of the caller. A seed is user code as a migration is, and runs in one transaction
  with its ledger entry on every backend; its statements are taken to be ones a transaction
  holds, which on MySQL excludes DDL.
\<close>

subsection \<open>Seeds and their reports\<close>

record 'x Seed =
  sd_name :: ustr
  sd_run :: "('x \<Rightarrow> 'x) list"
  sd_run_error :: "Error option"
  sd_rollback :: "('x \<Rightarrow> 'x) list"
  sd_rollback_error :: "Error option"
  priority :: nat
  depends_on :: "ustr list"

text \<open>What the trait supplies: nothing to roll back, priority 100, no dependencies.\<close>

definition plain_seed :: "ustr \<Rightarrow> ('x \<Rightarrow> 'x) list \<Rightarrow> 'x Seed" where
  "plain_seed name statements = \<lparr>sd_name = name, sd_run = statements, sd_run_error = None, sd_rollback = [],
     sd_rollback_error = None, priority = 100, depends_on = []\<rparr>"

record SeedInfo =
  si_name :: ustr

record SeedResult =
  executed :: "SeedInfo list"
  seeds_skipped :: "SeedInfo list"
  seeds_rolled_back :: "SeedInfo list"

definition empty_seed_result :: SeedResult where
  "empty_seed_result = \<lparr>executed = [], seeds_skipped = [], seeds_rolled_back = []\<rparr>"

definition has_executed :: "SeedResult \<Rightarrow> bool" where
  "has_executed r \<longleftrightarrow> executed r \<noteq> []"

definition display_seed_result :: "SeedResult \<Rightarrow> ustr" where
  "display_seed_result r =
     write_report_section (lit ''Executed seeds'') [10003] (executed r) si_name @
     write_report_section (lit ''Skipped seeds (already executed)'') (lit ''-'') (seeds_skipped r) si_name @
     write_report_section (lit ''Rolled back seeds'') [8617] (seeds_rolled_back r) si_name"

record SeedStatus =
  ss_name :: ustr
  ss_executed :: bool
  ss_priority :: nat

definition display_seed_status :: "SeedStatus \<Rightarrow> ustr" where
  "display_seed_status s =
     lit ''['' @ [if ss_executed s then 10003 else 9675] @ lit ''] '' @ ss_name s @ lit '' (priority: '' @
     show_nat (ss_priority s) @ lit '')''"

subsection \<open>Ordering\<close>

record 'x Seeder =
  registered_seeds :: "'x Seed list"

definition Seeder_new :: "'x Seeder" where
  "Seeder_new = \<lparr>registered_seeds = []\<rparr>"

definition add_seed :: "'x Seed \<Rightarrow> 'x Seeder \<Rightarrow> 'x Seeder" where
  "add_seed x S = S\<lparr>registered_seeds := registered_seeds S @ [x]\<rparr>"

definition seed_names :: "'x Seeder \<Rightarrow> ustr list" where
  "seed_names S = map sd_name (registered_seeds S)"

text \<open>Of two seeds with one name the map keeps the later.\<close>

definition index_by_name :: "'x Seeder \<Rightarrow> ustr \<Rightarrow> nat option" where
  "index_by_name S = map_of (rev (zip (seed_names S) [0..<length (registered_seeds S)]))"

definition seed_edges :: "'x Seeder \<Rightarrow> (nat \<times> nat) list" where
  "seed_edges S =
     concat (map (\<lambda>(index, seed). map (\<lambda>dependency. (dependency, index))
               (List.map_filter (index_by_name S) (depends_on seed)))
       (zip [0..<length (registered_seeds S)] (registered_seeds S)))"

definition sort_seeds_by_priority_and_deps :: "'x Seeder \<Rightarrow> Error + 'x Seed list" where
  "sort_seeds_by_priority_and_deps S =
     (let seeds = registered_seeds S in
      case the (topological_order (length seeds) (seed_edges S) (\<lambda>index. (priority (seeds ! index), index))) of
        (order, cycle) \<Rightarrow>
          if cycle \<noteq> [] then
            Inl (Configuration (lit ''Circular seed dependency detected involving: '' @
              join (lit '', '') (map (\<lambda>index. sd_name (seeds ! index)) (sort_key (\<lambda>index. priority (seeds ! index)) cycle))))
          else Inr (map (\<lambda>index. seeds ! index) order))"

definition find_seed :: "'x Seeder \<Rightarrow> ustr \<Rightarrow> Error + 'x Seed" where
  "find_seed S name =
     (case find (\<lambda>x. sd_name x = name) (registered_seeds S) of
        Some x \<Rightarrow> Inr x
      | None \<Rightarrow> Inl (not_found (lit ''Seed '' @ [39] @ name @ [39] @ lit '' not found'')))"

subsection \<open>One seed\<close>

definition open_ledger ::
  "('s, 'x) database \<Rightarrow> ('s, 'u) session \<Rightarrow> (Error + unit) \<times> ('s, 'u) session" where
  "open_ledger B = ledger_ensure (db_engine B) (db_type B) (db_driver B) seeds"

definition seed_in_scope ::
  "('s, 'x) database \<Rightarrow> ('x \<Rightarrow> 'x) list \<Rightarrow> Error option \<Rightarrow> ('x contents \<Rightarrow> 'x contents) list \<Rightarrow>
     ('s, 'x contents, 'u) scope \<Rightarrow> (Error + unit) \<times> ('s, 'x contents, 'u) scope" where
  "seed_in_scope B statements err ledger_statements st =
     and_then (scope_execute_all (db_engine B) (backend_of (db_type B)) (db_driver B) (map on_objects statements) st)
       (\<lambda>_ st1. and_then (ended err st1)
          (\<lambda>_. scope_execute_all (db_engine B) (backend_of (db_type B)) (db_driver B) ledger_statements))"

definition apply_seed ::
  "('s, 'x) database \<Rightarrow> bool \<Rightarrow> 'x Seed \<Rightarrow> ('s, 'u) session \<Rightarrow> (Error + unit) \<times> ('s, 'u) session" where
  "apply_seed B record x =
     in_transaction (db_engine B) (backend_of (db_type B)) (db_driver B)
       (seed_in_scope B (sd_run x) (sd_run_error x) (if record then [recorded seeds (sd_name x) []] else []))"

definition revert_seed ::
  "('s, 'x) database \<Rightarrow> 'x Seed \<Rightarrow> ('s, 'u) session \<Rightarrow> (Error + unit) \<times> ('s, 'u) session" where
  "revert_seed B x =
     in_transaction (db_engine B) (backend_of (db_type B)) (db_driver B)
       (seed_in_scope B (sd_rollback x) (sd_rollback_error x) [removed seeds (sd_name x)])"

subsection \<open>The seeder\<close>

abbreviation seed_keys ::
  "('s, 'x) database \<Rightarrow> ('s, 'u) session \<Rightarrow> (Error + ustr list) \<times> ('s, 'u) session" where
  "seed_keys B \<equiv> ledger_keys (db_engine B) (db_driver B) seeds"

definition seed_info :: "'x Seed \<Rightarrow> SeedInfo" where
  "seed_info x = \<lparr>si_name = sd_name x\<rparr>"

fun seed_loop ::
  "('s, 'x) database \<Rightarrow> ustr list \<Rightarrow> 'x Seed list \<Rightarrow> SeedResult \<Rightarrow> ('s, 'u) session \<Rightarrow>
     (Error + SeedResult) \<times> ('s, 'u) session" where
  "seed_loop B recorded_names [] result s = (Inr result, s)"
| "seed_loop B recorded_names (x # xs) result s =
     (if sd_name x \<in> set recorded_names then
        seed_loop B recorded_names xs (result\<lparr>seeds_skipped := seeds_skipped result @ [seed_info x]\<rparr>) s
      else (case find (\<lambda>d. d \<notin> set recorded_names \<and> d \<notin> si_name ` set (executed result)) (depends_on x) of
              Some d \<Rightarrow> (Inl (Configuration (lit ''Seed '' @ [39] @ sd_name x @ [39] @ lit '' depends on '' @ [39] @ d @ [39] @
                lit '' which has not been executed'')), s)
            | None \<Rightarrow> and_then (apply_seed B True x s)
                (\<lambda>_. seed_loop B recorded_names xs (result\<lparr>executed := executed result @ [seed_info x]\<rparr>))))"

definition seeder_run_locked ::
  "('s, 'x) database \<Rightarrow> 'x Seeder \<Rightarrow> ('s, 'u) session \<Rightarrow> (Error + SeedResult) \<times> ('s, 'u) session" where
  "seeder_run_locked B S s =
     and_then (open_ledger B s) (\<lambda>_ s1. and_then (seed_keys B s1) (\<lambda>keys s2.
       case sort_seeds_by_priority_and_deps S of
         Inl e \<Rightarrow> (Inl e, s2)
       | Inr order \<Rightarrow> seed_loop B keys order empty_seed_result s2))"

definition seeder_run ::
  "('s, 'x) database \<Rightarrow> 'x Seeder \<Rightarrow> ('s, 'u) session \<Rightarrow> (Error + SeedResult) \<times> ('s, 'u) session" where
  "seeder_run B S = with_ledger_lock B SeedLock (seeder_run_locked B S)"

definition run_seed ::
  "('s, 'x) database \<Rightarrow> 'x Seeder \<Rightarrow> ustr \<Rightarrow> ('s, 'u) session \<Rightarrow> (Error + SeedResult) \<times> ('s, 'u) session" where
  "run_seed B S name s =
     (case find_seed S name of
        Inl e \<Rightarrow> (Inl e, s)
      | Inr x \<Rightarrow>
          with_ledger_lock B SeedLock (\<lambda>s.
            and_then (open_ledger B s) (\<lambda>_ s1. and_then (seed_keys B s1) (\<lambda>keys s2.
              and_then (apply_seed B (name \<notin> set keys) x s2)
                (\<lambda>_ s3. (Inr (empty_seed_result\<lparr>executed := [\<lparr>si_name = name\<rparr>]\<rparr>), s3))))) s)"

definition revert_last_seed ::
  "('s, 'x) database \<Rightarrow> 'x Seeder \<Rightarrow> ustr list \<Rightarrow> ('s, 'u) session \<Rightarrow> (Error + SeedResult) \<times> ('s, 'u) session" where
  "revert_last_seed B S keys s =
     (if keys = [] then (Inr empty_seed_result, s)
      else (case find_seed S (last keys) of
              Inl _ \<Rightarrow> (Inl (not_found (lit ''Seed '' @ [39] @ last keys @ [39] @
                lit '' is the last one the _seeds table records, but this seeder does not register it; register it again to roll it back, or delete its _seeds row'')), s)
            | Inr x \<Rightarrow> and_then (revert_seed B x s)
                (\<lambda>_ s'. (Inr (empty_seed_result\<lparr>seeds_rolled_back := [seed_info x]\<rparr>), s'))))"

definition seeder_rollback_locked ::
  "('s, 'x) database \<Rightarrow> 'x Seeder \<Rightarrow> ('s, 'u) session \<Rightarrow> (Error + SeedResult) \<times> ('s, 'u) session" where
  "seeder_rollback_locked B S s =
     and_then (open_ledger B s) (\<lambda>_ s1. and_then (seed_keys B s1) (revert_last_seed B S))"

definition seeder_rollback ::
  "('s, 'x) database \<Rightarrow> 'x Seeder \<Rightarrow> ('s, 'u) session \<Rightarrow> (Error + SeedResult) \<times> ('s, 'u) session" where
  "seeder_rollback B S = with_ledger_lock B SeedLock (seeder_rollback_locked B S)"

definition rollback_seed ::
  "('s, 'x) database \<Rightarrow> 'x Seeder \<Rightarrow> ustr \<Rightarrow> ('s, 'u) session \<Rightarrow> (Error + SeedResult) \<times> ('s, 'u) session" where
  "rollback_seed B S name s =
     (case find_seed S name of
        Inl e \<Rightarrow> (Inl e, s)
      | Inr x \<Rightarrow>
          with_ledger_lock B SeedLock (\<lambda>s.
            and_then (open_ledger B s) (\<lambda>_ s1. and_then (revert_seed B x s1)
              (\<lambda>_ s2. (Inr (empty_seed_result\<lparr>seeds_rolled_back := [seed_info x]\<rparr>), s2)))) s)"

fun seed_rollback_loop ::
  "('s, 'x) database \<Rightarrow> 'x Seeder \<Rightarrow> nat \<Rightarrow> SeedResult \<Rightarrow> ('s, 'u) session \<Rightarrow> (Error + SeedResult) \<times> ('s, 'u) session" where
  "seed_rollback_loop B S 0 result s = (Inr result, s)"
| "seed_rollback_loop B S (Suc steps) result s =
     and_then (seeder_rollback_locked B S s) (\<lambda>step_result s'.
       if seeds_rolled_back step_result = [] then (Inr result, s')
       else seed_rollback_loop B S steps
              (result\<lparr>seeds_rolled_back := seeds_rolled_back result @ seeds_rolled_back step_result\<rparr>) s')"

definition seeder_rollback_steps ::
  "('s, 'x) database \<Rightarrow> 'x Seeder \<Rightarrow> nat \<Rightarrow> ('s, 'u) session \<Rightarrow> (Error + SeedResult) \<times> ('s, 'u) session" where
  "seeder_rollback_steps B S steps s =
     (if steps = 0 then (Inr empty_seed_result, s)
      else with_ledger_lock B SeedLock (seed_rollback_loop B S steps empty_seed_result) s)"

definition seeder_reset_locked ::
  "('s, 'x) database \<Rightarrow> 'x Seeder \<Rightarrow> ('s, 'u) session \<Rightarrow> (Error + SeedResult) \<times> ('s, 'u) session" where
  "seeder_reset_locked B S s =
     and_then (open_ledger B s) (\<lambda>_ s1. and_then (seed_keys B s1) (\<lambda>keys.
       seed_rollback_loop B S (length keys) empty_seed_result))"

definition seeder_reset ::
  "('s, 'x) database \<Rightarrow> 'x Seeder \<Rightarrow> ('s, 'u) session \<Rightarrow> (Error + SeedResult) \<times> ('s, 'u) session" where
  "seeder_reset B S = with_ledger_lock B SeedLock (seeder_reset_locked B S)"

definition seeder_refresh ::
  "('s, 'x) database \<Rightarrow> 'x Seeder \<Rightarrow> ('s, 'u) session \<Rightarrow> (Error + SeedResult) \<times> ('s, 'u) session" where
  "seeder_refresh B S =
     with_ledger_lock B SeedLock (\<lambda>s.
       and_then (seeder_reset_locked B S s) (\<lambda>reset_result s1.
         and_then (seeder_run_locked B S s1) (\<lambda>run_result s2.
           (Inr \<lparr>executed = executed run_result, seeds_skipped = seeds_skipped run_result,
                 seeds_rolled_back = seeds_rolled_back reset_result\<rparr>, s2))))"

definition seeder_status ::
  "('s, 'x) database \<Rightarrow> 'x Seeder \<Rightarrow> ('s, 'u) session \<Rightarrow> (Error + SeedStatus list) \<times> ('s, 'u) session" where
  "seeder_status B S s =
     and_then (open_ledger B s) (\<lambda>_ s1. and_then (seed_keys B s1) (\<lambda>keys s2.
       case sort_seeds_by_priority_and_deps S of
         Inl e \<Rightarrow> (Inl e, s2)
       | Inr order \<Rightarrow>
           (Inr (map (\<lambda>x. \<lparr>ss_name = sd_name x, ss_executed = sd_name x \<in> set keys, ss_priority = priority x\<rparr>) order), s2)))"

subsection \<open>The order of seeds\<close>

lemma index_by_name_distinct:
  assumes "distinct (seed_names S)" and "i < length (registered_seeds S)"
  shows "index_by_name S (sd_name (registered_seeds S ! i)) = Some i"
proof -
  let ?n = "length (registered_seeds S)"
  have d: "distinct (map fst (rev (zip (seed_names S) [0..<?n])))"
    using assms(1) by (simp add: rev_map [symmetric] seed_names_def)
  have "(seed_names S ! i, [0..<?n] ! i) \<in> set (zip (seed_names S) [0..<?n])"
    using assms(2) by (auto simp: set_zip seed_names_def intro!: exI [of _ i])
  then have "(sd_name (registered_seeds S ! i), i) \<in> set (rev (zip (seed_names S) [0..<?n]))"
    using assms(2) by (simp add: seed_names_def)
  with d show ?thesis by (simp add: index_by_name_def map_of_eq_Some_iff)
qed

lemma index_by_name_Some:
  assumes "index_by_name S name = Some i"
  shows "i < length (registered_seeds S) \<and> sd_name (registered_seeds S ! i) = name"
  using map_of_SomeD [OF assms [unfolded index_by_name_def]] by (auto simp: in_set_zip seed_names_def)

lemma in_enumerated: "(i, x) \<in> set (zip [0..<length xs] xs) \<longleftrightarrow> i < length xs \<and> x = xs ! i"
  by (auto simp: set_zip intro!: exI [of _ i])

lemma in_map_filter: "y \<in> set (List.map_filter f xs) \<longleftrightarrow> (\<exists>x \<in> set xs. f x = Some y)"
  by (auto simp: List.map_filter_def image_iff)

lemma seed_edges_iff:
  "(d, i) \<in> set (seed_edges S) \<longleftrightarrow> i < length (registered_seeds S) \<and>
     (\<exists>name \<in> set (depends_on (registered_seeds S ! i)). index_by_name S name = Some d)"
proof
  assume "(d, i) \<in> set (seed_edges S)"
  then show "i < length (registered_seeds S) \<and>
     (\<exists>name \<in> set (depends_on (registered_seeds S ! i)). index_by_name S name = Some d)"
    by (auto simp: seed_edges_def in_enumerated in_map_filter)
next
  let ?xs = "registered_seeds S"
  assume "i < length ?xs \<and> (\<exists>name \<in> set (depends_on (?xs ! i)). index_by_name S name = Some d)"
  then have "(i, ?xs ! i) \<in> set (zip [0..<length ?xs] ?xs)"
    "(d, i) \<in> set (map (\<lambda>dependency. (dependency, i)) (List.map_filter (index_by_name S) (depends_on (?xs ! i))))"
    by (auto simp: in_enumerated in_map_filter)
  then show "(d, i) \<in> set (seed_edges S)"
    unfolding seed_edges_def set_concat set_map by (intro UN_I [where a = "_"] imageI) auto
qed

lemma seed_edges_within: "edges_within (length (registered_seeds S)) (seed_edges S)"
  unfolding edges_within_def list_all_iff by (auto simp: seed_edges_iff dest: index_by_name_Some)

lemma mset_map_nth: "distinct xs \<Longrightarrow> set xs = {..<length ys} \<Longrightarrow> mset (map ((!) ys) xs) = mset ys"
proof -
  assume "distinct xs" "set xs = {..<length ys}"
  then have "mset xs = mset [0..<length ys]"
    by (metis distinct_upt lessThan_atLeast0 set_eq_iff_mset_eq_distinct set_upt)
  then have "mset (map ((!) ys) xs) = mset (map ((!) ys) [0..<length ys])" by (metis mset_map)
  then show ?thesis by (simp add: map_nth)
qed

text \<open>The seeds run in an order of all of them in which every registered dependency comes first; when
  there is none, the error is that some of the seeds wait for one another.\<close>

theorem seeds_in_dependency_order:
  assumes "distinct (seed_names S)"
  shows "case sort_seeds_by_priority_and_deps S of
      Inr order \<Rightarrow> mset order = mset (registered_seeds S) \<and>
        (\<forall>j < length order. \<forall>d \<in> set (depends_on (order ! j)) \<inter> set (seed_names S). \<exists>i < j. sd_name (order ! i) = d)
    | Inl e \<Rightarrow> \<exists>waiting. waiting \<noteq> {} \<and> waiting \<subseteq> set (registered_seeds S) \<and>
        (\<forall>x \<in> waiting. \<exists>y \<in> waiting. sd_name y \<in> set (depends_on x))"
proof -
  let ?xs = "registered_seeds S" and ?key = "\<lambda>index. (priority (registered_seeds S ! index), index)"
  obtain order left_over where t: "topological_order (length ?xs) (seed_edges S) ?key = Some (order, left_over)"
    and parts: "distinct (order @ left_over)" "set (order @ left_over) = {..<length ?xs}"
    and g: "greedy (length ?xs) (seed_edges S) ?key order"
    and waits: "\<forall>n \<in> set left_over. \<exists>b \<in> set left_over. (b, n) \<in> set (seed_edges S)"
    using topological_order_correct [OF seed_edges_within, of S ?key] by blast
  show ?thesis
  proof (cases "left_over = []")
    case True
    then have sorted: "sort_seeds_by_priority_and_deps S = Inr (map ((!) ?xs) order)"
      using t by (simp add: sort_seeds_by_priority_and_deps_def Let_def)
    have "\<exists>i < j. sd_name (map ((!) ?xs) order ! i) = d"
      if j: "j < length order" and d: "d \<in> set (depends_on (?xs ! (order ! j)))" "d \<in> set (seed_names S)" for j d
    proof -
      have at: "order ! j < length ?xs" using j parts(2) by (auto simp: set_eq_iff dest: nth_mem)
      obtain k where k: "k < length ?xs" "d = sd_name (?xs ! k)" using d(2) by (auto simp: seed_names_def in_set_conv_nth)
      with index_by_name_distinct [OF assms k(1)] at d(1) have "(k, order ! j) \<in> set (seed_edges S)"
        by (auto simp: seed_edges_iff)
      from greedy_respects [OF g this j refl] obtain i where "i < j" "order ! i = k"
        using j by (auto simp: in_set_conv_nth)
      with k j show ?thesis by auto
    qed
    moreover have "mset (map ((!) ?xs) order) = mset ?xs" using parts True by (intro mset_map_nth) simp_all
    ultimately show ?thesis using sorted by auto
  next
    case False
    let ?w = "(\<lambda>i. ?xs ! i) ` set left_over"
    have "\<exists>y \<in> ?w. sd_name y \<in> set (depends_on x)" if x: "x \<in> ?w" for x
    proof -
      obtain n b where n: "x = ?xs ! n" "b \<in> set left_over" "(b, n) \<in> set (seed_edges S)" using waits x by blast
      from n(3) obtain name where "name \<in> set (depends_on (?xs ! n))" "index_by_name S name = Some b"
        unfolding seed_edges_iff by blast
      with index_by_name_Some [OF this(2)] n(1,2) show ?thesis by auto
    qed
    then have all: "\<forall>x \<in> ?w. \<exists>y \<in> ?w. sd_name y \<in> set (depends_on x)" by blast
    have "n < length ?xs" if "n \<in> set left_over" for n
      using parts(2) that by (metis UnI2 lessThan_iff set_append)
    then have "?w \<noteq> {}" "?w \<subseteq> set ?xs" using False by auto
    with all have "\<exists>waiting. waiting \<noteq> {} \<and> waiting \<subseteq> set ?xs \<and> (\<forall>x \<in> waiting. \<exists>y \<in> waiting. sd_name y \<in> set (depends_on x))"
      by (intro exI [of _ ?w] conjI)
    then show ?thesis using t False by (simp add: sort_seeds_by_priority_and_deps_def Let_def)
  qed
qed

text \<open>An instance, registered in the order it cannot run in.\<close>

definition late_seeder :: "nat Seeder" where
  "late_seeder = add_seed (plain_seed (lit ''roles'') [\<lambda>n. 10 * n])
     (add_seed ((plain_seed (lit ''users'') [\<lambda>n. n + 1])\<lparr>depends_on := [lit ''roles'']\<rparr>) Seeder_new)"

theorem seeds_in_dependency_order_witness:
  "\<exists>order. sort_seeds_by_priority_and_deps late_seeder = Inr order \<and> mset order = mset (registered_seeds late_seeder) \<and>
     (\<forall>j < length order. \<forall>d \<in> set (depends_on (order ! j)) \<inter> set (seed_names late_seeder). \<exists>i < j. sd_name (order ! i) = d)"
proof -
  have "\<not> isl (sort_seeds_by_priority_and_deps late_seeder)" by code_simp
  then obtain order where o: "sort_seeds_by_priority_and_deps late_seeder = Inr order" by (metis sum.collapse(2))
  have "distinct (seed_names late_seeder)" by code_simp
  from seeds_in_dependency_order [OF this] o show ?thesis by simp
qed

subsection \<open>A seed happens whole or not at all\<close>

definition seed_effect :: "bool \<Rightarrow> 'x Seed \<Rightarrow> 'x contents \<Rightarrow> 'x contents" where
  "seed_effect record x c =
     (if record then recorded seeds (sd_name x) [] else (\<lambda>c. c)) (on_objects (fold (\<lambda>f. f) (sd_run x)) c)"

definition unseed_effect :: "'x Seed \<Rightarrow> 'x contents \<Rightarrow> 'x contents" where
  "unseed_effect x c = removed seeds (sd_name x) (on_objects (fold (\<lambda>f. f) (sd_rollback x)) c)"

lemma closure_seed:
  "closure (db_engine B) (backend_of (db_type B)) (db_driver B) (seed_in_scope B statements err ls)"
  unfolding seed_in_scope_def
  by (intro closure_intros) (auto intro: closure_return simp: ended_def split: option.splits)

lemma seed_acks:
  assumes "seed_in_scope B statements err ls (p1, s1, []) = (Inr y, p2, s2, acks)"
  shows "fold (\<lambda>f. f) acks c = fold (\<lambda>f. f) ls (on_objects (fold (\<lambda>f. f) statements) c)"
proof -
  obtain p3 s3 acks3 u where "scope_execute_all (db_engine B) (backend_of (db_type B)) (db_driver B)
      (map on_objects statements) (p1, s1, []) = (Inr u, p3, s3, acks3)"
    and "scope_execute_all (db_engine B) (backend_of (db_type B)) (db_driver B) ls (p3, s3, acks3) = (Inr y, p2, s2, acks)"
    using assms by (auto simp: seed_in_scope_def and_then_Inr ended_def split: option.splits)
  then have "acks = map on_objects statements @ ls" by (metis append_Nil scope_execute_all_acks)
  then show ?thesis by (simp add: fold_on_objects)
qed

interpretation seeding: atomic_steps "apply_seed B rec" "\<lambda>s. pool_good B s" "pool_kept B" "seed_effect rec" for B rec
proof
  have acks: "fold (\<lambda>f. f) acks c = seed_effect rec m c"
    if "seed_in_scope B (sd_run m) (sd_run_error m) (if rec then [recorded seeds (sd_name m) []] else []) (p1, s1, []) =
      (Inr y, p2, s2, acks)" for m p1 s1 y p2 s2 acks and c :: "'b contents"
    using seed_acks [OF that, of c] by (simp add: seed_effect_def)
  show "pool_good B s' \<and> pool_kept B s' = seed_effect rec m (pool_kept B s)"
    if "pool_good B s" "apply_seed B rec m s = (Inr u, s')" for s m u s'
    by (rule transaction_done [OF that(1) closure_seed _ that(2) [unfolded apply_seed_def]]) (rule acks)
  show "pool_kept B s' = pool_kept B s \<or> pool_kept B s' = seed_effect rec m (pool_kept B s)"
    if "pool_good B s" "apply_seed B rec m s = (Inl e, s')" for s m e s'
    by (rule transaction_failed [OF that(1) closure_seed _ that(2) [unfolded apply_seed_def]]) (rule acks)
qed

interpretation unseeding: atomic_steps "revert_seed B" "\<lambda>s. pool_good B s" "pool_kept B" "unseed_effect" for B
proof
  have acks: "fold (\<lambda>f. f) acks c = unseed_effect m c"
    if "seed_in_scope B (sd_rollback m) (sd_rollback_error m) [removed seeds (sd_name m)] (p1, s1, []) =
      (Inr y, p2, s2, acks)" for m p1 s1 y p2 s2 acks and c :: "'b contents"
    using seed_acks [OF that, of c] by (simp add: unseed_effect_def)
  show "pool_good B s' \<and> pool_kept B s' = unseed_effect m (pool_kept B s)"
    if "pool_good B s" "revert_seed B m s = (Inr u, s')" for s m u s'
    by (rule transaction_done [OF that(1) closure_seed _ that(2) [unfolded revert_seed_def]]) (rule acks)
  show "pool_kept B s' = pool_kept B s \<or> pool_kept B s' = unseed_effect m (pool_kept B s)"
    if "pool_good B s" "revert_seed B m s = (Inl e, s')" for s m e s'
    by (rule transaction_failed [OF that(1) closure_seed _ that(2) [unfolded revert_seed_def]]) (rule acks)
qed

subsection \<open>Running the seeds\<close>

lemma created_present: "ledgers c (lg_table l) \<noteq> None \<Longrightarrow> created l c = c"
  by (auto simp: created_def rows_of_def fun_upd_idem)

lemma ensure_done:
  assumes "pool_good B s" and "ledger_ensure (db_engine B) (db_type B) (db_driver B) l s = (Inr u, s')"
  shows "pool_good B s' \<and> pool_kept B s' = created l (pool_kept B s)"
proof (cases "db_type B = MySQL \<or> db_type B = MariaDB")
  case False
  with assms pool_execute_done show ?thesis by (simp add: ledger_ensure_def)
next
  case True
  then obtain present s1 where f: "pool_fetch (db_engine B) (db_driver B) (\<lambda>c. ledgers c (lg_table l) \<noteq> None) s = (Inr present, s1)"
    and rest: "(if present then (Inr (), s1) else pool_execute (db_engine B) (db_driver B) (created l) s1) = (Inr u, s')"
    using assms(2) by (auto simp: ledger_ensure_def and_then_Inr)
  from pool_fetch_done [OF assms(1) f] have s1: "pool_good B s1" "pool_kept B s1 = pool_kept B s"
    "present = (ledgers (pool_kept B s) (lg_table l) \<noteq> None)" by simp_all
  show ?thesis
  proof (cases present)
    case True
    with rest s1 created_present show ?thesis by (metis prod.inject)
  next
    case False
    with rest have "pool_execute (db_engine B) (db_driver B) (created l) s1 = (Inr u, s')" by simp
    from pool_execute_done [OF s1(1) this] s1(2) show ?thesis by simp
  qed
qed

lemma ensure_failed:
  assumes "pool_good B s" and "ledger_ensure (db_engine B) (db_type B) (db_driver B) l s = (Inl e, s')"
  shows "pool_kept B s' \<in> {pool_kept B s, created l (pool_kept B s)}"
proof (cases "db_type B = MySQL \<or> db_type B = MariaDB")
  case False
  with assms(2) have "pool_execute (db_engine B) (db_driver B) (created l) s = (Inl e, s')" by (simp add: ledger_ensure_def)
  from pool_execute_failed [OF assms(1) this] show ?thesis by simp
next
  case True
  then consider "pool_fetch (db_engine B) (db_driver B) (\<lambda>c. ledgers c (lg_table l) \<noteq> None) s = (Inl e, s')"
    | present s1 where "pool_fetch (db_engine B) (db_driver B) (\<lambda>c. ledgers c (lg_table l) \<noteq> None) s = (Inr present, s1)"
      "pool_execute (db_engine B) (db_driver B) (created l) s1 = (Inl e, s')"
    using assms(2) by (auto simp: ledger_ensure_def and_then_Inl split: if_splits)
  then show ?thesis
  proof cases
    case 1
    from pool_fetch_failed [OF assms(1) this] show ?thesis by simp
  next
    case 2
    from pool_fetch_done [OF assms(1) 2(1)] have s1: "pool_good B s1" "pool_kept B s1 = pool_kept B s" by simp_all
    from pool_execute_failed [OF s1(1) 2(2)] s1(2) show ?thesis by simp
  qed
qed

definition pending_seeds :: "ustr list \<Rightarrow> 'x Seed list \<Rightarrow> 'x Seed list" where
  "pending_seeds names order = filter (\<lambda>x. sd_name x \<notin> set names) order"

text \<open>Every dependency of a seed has been recorded or comes earlier in the list.\<close>

fun dependencies_met :: "ustr set \<Rightarrow> 'x Seed list \<Rightarrow> bool" where
  "dependencies_met before [] \<longleftrightarrow> True"
| "dependencies_met before (x # xs) \<longleftrightarrow>
     set (depends_on x) \<subseteq> before \<and> dependencies_met (insert (sd_name x) before) xs"

lemma seed_loop_done:
  assumes "pool_good B s" and "seed_loop B names order r s = (Inr r', s')"
  shows "pool_good B s' \<and> pool_kept B s' = fold (seed_effect True) (pending_seeds names order) (pool_kept B s) \<and>
    executed r' = executed r @ map seed_info (pending_seeds names order) \<and>
    seeds_skipped r' = seeds_skipped r @ map seed_info (filter (\<lambda>x. sd_name x \<in> set names) order) \<and>
    dependencies_met (set names \<union> si_name ` set (executed r)) (pending_seeds names order)"
  using assms
proof (induction B names order r s rule: seed_loop.induct)
  case (2 B names x xs r s)
  show ?case
  proof (cases "sd_name x \<in> set names")
    case True
    with 2 show ?thesis by (simp add: pending_seeds_def)
  next
    case False
    with "2.prems"(2) obtain u s1 where deps: "find (\<lambda>d. d \<notin> set names \<and> d \<notin> si_name ` set (executed r)) (depends_on x) = None"
      and step: "apply_seed B True x s = (Inr u, s1)"
      and rest: "seed_loop B names xs (r\<lparr>executed := executed r @ [seed_info x]\<rparr>) s1 = (Inr r', s')"
      by (auto simp: and_then_Inr split: option.splits)
    from seeding.step_done [OF "2.prems"(1) step] have s1: "pool_good B s1" "pool_kept B s1 = seed_effect True x (pool_kept B s)"
      by simp_all
    have "set (depends_on x) \<subseteq> set names \<union> si_name ` set (executed r)" using deps by (auto simp: find_None_iff)
    with "2.IH"(2) [OF False deps s1(1) rest] s1(2) False show ?thesis
      by (simp add: pending_seeds_def seed_info_def insert_commute)
  qed
qed (simp add: pending_seeds_def)

lemma seed_loop_failed:
  assumes "pool_good B s" and "seed_loop B names order r s = (Inl e, s')"
  shows "\<exists>n. pool_kept B s' = fold (seed_effect True) (take n (pending_seeds names order)) (pool_kept B s)"
  using assms
proof (induction B names order r s rule: seed_loop.induct)
  case (2 B names x xs r s)
  have none: "\<exists>n. c = fold f (take n ys) c" for c :: "'b contents" and f and ys :: "'b Seed list"
    by (rule exI [of _ 0]) simp
  show ?case
  proof (cases "sd_name x \<in> set names")
    case True
    with 2 show ?thesis by (simp add: pending_seeds_def)
  next
    case new: False
    show ?thesis
    proof (cases "find (\<lambda>d. d \<notin> set names \<and> d \<notin> si_name ` set (executed r)) (depends_on x)")
      case (Some d)
      with "2.prems"(2) new none show ?thesis by simp
    next
      case None
      obtain res s1 where step: "apply_seed B True x s = (res, s1)" by fastforce
      show ?thesis
      proof (cases res)
        case (Inl e')
        with step "2.prems"(2) new None have "apply_seed B True x s = (Inl e', s')" by simp
        from seeding.step_failed [OF "2.prems"(1) this] consider "pool_kept B s' = pool_kept B s"
          | "pool_kept B s' = seed_effect True x (pool_kept B s)" by blast
        then show ?thesis
        proof cases
          case 2
          with new show ?thesis by (intro exI [of _ 1]) (simp add: pending_seeds_def)
        qed (use none in simp)
      next
        case (Inr u)
        with step have s1: "pool_good B s1" "pool_kept B s1 = seed_effect True x (pool_kept B s)"
          using seeding.step_done [OF "2.prems"(1)] by blast+
        from step Inr "2.prems"(2) new None have "seed_loop B names xs (r\<lparr>executed := executed r @ [seed_info x]\<rparr>) s1 = (Inl e, s')"
          by simp
        from "2.IH"(2) [OF new None s1(1) this] obtain n where
          "pool_kept B s' = fold (seed_effect True) (take n (pending_seeds names xs)) (pool_kept B s1)" by blast
        with s1(2) new show ?thesis by (intro exI [of _ "Suc n"]) (simp add: pending_seeds_def)
      qed
    qed
  qed
qed simp

lemma seed_ledger_opened:
  assumes "pool_good B s"
    and "and_then (open_ledger B s) (\<lambda>_ s1. and_then (seed_keys B s1) work) = (Inr x, s')"
  shows "\<exists>s2. pool_good B s2 \<and> pool_kept B s2 = created seeds (pool_kept B s) \<and>
    work (keys_of seeds (pool_kept B s)) s2 = (Inr x, s')"
proof -
  obtain u s1 ks s2 where "ledger_ensure (db_engine B) (db_type B) (db_driver B) seeds s = (Inr u, s1)"
    and keys: "pool_fetch (db_engine B) (db_driver B) (keys_of seeds) s1 = (Inr ks, s2)" and "work ks s2 = (Inr x, s')"
    using assms(2) by (auto simp: and_then_Inr open_ledger_def ledger_keys_def)
  with ensure_done [OF assms(1) this(1)] have s1: "pool_good B s1" "pool_kept B s1 = created seeds (pool_kept B s)" by simp_all
  from pool_fetch_done [OF s1(1) keys] s1(2) \<open>work ks s2 = (Inr x, s')\<close> show ?thesis by auto
qed

lemma seed_ledger_not_opened:
  assumes "pool_good B s"
    and run: "and_then (open_ledger B s) (\<lambda>_ s1. and_then (seed_keys B s1) work) = (Inl e, s')"
  shows "pool_kept B s' \<in> {pool_kept B s, created seeds (pool_kept B s)} \<or>
    (\<exists>s2. pool_good B s2 \<and> pool_kept B s2 = created seeds (pool_kept B s) \<and>
      work (keys_of seeds (pool_kept B s)) s2 = (Inl e, s'))"
proof (cases "open_ledger B s = (Inl e, s')")
  case True
  from ensure_failed [OF assms(1) this [unfolded open_ledger_def]] show ?thesis by blast
next
  case False
  with run obtain u s1 where o: "ledger_ensure (db_engine B) (db_type B) (db_driver B) seeds s = (Inr u, s1)"
    and rest: "and_then (seed_keys B s1) work = (Inl e, s')"
    by (auto simp: and_then_Inl open_ledger_def)
  from ensure_done [OF assms(1) o] have s1: "pool_good B s1" "pool_kept B s1 = created seeds (pool_kept B s)" by simp_all
  from rest consider "pool_fetch (db_engine B) (db_driver B) (keys_of seeds) s1 = (Inl e, s')"
    | ks s2 where "pool_fetch (db_engine B) (db_driver B) (keys_of seeds) s1 = (Inr ks, s2)" "work ks s2 = (Inl e, s')"
    by (auto simp: and_then_Inl ledger_keys_def)
  then show ?thesis
  proof cases
    case 1
    from pool_fetch_failed [OF s1(1) 1] s1(2) show ?thesis by simp
  next
    case 2
    from pool_fetch_done [OF s1(1) 2(1)] s1(2) 2(2) show ?thesis by auto
  qed
qed

lemma seeder_run_locked_done:
  assumes "pool_good B s" and "seeder_run_locked B S s = (Inr r, s')"
  shows "\<exists>order. sort_seeds_by_priority_and_deps S = Inr order \<and>
    pool_kept B s' = fold (seed_effect True) (pending_seeds (keys_of seeds (pool_kept B s)) order) (created seeds (pool_kept B s)) \<and>
    executed r = map seed_info (pending_seeds (keys_of seeds (pool_kept B s)) order) \<and>
    dependencies_met (set (keys_of seeds (pool_kept B s))) (pending_seeds (keys_of seeds (pool_kept B s)) order)"
proof -
  obtain s2 where s2: "pool_good B s2" "pool_kept B s2 = created seeds (pool_kept B s)"
    and run: "(case sort_seeds_by_priority_and_deps S of Inl e \<Rightarrow> (Inl e, s2)
       | Inr order \<Rightarrow> seed_loop B (keys_of seeds (pool_kept B s)) order empty_seed_result s2) = (Inr r, s')"
    using seed_ledger_opened [OF assms(1) assms(2) [unfolded seeder_run_locked_def]] by blast
  then obtain order where order: "sort_seeds_by_priority_and_deps S = Inr order"
    and loop: "seed_loop B (keys_of seeds (pool_kept B s)) order empty_seed_result s2 = (Inr r, s')"
    by (auto split: sum.splits)
  from seed_loop_done [OF s2(1) loop] s2(2) order show ?thesis by (simp add: empty_seed_result_def)
qed

lemma seeder_run_locked_failed:
  assumes "pool_good B s" and "seeder_run_locked B S s = (Inl e, s')"
  shows "pool_kept B s' \<in> {pool_kept B s, created seeds (pool_kept B s)} \<or>
    (\<exists>order n. sort_seeds_by_priority_and_deps S = Inr order \<and>
      pool_kept B s' = fold (seed_effect True) (take n (pending_seeds (keys_of seeds (pool_kept B s)) order))
        (created seeds (pool_kept B s)))"
proof -
  from seed_ledger_not_opened [OF assms(1) assms(2) [unfolded seeder_run_locked_def]]
  consider "pool_kept B s' \<in> {pool_kept B s, created seeds (pool_kept B s)}"
    | s2 where "pool_good B s2" "pool_kept B s2 = created seeds (pool_kept B s)"
      "(case sort_seeds_by_priority_and_deps S of Inl e \<Rightarrow> (Inl e, s2)
       | Inr order \<Rightarrow> seed_loop B (keys_of seeds (pool_kept B s)) order empty_seed_result s2) = (Inl e, s')" by blast
  then show ?thesis
  proof cases
    case s2: 2
    show ?thesis
    proof (cases "sort_seeds_by_priority_and_deps S")
      case (Inr order)
      with s2(3) have "seed_loop B (keys_of seeds (pool_kept B s)) order empty_seed_result s2 = (Inl e, s')" by simp
      from seed_loop_failed [OF s2(1) this] s2(2) Inr show ?thesis by auto
    qed (use s2 in simp)
  qed blast
qed

text \<open>C21. A run executes exactly the seeds the ledger does not record, in dependency order, each with its
  ledger entry and after everything it depends on; one that fails has executed a first part of
  them, each whole, on every backend.\<close>

theorem seeds_run_whole:
  assumes "pool_good B s" and "keys_of seeds (pool_kept B s) = names"
  shows "case seeder_run B S s of
      (Inr r, s') \<Rightarrow> \<exists>order. sort_seeds_by_priority_and_deps S = Inr order \<and>
        pool_kept B s' = fold (seed_effect True) (pending_seeds names order) (created seeds (pool_kept B s)) \<and>
        executed r = map seed_info (pending_seeds names order) \<and> dependencies_met (set names) (pending_seeds names order)
    | (Inl e, s') \<Rightarrow> pool_kept B s' \<in> {pool_kept B s, created seeds (pool_kept B s)} \<or>
        (\<exists>order n. sort_seeds_by_priority_and_deps S = Inr order \<and>
          pool_kept B s' = fold (seed_effect True) (take n (pending_seeds names order)) (created seeds (pool_kept B s)))"
proof -
  obtain res s' where run: "seeder_run B S s = (res, s')" by fastforce
  show ?thesis
  proof (cases res)
    case (Inr r)
    with run have "seeder_run_locked B S s = (Inr r, s')" by (auto simp: seeder_run_def dest: with_ledger_lock_Inr)
    from seeder_run_locked_done [OF assms(1) this] assms(2) run Inr show ?thesis by simp
  next
    case (Inl e)
    with run have "with_ledger_lock B SeedLock (seeder_run_locked B S) s = (Inl e, s')" by (simp add: seeder_run_def)
    from with_ledger_lock_Inl [OF this]
    consider "s' = s" | "seeder_run_locked B S s = (Inl e, s')" | x where "seeder_run_locked B S s = (Inr x, s')" by blast
    then show ?thesis
    proof cases
      case 2
      from seeder_run_locked_failed [OF assms(1) this] assms(2) run Inl show ?thesis by simp
    next
      case 3
      from seeder_run_locked_done [OF assms(1) this] obtain order where o: "sort_seeds_by_priority_and_deps S = Inr order"
        and k: "pool_kept B s' = fold (seed_effect True) (take (length (pending_seeds names order)) (pending_seeds names order))
          (created seeds (pool_kept B s))"
        using assms(2) by auto
      with run Inl show ?thesis by (simp del: take_all) blast
    qed (use run Inl in simp)
  qed
qed

lemma demo_good: "pool_good demo_database demo_session"
  using demo_wraps by (simp add: wraps_ddl_def)

theorem seeds_run_whole_witness:
  "case seeder_run demo_database late_seeder demo_session of
      (Inr r, s') \<Rightarrow> map si_name (executed r) = [lit ''roles'', lit ''users''] \<and> objects (pool_kept demo_database s') = 51
    | (Inl e, s') \<Rightarrow> False"
proof -
  have keys: "keys_of seeds (pool_kept demo_database demo_session) = []" by code_simp
  have "\<not> isl (fst (seeder_run demo_database late_seeder demo_session))" by code_simp
  then obtain r s' where r: "seeder_run demo_database late_seeder demo_session = (Inr r, s')"
    by (metis prod.collapse sum.collapse(2))
  have "case sort_seeds_by_priority_and_deps late_seeder of
      Inr order \<Rightarrow> map si_name (map seed_info (pending_seeds [] order)) = [lit ''roles'', lit ''users''] \<and>
        objects (fold (seed_effect True) (pending_seeds [] order) (created seeds (pool_kept demo_database demo_session))) = 51
    | Inl e \<Rightarrow> False" by code_simp
  with seeds_run_whole [OF demo_good keys, of late_seeder] r show ?thesis by auto
qed

end
