(* ===== verification/Decimal_Text.thy ===== *)
theory Decimal_Text
  imports Tide_Prelude Complex_Main
begin

text \<open>
  The exact comparison of decimal texts that numeric validation rules rest on:
  \<open>compare_decimal_text\<close> of \<open>src/src/validation.rs\<close>. A text is read as a sign, a mantissa and an
  exponent, leading zeros are dropped, and two numbers are compared by sign, by the power of ten
  they start at, and digit by digit. The specification is the comparison of the rational numbers
  the texts denote. Exponents are of type \<open>i128\<close>: every bound is written out.
\<close>

datatype Ordering = Less | Equal | Greater

definition cmp :: "'a :: linorder \<Rightarrow> 'a \<Rightarrow> Ordering" where
  "cmp x y = (if x < y then Less else if x = y then Equal else Greater)"

fun reverse_ordering :: "Ordering \<Rightarrow> Ordering" where
  "reverse_ordering Less = Greater"
| "reverse_ordering Equal = Equal"
| "reverse_ordering Greater = Less"

definition then_with :: "Ordering \<Rightarrow> Ordering \<Rightarrow> Ordering" where
  "then_with a b = (if a = Equal then b else a)"

definition i128_min :: int where "i128_min = - (2 ^ 127)"
definition i128_max :: int where "i128_max = 2 ^ 127 - 1"

definition fits_i128 :: "int \<Rightarrow> bool" where
  "fits_i128 n \<longleftrightarrow> i128_min \<le> n \<and> n \<le> i128_max"

definition checked_i128 :: "int \<Rightarrow> int option" where
  "checked_i128 n = (if fits_i128 n then Some n else None)"

text \<open>\<open>str::parse::<i128>\<close>: an optional sign, at least one digit, nothing else, no overflow.\<close>

definition parse_i128 :: "ustr \<Rightarrow> int option" where
  "parse_i128 s =
     (let (negative, ds) = (case s of
            [] \<Rightarrow> (False, [])
          | c # r \<Rightarrow> if c = ch_minus then (True, r) else if c = 43 then (False, r) else (False, s))
      in if ds \<noteq> [] \<and> list_all is_ascii_digit ds
         then checked_i128 (if negative then - int (digits_value 0 ds) else int (digits_value 0 ds))
         else None)"

text \<open>\<open>str::split\<close> on either letter of an exponent.\<close>

fun split_exponent :: "ustr \<Rightarrow> ustr list" where
  "split_exponent [] = [[]]"
| "split_exponent (c # s) =
     (if c = 101 \<or> c = 69 then [] # split_exponent s
      else (case split_exponent s of [] \<Rightarrow> [[c]] | p # ps \<Rightarrow> (c # p) # ps))"

text \<open>The loop over the mantissa: the digits, and how many of them follow the dot.\<close>

fun mantissa_loop :: "bool \<Rightarrow> ustr \<Rightarrow> (ustr \<times> nat) option" where
  "mantissa_loop dot [] = Some ([], 0)"
| "mantissa_loop dot (c # s) =
     (if c = ch_dot \<and> \<not> dot then mantissa_loop True s
      else if is_ascii_digit c
      then map_option (\<lambda>(ds, fractional). (c # ds, (if dot then Suc fractional else fractional))) (mantissa_loop dot s)
      else None)"

record number =
  num_negative :: bool
  num_digits :: ustr
  num_fractional :: nat
  num_exponent :: int

definition read_number :: "ustr \<Rightarrow> number option" where
  "read_number text =
     (let text = trim text;
          (negative, text) = (case text of
            [] \<Rightarrow> (False, [])
          | c # r \<Rightarrow> if c = ch_minus then (True, r) else if c = 43 then (False, r) else (False, text))
      in case split_exponent text of
           mantissa # rest \<Rightarrow>
             (case (case rest of [] \<Rightarrow> Some 0 | e # _ \<Rightarrow> parse_i128 e) of
                None \<Rightarrow> None
              | Some exponent \<Rightarrow>
                  if length rest > 1 then None
                  else (case mantissa_loop False mantissa of
                          None \<Rightarrow> None
                        | Some (ds, fractional) \<Rightarrow>
                            if ds = [] then None
                            else Some \<lparr>num_negative = negative, num_digits = ds,
                                       num_fractional = fractional, num_exponent = exponent\<rparr>))
         | [] \<Rightarrow> None)"

definition normalise :: "number \<Rightarrow> (bool \<times> ustr \<times> int) option" where
  "normalise n =
     (let ds = dropWhile (\<lambda>c. c = 48) (num_digits n)
      in if ds = [] then Some (False, [], 0)
         else Option.bind (checked_i128 (num_exponent n - int (num_fractional n)))
                (\<lambda>m. Option.bind (checked_i128 (m + int (length ds)))
                   (\<lambda>m. Some (num_negative n, ds, m))))"

definition decimal_parts :: "ustr \<Rightarrow> (bool \<times> ustr \<times> int) option" where
  "decimal_parts text = Option.bind (read_number text) normalise"

text \<open>Digits compared from the front, the shorter text continued with zeros.\<close>

fun compare_digits :: "ustr \<Rightarrow> ustr \<Rightarrow> Ordering" where
  "compare_digits [] [] = Equal"
| "compare_digits (a # as) [] = then_with (cmp a 48) (compare_digits as [])"
| "compare_digits [] (b # bs) = then_with (cmp 48 b) (compare_digits [] bs)"
| "compare_digits (a # as) (b # bs) = then_with (cmp a b) (compare_digits as bs)"

definition compare_parts :: "bool \<times> ustr \<times> int \<Rightarrow> bool \<times> ustr \<times> int \<Rightarrow> Ordering" where
  "compare_parts l r =
     (case (l, r) of ((ls, ld, lm), (rs, rd, rm)) \<Rightarrow>
        if ls \<noteq> rs then (if ls then Less else Greater)
        else let order =
               (if ld = [] then (if rd = [] then Equal else Less)
                else if rd = [] then Greater
                else then_with (cmp lm rm) (compare_digits ld rd))
             in if ls then reverse_ordering order else order)"

definition compare_decimal_text :: "ustr \<Rightarrow> ustr \<Rightarrow> Ordering option" where
  "compare_decimal_text left right =
     Option.bind (decimal_parts left) (\<lambda>l. Option.bind (decimal_parts right) (\<lambda>r. Some (compare_parts l r)))"

definition decimal_text_outside :: "ustr \<Rightarrow> ustr \<Rightarrow> bool \<Rightarrow> bool" where
  "decimal_text_outside v bound below =
     (case compare_decimal_text v bound of
        Some order \<Rightarrow> if below then order = Less else order = Greater
      | None \<Rightarrow> True)"

subsection \<open>What the texts denote\<close>

definition number_value :: "number \<Rightarrow> rat" where
  "number_value n =
     (if num_negative n then - 1 else 1) * of_nat (digits_value 0 (num_digits n)) *
     10 powi (num_exponent n - int (num_fractional n))"

text \<open>The intermediate exponents of a number that is not zero stay within \<open>i128\<close>.\<close>

definition in_range :: "number \<Rightarrow> bool" where
  "in_range n \<longleftrightarrow>
     (let ds = dropWhile (\<lambda>c. c = 48) (num_digits n); m = num_exponent n - int (num_fractional n)
      in ds = [] \<or> (fits_i128 m \<and> fits_i128 (m + int (length ds))))"

text \<open>The value of normalised parts: a fraction of one, scaled.\<close>

definition parts_value :: "bool \<times> ustr \<times> int \<Rightarrow> rat" where
  "parts_value p =
     (case p of (negative, ds, m) \<Rightarrow>
        (if negative then - 1 else 1) * of_nat (digits_value 0 ds) * 10 powi (m - int (length ds)))"


subsection \<open>Digits as fractions\<close>

definition digit :: "uchar \<Rightarrow> rat" where
  "digit c = of_nat (c - 48)"

lemma digit_zero [simp]: "digit 48 = 0"
  by (simp add: digit_def)

lemma digit_step: "48 \<le> a \<Longrightarrow> a < b \<Longrightarrow> digit a + 1 \<le> digit b"
  using of_nat_le_iff [of "Suc (a - 48)" "b - 48", where ?'a = rat]
  unfolding digit_def of_nat_Suc by linarith

lemma digit_ge: "is_ascii_digit c \<Longrightarrow> 48 \<le> c"
  by (simp add: is_ascii_digit_def)

lemma digit_bounds: "0 \<le> digit c" "is_ascii_digit c \<Longrightarrow> digit c \<le> 9"
  using of_nat_le_iff [of "c - 48" 9, where ?'a = rat]
  unfolding digit_def is_ascii_digit_def by auto

fun fraction :: "ustr \<Rightarrow> rat" where
  "fraction [] = 0"
| "fraction (c # s) = (digit c + fraction s) / 10"

lemma digits_value_acc: "digits_value acc s = acc * 10 ^ length s + digits_value 0 s"
proof (induction s arbitrary: acc)
  case (Cons c s)
  show ?case using Cons [of "10 * acc + (c - 48)"] Cons [of "c - 48"] by (simp add: algebra_simps)
qed simp

lemma fraction_value: "of_nat (digits_value 0 s) = fraction s * 10 ^ length s"
proof (induction s)
  case (Cons c s)
  have "of_nat (digits_value 0 (c # s)) = digit c * 10 ^ length s + of_nat (digits_value 0 s)"
    using digits_value_acc [of "c - 48" s] unfolding digit_def by (simp del: of_nat_diff)
  with Cons show ?case by (simp add: algebra_simps)
qed simp

lemma fraction_bounds: "list_all is_ascii_digit s \<Longrightarrow> 0 \<le> fraction s \<and> fraction s < 1"
proof (induction s)
  case (Cons c s)
  then show ?case using digit_bounds [of c] by (auto simp: field_simps)
qed simp

lemma fraction_lead:
  assumes "list_all is_ascii_digit (c # s)" "c \<noteq> 48"
  shows "1 / 10 \<le> fraction (c # s)"
  using digit_step [of 48 c] fraction_bounds [of s] assms by (simp add: is_ascii_digit_def field_simps)

lemma cmp_digit_fraction:
  assumes "0 \<le> x" "x < 1" "0 \<le> y" "y < 1" "48 \<le> a" "48 \<le> b"
  shows "cmp ((digit a + x) / 10) ((digit b + y) / 10) = then_with (cmp a b) (cmp x y)"
proof (cases a b rule: linorder_cases)
  case less
  with assms digit_step [of a b] show ?thesis by (simp add: cmp_def then_with_def)
next
  case equal
  then show ?thesis by (simp add: cmp_def then_with_def divide_less_cancel)
next
  case greater
  with assms digit_step [of b a] show ?thesis by (simp add: cmp_def then_with_def)
qed

lemma compare_digits_fraction:
  "list_all is_ascii_digit as \<Longrightarrow> list_all is_ascii_digit bs \<Longrightarrow>
   compare_digits as bs = cmp (fraction as) (fraction bs)"
proof (induction as bs rule: compare_digits.induct)
  case (2 a as)
  then have "48 \<le> a" "0 \<le> fraction as \<and> fraction as < 1"
    using fraction_bounds [of as] digit_ge by auto
  with 2 show ?case using cmp_digit_fraction [of "fraction as" 0 a 48] by simp
next
  case (3 b bs)
  then have "48 \<le> b" "0 \<le> fraction bs \<and> fraction bs < 1"
    using fraction_bounds [of bs] digit_ge by auto
  with 3 show ?case using cmp_digit_fraction [of 0 "fraction bs" 48 b] by simp
next
  case (4 a as b bs)
  then have "48 \<le> a" "48 \<le> b" "0 \<le> fraction as \<and> fraction as < 1" "0 \<le> fraction bs \<and> fraction bs < 1"
    using fraction_bounds [of as] fraction_bounds [of bs] digit_ge by auto
  with 4 show ?case using cmp_digit_fraction [of "fraction as" "fraction bs" a b] by simp
qed (simp add: cmp_def)

subsection \<open>Scaled fractions\<close>

text \<open>Parts as the normalisation leaves them: digits only, no leading zero, and zero unsigned.\<close>

definition normal :: "bool \<times> ustr \<times> int \<Rightarrow> bool" where
  "normal p \<longleftrightarrow>
     (case p of (s, ds, m) \<Rightarrow>
        if ds = [] then p = (False, [], 0) else list_all is_ascii_digit ds \<and> hd ds \<noteq> 48)"

lemma parts_value_fraction:
  "parts_value (s, ds, m) = (if s then - 1 else 1) * (fraction ds * 10 powi m)"
proof -
  have "10 powi m = (10 :: rat) powi (m - int (length ds)) * 10 ^ length ds"
    by (simp flip: power_int_of_nat power_int_add)
  then show ?thesis by (simp add: parts_value_def fraction_value)
qed

lemma cmp_scaled:
  assumes "list_all is_ascii_digit ld" "ld \<noteq> []" "hd ld \<noteq> 48"
    "list_all is_ascii_digit rd" "rd \<noteq> []" "hd rd \<noteq> 48"
  shows "cmp (fraction ld * 10 powi lm) (fraction rd * 10 powi rm) = then_with (cmp lm rm) (compare_digits ld rd)"
proof -
  have lead: "1 / 10 \<le> fraction ds" "fraction ds < 1"
    if "list_all is_ascii_digit ds" "ds \<noteq> []" "hd ds \<noteq> 48" for ds
    using that fraction_lead fraction_bounds [of ds] by (cases ds; auto)+
  have below: "fraction xs * 10 powi i < fraction ys * 10 powi j"
    if i: "i < j" and xs: "fraction xs < 1" and ys: "1 / 10 \<le> fraction ys" for xs ys i j
  proof -
    have "fraction xs * 10 powi i < 10 powi i" using xs by simp
    also have "10 powi i \<le> (10 :: rat) powi (j - 1)" using i by (intro power_int_increasing) auto
    also have "\<dots> = 1 / 10 * 10 powi j" by (simp add: power_int_diff)
    also have "\<dots> \<le> fraction ys * 10 powi j" using ys by (intro mult_right_mono) auto
    finally show ?thesis .
  qed
  show ?thesis
  proof (cases lm rm rule: linorder_cases)
    case less
    then show ?thesis using below [OF less lead(2) [OF assms(1-3)] lead(1) [OF assms(4-6)]] by (simp add: cmp_def then_with_def)
  next
    case equal
    then show ?thesis
      by (simp add: then_with_def compare_digits_fraction assms(1,4)) (simp add: cmp_def)
  next
    case greater
    then show ?thesis using below [OF greater lead(2) [OF assms(4-6)] lead(1) [OF assms(1-3)]] by (simp add: cmp_def then_with_def)
  qed
qed


lemma cmp_negate: "cmp (- x) (- y) = reverse_ordering (cmp x (y :: rat))"
  by (auto simp: cmp_def)

lemma fraction_pos: "list_all is_ascii_digit ds \<Longrightarrow> ds \<noteq> [] \<Longrightarrow> hd ds \<noteq> 48 \<Longrightarrow> 0 < fraction ds"
  using fraction_lead by (cases ds) fastforce+

lemma compare_parts_value:
  assumes "normal l" "normal r"
  shows "compare_parts l r = cmp (parts_value l) (parts_value r)"
proof -
  obtain ls ld lm rs rd rm where lr: "l = (ls, ld, lm)" "r = (rs, rd, rm)" by (metis prod_cases3)
  have nonneg: "0 \<le> fraction ds * 10 powi m" and pos: "ds \<noteq> [] \<Longrightarrow> 0 < fraction ds * 10 powi m"
    if "normal (s, ds, m)" for s ds m
    using that fraction_pos by (auto simp: normal_def split: if_splits intro: less_imp_le)
  note n = nonneg [OF assms(1) [unfolded lr]] nonneg [OF assms(2) [unfolded lr]]
    pos [OF assms(1) [unfolded lr]] pos [OF assms(2) [unfolded lr]]
  show ?thesis
  proof (cases "ls = rs")
    case False
    with assms n show ?thesis
      by (cases ls) (auto simp: lr normal_def compare_parts_def parts_value_fraction cmp_def split: if_splits)
  next
    case True
    have "(if ld = [] then (if rd = [] then Equal else Less) else if rd = [] then Greater
           else then_with (cmp lm rm) (compare_digits ld rd)) = cmp (fraction ld * 10 powi lm) (fraction rd * 10 powi rm)"
      using assms n cmp_scaled [of ld rd lm rm] by (auto simp: lr normal_def cmp_def split: if_splits)
    with True show ?thesis
      by (simp add: lr compare_parts_def parts_value_fraction cmp_negate)
  qed
qed

subsection \<open>Reading and normalising\<close>

lemma mantissa_digits: "mantissa_loop dot s = Some (ds, f) \<Longrightarrow> list_all is_ascii_digit ds"
  by (induction dot s arbitrary: ds f rule: mantissa_loop.induct) (auto split: if_splits)

lemma read_number_digits: "read_number s = Some n \<Longrightarrow> list_all is_ascii_digit (num_digits n)"
  by (auto simp: read_number_def Let_def dest!: mantissa_digits split: list.splits option.splits if_splits)

lemma drop_zeros_value: "digits_value 0 (dropWhile (\<lambda>c. c = 48) ds) = digits_value 0 ds"
  by (induction ds) auto

lemma normalise_None: "normalise n = None \<longleftrightarrow> \<not> in_range n"
  by (auto simp: normalise_def in_range_def checked_i128_def Let_def)

lemma normalise_value:
  assumes "list_all is_ascii_digit (num_digits n)" "normalise n = Some p"
  shows "normal p \<and> parts_value p = number_value n"
proof (cases "dropWhile (\<lambda>c. c = 48) (num_digits n) = []")
  case True
  then have "digits_value 0 (num_digits n) = 0" by (subst drop_zeros_value [symmetric]) (simp only: digits_value.simps)
  with True assms(2) show ?thesis
    by (auto simp: normalise_def normal_def parts_value_def number_value_def)
next
  case False
  let ?ds = "dropWhile (\<lambda>c. c = 48) (num_digits n)"
  have p: "p = (num_negative n, ?ds, num_exponent n - int (num_fractional n) + int (length ?ds))"
    using False assms(2) by (auto simp: normalise_def checked_i128_def Let_def split: if_splits)
  moreover have "list_all is_ascii_digit ?ds"
    using assms(1) by (auto simp: list_all_iff dest: set_dropWhileD)
  ultimately show ?thesis
    using False hd_dropWhile [OF False] by (auto simp: normal_def parts_value_def number_value_def drop_zeros_value)
qed

lemma compare_decimal_value:
  "compare_decimal_text l r =
     (case (read_number l, read_number r) of
        (Some m, Some n) \<Rightarrow>
          if in_range m \<and> in_range n then Some (cmp (number_value m) (number_value n)) else None
      | _ \<Rightarrow> None)"
proof -
  have "Option.bind (normalise m) (\<lambda>p. Option.bind (normalise n) (\<lambda>q. Some (compare_parts p q))) =
      (if in_range m \<and> in_range n then Some (cmp (number_value m) (number_value n)) else None)"
    if "read_number l = Some m" "read_number r = Some n" for m n
    using that [THEN read_number_digits] normalise_value compare_parts_value
    by (cases "normalise m"; cases "normalise n") (auto simp: normalise_None [symmetric])
  then show ?thesis
    by (auto simp: compare_decimal_text_def decimal_parts_def split: option.split)
qed

text \<open>C22. Decimal texts are compared as the numbers they denote. For every two texts the comparison
  is that of the rational numbers read from them, whatever their spelling: leading and trailing
  zeros, a sign on zero, a dot, an exponent of any size within \<open>i128\<close>. A text that is not a
  number, or whose exponents leave \<open>i128\<close>, compares to nothing, and then lies outside every
  bound.\<close>

theorem compare_decimal_text_exact:
  "compare_decimal_text l r =
     (case (read_number l, read_number r) of
        (Some m, Some n) \<Rightarrow>
          if in_range m \<and> in_range n then Some (cmp (number_value m) (number_value n)) else None
      | _ \<Rightarrow> None) \<and>
   decimal_text_outside l r below =
     (case compare_decimal_text l r of
        None \<Rightarrow> True
      | Some order \<Rightarrow> order = (if below then Less else Greater))"
  by (intro conjI compare_decimal_value) (simp add: decimal_text_outside_def split: option.split)

end
