(* ===== verification/Validation_Rules.thy ===== *)
theory Validation_Rules
  imports Decimal_Text Errors
begin

text \<open>
  Model validation: \<open>src/src/validation.rs\<close>, \<open>src/src/validation/values.rs\<close> and
  \<open>src/src/validation/builder.rs\<close>. The collection of failures, the rules with their messages, the
  exact numeric bounds, the views of the value types, and the rule builder.

  A 64-bit float is a rational number, an infinity or NaN. Conversions between floats and texts,
  rounding to a narrower float, regular expressions, URL and UUID parsing and the decimal type
  belong to other code and are the parameter \<open>support\<close>. The process-wide cache of compiled
  patterns is invisible, which is shown below.
\<close>

subsection \<open>Floats\<close>

datatype f64 = NaN | PosInf | NegInf | Finite rat

fun f64_less :: "f64 \<Rightarrow> f64 \<Rightarrow> bool" where
  "f64_less NaN y = False"
| "f64_less x NaN = False"
| "f64_less PosInf y = False"
| "f64_less x NegInf = False"
| "f64_less NegInf y = True"
| "f64_less x PosInf = True"
| "f64_less (Finite a) (Finite b) = (a < b)"

definition f64_le :: "f64 \<Rightarrow> f64 \<Rightarrow> bool" where
  "f64_le x y \<longleftrightarrow> f64_less x y \<or> (x = y \<and> x \<noteq> NaN)"

definition saturate :: "int \<Rightarrow> int" where
  "saturate n = max i128_min (min i128_max n)"

text \<open>\<open>f64::ceil\<close> and \<open>f64::floor\<close> followed by the saturating cast to \<open>i128\<close>.\<close>

fun ceil_as_i128 :: "f64 \<Rightarrow> int" where
  "ceil_as_i128 NaN = 0"
| "ceil_as_i128 PosInf = i128_max"
| "ceil_as_i128 NegInf = i128_min"
| "ceil_as_i128 (Finite a) = saturate \<lceil>a\<rceil>"

fun floor_as_i128 :: "f64 \<Rightarrow> int" where
  "floor_as_i128 NaN = 0"
| "floor_as_i128 PosInf = i128_max"
| "floor_as_i128 NegInf = i128_min"
| "floor_as_i128 (Finite a) = saturate \<lfloor>a\<rfloor>"

text \<open>\<open>i128::MAX as f64\<close> rounds up to a power of two.\<close>

definition i128_max_f64 :: f64 where "i128_max_f64 = Finite (2 ^ 127)"
definition i128_min_f64 :: f64 where "i128_min_f64 = Finite (- (2 ^ 127))"

record support =
  parse_f64 :: "ustr \<Rightarrow> f64 option"
  f64_to_string :: "f64 \<Rightarrow> ustr"
  int_as_f64 :: "int \<Rightarrow> f64"
  regex_new :: "ustr \<Rightarrow> (ustr \<Rightarrow> bool) option"
  email_regex :: "ustr \<Rightarrow> bool"
  url_parse :: "ustr \<Rightarrow> (ustr \<times> bool) option"
  uuid_parses :: "ustr \<Rightarrow> bool"

subsection \<open>Validation errors\<close>

record ValidationErrors =
  ve_errors :: "(ustr \<times> ustr list) list"
  ve_order :: "ustr list"

definition ValidationErrors_new :: ValidationErrors where
  "ValidationErrors_new = \<lparr>ve_errors = [], ve_order = []\<rparr>"

definition field_errors :: "ustr \<Rightarrow> ValidationErrors \<Rightarrow> ustr list" where
  "field_errors field v = (case map_of (ve_errors v) field of Some ms \<Rightarrow> ms | None \<Rightarrow> [])"

definition ve_add :: "ustr \<Rightarrow> ustr \<Rightarrow> ValidationErrors \<Rightarrow> ValidationErrors" where
  "ve_add field message v =
     \<lparr>ve_errors = AList.update field (field_errors field v @ [message]) (ve_errors v),
      ve_order = (if map_of (ve_errors v) field = None then ve_order v @ [field] else ve_order v)\<rparr>"

definition ve_is_empty :: "ValidationErrors \<Rightarrow> bool" where
  "ve_is_empty v \<longleftrightarrow> ve_errors v = []"

definition ve_len :: "ValidationErrors \<Rightarrow> nat" where
  "ve_len v = length (ve_errors v)"

definition ve_iter :: "ValidationErrors \<Rightarrow> (ustr \<times> ustr list) list" where
  "ve_iter v = List.map_filter (\<lambda>f. map_option (Pair f) (map_of (ve_errors v) f)) (ve_order v)"

definition ve_first :: "ValidationErrors \<Rightarrow> (ustr \<times> ustr) option" where
  "ve_first v =
     (case ve_iter v of
        [] \<Rightarrow> None
      | (f, ms) # _ \<Rightarrow> (case ms of [] \<Rightarrow> None | m # _ \<Rightarrow> Some (f, m)))"

definition ve_messages :: "ValidationErrors \<Rightarrow> ustr list" where
  "ve_messages v = concat (map (\<lambda>(f, ms). map (\<lambda>m. f @ lit '': '' @ m) ms) (ve_iter v))"

definition ve_pairs :: "ValidationErrors \<Rightarrow> (ustr \<times> ustr) list" where
  "ve_pairs v = concat (map (\<lambda>(f, ms). map (Pair f) ms) (ve_iter v))"

text \<open>\<open>merge\<close> takes the other collection's fields in their order, removing each from its map.\<close>

fun merge_fields :: "ustr list \<Rightarrow> (ustr \<times> ustr list) list \<Rightarrow> ValidationErrors \<Rightarrow> ValidationErrors" where
  "merge_fields [] es v = v"
| "merge_fields (f # fs) es v =
     merge_fields fs (AList.delete f es)
       (fold (ve_add f) (case map_of es f of Some ms \<Rightarrow> ms | None \<Rightarrow> []) v)"

definition ve_merge :: "ValidationErrors \<Rightarrow> ValidationErrors \<Rightarrow> ValidationErrors" where
  "ve_merge v other = merge_fields (ve_order other) (ve_errors other) v"

definition to_result :: "ValidationErrors \<Rightarrow> ValidationErrors + unit" where
  "to_result v = (if ve_is_empty v then Inr () else Inl v)"

definition display_errors :: "ValidationErrors \<Rightarrow> ustr" where
  "display_errors v = join (lit ''; '') (ve_messages v)"

definition error_of_validation :: "ValidationErrors \<Rightarrow> Error" where
  "error_of_validation v =
     (case ve_first v of
        Some (f, m) \<Rightarrow> Validation f m
      | None \<Rightarrow> Validation (lit ''unknown'') (lit ''Validation failed''))"

subsection \<open>Rules\<close>

datatype ValidationRule =
    Required | Email | Url | MinLength nat | MaxLength nat | Length nat
  | Min f64 | MinExact ustr | Max f64 | MaxExact ustr | Range f64 f64 | RangeExact ustr ustr
  | Regex ustr | Alpha | Alphanumeric | Numeric | Uuid | In "ustr list" | NotIn "ustr list"

definition the_field :: "ustr \<Rightarrow> ustr \<Rightarrow> ustr" where
  "the_field field rest = lit ''The '' @ field @ rest"

fun rule_message :: "support \<Rightarrow> ustr \<Rightarrow> ValidationRule \<Rightarrow> ustr" where
  "rule_message S f Required = the_field f (lit '' field is required'')"
| "rule_message S f Email = the_field f (lit '' must be a valid email address'')"
| "rule_message S f Url = the_field f (lit '' must be a valid URL'')"
| "rule_message S f (MinLength n) = the_field f (lit '' must be at least '' @ show_nat n @ lit '' characters'')"
| "rule_message S f (MaxLength n) = the_field f (lit '' must not exceed '' @ show_nat n @ lit '' characters'')"
| "rule_message S f (Length n) = the_field f (lit '' must be exactly '' @ show_nat n @ lit '' characters'')"
| "rule_message S f (MinExact v) = the_field f (lit '' must be at least '' @ v)"
| "rule_message S f (MaxExact v) = the_field f (lit '' must not exceed '' @ v)"
| "rule_message S f (RangeExact a b) = the_field f (lit '' must be between '' @ a @ lit '' and '' @ b)"
| "rule_message S f (Min v) = the_field f (lit '' must be at least '' @ f64_to_string S v)"
| "rule_message S f (Max v) = the_field f (lit '' must not exceed '' @ f64_to_string S v)"
| "rule_message S f (Range a b) =
     the_field f (lit '' must be between '' @ f64_to_string S a @ lit '' and '' @ f64_to_string S b)"
| "rule_message S f (Regex p) = the_field f (lit '' format is invalid (must match: '' @ p @ lit '')'')"
| "rule_message S f Alpha = the_field f (lit '' must only contain letters'')"
| "rule_message S f Alphanumeric = the_field f (lit '' must only contain letters and numbers'')"
| "rule_message S f Numeric = the_field f (lit '' must be a number'')"
| "rule_message S f Uuid = the_field f (lit '' must be a valid UUID'')"
| "rule_message S f (In vs) = the_field f (lit '' must be one of: '' @ join (lit '', '') vs)"
| "rule_message S f (NotIn vs) = the_field f (lit '' must not be one of: '' @ join (lit '', '') vs)"

text \<open>What a value shows the rules; the decimal view is the decimal's text.\<close>

record value_view =
  is_empty_value :: bool
  as_str_value :: "ustr option"
  as_f64_value :: "f64 option"
  as_i128_value :: "int option"
  as_decimal_value :: "ustr option"
  numeric_bound :: "f64 \<Rightarrow> f64"

definition below_bound :: "support \<Rightarrow> value_view \<Rightarrow> f64 \<Rightarrow> bool option" where
  "below_bound S v bound =
     (case as_i128_value v of
        Some n \<Rightarrow>
          Some (if f64_less i128_max_f64 bound then True
                else if f64_le bound i128_min_f64 then False
                else n < ceil_as_i128 bound)
      | None \<Rightarrow>
          (case as_decimal_value v of
             Some d \<Rightarrow> Some (decimal_text_outside d (f64_to_string S bound) True)
           | None \<Rightarrow> map_option (\<lambda>x. x = NaN \<or> f64_less x (numeric_bound v bound)) (as_f64_value v)))"

definition above_bound :: "support \<Rightarrow> value_view \<Rightarrow> f64 \<Rightarrow> bool option" where
  "above_bound S v bound =
     (case as_i128_value v of
        Some n \<Rightarrow>
          Some (if f64_le i128_max_f64 bound then False
                else if f64_less bound i128_min_f64 then True
                else floor_as_i128 bound < n)
      | None \<Rightarrow>
          (case as_decimal_value v of
             Some d \<Rightarrow> Some (decimal_text_outside d (f64_to_string S bound) False)
           | None \<Rightarrow> map_option (\<lambda>x. x = NaN \<or> f64_less (numeric_bound v bound) x) (as_f64_value v)))"

definition show_i128 :: "int \<Rightarrow> ustr" where
  "show_i128 n = (if n < 0 then ch_minus # show_nat (nat (- n)) else show_nat (nat n))"

definition outside_exact :: "support \<Rightarrow> value_view \<Rightarrow> ustr \<Rightarrow> bool \<Rightarrow> bool" where
  "outside_exact S v text below =
     (case as_i128_value v of
        Some n \<Rightarrow>
          (case parse_i128 text of
             Some bound \<Rightarrow> if below then n < bound else bound < n
           | None \<Rightarrow> decimal_text_outside (show_i128 n) text below)
      | None \<Rightarrow>
          (case as_decimal_value v of
             Some d \<Rightarrow> decimal_text_outside d text below
           | None \<Rightarrow>
               (case parse_f64 S text of
                  None \<Rightarrow> True
                | Some bound \<Rightarrow> (if below then below_bound S v bound else above_bound S v bound) = Some True)))"

definition is_valid_url :: "support \<Rightarrow> ustr \<Rightarrow> bool" where
  "is_valid_url S s =
     (case url_parse S s of
        Some (scheme, has_host) \<Rightarrow> scheme \<in> {lit ''http'', lit ''https''} \<and> has_host
      | None \<Rightarrow> False)"

definition is_finite :: "f64 \<Rightarrow> bool" where
  "is_finite x = (case x of Finite _ \<Rightarrow> True | _ \<Rightarrow> False)"

definition text_fails :: "value_view \<Rightarrow> (ustr \<Rightarrow> bool) \<Rightarrow> bool" where
  "text_fails v fails = (case as_str_value v of Some s \<Rightarrow> fails s | None \<Rightarrow> False)"

fun rule_fails :: "unicode \<Rightarrow> support \<Rightarrow> value_view \<Rightarrow> ValidationRule \<Rightarrow> bool" where
  "rule_fails U S v Required = is_empty_value v"
| "rule_fails U S v Email = text_fails v (\<lambda>s. \<not> email_regex S s)"
| "rule_fails U S v Url = text_fails v (\<lambda>s. \<not> is_valid_url S s)"
| "rule_fails U S v (MinLength n) = text_fails v (\<lambda>s. length s < n)"
| "rule_fails U S v (MaxLength n) = text_fails v (\<lambda>s. n < length s)"
| "rule_fails U S v (Length n) = text_fails v (\<lambda>s. length s \<noteq> n)"
| "rule_fails U S v (MinExact b) = outside_exact S v b True"
| "rule_fails U S v (MaxExact b) = outside_exact S v b False"
| "rule_fails U S v (RangeExact a b) = (outside_exact S v a True \<or> outside_exact S v b False)"
| "rule_fails U S v (Min b) = (below_bound S v b = Some True)"
| "rule_fails U S v (Max b) = (above_bound S v b = Some True)"
| "rule_fails U S v (Range a b) = (below_bound S v a = Some True \<or> above_bound S v b = Some True)"
| "rule_fails U S v (Regex p) =
     (case regex_new S p of None \<Rightarrow> True | Some re \<Rightarrow> text_fails v (\<lambda>s. \<not> re s))"
| "rule_fails U S v Alpha = text_fails v (\<lambda>s. \<not> list_all (is_alphabetic U) s)"
| "rule_fails U S v Alphanumeric = text_fails v (\<lambda>s. \<not> list_all (is_alphanumeric U) s)"
| "rule_fails U S v Numeric =
     text_fails v (\<lambda>s. \<not> (case parse_f64 S s of Some x \<Rightarrow> is_finite x | None \<Rightarrow> False))"
| "rule_fails U S v Uuid = text_fails v (\<lambda>s. \<not> uuid_parses S s)"
| "rule_fails U S v (In vs) = text_fails v (\<lambda>s. s \<notin> set vs)"
| "rule_fails U S v (NotIn vs) = text_fails v (\<lambda>s. s \<in> set vs)"

definition validate_rule :: "unicode \<Rightarrow> support \<Rightarrow> value_view \<Rightarrow> ValidationRule \<Rightarrow> ustr \<Rightarrow> ustr option" where
  "validate_rule U S v rule field =
     (if rule_fails U S v rule
      then Some (case rule of
             Regex p \<Rightarrow>
               if regex_new S p = None
               then the_field field (lit '' validation pattern `'' @ p @ lit ''` is not a valid regular expression'')
               else rule_message S field rule
           | _ \<Rightarrow> rule_message S field rule)
      else None)"

definition rule_validate :: "unicode \<Rightarrow> support \<Rightarrow> ValidationRule \<Rightarrow> value_view \<Rightarrow> ustr + unit" where
  "rule_validate U S rule v =
     (case validate_rule U S v rule (lit ''field'') of Some e \<Rightarrow> Inl e | None \<Rightarrow> Inr ())"

definition ve_check ::
    "unicode \<Rightarrow> support \<Rightarrow> ustr \<Rightarrow> value_view \<Rightarrow> ValidationRule list \<Rightarrow> ValidationErrors \<Rightarrow> ValidationErrors" where
  "ve_check U S field v rules errs =
     fold (\<lambda>rule errs.
         case validate_rule U S v rule field of Some m \<Rightarrow> ve_add field m errs | None \<Rightarrow> errs)
       rules errs"


subsection \<open>The views of the value types\<close>

definition plain_view :: value_view where
  "plain_view = \<lparr>is_empty_value = False, as_str_value = None, as_f64_value = None, as_i128_value = None,
     as_decimal_value = None, numeric_bound = id\<rparr>"

definition view_of_string :: "support \<Rightarrow> ustr \<Rightarrow> value_view" where
  "view_of_string S s = plain_view\<lparr>is_empty_value := (trim s = []), as_str_value := Some s,
     as_f64_value := parse_f64 S s, as_i128_value := parse_i128 s\<rparr>"

definition view_of_option :: "value_view option \<Rightarrow> value_view" where
  "view_of_option x =
     \<lparr>is_empty_value = (case x of Some v \<Rightarrow> is_empty_value v | None \<Rightarrow> True),
      as_str_value = Option.bind x as_str_value,
      as_f64_value = Option.bind x as_f64_value,
      as_i128_value = Option.bind x as_i128_value,
      as_decimal_value = Option.bind x as_decimal_value,
      numeric_bound = (case x of Some v \<Rightarrow> numeric_bound v | None \<Rightarrow> id)\<rparr>"

text \<open>A float of a type whose rounding is \<open>narrow\<close>: the identity for \<open>f64\<close>.\<close>

definition view_of_float :: "(f64 \<Rightarrow> f64) \<Rightarrow> f64 \<Rightarrow> value_view" where
  "view_of_float narrow x = plain_view\<lparr>as_f64_value := Some x, numeric_bound := narrow\<rparr>"

text \<open>An integer of any width up to 128 bits; an unsigned one may not fit \<open>i128\<close>.\<close>

definition view_of_integer :: "support \<Rightarrow> int \<Rightarrow> value_view" where
  "view_of_integer S n = plain_view\<lparr>as_f64_value := Some (int_as_f64 S n), as_i128_value := checked_i128 n\<rparr>"

text \<open>A decimal, given by its text, its float and, when it has no fraction, its integer.\<close>

definition view_of_decimal :: "ustr \<Rightarrow> f64 option \<Rightarrow> int option \<Rightarrow> value_view" where
  "view_of_decimal text as_float whole =
     plain_view\<lparr>as_f64_value := as_float, as_i128_value := whole, as_decimal_value := Some text\<rparr>"

datatype Json = JNull | JBool bool | JNumber "f64 option" "int option" | JString ustr | JArray "Json list"
  | JObject "(ustr \<times> Json) list"

definition view_of_json :: "Json \<Rightarrow> value_view" where
  "view_of_json j = plain_view\<lparr>
     is_empty_value := (case j of JNull \<Rightarrow> True | JString s \<Rightarrow> trim s = [] | JArray xs \<Rightarrow> xs = []
       | JObject ms \<Rightarrow> ms = [] | _ \<Rightarrow> False),
     as_str_value := (case j of JString s \<Rightarrow> Some s | _ \<Rightarrow> None),
     as_f64_value := (case j of JNumber f n \<Rightarrow> f | _ \<Rightarrow> None),
     as_i128_value := (case j of JNumber f n \<Rightarrow> n | _ \<Rightarrow> None)\<rparr>"

definition view_of_vec :: "'a list \<Rightarrow> value_view" where
  "view_of_vec xs = plain_view\<lparr>is_empty_value := (xs = [])\<rparr>"

text \<open>Booleans, characters, UUIDs, dates and times: present, and nothing else.\<close>

definition view_of_presence :: value_view where
  "view_of_presence = plain_view"

subsection \<open>The compiled patterns and the builder\<close>

definition compiled_validation_regex ::
    "support \<Rightarrow> ustr \<Rightarrow> (ustr \<times> (ustr \<Rightarrow> bool) option) list
      \<Rightarrow> (ustr \<Rightarrow> bool) option \<times> (ustr \<times> (ustr \<Rightarrow> bool) option) list" where
  "compiled_validation_regex S pattern cached =
     (case map_of cached pattern of
        Some compiled \<Rightarrow> (compiled, cached)
      | None \<Rightarrow> (regex_new S pattern, (pattern, regex_new S pattern) # cached))"

record ValidationBuilder =
  vb_field :: ustr
  vb_rules :: "ValidationRule list"

definition builder_new :: "ustr \<Rightarrow> ValidationBuilder" where
  "builder_new f = \<lparr>vb_field = f, vb_rules = []\<rparr>"

text \<open>Every method of the builder pushes one rule.\<close>

definition builder_push :: "ValidationRule \<Rightarrow> ValidationBuilder \<Rightarrow> ValidationBuilder" where
  "builder_push r b = b\<lparr>vb_rules := vb_rules b @ [r]\<rparr>"

definition builder_required :: "ValidationBuilder \<Rightarrow> ValidationBuilder" where
  "builder_required = builder_push Required"

definition builder_email :: "ValidationBuilder \<Rightarrow> ValidationBuilder" where
  "builder_email = builder_push Email"

definition builder_url :: "ValidationBuilder \<Rightarrow> ValidationBuilder" where
  "builder_url = builder_push Url"

definition builder_min_length :: "nat \<Rightarrow> ValidationBuilder \<Rightarrow> ValidationBuilder" where
  "builder_min_length n = builder_push (MinLength n)"

definition builder_max_length :: "nat \<Rightarrow> ValidationBuilder \<Rightarrow> ValidationBuilder" where
  "builder_max_length n = builder_push (MaxLength n)"

definition builder_length :: "nat \<Rightarrow> ValidationBuilder \<Rightarrow> ValidationBuilder" where
  "builder_length n = builder_push (Length n)"

definition builder_min :: "f64 \<Rightarrow> ValidationBuilder \<Rightarrow> ValidationBuilder" where
  "builder_min x = builder_push (Min x)"

definition builder_max :: "f64 \<Rightarrow> ValidationBuilder \<Rightarrow> ValidationBuilder" where
  "builder_max x = builder_push (Max x)"

definition builder_range :: "f64 \<Rightarrow> f64 \<Rightarrow> ValidationBuilder \<Rightarrow> ValidationBuilder" where
  "builder_range x y = builder_push (Range x y)"

definition builder_regex :: "ustr \<Rightarrow> ValidationBuilder \<Rightarrow> ValidationBuilder" where
  "builder_regex s = builder_push (Regex s)"

definition builder_alpha :: "ValidationBuilder \<Rightarrow> ValidationBuilder" where
  "builder_alpha = builder_push Alpha"

definition builder_alphanumeric :: "ValidationBuilder \<Rightarrow> ValidationBuilder" where
  "builder_alphanumeric = builder_push Alphanumeric"

definition builder_numeric :: "ValidationBuilder \<Rightarrow> ValidationBuilder" where
  "builder_numeric = builder_push Numeric"

definition builder_uuid :: "ValidationBuilder \<Rightarrow> ValidationBuilder" where
  "builder_uuid = builder_push Uuid"

definition builder_in_list :: "(ustr list) \<Rightarrow> ValidationBuilder \<Rightarrow> ValidationBuilder" where
  "builder_in_list vs = builder_push (In vs)"

definition builder_not_in :: "(ustr list) \<Rightarrow> ValidationBuilder \<Rightarrow> ValidationBuilder" where
  "builder_not_in vs = builder_push (NotIn vs)"

definition builder_build :: "ValidationBuilder \<Rightarrow> ustr \<times> ValidationRule list" where
  "builder_build b = (vb_field b, vb_rules b)"

lemma compiled_regex_exact:
  "list_all (\<lambda>(p, c). c = regex_new S p) cached \<Longrightarrow>
   fst (compiled_validation_regex S pattern cached) = regex_new S pattern \<and>
   list_all (\<lambda>(p, c). c = regex_new S p) (snd (compiled_validation_regex S pattern cached))"
  by (auto simp: compiled_validation_regex_def list_all_iff dest!: map_of_SomeD split: option.split)

subsection \<open>Integer bounds are exact\<close>

lemma saturate_fits: "fits_i128 n \<Longrightarrow> saturate n = n"
  by (simp add: saturate_def fits_i128_def)

lemma ceil_less: "n < \<lceil>a\<rceil> \<longleftrightarrow> rat_of_int n < a"
  by (simp add: less_ceiling_iff)

lemma floor_less: "\<lfloor>a\<rfloor> < n \<longleftrightarrow> a < rat_of_int n"
  by (simp add: floor_less_iff)

text \<open>C34. Integers meet float bounds without rounding. For an integer value of any width and every
  bound but NaN, the value counts as above the bound exactly when it is, and as below exactly when
  it is, with one exception: the largest 128-bit integer is not reported below a bound that lies
  past it and is at most two to the 127, which is one float, two to the 127 itself.\<close>

theorem integer_bounds_exact:
  assumes "as_i128_value v = Some n" "fits_i128 n" "bound \<noteq> NaN"
  shows "above_bound S v bound = Some (f64_less bound (Finite (of_int n))) \<and>
    (below_bound S v bound = Some (f64_less (Finite (of_int n)) bound) \<longleftrightarrow>
     \<not> (n = i128_max \<and> f64_less (Finite (of_int i128_max)) bound \<and> f64_le bound (Finite (2 ^ 127))))"
proof -
  have n: "- (2 ^ 127) \<le> n" "n < 2 ^ 127" using assms(2) by (auto simp: fits_i128_def i128_min_def i128_max_def)
  have n': "- (2 ^ 127) \<le> rat_of_int n" "rat_of_int n < 2 ^ 127"
    using n of_int_le_iff [of "- (2 ^ 127)" n, where ?'a = rat] of_int_less_iff [of n "2 ^ 127", where ?'a = rat]
    by simp_all
  show ?thesis
  proof (cases bound)
    case (Finite a)
    have above: "saturate \<lfloor>a\<rfloor> = \<lfloor>a\<rfloor>" if "- (2 ^ 127) \<le> a" "a < 2 ^ 127"
      using that
      by (intro saturate_fits)
        (simp add: fits_i128_def i128_min_def i128_max_def le_floor_iff floor_less_iff flip: zle_diff1_eq)
    have below: "n < saturate \<lceil>a\<rceil> \<longleftrightarrow> rat_of_int n < a \<and> \<not> (n = i128_max \<and> rat_of_int i128_max < a)"
      if "- (2 ^ 127) < a"
    proof -
      have "i128_min \<le> \<lceil>a\<rceil>" using that by (simp add: i128_min_def le_ceiling_iff)
      then have "n < saturate \<lceil>a\<rceil> \<longleftrightarrow> n < i128_max \<and> n < \<lceil>a\<rceil>" by (auto simp: saturate_def i128_min_def i128_max_def)
      then show ?thesis using n by (auto simp: ceil_less i128_max_def)
    qed
    show ?thesis
      using assms n' above below
      by (auto simp: Finite above_bound_def below_bound_def i128_max_f64_def i128_min_f64_def f64_le_def floor_less)
  qed (use assms n in \<open>auto simp: above_bound_def below_bound_def i128_max_f64_def i128_min_f64_def f64_le_def\<close>)
qed

text \<open>Support for closed examples, which reads and matches nothing.\<close>

definition no_support :: support where
  "no_support = \<lparr>parse_f64 = (\<lambda>_. None), f64_to_string = (\<lambda>_. []), int_as_f64 = (\<lambda>n. Finite (of_int n)),
     regex_new = (\<lambda>_. None), email_regex = (\<lambda>_. False), url_parse = (\<lambda>_. None), uuid_parses = (\<lambda>_. False)\<rparr>"

theorem integer_bounds_exact_witness:
  "above_bound no_support (view_of_integer no_support 7) (Finite (13 / 2)) = Some True"
proof -
  have "fits_i128 7" by (simp add: fits_i128_def i128_min_def i128_max_def)
  then show ?thesis
    using integer_bounds_exact [of "view_of_integer no_support 7" 7 "Finite (13 / 2)" no_support]
    by (simp add: view_of_integer_def checked_i128_def plain_view_def)
qed

lemma largest_integer_not_below:
  "below_bound S (view_of_integer S i128_max) (Finite (2 ^ 127)) = Some False"
  by (simp add: below_bound_def view_of_integer_def checked_i128_def plain_view_def fits_i128_def i128_min_def
      i128_max_def i128_max_f64_def i128_min_f64_def f64_le_def saturate_def)


subsection \<open>Exact bounds, however they are spelled\<close>

lemma trim_digits: "list_all (\<lambda>c. \<not> is_whitespace c) s \<Longrightarrow> trim s = s"
proof -
  assume s: "list_all (\<lambda>c. \<not> is_whitespace c) s"
  have keep: "dropWhile is_whitespace t = t" if "list_all (\<lambda>c. \<not> is_whitespace c) t" for t
    using that by (cases t) auto
  from s have "trim_start s = s" "list_all (\<lambda>c. \<not> is_whitespace c) (rev s)"
    by (simp_all add: trim_start_def keep list_all_iff)
  then show ?thesis by (simp add: trim_def keep)
qed

lemma split_exponent_digits: "list_all is_ascii_digit s \<Longrightarrow> split_exponent s = [s]"
  by (induction s) (auto simp: is_ascii_digit_def)

lemma mantissa_of_digits: "list_all is_ascii_digit s \<Longrightarrow> mantissa_loop False s = Some (s, 0)"
  by (induction s) (auto simp: is_ascii_digit_def)

lemma digits_not_white: "list_all is_ascii_digit s \<Longrightarrow> list_all (\<lambda>c. \<not> is_whitespace c) s"
  by (auto simp: list_all_iff is_ascii_digit_def is_whitespace_def)

lemma read_number_int:
  assumes "list_all is_ascii_digit ds" "ds \<noteq> []" "sign \<in> {[], [ch_minus], [43]}"
  shows "read_number (sign @ ds) =
    Some \<lparr>num_negative = (sign = [ch_minus]), num_digits = ds, num_fractional = 0, num_exponent = 0\<rparr>"
proof -
  have "trim (sign @ ds) = sign @ ds"
    using assms digits_not_white by (intro trim_digits) (auto simp: is_whitespace_def)
  moreover obtain c r where "ds = c # r" using assms(2) by (cases ds) auto
  moreover from this have "c \<noteq> ch_minus" "c \<noteq> 43" using assms(1) by (auto simp: is_ascii_digit_def)
  ultimately show ?thesis
    using assms(3) split_exponent_digits [OF assms(1)] mantissa_of_digits [OF assms(1)]
    by (auto simp: read_number_def Let_def simp del: split_exponent.simps mantissa_loop.simps)
qed

lemma int_text_in_range:
  assumes "list_all is_ascii_digit ds" "digits_value 0 ds \<le> 2 ^ 127"
  shows "in_range \<lparr>num_negative = s, num_digits = ds, num_fractional = 0, num_exponent = 0\<rparr>"
proof -
  let ?ds = "dropWhile (\<lambda>c. c = 48) ds"
  have "int (length ?ds) \<le> 127" if ne: "?ds \<noteq> []"
  proof -
    obtain c r where cr: "?ds = c # r" using ne by (meson list.exhaust)
    have "c \<noteq> 48" using hd_dropWhile [OF ne] cr by simp
    moreover have "is_ascii_digit c" using assms(1) cr set_dropWhileD [of c "\<lambda>c. c = 48" ds] by (auto simp: list_all_iff)
    ultimately have "1 \<le> c - 48" unfolding is_ascii_digit_def by linarith
    moreover have "digits_value 0 ?ds = (c - 48) * 10 ^ length r + digits_value 0 r"
      by (simp add: cr digits_value_acc [of "c - 48"])
    ultimately have "10 ^ length r \<le> digits_value 0 ?ds"
      using mult_le_mono1 [of 1 "c - 48" "10 ^ length r"] by linarith
    also have "\<dots> \<le> 2 ^ 127" using assms(2) by (simp add: drop_zeros_value)
    also have "\<dots> < (10 :: nat) ^ 39" by simp
    finally have "length r < 39" by (rule power_less_imp_less_exp [rotated]) simp
    then show ?thesis by (simp add: cr)
  qed
  then show ?thesis
    unfolding in_range_def Let_def by (cases "?ds = []") (simp_all add: fits_i128_def i128_min_def i128_max_def)
qed

lemma parse_i128_Some:
  assumes "parse_i128 s = Some n"
  obtains sign ds where "s = sign @ ds" "sign \<in> {[], [ch_minus], [43]}" "list_all is_ascii_digit ds" "ds \<noteq> []"
    "n = (if sign = [ch_minus] then - int (digits_value 0 ds) else int (digits_value 0 ds))" "fits_i128 n"
proof (cases s)
  case Nil
  with assms show ?thesis by (simp add: parse_i128_def)
next
  case (Cons c r)
  show ?thesis
  proof (cases "c = ch_minus \<or> c = 43")
    case True
    with Cons assms show ?thesis
      by (intro that [of "[c]" r]) (auto simp: parse_i128_def checked_i128_def split: if_splits)
  next
    case False
    with Cons assms show ?thesis
      by (intro that [of "[]" s]) (auto simp: parse_i128_def checked_i128_def split: if_splits)
  qed
qed


lemma integer_text:
  assumes "s = sign @ ds" "sign \<in> {[], [ch_minus], [43]}" "list_all is_ascii_digit ds" "ds \<noteq> []"
    "n = (if sign = [ch_minus] then - int (digits_value 0 ds) else int (digits_value 0 ds))" "fits_i128 n"
  shows "\<exists>m. read_number s = Some m \<and> in_range m \<and> number_value m = of_int n"
proof -
  have "digits_value 0 ds \<le> 2 ^ 127"
    using assms(5,6) by (auto simp: fits_i128_def i128_min_def i128_max_def split: if_splits)
  with assms show ?thesis
    using read_number_int [OF assms(3,4,2)] int_text_in_range [OF assms(3)] by (auto simp: number_value_def)
qed

lemma parse_i128_number:
  "parse_i128 s = Some n \<Longrightarrow> \<exists>m. read_number s = Some m \<and> in_range m \<and> number_value m = of_int n"
  by (elim parse_i128_Some) (rule integer_text)

lemma show_i128_number:
  "fits_i128 n \<Longrightarrow> \<exists>m. read_number (show_i128 n) = Some m \<and> in_range m \<and> number_value m = of_int n"
  by (rule integer_text [of _ "if n < 0 then [ch_minus] else []" "show_nat (nat \<bar>n\<bar>)"])
    (auto simp: show_i128_def show_nat_digits digits_value_show_nat)

lemma text_outside_number:
  assumes "read_number l = Some m" "in_range m" "read_number r = Some k"
  shows "decimal_text_outside l r below \<longleftrightarrow>
    \<not> in_range k \<or> (if below then number_value m < number_value k else number_value k < number_value m)"
  using assms compare_decimal_value [of l r]
  by (auto simp: decimal_text_outside_def cmp_def split: if_splits)

text \<open>An integer is compared with an exact bound as the numbers they are, whichever way the
  bound is spelled: as an integer, with a dot, with zeros, with an exponent. A bound that denotes
  no number, or leaves the exponent range, lets no integer pass.\<close>

theorem exact_bound_spelling:
  assumes "as_i128_value v = Some n" "fits_i128 n"
  shows "outside_exact S v text below \<longleftrightarrow>
    (case read_number text of
       None \<Rightarrow> True
     | Some k \<Rightarrow> \<not> in_range k \<or>
         (if below then rat_of_int n < number_value k else number_value k < rat_of_int n))"
proof (cases "parse_i128 text")
  case (Some b)
  with assms parse_i128_number [OF Some] show ?thesis by (auto simp: outside_exact_def)
next
  case None
  obtain m where m: "read_number (show_i128 n) = Some m" "in_range m" "number_value m = of_int n"
    using show_i128_number [OF assms(2)] by blast
  show ?thesis
  proof (cases "read_number text")
    case no: None
    then show ?thesis
      using None assms compare_decimal_value [of "show_i128 n" "text"]
      by (simp add: outside_exact_def decimal_text_outside_def split: option.split)
  next
    case (Some k)
    then show ?thesis
      using None assms m(3) text_outside_number [OF m(1,2) Some] by (simp add: outside_exact_def)
  qed
qed

theorem exact_bound_spelling_witness:
  "outside_exact no_support (view_of_integer no_support 17) (lit ''1.8e1'') True"
proof -
  have "fits_i128 17" by (simp add: fits_i128_def i128_min_def i128_max_def)
  then have v: "as_i128_value (view_of_integer no_support 17) = Some 17" "fits_i128 17"
    by (simp_all add: view_of_integer_def checked_i128_def plain_view_def)
  have "read_number (lit ''1.8e1'') =
      Some \<lparr>num_negative = False, num_digits = [49, 56], num_fractional = 1, num_exponent = 1\<rparr>"
    by (simp add: lit_def) code_simp
  then show ?thesis
    using exact_bound_spelling [OF v, of no_support "lit ''1.8e1''" True]
    by (simp add: number_value_def in_range_def fits_i128_def i128_min_def i128_max_def)
qed


subsection \<open>Every failure is reported, in order\<close>

definition ve_ok :: "ValidationErrors \<Rightarrow> bool" where
  "ve_ok v \<longleftrightarrow> distinct (ve_order v) \<and> distinct (map fst (ve_errors v)) \<and>
     (\<forall>f. f \<in> set (ve_order v) \<longleftrightarrow> map_of (ve_errors v) f \<noteq> None) \<and>
     (\<forall>f. map_of (ve_errors v) f \<noteq> Some [])"

lemma ve_ok_new: "ve_ok ValidationErrors_new"
  by (simp add: ve_ok_def ValidationErrors_new_def)

lemma ve_ok_add: "ve_ok v \<Longrightarrow> ve_ok (ve_add f m v)"
  by (auto simp: ve_ok_def ve_add_def update_conv' distinct_update)

lemma ve_add_map: "map_of (ve_errors (ve_add f m v)) = (map_of (ve_errors v))(f \<mapsto> field_errors f v @ [m])"
  by (simp add: ve_add_def update_conv')

lemma ve_add_order:
  "ve_order (ve_add f m v) = (if map_of (ve_errors v) f = None then ve_order v @ [f] else ve_order v)"
  by (simp add: ve_add_def)

lemma ve_adds:
  assumes "ve_ok v" "f \<notin> set (ve_order v)"
  shows "ve_ok (fold (ve_add f) ms v) \<and>
    ve_order (fold (ve_add f) ms v) = ve_order v @ (if ms = [] then [] else [f]) \<and>
    map_of (ve_errors (fold (ve_add f) ms v)) =
      (if ms = [] then map_of (ve_errors v) else (map_of (ve_errors v))(f \<mapsto> ms))"
proof (induction ms rule: rev_induct)
  case Nil
  with assms show ?case by simp
next
  case (snoc m ms)
  moreover have "map_of (ve_errors v) f = None" using assms unfolding ve_ok_def by blast
  ultimately show ?case
    by (auto simp: ve_ok_add ve_add_map ve_add_order field_errors_def split: if_splits)
qed

lemma ve_pairs_adds:
  assumes "ve_ok v" "f \<notin> set (ve_order v)"
  shows "ve_pairs (fold (ve_add f) ms v) = ve_pairs v @ map (Pair f) ms"
proof (cases "ms = []")
  case False
  have "List.map_filter (\<lambda>g. map_option (Pair g) (((map_of (ve_errors v))(f \<mapsto> ms)) g)) (ve_order v) = ve_iter v"
    unfolding ve_iter_def map_filter_def using assms(2)
    by (intro arg_cong2 [where f = map] filter_cong map_cong) auto
  with False ve_adds [OF assms, of ms] show ?thesis
    by (simp add: ve_pairs_def ve_iter_def map_filter_def)
qed simp

definition failures :: "unicode \<Rightarrow> support \<Rightarrow> ustr \<times> value_view \<times> ValidationRule list \<Rightarrow> ustr list" where
  "failures U S fvr = (case fvr of (f, v, rules) \<Rightarrow> List.map_filter (\<lambda>r. validate_rule U S v r f) rules)"

lemma ve_check_adds: "ve_check U S f v rules errs = fold (ve_add f) (failures U S (f, v, rules)) errs"
proof (induction rules arbitrary: errs)
  case (Cons r rules)
  then show ?case by (simp add: ve_check_def failures_def map_filter_simps split: option.split)
qed (simp add: ve_check_def failures_def map_filter_simps)

text \<open>The derived \<open>validate\<close>: one check per field, in the order of declaration.\<close>

definition validate_fields ::
    "unicode \<Rightarrow> support \<Rightarrow> (ustr \<times> value_view \<times> ValidationRule list) list \<Rightarrow> ValidationErrors" where
  "validate_fields U S fvs =
     fold (\<lambda>(f, v, rules). ve_check U S f v rules) fvs ValidationErrors_new"

definition all_failures ::
    "unicode \<Rightarrow> support \<Rightarrow> (ustr \<times> value_view \<times> ValidationRule list) list \<Rightarrow> (ustr \<times> ustr) list" where
  "all_failures U S fvs = concat (map (\<lambda>fvr. map (Pair (fst fvr)) (failures U S fvr)) fvs)"

lemma validate_from:
  assumes "ve_ok errs" "distinct (map fst fvs)" "set (map fst fvs) \<inter> set (ve_order errs) = {}"
  shows "ve_ok (fold (\<lambda>(f, v, rules). ve_check U S f v rules) fvs errs) \<and>
    ve_pairs (fold (\<lambda>(f, v, rules). ve_check U S f v rules) fvs errs) = ve_pairs errs @ all_failures U S fvs"
  using assms
proof (induction fvs arbitrary: errs)
  case (Cons fvr fvs)
  obtain f v rules where fvr: "fvr = (f, v, rules)" by (metis prod_cases3)
  let ?e = "ve_check U S f v rules errs"
  have f: "f \<notin> set (ve_order errs)" using Cons.prems(3) by (simp add: fvr)
  note a = ve_adds [OF Cons.prems(1) f, of "failures U S (f, v, rules)", folded ve_check_adds]
  have "set (map fst fvs) \<inter> set (ve_order ?e) = {}"
    using a Cons.prems(2,3) by (auto simp: fvr)
  with Cons a ve_pairs_adds [OF Cons.prems(1) f, of "failures U S (f, v, rules)"] show ?case
    by (simp add: fvr all_failures_def flip: ve_check_adds)
qed (simp add: all_failures_def)

lemma ve_iter_order: "ve_ok v \<Longrightarrow> map fst (ve_iter v) = ve_order v"
proof -
  have "list_all (\<lambda>f. map_of m f \<noteq> None) fs \<Longrightarrow>
      map fst (List.map_filter (\<lambda>f. map_option (Pair f) (map_of m f)) fs) = fs"
    for m :: "(ustr \<times> ustr list) list" and fs
    by (induction fs) (auto simp: map_filter_simps)
  then show "ve_ok v \<Longrightarrow> ?thesis" by (simp add: ve_ok_def ve_iter_def list_all_iff)
qed

lemma ve_iter_nonempty: "ve_ok v \<Longrightarrow> (f, ms) \<in> set (ve_iter v) \<Longrightarrow> ms \<noteq> []"
  by (auto simp: ve_ok_def ve_iter_def map_filter_def)

lemma ve_is_empty_pairs: "ve_ok v \<Longrightarrow> ve_is_empty v \<longleftrightarrow> ve_pairs v = []"
proof -
  assume v: "ve_ok v"
  have "ve_errors v = [] \<longleftrightarrow> ve_order v = []"
    using v by (auto simp: ve_ok_def map_of_eq_None_iff)
  also have "\<dots> \<longleftrightarrow> ve_iter v = []" using ve_iter_order [OF v] by (metis map_is_Nil_conv)
  also have "\<dots> \<longleftrightarrow> ve_pairs v = []" using ve_iter_nonempty [OF v] by (cases "ve_iter v") (auto simp: ve_pairs_def)
  finally show ?thesis by (simp add: ve_is_empty_def)
qed

lemma ve_first_pairs: "ve_ok v \<Longrightarrow> ve_first v = (case ve_pairs v of [] \<Rightarrow> None | p # _ \<Rightarrow> Some p)"
proof (cases "ve_iter v")
  case (Cons fm rest)
  assume "ve_ok v"
  then have "snd fm \<noteq> []" using ve_iter_nonempty [of v "fst fm" "snd fm"] Cons by simp
  with Cons show ?thesis
    by (cases fm; cases "snd fm") (auto simp: ve_first_def ve_pairs_def)
qed (simp add: ve_first_def ve_pairs_def)

text \<open>Validation reports every failure and nothing else, in the order of declaration. For
  fields checked one after the other the collected pairs are exactly the messages of the rules that
  fail, field by field and rule by rule; the result is a success exactly when no rule fails; and
  the error a failed write returns is the first of them.\<close>

theorem validation_reports_all:
  assumes "distinct (map fst fvs)"
  shows "ve_pairs (validate_fields U S fvs) = all_failures U S fvs \<and>
    to_result (validate_fields U S fvs) =
      (if all_failures U S fvs = [] then Inr () else Inl (validate_fields U S fvs)) \<and>
    error_of_validation (validate_fields U S fvs) =
      (case all_failures U S fvs of
         [] \<Rightarrow> Validation (lit ''unknown'') (lit ''Validation failed'')
       | (f, m) # _ \<Rightarrow> Validation f m)"
proof -
  have "ve_ok (validate_fields U S fvs)" "ve_pairs (validate_fields U S fvs) = all_failures U S fvs"
    using validate_from [OF ve_ok_new assms, of U S]
    by (simp_all add: validate_fields_def ValidationErrors_new_def ve_pairs_def ve_iter_def map_filter_simps)
  then show ?thesis
    by (auto simp: to_result_def ve_is_empty_pairs error_of_validation_def ve_first_pairs split: list.split)
qed

theorem validation_reports_all_witness:
  "ve_pairs (validate_fields ascii_only no_support
       [(lit ''a'', view_of_string no_support [], [Required, MinLength 1]), (lit ''b'', view_of_presence, [Required])]) =
   [(lit ''a'', lit ''The a field is required''), (lit ''a'', lit ''The a must be at least 1 characters'')]"
  using validation_reports_all [of "[(lit ''a'', view_of_string no_support [], [Required, MinLength 1]),
      (lit ''b'', view_of_presence, [Required])]" ascii_only no_support]
  by (simp add: all_failures_def failures_def map_filter_simps validate_rule_def view_of_string_def view_of_presence_def
      plain_view_def trim_def trim_start_def text_fails_def the_field_def lit_def show_nat.simps)

end
