(* ===== verification/Token_Encoding.thy ===== *)
theory Token_Encoding
  imports Tide_Prelude
begin

text \<open>
  The encodings a token is built with: UTF-8, as Rust's \<open>str::as_bytes\<close> and
  \<open>String::from_utf8\<close> have it, and the unpadded base64url of \<open>src/src/tokenization.rs\<close>, a bit
  accumulator of 32 bits whose upper bits are shifted out and never read. Both are instances of
  one interface, a canonical codec: every value has exactly one spelling.
\<close>

unbundle bit_operations_syntax

type_synonym byte = "8 word"

definition byte_of :: "nat \<Rightarrow> byte" where
  "byte_of n = word_of_nat n"

subsection \<open>Canonical codecs\<close>

locale canonical_codec =
  fixes valid :: "'a \<Rightarrow> bool" and enc :: "'a \<Rightarrow> 'b" and dec :: "'b \<Rightarrow> 'a option"
  assumes dec_iff: "dec y = Some x \<longleftrightarrow> valid x \<and> y = enc x"
begin

lemma dec_enc: "valid x \<Longrightarrow> dec (enc x) = Some x"
  by (simp add: dec_iff)

lemma one_spelling: "dec y = Some x \<Longrightarrow> dec z = Some x \<Longrightarrow> y = z"
  by (simp add: dec_iff)

lemma enc_inj: "valid x \<Longrightarrow> valid x' \<Longrightarrow> enc x = enc x' \<Longrightarrow> x = x'"
  by (metis dec_enc option.inject)

lemma dec_None: "dec y = None \<longleftrightarrow> (\<forall>x. valid x \<longrightarrow> y \<noteq> enc x)"
  by (metis dec_iff not_None_eq)

end

subsection \<open>UTF-8\<close>

definition is_scalar :: "uchar \<Rightarrow> bool" where
  "is_scalar c \<longleftrightarrow> c < 0xD800 \<or> (0xE000 \<le> c \<and> c < 0x110000)"

definition utf8_char :: "uchar \<Rightarrow> byte list" where
  "utf8_char c = map byte_of
     (if c < 0x80 then [c]
      else if c < 0x800 then [0xC0 + c div 64, 0x80 + c mod 64]
      else if c < 0x10000 then [0xE0 + c div 4096, 0x80 + c div 64 mod 64, 0x80 + c mod 64]
      else [0xF0 + c div 262144, 0x80 + c div 4096 mod 64, 0x80 + c div 64 mod 64, 0x80 + c mod 64])"

definition as_bytes :: "ustr \<Rightarrow> byte list" where
  "as_bytes s = concat (map utf8_char s)"

definition is_continuation :: "byte \<Rightarrow> bool" where
  "is_continuation b \<longleftrightarrow> 0x80 \<le> unat b \<and> unat b < 0xC0"

abbreviation payload :: "byte \<Rightarrow> nat" where "payload b \<equiv> unat b - 0x80"

text \<open>The character an encoding of \<open>n\<close> bytes stands for, refused when a shorter one exists or
  when it is not a scalar value.\<close>

definition checked_char :: "nat \<Rightarrow> byte list \<Rightarrow> uchar \<Rightarrow> byte list \<Rightarrow> (uchar \<times> byte list) option" where
  "checked_char least continuations c rest =
     (if list_all is_continuation continuations \<and> least \<le> c \<and> is_scalar c then Some (c, rest) else None)"

fun decode_char :: "byte list \<Rightarrow> (uchar \<times> byte list) option" where
  "decode_char [] = None"
| "decode_char (b # bs) =
     (if unat b < 0x80 then Some (unat b, bs)
      else if unat b < 0xC0 then None
      else if unat b < 0xE0 then
        (case bs of b1 # r \<Rightarrow> checked_char 0x80 [b1] ((unat b - 0xC0) * 64 + payload b1) r | _ \<Rightarrow> None)
      else if unat b < 0xF0 then
        (case bs of b1 # b2 # r \<Rightarrow>
           checked_char 0x800 [b1, b2] ((unat b - 0xE0) * 4096 + payload b1 * 64 + payload b2) r
         | _ \<Rightarrow> None)
      else if unat b < 0xF8 then
        (case bs of b1 # b2 # b3 # r \<Rightarrow>
           checked_char 0x10000 [b1, b2, b3]
             ((unat b - 0xF0) * 262144 + payload b1 * 4096 + payload b2 * 64 + payload b3) r
         | _ \<Rightarrow> None)
      else None)"

lemma checked_char_Some:
  "checked_char least cs c rest = Some (x, r) \<longleftrightarrow>
     list_all is_continuation cs \<and> least \<le> c \<and> is_scalar c \<and> x = c \<and> r = rest"
  by (auto simp: checked_char_def)

lemma decode_char_shorter: "decode_char bs = Some (c, r) \<Longrightarrow> length r < length bs"
  by (cases bs) (auto simp: checked_char_Some split: if_splits list.splits)

function from_utf8 :: "byte list \<Rightarrow> ustr option" where
  "from_utf8 [] = Some []"
| "from_utf8 (b # bs) =
     (case decode_char (b # bs) of
        None \<Rightarrow> None
      | Some (c, r) \<Rightarrow> map_option (Cons c) (from_utf8 r))"
  by pat_completeness auto
termination
  by (relation "measure length") (use decode_char_shorter in fastforce)+

lemma unat_byte [simp]: "n < 256 \<Longrightarrow> unat (byte_of n) = n"
  by (simp add: byte_of_def unat_of_nat)

lemma unat_byte_less: "unat (b :: byte) < 256"
  using unsigned_less [of b] by simp

lemma byte_of_unat [simp]: "byte_of (unat b) = b"
  by (simp add: byte_of_def)

lemma byte_eq: "n < 256 \<Longrightarrow> byte_of n = b \<longleftrightarrow> n = unat b"
  by auto

text \<open>Digits in base 64.\<close>

lemma base64_nested:
  fixes c :: nat
  shows "c div 4096 = c div 64 div 64" "c div 262144 = c div 64 div 64 div 64"
  by (simp_all flip: div_mult2_eq)

lemma base64_join:
  fixes c :: nat
  shows "c div 4096 * 4096 + c div 64 mod 64 * 64 + c mod 64 = c"
    and "c div 262144 * 262144 + c div 4096 mod 64 * 4096 + c div 64 mod 64 * 64 + c mod 64 = c"
  using div_mult_mod_eq [of c 64] div_mult_mod_eq [of "c div 64" 64]
    div_mult_mod_eq [of "c div 64 div 64" 64]
  unfolding base64_nested by linarith+

lemma base64_digit:
  fixes y z :: nat
  assumes "z < 64"
  shows "(y * 64 + z) div 64 = y" "(y * 64 + z) mod 64 = z"
  using assms by auto

lemma base64_digits:
  fixes w x y z :: nat
  assumes "x < 64" "y < 64" "z < 64"
  shows "(w * 4096 + y * 64 + z) div 4096 = w" "(w * 4096 + y * 64 + z) div 64 mod 64 = y"
      "(w * 4096 + y * 64 + z) mod 64 = z"
    and "(w * 262144 + x * 4096 + y * 64 + z) div 262144 = w"
      "(w * 262144 + x * 4096 + y * 64 + z) div 4096 mod 64 = x"
      "(w * 262144 + x * 4096 + y * 64 + z) div 64 mod 64 = y"
      "(w * 262144 + x * 4096 + y * 64 + z) mod 64 = z"
proof -
  have two: "w * 4096 + y * 64 + z = (w * 64 + y) * 64 + z"
    and three: "w * 262144 + x * 4096 + y * 64 + z = ((w * 64 + x) * 64 + y) * 64 + z"
    by simp_all
  show "(w * 4096 + y * 64 + z) div 4096 = w" "(w * 4096 + y * 64 + z) div 64 mod 64 = y"
      "(w * 4096 + y * 64 + z) mod 64 = z"
    unfolding two base64_nested by (simp_all only: base64_digit assms)
  show "(w * 262144 + x * 4096 + y * 64 + z) div 262144 = w"
      "(w * 262144 + x * 4096 + y * 64 + z) div 4096 mod 64 = x"
      "(w * 262144 + x * 4096 + y * 64 + z) div 64 mod 64 = y"
      "(w * 262144 + x * 4096 + y * 64 + z) mod 64 = z"
    unfolding three base64_nested by (simp_all only: base64_digit assms)
qed

lemma payload_continuation:
  "is_continuation b \<Longrightarrow> payload b < 64" "is_continuation b \<Longrightarrow> byte_of (0x80 + payload b) = b"
  by (auto simp: is_continuation_def)

lemma lead_byte: "n \<le> unat b \<Longrightarrow> byte_of (n + (unat b - n)) = b"
  by simp

lemma decode_char_utf8: "is_scalar c \<Longrightarrow> decode_char (utf8_char c @ bs) = Some (c, bs)"
proof -
  assume c: "is_scalar c"
  consider "c < 0x80" | "0x80 \<le> c" "c < 0x800" | "0x800 \<le> c" "c < 0x10000" | "0x10000 \<le> c" by linarith
  then show ?thesis
  proof cases
    case 1
    then show ?thesis by (simp add: utf8_char_def unat_byte)
  next
    case 2
    then have "c div 64 < 32" by linarith
    with 2 c show ?thesis
      by (simp add: utf8_char_def unat_byte checked_char_def is_continuation_def)
  next
    case 3
    then have "c div 4096 < 16" by linarith
    with 3 c show ?thesis
      by (simp add: utf8_char_def unat_byte checked_char_def is_continuation_def base64_join)
  next
    case 4
    with c have "c div 262144 < 5" by (auto simp: is_scalar_def)
    with 4 c show ?thesis
      by (simp add: utf8_char_def unat_byte checked_char_def is_continuation_def base64_join)
  qed
qed


lemma decode_char_exact: "decode_char bs = Some (c, r) \<Longrightarrow> is_scalar c \<and> bs = utf8_char c @ r"
proof (cases bs)
  case (Cons b bs')
  assume d: "decode_char bs = Some (c, r)"
  have b: "unat b < 256" by (rule unat_byte_less)
  consider "unat b < 0x80" | "0xC0 \<le> unat b" "unat b < 0xE0" | "0xE0 \<le> unat b" "unat b < 0xF0"
    | "0xF0 \<le> unat b" "unat b < 0xF8"
    using d Cons by (auto split: if_splits)
  then show ?thesis
  proof cases
    case 1
    with d Cons show ?thesis by (auto simp: utf8_char_def is_scalar_def)
  next
    case 2
    with d Cons obtain b1 where bs: "bs' = b1 # r" and cont: "is_continuation b1"
      and c: "c = (unat b - 0xC0) * 64 + payload b1" "0x80 \<le> c" "is_scalar c"
      by (auto simp: checked_char_Some split: list.splits)
    note p = payload_continuation [OF cont]
    have "c < 0x800" using p(1) 2 unfolding c(1) by linarith
    moreover have "c div 64 = unat b - 0xC0" "c mod 64 = payload b1"
      unfolding c(1) by (rule base64_digit [OF p(1)])+
    ultimately have "utf8_char c = [b, b1]"
      using c(2) by (simp add: utf8_char_def p lead_byte [OF 2(1)])
    then show ?thesis using Cons bs c(3) by simp
  next
    case 3
    with d Cons obtain b1 b2 where bs: "bs' = b1 # b2 # r"
      and cont: "is_continuation b1" "is_continuation b2"
      and c: "c = (unat b - 0xE0) * 4096 + payload b1 * 64 + payload b2" "0x800 \<le> c" "is_scalar c"
      by (auto simp: checked_char_Some split: list.splits)
    note p = cont [THEN payload_continuation(1)] cont [THEN payload_continuation(2)]
    have "c < 0x10000" using p(1,2) 3 unfolding c(1) by linarith
    moreover have "c div 4096 = unat b - 0xE0" "c div 64 mod 64 = payload b1" "c mod 64 = payload b2"
      unfolding c(1) by (rule base64_digits [OF p(1) p(1) p(2)])+
    ultimately have "utf8_char c = [b, b1, b2]"
      using c(2) by (simp add: utf8_char_def p lead_byte [OF 3(1)])
    then show ?thesis using Cons bs c(3) by simp
  next
    case 4
    with d Cons obtain b1 b2 b3 where bs: "bs' = b1 # b2 # b3 # r"
      and cont: "is_continuation b1" "is_continuation b2" "is_continuation b3"
      and c: "c = (unat b - 0xF0) * 262144 + payload b1 * 4096 + payload b2 * 64 + payload b3"
        "0x10000 \<le> c" "is_scalar c"
      by (auto simp: checked_char_Some split: list.splits)
    note p = cont [THEN payload_continuation(1)] cont [THEN payload_continuation(2)]
    have "c div 262144 = unat b - 0xF0" "c div 4096 mod 64 = payload b1" "c div 64 mod 64 = payload b2"
      "c mod 64 = payload b3"
      unfolding c(1) by (rule base64_digits [OF p(1) p(2) p(3)])+
    then have "utf8_char c = [b, b1, b2, b3]"
      using c(2) by (simp add: utf8_char_def p lead_byte [OF 4(1)])
    then show ?thesis using Cons bs c(3) by simp
  qed
qed simp


declare decode_char.simps [simp del]

lemma utf8_char_nonempty: "utf8_char c \<noteq> []"
  by (simp add: utf8_char_def)

lemma from_utf8_iff: "from_utf8 bs = Some s \<longleftrightarrow> list_all is_scalar s \<and> bs = as_bytes s"
proof
  assume "from_utf8 bs = Some s"
  then show "list_all is_scalar s \<and> bs = as_bytes s"
    by (induction bs arbitrary: s rule: from_utf8.induct)
      (auto simp: as_bytes_def dest!: decode_char_exact split: option.splits)
next
  assume s: "list_all is_scalar s \<and> bs = as_bytes s"
  have "from_utf8 (as_bytes s) = Some s" if "list_all is_scalar s"
    using that
  proof (induction s)
    case (Cons c s)
    obtain b bs' where b: "utf8_char c @ as_bytes s = b # bs'"
      using utf8_char_nonempty [of c] by (cases "utf8_char c") auto
    have "decode_char (b # bs') = Some (c, as_bytes s)"
      using Cons.prems decode_char_utf8 [of c "as_bytes s"] by (simp flip: b)
    moreover have "as_bytes (c # s) = b # bs'" by (simp add: as_bytes_def flip: b)
    ultimately show ?case using Cons by simp
  qed (simp add: as_bytes_def)
  with s show "from_utf8 bs = Some s" by simp
qed

interpretation utf8: canonical_codec "list_all is_scalar" as_bytes from_utf8
  by unfold_locales (rule from_utf8_iff)

subsection \<open>Base64url\<close>

definition ALPHABET :: ustr where
  "ALPHABET = lit ''ABCDEFGHIJKLMNOPQRSTUVWXYZabcdefghijklmnopqrstuvwxyz0123456789-_''"

text \<open>The inner \<open>while\<close> of the encoder: the count of bits left, and the characters pushed.\<close>

fun drain :: "32 word \<Rightarrow> nat \<Rightarrow> nat \<times> ustr" where
  "drain bits bit_count =
     (if bit_count < 6 then (bit_count, [])
      else (let (left, cs) = drain bits (bit_count - 6)
            in (left, ALPHABET ! unat (drop_bit (bit_count - 6) bits AND 0x3F) # cs)))"

declare drain.simps [simp del]

fun encode_loop :: "32 word \<Rightarrow> nat \<Rightarrow> byte list \<Rightarrow> ustr" where
  "encode_loop bits bit_count [] =
     (if 0 < bit_count then [ALPHABET ! unat (push_bit (6 - bit_count) bits AND 0x3F)] else [])"
| "encode_loop bits bit_count (b # data) =
     (let bits = push_bit 8 bits OR ucast b;
          (left, cs) = drain bits (bit_count + 8)
      in cs @ encode_loop bits left data)"

definition base64_url_encode :: "byte list \<Rightarrow> ustr" where
  "base64_url_encode data = encode_loop 0 0 data"

definition char_to_value :: "uchar \<Rightarrow> byte option" where
  "char_to_value c =
     (if 65 \<le> c \<and> c \<le> 90 then Some (byte_of (c - 65))
      else if 97 \<le> c \<and> c \<le> 122 then Some (byte_of (c - 97 + 26))
      else if 48 \<le> c \<and> c \<le> 57 then Some (byte_of (c - 48 + 52))
      else if c = ch_minus then Some 62
      else if c = ch_underscore then Some 63
      else None)"

fun decode_loop :: "32 word \<Rightarrow> nat \<Rightarrow> ustr \<Rightarrow> byte list option" where
  "decode_loop bits bit_count [] =
     (if 0 < bit_count \<and> bits AND (push_bit bit_count 1 - 1) \<noteq> 0 then None else Some [])"
| "decode_loop bits bit_count (c # s) =
     (case char_to_value c of
        None \<Rightarrow> None
      | Some v \<Rightarrow>
          let bits = push_bit 6 bits OR ucast v; bit_count = bit_count + 6
          in if 8 \<le> bit_count
             then map_option (Cons (ucast (drop_bit (bit_count - 8) bits))) (decode_loop bits (bit_count - 8) s)
             else decode_loop bits bit_count s)"

definition base64_url_decode :: "ustr \<Rightarrow> byte list option" where
  "base64_url_decode encoded =
     (if utf8_len encoded mod 4 = 1 then None else decode_loop 0 0 encoded)"


subsection \<open>Reading the accumulator\<close>

lemma six_bits: "(0x3F :: 32 word) = mask 6"
  by (simp add: mask_eq_exp_minus_1)

lemma unat_and_mask: "unat (w AND mask n :: 32 word) = unat w mod 2 ^ n"
  by (simp add: unsigned_take_bit_eq flip: take_bit_eq_mask take_bit_eq_mod)

lemma window: "unat (drop_bit k (y :: 32 word) AND 0x3F) = unat y mod 2 ^ (k + 6) div 2 ^ k"
proof -
  have "unat (drop_bit k y AND 0x3F) = take_bit 6 (drop_bit k (unat y))"
    unfolding six_bits unat_and_mask by (simp add: take_bit_eq_mod unat_drop_bit_eq)
  also have "\<dots> = drop_bit k (take_bit (k + 6) (unat y))"
    by (simp add: take_bit_drop_bit add.commute)
  finally show ?thesis by (simp add: take_bit_eq_mod drop_bit_eq_div)
qed

lemma low_byte: "unat (ucast (drop_bit k (y :: 32 word)) :: byte) = unat y mod 2 ^ (k + 8) div 2 ^ k"
proof -
  have "unat (ucast (drop_bit k y) :: byte) = take_bit 8 (drop_bit k (unat y))"
    by (simp add: unsigned_ucast_eq unat_drop_bit_eq)
  also have "\<dots> = drop_bit k (take_bit (k + 8) (unat y))"
    by (simp add: take_bit_drop_bit add.commute)
  finally show ?thesis by (simp add: take_bit_eq_mod drop_bit_eq_div)
qed

lemma pending:
  fixes x :: "32 word" and b :: byte
  assumes "n + k \<le> 32" "unat b < 2 ^ k"
  shows "unat (push_bit k x OR ucast b) mod 2 ^ (n + k) = unat x mod 2 ^ n * 2 ^ k + unat b"
proof -
  let ?X = "unat x" and ?B = "unat b"
  have B: "take_bit k ?B = ?B" using assms(2) by (simp add: take_bit_nat_eq_self)
  have low: "i < k" if "bit b i" for i
    using that B bit_take_bit_iff [of k ?B i] by (auto simp: bit_simps)
  have "unat (push_bit k x OR ucast b) = take_bit 32 (push_bit k ?X) OR take_bit 32 ?B"
    by (simp add: unsigned_or_eq unsigned_push_bit_eq unsigned_ucast_eq)
  then have "unat (push_bit k x OR ucast b) mod 2 ^ (n + k) =
      take_bit (n + k) (take_bit 32 (push_bit k ?X) OR take_bit 32 ?B)"
    by (simp add: take_bit_eq_mod)
  also have "\<dots> = push_bit k (take_bit n ?X) OR ?B"
    using assms(1) by (intro bit_eqI) (auto simp: bit_simps dest: low)
  also have "\<dots> = push_bit k (take_bit n ?X) + ?B"
    by (intro disjunctive_add_eq_or [symmetric] bit_eqI) (auto simp: bit_simps dest: low)
  finally show ?thesis by (simp add: take_bit_eq_mod push_bit_eq_mult)
qed

lemma low_bits_clear: "n < 32 \<Longrightarrow> (x :: 32 word) AND (push_bit n 1 - 1) = 0 \<longleftrightarrow> unat x mod 2 ^ n = 0"
proof -
  assume "n < 32"
  have "push_bit n 1 - 1 = (mask n :: 32 word)"
    by (simp add: mask_eq_exp_minus_1 push_bit_eq_mult)
  then have "x AND (push_bit n 1 - 1) = 0 \<longleftrightarrow> unat (x AND mask n) = 0"
    by (simp add: unsigned_eq_0_iff)
  then show ?thesis by (simp add: unat_and_mask)
qed

subsection \<open>The encoder and decoder by groups\<close>

abbreviation sym :: "nat \<Rightarrow> uchar" where "sym v \<equiv> ALPHABET ! v"

fun pack :: "byte list \<Rightarrow> nat list" where
  "pack [] = []"
| "pack [a] = [unat a div 4, unat a mod 4 * 16]"
| "pack [a, b] = [unat a div 4, unat a mod 4 * 16 + unat b div 16, unat b mod 16 * 4]"
| "pack (a # b # c # r) =
     [unat a div 4, unat a mod 4 * 16 + unat b div 16, unat b mod 16 * 4 + unat c div 64, unat c mod 64]
     @ pack r"

fun unpack :: "nat list \<Rightarrow> byte list option" where
  "unpack [] = Some []"
| "unpack [v] = (if v = 0 then Some [] else None)"
| "unpack [v, w] = (if w mod 16 = 0 then Some [byte_of (v * 4 + w div 16)] else None)"
| "unpack [v, w, x] =
     (if x mod 4 = 0 then Some [byte_of (v * 4 + w div 16), byte_of (w mod 16 * 16 + x div 4)] else None)"
| "unpack (v # w # x # y # r) =
     map_option (\<lambda>d. byte_of (v * 4 + w div 16) # byte_of (w mod 16 * 16 + x div 4) #
       byte_of (x mod 4 * 64 + y) # d) (unpack r)"

lemma sym_values: "v < 64 \<Longrightarrow> char_to_value (sym v) = Some (byte_of v)"
proof -
  have "list_all (\<lambda>v. char_to_value (sym v) = Some (byte_of v)) [0..<64]" by code_simp
  then show "v < 64 \<Longrightarrow> ?thesis" by (simp add: list_all_iff)
qed

lemma char_to_value_Some: "char_to_value c = Some b \<Longrightarrow> unat b < 64 \<and> c = sym (unat b)"
proof -
  let ?P = "\<lambda>c. case char_to_value c of None \<Rightarrow> True | Some b \<Rightarrow> unat b < 64 \<and> c = sym (unat b)"
  have "list_all ?P [0..<123]" by code_simp
  moreover assume c: "char_to_value c = Some b"
  moreover from this have "c < 123" by (auto simp: char_to_value_def split: if_splits)
  ultimately have "?P c" unfolding list_all_iff by (elim bspec) simp
  with c show ?thesis by simp
qed

lemma drain_steps:
  "drain y 8 = (2, [sym (unat y mod 256 div 4)])"
  "drain y 10 = (4, [sym (unat y mod 1024 div 16)])"
  "drain y 12 = (0, [sym (unat y mod 4096 div 64), sym (unat y mod 64)])"
  using window [of 2 y] window [of 4 y] window [of 6 y] window [of 0 y]
  by (simp_all add: drain.simps [of y 12] drain.simps [of y 10] drain.simps [of y 8] drain.simps [of y 6]
     drain.simps [of y 4] drain.simps [of y 2] drain.simps [of y 0])


lemma sextet_less: "m < 256 \<Longrightarrow> m div 4 < (64 :: nat)"
  by (simp add: less_mult_imp_div_less)

lemma sextets:
  fixes m n :: nat
  assumes "n < 256"
  shows "m mod 4 * 16 + n div 16 < 64" "m mod 16 * 4 + n div 64 < 64"
proof -
  have "m mod 4 < 4" "m mod 16 < 16" "n div 16 < 16" "n div 64 < 4"
    using assms by (simp_all add: less_mult_imp_div_less)
  then show "m mod 4 * 16 + n div 16 < 64" "m mod 16 * 4 + n div 64 < 64" by linarith+
qed

lemma sextet_div:
  fixes m n :: nat
  shows "(m * 256 + n) div 16 = m * 16 + n div 16" "(m * 256 + n) div 64 = m * 4 + n div 64"
    "(m * 64 + n) div 16 = m * 4 + n div 16" "(m * 64 + n) div 4 = m * 16 + n div 4"
  using div_mult_self3 [of 16 "m * 16" n] div_mult_self3 [of 64 "m * 4" n]
    div_mult_self3 [of 16 "m * 4" n] div_mult_self3 [of 4 "m * 16" n] by (simp_all add: mult.commute)

lemma pack_less: "list_all (\<lambda>v. v < 64) (pack d)"
  by (induction d rule: pack.induct) (use sextets [of 0] in \<open>simp_all add: sextets sextet_less unat_byte_less\<close>)

lemma encode_step:
  fixes x :: "32 word"
  defines "y b \<equiv> push_bit 8 x OR ucast (b :: byte)"
  shows "encode_loop x 0 (b # d) = sym (unat b div 4) # encode_loop (y b) 2 d" and "unat (y b) mod 4 = unat b mod 4"
    and "encode_loop x 2 (b # d) = sym (unat x mod 4 * 16 + unat b div 16) # encode_loop (y b) 4 d"
    and "unat (y b) mod 16 = unat b mod 16"
    and "encode_loop x 4 (b # d) =
      sym (unat x mod 16 * 4 + unat b div 64) # sym (unat b mod 64) # encode_loop (y b) 0 d"
proof -
  have b: "unat b < 2 ^ 8" using unat_byte_less [of b] by simp
  have p: "unat (y b) mod 256 = unat b" "unat (y b) mod 1024 = unat x mod 4 * 256 + unat b"
    "unat (y b) mod 4096 = unat x mod 16 * 256 + unat b"
    using pending [of 0 8 b x] pending [of 2 8 b x] pending [of 4 8 b x] b by (simp_all add: y_def)
  show m: "unat (y b) mod 4 = unat b mod 4" "unat (y b) mod 16 = unat b mod 16"
    using mod_mod_cancel [of 4 256 "unat (y b)"] mod_mod_cancel [of 16 256 "unat (y b)"] p(1) by simp_all
  have m64: "unat (y b) mod 64 = unat b mod 64"
    using mod_mod_cancel [of 64 256 "unat (y b)"] p(1) by simp
  show "encode_loop x 0 (b # d) = sym (unat b div 4) # encode_loop (y b) 2 d"
    "encode_loop x 2 (b # d) = sym (unat x mod 4 * 16 + unat b div 16) # encode_loop (y b) 4 d"
    "encode_loop x 4 (b # d) =
      sym (unat x mod 16 * 4 + unat b div 64) # sym (unat b mod 64) # encode_loop (y b) 0 d"
    using p m64 by (simp_all add: drain_steps sextet_div flip: y_def)
qed

lemma encode_end:
  "encode_loop x 0 [] = []" "encode_loop x 2 [] = [sym (unat x mod 4 * 16)]"
  "encode_loop x 4 [] = [sym (unat x mod 16 * 4)]"
proof -
  have "unat (push_bit k x AND 0x3F) = unat x mod 2 ^ (6 - k) * 2 ^ k" if "k \<le> 6" for k
    using that unfolding six_bits
    by (simp add: unsigned_and_eq unsigned_push_bit_eq unsigned_take_bit_eq take_bit_push_bit
        flip: take_bit_eq_mask take_bit_eq_mod push_bit_eq_mult)
  from this [of 4] this [of 2] show "encode_loop x 0 [] = []"
    "encode_loop x 2 [] = [sym (unat x mod 4 * 16)]" "encode_loop x 4 [] = [sym (unat x mod 16 * 4)]"
    by simp_all
qed

lemma encode_loop_pack: "encode_loop x 0 d = map sym (pack d)"
  by (induction d arbitrary: x rule: pack.induct)
    (simp_all only: encode_step encode_end pack.simps list.map append.simps)

lemma decode_step:
  fixes x :: "32 word"
  assumes "v < 64"
  defines "y \<equiv> push_bit 6 x OR ucast (byte_of v)"
  shows "decode_loop x 0 (sym v # s) = decode_loop y 6 s" "unat y mod 64 = v"
    and "decode_loop x 6 (sym v # s) =
      map_option (Cons (byte_of (unat x mod 64 * 4 + v div 16))) (decode_loop y 4 s)" "unat y mod 16 = v mod 16"
    and "decode_loop x 4 (sym v # s) =
      map_option (Cons (byte_of (unat x mod 16 * 16 + v div 4))) (decode_loop y 2 s)" "unat y mod 4 = v mod 4"
    and "decode_loop x 2 (sym v # s) =
      map_option (Cons (byte_of (unat x mod 4 * 64 + v))) (decode_loop y 0 s)"
proof -
  have b: "unat (byte_of v) = v" "v < 2 ^ 6" using assms(1) by simp_all
  have p: "unat y mod 64 = v" "unat y mod 4096 = unat x mod 64 * 64 + v"
    "unat y mod 1024 = unat x mod 16 * 64 + v" "unat y mod 256 = unat x mod 4 * 64 + v"
    using pending [of 0 6 "byte_of v" x] pending [of 6 6 "byte_of v" x] pending [of 4 6 "byte_of v" x]
      pending [of 2 6 "byte_of v" x] b by (simp_all add: y_def)
  show "unat y mod 64 = v" by (rule p(1))
  show "unat y mod 16 = v mod 16" "unat y mod 4 = v mod 4"
    using mod_mod_cancel [of 16 64 "unat y"] mod_mod_cancel [of 4 64 "unat y"] p(1) by simp_all
  have out: "ucast (drop_bit 4 y) = byte_of (unat x mod 64 * 4 + v div 16)"
    "ucast (drop_bit 2 y) = byte_of (unat x mod 16 * 16 + v div 4)"
    "ucast y = byte_of (unat x mod 4 * 64 + v)"
    using arg_cong [where f = byte_of, OF low_byte [of 4 y]] arg_cong [where f = byte_of, OF low_byte [of 2 y]]
      arg_cong [where f = byte_of, OF low_byte [of 0 y]] p by (simp_all add: sextet_div)
  show "decode_loop x 0 (sym v # s) = decode_loop y 6 s"
    "decode_loop x 6 (sym v # s) =
      map_option (Cons (byte_of (unat x mod 64 * 4 + v div 16))) (decode_loop y 4 s)"
    "decode_loop x 4 (sym v # s) =
      map_option (Cons (byte_of (unat x mod 16 * 16 + v div 4))) (decode_loop y 2 s)"
    "decode_loop x 2 (sym v # s) =
      map_option (Cons (byte_of (unat x mod 4 * 64 + v))) (decode_loop y 0 s)"
    by (simp_all add: sym_values assms(1) out flip: y_def)
qed


lemma decode_end:
  "decode_loop x 0 [] = Some []"
  "decode_loop x 6 [] = (if unat x mod 64 = 0 then Some [] else None)"
  "decode_loop x 4 [] = (if unat x mod 16 = 0 then Some [] else None)"
  "decode_loop x 2 [] = (if unat x mod 4 = 0 then Some [] else None)"
  using low_bits_clear [of 6 x] low_bits_clear [of 4 x] low_bits_clear [of 2 x] by simp_all

lemma decode_loop_unpack: "list_all (\<lambda>v. v < 64) vs \<Longrightarrow> decode_loop x 0 (map sym vs) = unpack vs"
  by (induction vs arbitrary: x rule: unpack.induct)
    (simp_all only: list.pred_inject decode_step decode_end unpack.simps list.map if_distrib [of "map_option _"]
      option.map option.map_comp comp_def append.simps cong: if_cong)


lemma split_digit: "n < k \<Longrightarrow> (m * k + n) div k = m" "n < k \<Longrightarrow> (m * k + n) mod k = (n :: nat)"
  by auto

lemma regroup_bytes:
  fixes a b c :: nat
  assumes "a < 256" "b < 256" "c < 256"
  shows "a div 4 * 4 + (a mod 4 * 16 + b div 16) div 16 = a"
    and "(a mod 4 * 16 + b div 16) mod 16 * 16 + (b mod 16 * 4 + c div 64) div 4 = b"
    and "(b mod 16 * 4 + c div 64) mod 4 * 64 + c mod 64 = c"
proof -
  have lt: "b div 16 < 16" "c div 64 < 4"
    using assms by (simp_all add: less_mult_imp_div_less)
  show "a div 4 * 4 + (a mod 4 * 16 + b div 16) div 16 = a"
    "(a mod 4 * 16 + b div 16) mod 16 * 16 + (b mod 16 * 4 + c div 64) div 4 = b"
    "(b mod 16 * 4 + c div 64) mod 4 * 64 + c mod 64 = c"
    by (simp_all only: split_digit lt div_mult_mod_eq)
qed

lemma regroup_sextets:
  fixes v w x y :: nat
  assumes "v < 64" "w < 64" "x < 64" "y < 64"
  shows "(v * 4 + w div 16) div 4 = v"
    and "(v * 4 + w div 16) mod 4 * 16 + (w mod 16 * 16 + x div 4) div 16 = w"
    and "(w mod 16 * 16 + x div 4) mod 16 * 4 + (x mod 4 * 64 + y) div 64 = x"
    and "(x mod 4 * 64 + y) mod 64 = y"
    and "v * 4 + w div 16 < 256" "w mod 16 * 16 + x div 4 < 256" "x mod 4 * 64 + y < 256"
proof -
  have lt: "w div 16 < 4" "x div 4 < 16" "w mod 16 < 16" "x mod 4 < 4"
    using assms by (simp_all add: less_mult_imp_div_less)
  show "(v * 4 + w div 16) div 4 = v"
    "(v * 4 + w div 16) mod 4 * 16 + (w mod 16 * 16 + x div 4) div 16 = w"
    "(w mod 16 * 16 + x div 4) mod 16 * 4 + (x mod 4 * 64 + y) div 64 = x"
    "(x mod 4 * 64 + y) mod 64 = y"
    by (simp_all only: split_digit lt assms div_mult_mod_eq)
  show "v * 4 + w div 16 < 256" "w mod 16 * 16 + x div 4 < 256" "x mod 4 * 64 + y < 256"
    using lt assms by linarith+
qed

lemma unpack_pack: "unpack (pack d) = Some d"
proof (induction d rule: pack.induct)
  case (2 a)
  then show ?case using regroup_bytes(1) [of "unat a" 0 0] unat_byte_less [of a] by simp
next
  case (3 a b)
  then show ?case
    using regroup_bytes [of "unat a" "unat b" 0] unat_byte_less [of a] unat_byte_less [of b] by simp
next
  case (4 a b c r)
  then show ?case
    using regroup_bytes [of "unat a" "unat b" "unat c"] unat_byte_less by simp
qed simp

lemma pack_unpack:
  "unpack vs = Some d \<Longrightarrow> list_all (\<lambda>v. v < 64) vs \<Longrightarrow> length vs mod 4 \<noteq> 1 \<Longrightarrow> vs = pack d"
proof (induction vs arbitrary: d rule: unpack.induct)
  case (3 v w)
  then show ?case using regroup_sextets [of v w 0 0] by (auto split: if_splits)
next
  case (4 v w x)
  then show ?case using regroup_sextets [of v w x 0] by (auto split: if_splits)
next
  case (5 v w x y r)
  then obtain e where "unpack r = Some e" "d = byte_of (v * 4 + w div 16) # byte_of (w mod 16 * 16 + x div 4) #
       byte_of (x mod 4 * 64 + y) # e" by auto
  with 5 show ?case using regroup_sextets [of v w x y] by auto
qed (auto split: if_splits)


lemma decode_loop_symbols:
  "decode_loop x n s = Some d \<Longrightarrow> \<exists>vs. list_all (\<lambda>v. v < 64) vs \<and> s = map sym vs"
proof (induction s arbitrary: x n d)
  case (Cons c s)
  then obtain b where b: "char_to_value c = Some b" by (auto split: option.splits)
  with Cons.prems obtain y m d' where "decode_loop y m s = Some d'"
    by (auto simp: Let_def split: if_splits)
  with Cons.IH obtain vs where "list_all (\<lambda>v. v < 64) vs" "s = map sym vs" by blast
  moreover have "unat b < 64 \<and> c = sym (unat b)" by (rule char_to_value_Some [OF b])
  ultimately have "list_all (\<lambda>v. v < 64) (unat b # vs) \<and> c # s = map sym (unat b # vs)" by simp
  then show ?case by (rule exI)
qed simp

lemma symbols_ascii: "list_all (\<lambda>v. v < 64) vs \<Longrightarrow> utf8_len (map sym vs) = length vs"
proof (induction vs)
  case (Cons v vs)
  have "list_all (\<lambda>v. sym v < 128) [0..<64]" by code_simp
  with Cons show ?case by (simp add: len_utf8_def list_all_iff)
qed simp

lemma length_pack: "length (pack d) mod 4 \<noteq> 1"
  by (induction d rule: pack.induct) simp_all

lemma base64_iff: "base64_url_decode s = Some d \<longleftrightarrow> s = base64_url_encode d"
proof
  assume s: "base64_url_decode s = Some d"
  then obtain vs where vs: "list_all (\<lambda>v. v < 64) vs" "s = map sym vs"
    using decode_loop_symbols by (fastforce simp: base64_url_decode_def split: if_splits)
  with s have "unpack vs = Some d" "length vs mod 4 \<noteq> 1"
    by (auto simp: base64_url_decode_def symbols_ascii decode_loop_unpack split: if_splits)
  with vs show "s = base64_url_encode d"
    using pack_unpack by (auto simp: base64_url_encode_def encode_loop_pack)
next
  assume "s = base64_url_encode d"
  then show "base64_url_decode s = Some d"
    using length_pack [of d]
    by (simp add: base64_url_decode_def base64_url_encode_def encode_loop_pack symbols_ascii pack_less
        decode_loop_unpack unpack_pack)
qed

interpretation base64: canonical_codec "\<lambda>_. True" base64_url_encode base64_url_decode
  by unfold_locales (simp add: base64_iff)

lemma base64_roundtrip [simp]:
  "base64_url_decode (base64_url_encode d) = Some d"
  "base64_url_encode d = base64_url_encode e \<longleftrightarrow> d = e"
  using base64.dec_enc base64.enc_inj by auto

text \<open>C18. Base64url is canonical: the decoder accepts exactly the texts the encoder produces and
  gives back the bytes they were produced from, for every text and every sequence of bytes. So no
  second spelling of a payload decodes, although the 32-bit accumulator drops every bit shifted
  past its end.\<close>

theorem base64_canonical: "base64_url_decode s = Some d \<longleftrightarrow> s = base64_url_encode d"
  by (rule base64_iff)

end
