(* ===== verification/Record_Tokens.thy ===== *)
theory Record_Tokens
  imports Token_Encoding Errors
begin

text \<open>
  Record tokens and field keys: \<open>src/src/tokenization.rs\<close>. The global configuration with its key,
  its cache of field keys and its codec overrides, sealing and opening, the table binding, and
  the provided methods of \<open>Tokenizable\<close>.

  XChaCha20-Poly1305 and Argon2 belong to other packages and are the parameter \<open>crypto\<close>; the
  random nonce is an argument. A model's JSON rendering of its key is serde's, a field of the
  record that stands for the model's implementation of the trait.
\<close>

type_synonym TokenEncoder = "ustr \<Rightarrow> ustr \<Rightarrow> Error + ustr"
type_synonym TokenDecoder = "ustr \<Rightarrow> ustr \<Rightarrow> Error + ustr option"
type_synonym TokenTable = "ustr option \<times> ustr"

record crypto =
  derive_key_with_salt :: "byte list \<Rightarrow> byte list \<Rightarrow> byte list"
  aead_encrypt :: "byte list \<Rightarrow> byte list \<Rightarrow> byte list \<Rightarrow> byte list \<Rightarrow> byte list option"
  aead_decrypt :: "byte list \<Rightarrow> byte list \<Rightarrow> byte list \<Rightarrow> byte list \<Rightarrow> byte list option"

record ConfiguredEncryptionKey =
  raw_key :: ustr
  derived_key :: "byte list"
  scoped_derived :: "(ustr \<times> byte list) list"

record TokenizationState =
  encryption_key :: "ConfiguredEncryptionKey option"
  global_encoder :: "TokenEncoder option"
  global_decoder :: "TokenDecoder option"

subsection \<open>Keys\<close>

definition TOKENIZATION_KDF_SALT :: "byte list" where
  "TOKENIZATION_KDF_SALT = as_bytes (lit ''tideorm::xchacha20poly1305-key::v2'')"

definition ENCRYPTED_FIELD_SCOPE_SALT_PREFIX :: "byte list" where
  "ENCRYPTED_FIELD_SCOPE_SALT_PREFIX = as_bytes (lit ''tideorm::xchacha20poly1305-field-key::v1::'')"

definition derive_encryption_key :: "crypto \<Rightarrow> ustr \<Rightarrow> byte list" where
  "derive_encryption_key C key = derive_key_with_salt C (as_bytes key) TOKENIZATION_KDF_SALT"

definition derive_scoped_encryption_key :: "crypto \<Rightarrow> byte list \<Rightarrow> ustr \<Rightarrow> ustr \<Rightarrow> byte list" where
  "derive_scoped_encryption_key C master table_name column_name =
     derive_key_with_salt C master
       (ENCRYPTED_FIELD_SCOPE_SALT_PREFIX @ as_bytes table_name @ [0] @ as_bytes column_name)"

definition ConfiguredEncryptionKey_new :: "crypto \<Rightarrow> ustr \<Rightarrow> ConfiguredEncryptionKey" where
  "ConfiguredEncryptionKey_new C raw =
     \<lparr>raw_key = raw, derived_key = derive_encryption_key C raw, scoped_derived = []\<rparr>"

text \<open>The field key, from the cache or derived and then put there unless another call did first.\<close>

definition derived_field_key ::
    "crypto \<Rightarrow> ustr \<Rightarrow> ustr \<Rightarrow> ConfiguredEncryptionKey \<Rightarrow> byte list \<times> ConfiguredEncryptionKey" where
  "derived_field_key C table_name column_name k =
     (let scope_cache_key = table_name @ [ch_nul] @ column_name
      in case map_of (scoped_derived k) scope_cache_key of
           Some derived \<Rightarrow> (derived, k)
         | None \<Rightarrow>
             let derived = derive_scoped_encryption_key C (derived_key k) table_name column_name
             in (derived, k\<lparr>scoped_derived := (scope_cache_key, derived) # scoped_derived k\<rparr>))"

definition configured_key :: "(ConfiguredEncryptionKey \<Rightarrow> 'a) \<Rightarrow> TokenizationState \<Rightarrow> Error + 'a" where
  "configured_key read st =
     (case encryption_key st of
        Some k \<Rightarrow> Inr (read k)
      | None \<Rightarrow> Inl (Tokenization (lit ''No encryption key configured'')))"

subsection \<open>\<open>TokenConfig\<close>\<close>

definition set_encryption_key :: "crypto \<Rightarrow> ustr \<Rightarrow> TokenizationState \<Rightarrow> TokenizationState" where
  "set_encryption_key C key st =
     st\<lparr>encryption_key := (if trim key = [] then None else Some (ConfiguredEncryptionKey_new C key))\<rparr>"

definition get_encryption_key :: "TokenizationState \<Rightarrow> Error + ustr" where
  "get_encryption_key st = configured_key raw_key st"

definition get_derived_encryption_key :: "TokenizationState \<Rightarrow> Error + byte list" where
  "get_derived_encryption_key st = configured_key derived_key st"

definition get_derived_encryption_key_for_field ::
    "crypto \<Rightarrow> ustr \<Rightarrow> ustr \<Rightarrow> TokenizationState \<Rightarrow> (Error + byte list) \<times> TokenizationState" where
  "get_derived_encryption_key_for_field C table_name column_name st =
     (case configured_key (derived_field_key C table_name column_name) st of
        Inl e \<Rightarrow> (Inl e, st)
      | Inr (key, k) \<Rightarrow> (Inr key, st\<lparr>encryption_key := Some k\<rparr>))"

definition has_encryption_key :: "TokenizationState \<Rightarrow> bool" where
  "has_encryption_key st \<longleftrightarrow> encryption_key st \<noteq> None"

definition set_encoder :: "TokenEncoder \<Rightarrow> TokenizationState \<Rightarrow> TokenizationState" where
  "set_encoder e st = st\<lparr>global_encoder := Some e\<rparr>"

definition set_decoder :: "TokenDecoder \<Rightarrow> TokenizationState \<Rightarrow> TokenizationState" where
  "set_decoder d st = st\<lparr>global_decoder := Some d\<rparr>"

definition token_reset :: "TokenizationState \<Rightarrow> TokenizationState" where
  "token_reset st = st\<lparr>encryption_key := None, global_encoder := None, global_decoder := None\<rparr>"

subsection \<open>Sealing and opening\<close>

definition NONCE_LEN :: nat where
  "NONCE_LEN = 24"

definition seal :: "crypto \<Rightarrow> byte list \<Rightarrow> byte list \<Rightarrow> byte list \<Rightarrow> byte list \<Rightarrow> byte list option" where
  "seal C nonce key plaintext aad = map_option ((@) nonce) (aead_encrypt C key nonce aad plaintext)"

definition open_sealed :: "crypto \<Rightarrow> byte list \<Rightarrow> byte list \<Rightarrow> byte list \<Rightarrow> byte list option" where
  "open_sealed C key sealed aad =
     (if length sealed \<le> NONCE_LEN then None
      else aead_decrypt C key (take NONCE_LEN sealed) aad (drop NONCE_LEN sealed))"

definition seal_token :: "crypto \<Rightarrow> byte list \<Rightarrow> TokenizationState \<Rightarrow> ustr \<Rightarrow> byte list \<Rightarrow> Error + ustr" where
  "seal_token C nonce st record_id aad =
     try_bind (get_derived_encryption_key st) (\<lambda>key.
       case seal C nonce key (as_bytes record_id) aad of
         Some sealed \<Rightarrow> Inr (base64_url_encode sealed)
       | None \<Rightarrow> Inl (Tokenization (lit ''Failed to encrypt token payload'')))"

definition open_token :: "crypto \<Rightarrow> TokenizationState \<Rightarrow> ustr \<Rightarrow> byte list \<Rightarrow> Error + ustr option" where
  "open_token C st token aad =
     try_bind (get_derived_encryption_key st) (\<lambda>key. Inr
       (case base64_url_decode token of
          None \<Rightarrow> None
        | Some sealed \<Rightarrow>
            (case open_sealed C key sealed aad of
               None \<Rightarrow> None
             | Some plaintext \<Rightarrow> from_utf8 plaintext)))"

definition default_encode :: "crypto \<Rightarrow> byte list \<Rightarrow> TokenizationState \<Rightarrow> TokenEncoder" where
  "default_encode C nonce st record_id model_name = seal_token C nonce st record_id (as_bytes model_name)"

definition default_decode :: "crypto \<Rightarrow> TokenizationState \<Rightarrow> TokenDecoder" where
  "default_decode C st token model_name = open_token C st token (as_bytes model_name)"

definition get_encoder :: "crypto \<Rightarrow> byte list \<Rightarrow> TokenizationState \<Rightarrow> TokenEncoder" where
  "get_encoder C nonce st = (case global_encoder st of Some e \<Rightarrow> e | None \<Rightarrow> default_encode C nonce st)"

definition get_decoder :: "crypto \<Rightarrow> TokenizationState \<Rightarrow> TokenDecoder" where
  "get_decoder C st = (case global_decoder st of Some d \<Rightarrow> d | None \<Rightarrow> default_decode C st)"

definition TABLE_TOKEN_PREFIX :: ustr where
  "TABLE_TOKEN_PREFIX = lit ''v2.''"

definition table_binding :: "TokenTable \<Rightarrow> byte list" where
  "table_binding tbl =
     (case tbl of (schema, table_name) \<Rightarrow>
        as_bytes (lit ''tideorm-token-v2'' @ [ch_nul] @
          (case schema of Some s \<Rightarrow> s | None \<Rightarrow> []) @ [ch_nul] @ table_name))"

definition encode_for_table :: "crypto \<Rightarrow> byte list \<Rightarrow> TokenizationState \<Rightarrow> ustr \<Rightarrow> TokenTable \<Rightarrow> Error + ustr" where
  "encode_for_table C nonce st record_id tbl =
     try_bind (seal_token C nonce st record_id (table_binding tbl)) (\<lambda>t. Inr (TABLE_TOKEN_PREFIX @ t))"

definition decode_for_table ::
    "crypto \<Rightarrow> TokenizationState \<Rightarrow> ustr \<Rightarrow> TokenTable \<Rightarrow> ustr \<Rightarrow> Error + ustr option" where
  "decode_for_table C st token tbl model_name =
     (case strip_prefix TABLE_TOKEN_PREFIX token of
        Some sealed \<Rightarrow> open_token C st sealed (table_binding tbl)
      | None \<Rightarrow> default_decode C st token model_name)"

subsection \<open>\<open>Tokenizable\<close>\<close>

record 'k tokenizable =
  token_model_name :: ustr
  token_table :: "TokenTable option"
  token_encoder :: "TokenEncoder option"
  token_decoder :: "TokenDecoder option"
  key_to_string :: "'k \<Rightarrow> ustr + ustr"
  key_from_str :: "ustr \<Rightarrow> 'k option"

definition token_codecs ::
    "'k tokenizable \<Rightarrow> TokenizationState \<Rightarrow> TokenEncoder option \<times> TokenDecoder option" where
  "token_codecs M st =
     ((case token_encoder M of Some e \<Rightarrow> Some e | None \<Rightarrow> global_encoder st),
      (case token_decoder M of Some d \<Rightarrow> Some d | None \<Rightarrow> global_decoder st))"

definition tokenize_id ::
    "crypto \<Rightarrow> byte list \<Rightarrow> TokenizationState \<Rightarrow> 'k tokenizable \<Rightarrow> 'k \<Rightarrow> Error + ustr" where
  "tokenize_id C nonce st M key =
     (case key_to_string M key of
        Inl err \<Rightarrow> Inl (Tokenization (lit ''Failed to serialize token primary key: '' @ err))
      | Inr payload_text \<Rightarrow>
          (case (token_codecs M st, token_table M) of
             ((None, None), Some tbl) \<Rightarrow> encode_for_table C nonce st payload_text tbl
           | ((None, _), _) \<Rightarrow> default_encode C nonce st payload_text (token_model_name M)
           | ((Some e, _), _) \<Rightarrow> e payload_text (token_model_name M)))"

definition decode_token ::
    "crypto \<Rightarrow> TokenizationState \<Rightarrow> 'k tokenizable \<Rightarrow> ustr \<Rightarrow> Error + 'k" where
  "decode_token C st M token =
     try_bind
       (case (token_codecs M st, token_table M) of
          ((None, None), Some tbl) \<Rightarrow> decode_for_table C st token tbl (token_model_name M)
        | ((_, None), _) \<Rightarrow> default_decode C st token (token_model_name M)
        | ((_, Some d), _) \<Rightarrow> d token (token_model_name M))
       (\<lambda>decoded.
         case decoded of
           None \<Rightarrow> Inl (InvalidToken (lit ''Failed to decode token''))
         | Some payload_text \<Rightarrow>
             (case key_from_str M payload_text of
                Some key \<Rightarrow> Inr key
              | None \<Rightarrow> Inl (InvalidToken
                  (lit ''The decoded token does not hold a primary key of model '' @ token_model_name M))))"


subsection \<open>What sealing promises\<close>

text \<open>The cipher is deterministic once the nonce is fixed: decryption succeeds exactly on what
  encryption produced, and a ciphertext carries at least its tag.\<close>

definition aead_exact :: "crypto \<Rightarrow> bool" where
  "aead_exact C \<longleftrightarrow>
     (\<forall>k n a m c. aead_decrypt C k n a c = Some m \<longleftrightarrow> aead_encrypt C k n a m = Some c) \<and>
     (\<forall>k n a m. aead_encrypt C k n a m \<noteq> Some [])"

text \<open>The associated data is authenticated: no ciphertext stands for two.\<close>

definition aead_bound :: "crypto \<Rightarrow> bool" where
  "aead_bound C \<longleftrightarrow>
     (\<forall>k n a a' m m' c. aead_encrypt C k n a m = Some c \<longrightarrow> aead_encrypt C k n a' m' = Some c \<longrightarrow> a = a')"

lemma open_sealed_iff:
  assumes "aead_exact C"
  shows "open_sealed C key sealed aad = Some m \<longleftrightarrow>
    (\<exists>nonce. length nonce = NONCE_LEN \<and> seal C nonce key m aad = Some sealed)"
proof
  assume o: "open_sealed C key sealed aad = Some m"
  then have len: "NONCE_LEN < length sealed" by (auto simp: open_sealed_def split: if_splits)
  with o assms have "aead_encrypt C key (take NONCE_LEN sealed) aad m = Some (drop NONCE_LEN sealed)"
    by (simp add: open_sealed_def aead_exact_def)
  then have "seal C (take NONCE_LEN sealed) key m aad = Some sealed" by (simp add: seal_def)
  with len show "\<exists>nonce. length nonce = NONCE_LEN \<and> seal C nonce key m aad = Some sealed"
    by (intro exI [of _ "take NONCE_LEN sealed"]) simp
next
  assume "\<exists>nonce. length nonce = NONCE_LEN \<and> seal C nonce key m aad = Some sealed"
  then obtain nonce c where n: "length nonce = NONCE_LEN" "aead_encrypt C key nonce aad m = Some c"
    "sealed = nonce @ c" by (auto simp: seal_def)
  moreover from n(2) assms have "c \<noteq> []" by (auto simp: aead_exact_def)
  ultimately show "open_sealed C key sealed aad = Some m"
    using assms by (auto simp: open_sealed_def aead_exact_def)
qed

lemma open_token_Some:
  assumes "aead_exact C"
  shows "open_token C st token aad = Inr (Some p) \<longleftrightarrow>
    list_all is_scalar p \<and>
    (\<exists>nonce. length nonce = NONCE_LEN \<and> seal_token C nonce st p aad = Inr token)"
proof (cases "get_derived_encryption_key st")
  case (Inr key)
  have "open_token C st token aad = Inr (Some p) \<longleftrightarrow>
      (\<exists>sealed. token = base64_url_encode sealed \<and> open_sealed C key sealed aad = Some (as_bytes p) \<and>
         list_all is_scalar p)"
    using Inr by (auto simp: open_token_def from_utf8_iff base64.dec_iff split: option.splits)
  also have "\<dots> \<longleftrightarrow> list_all is_scalar p \<and>
      (\<exists>nonce. length nonce = NONCE_LEN \<and> seal_token C nonce st p aad = Inr token)"
    using Inr by (auto simp: open_sealed_iff [OF assms] seal_token_def split: option.splits)
  finally show ?thesis .
qed (simp add: open_token_def seal_token_def)

text \<open>C19. A token opens exactly when it was sealed: under any state and associated data the opener
  returns a payload for precisely the tokens that sealing that payload produces for some nonce.
  There is no second spelling, a truncated or altered token opens to nothing, and without a key
  both fail.\<close>

theorem token_opens_iff_sealed:
  assumes "aead_exact C"
  shows "open_token C st token aad = Inr (Some p) \<longleftrightarrow>
    list_all is_scalar p \<and>
    (\<exists>nonce. length nonce = NONCE_LEN \<and> seal_token C nonce st p aad = Inr token)"
  by (rule open_token_Some [OF assms])

text \<open>A cipher for closed examples: the associated data, delimited, and the message in clear.\<close>

fun delimit :: "byte list \<Rightarrow> byte list \<Rightarrow> byte list" where
  "delimit [] m = 0 # m"
| "delimit (b # a) m = 1 # b # delimit a m"

fun undelimit :: "byte list \<Rightarrow> byte list \<Rightarrow> byte list option" where
  "undelimit [] (z # m) = (if z = 0 then Some m else None)"
| "undelimit (b # a) (o1 # b' # c) = (if o1 = 1 \<and> b' = b then undelimit a c else None)"
| "undelimit _ _ = None"

definition clear_crypto :: crypto where
  "clear_crypto = \<lparr>
     derive_key_with_salt = (\<lambda>secret salt. salt @ secret),
     aead_encrypt = (\<lambda>k n a m. Some (delimit a m)),
     aead_decrypt = (\<lambda>k n a c. undelimit a c)\<rparr>"

lemma clear_crypto_laws: "aead_exact clear_crypto" "aead_bound clear_crypto"
proof -
  have nonempty: "delimit a m \<noteq> []" for a m by (cases a) auto
  then have "undelimit a c = Some m \<longleftrightarrow> delimit a m = c" for a c m
    by (induction a c rule: undelimit.induct) auto
  with nonempty show "aead_exact clear_crypto" by (simp add: aead_exact_def clear_crypto_def)
  have "delimit a m = delimit a' m' \<Longrightarrow> a = a'" for a a' m m'
  proof (induction a arbitrary: a')
    case Nil
    then show ?case by (cases a') auto
  next
    case (Cons b a)
    then show ?case by (cases a') auto
  qed
  then show "aead_bound clear_crypto" unfolding aead_bound_def clear_crypto_def by simp blast
qed

definition example_state :: TokenizationState where
  "example_state = set_encryption_key clear_crypto (lit ''k'')
     \<lparr>encryption_key = None, global_encoder = None, global_decoder = None\<rparr>"

theorem token_opens_iff_sealed_witness:
  "aead_exact clear_crypto \<and>
   (open_token clear_crypto example_state (lit ''x'') [] = Inr (Some (lit ''1'')) \<longleftrightarrow>
    list_all is_scalar (lit ''1'') \<and>
    (\<exists>nonce. length nonce = NONCE_LEN \<and>
       seal_token clear_crypto nonce example_state (lit ''1'') [] = Inr (lit ''x'')))"
  using token_opens_iff_sealed [OF clear_crypto_laws(1)] clear_crypto_laws(1) by blast

subsection \<open>Table binding\<close>

definition is_identifier_text :: "ustr \<Rightarrow> bool" where
  "is_identifier_text s \<longleftrightarrow> list_all (\<lambda>c. is_scalar c \<and> c \<noteq> ch_nul) s"

definition schema_text :: "TokenTable \<Rightarrow> ustr" where
  "schema_text tbl = (case fst tbl of Some s \<Rightarrow> s | None \<Rightarrow> [])"

lemma nul_split:
  "ch_nul \<notin> set a \<Longrightarrow> ch_nul \<notin> set b \<Longrightarrow> a @ ch_nul # x = b @ ch_nul # y \<longleftrightarrow> a = b \<and> x = y"
proof (induction a arbitrary: b)
  case Nil
  then show ?case by (cases b) auto
next
  case (Cons c a)
  then show ?case by (cases b) auto
qed

lemma identifier_text_facts:
  "is_identifier_text s \<Longrightarrow> list_all is_scalar s \<and> ch_nul \<notin> set s"
  by (auto simp: is_identifier_text_def list_all_iff)

lemma table_binding_inj:
  assumes "is_identifier_text (schema_text tbl)" "is_identifier_text (snd tbl)"
    "is_identifier_text (schema_text tbl')" "is_identifier_text (snd tbl')"
    "table_binding tbl = table_binding tbl'"
  shows "schema_text tbl = schema_text tbl' \<and> snd tbl = snd tbl'"
proof -
  let ?t = "\<lambda>t. lit ''tideorm-token-v2'' @ [ch_nul] @ schema_text t @ [ch_nul] @ snd t"
  have "table_binding t = as_bytes (?t t)" for t
    by (simp add: table_binding_def schema_text_def split: prod.split)
  moreover have "list_all is_scalar (?t t)"
    if "is_identifier_text (schema_text t)" "is_identifier_text (snd t)" for t
    using that [THEN identifier_text_facts] by (simp add: lit_def is_scalar_def)
  ultimately have "?t tbl = ?t tbl'" using assms utf8.enc_inj by metis
  then have "schema_text tbl @ ch_nul # snd tbl = schema_text tbl' @ ch_nul # snd tbl'" by simp
  then show ?thesis using assms(1,3) [THEN identifier_text_facts] by (simp add: nul_split)
qed


lemma codecs_default: "token_codecs M st = (None, None) \<longleftrightarrow>
    token_encoder M = None \<and> token_decoder M = None \<and> global_encoder st = None \<and> global_decoder st = None"
  by (auto simp: token_codecs_def split: option.splits)

lemma tokenize_for_table:
  assumes "token_codecs M st = (None, None)" "token_table M = Some tbl" "key_to_string M key = Inr p"
    "tokenize_id C nonce st M key = Inr token"
  obtains sealed where "token = TABLE_TOKEN_PREFIX @ sealed"
    "seal_token C nonce st p (table_binding tbl) = Inr sealed"
  using assms by (auto simp: tokenize_id_def encode_for_table_def try_bind_Inr_iff)

lemma decode_for_table_prefixed:
  "decode_for_table C st (TABLE_TOKEN_PREFIX @ sealed) tbl name = open_token C st sealed (table_binding tbl)"
  by (simp add: decode_for_table_def strip_prefix_def)

lemma decode_token_plain:
  assumes "token_codecs M st = (None, None)" "token_table M = Some tbl"
  shows "decode_token C st M (TABLE_TOKEN_PREFIX @ sealed) = Inr key \<longleftrightarrow>
    (\<exists>p. open_token C st sealed (table_binding tbl) = Inr (Some p) \<and> key_from_str M p = Some key)"
  using assms
  by (cases "open_token C st sealed (table_binding tbl)")
    (auto simp: decode_token_def decode_for_table_prefixed split: option.splits)

text \<open>C20. A model's token is its own. The token issued for a key decodes, for the model that issued
  it, to that key; and if it decodes at all for another model on the same configuration, that
  model has the same schema and table: parts of the binding never run together, an absent schema
  being the empty one.\<close>

theorem token_decodes_for_its_table:
  assumes "aead_exact C" "aead_bound C"
    and "token_codecs M st = (None, None)" "token_codecs M' st = (None, None)"
    and "token_table M = Some tbl" "token_table M' = Some tbl'"
    and "is_identifier_text (schema_text tbl)" "is_identifier_text (snd tbl)"
    and "is_identifier_text (schema_text tbl')" "is_identifier_text (snd tbl')"
    and "key_to_string M key = Inr p" "key_from_str M p = Some key" "list_all is_scalar p"
    and "length nonce = NONCE_LEN" "tokenize_id C nonce st M key = Inr token"
  shows "decode_token C st M token = Inr key \<and>
    (\<forall>key'. decode_token C st M' token = Inr key' \<longrightarrow> schema_text tbl = schema_text tbl' \<and> snd tbl = snd tbl')"
proof -
  obtain sealed where tok: "token = TABLE_TOKEN_PREFIX @ sealed"
    and sealed: "seal_token C nonce st p (table_binding tbl) = Inr sealed"
    by (rule tokenize_for_table [OF assms(3,5,11,15)])
  have "open_token C st sealed (table_binding tbl) = Inr (Some p)"
    using open_token_Some [OF assms(1)] assms(13,14) sealed by blast
  then have "decode_token C st M token = Inr key"
    using assms(3,5,12) by (auto simp: tok decode_token_plain)
  moreover have "schema_text tbl = schema_text tbl' \<and> snd tbl = snd tbl'"
    if opens: "decode_token C st M' token = Inr key'" for key'
  proof -
    obtain p' where "open_token C st sealed (table_binding tbl') = Inr (Some p')"
      using opens assms(4,6) by (auto simp: tok decode_token_plain)
    then obtain nonce' where n: "length nonce' = NONCE_LEN" "seal_token C nonce' st p' (table_binding tbl') = Inr sealed"
      using open_token_Some [OF assms(1)] by blast
    from sealed n(2) obtain k c c' where
      "aead_encrypt C k nonce (table_binding tbl) (as_bytes p) = Some c" "sealed = base64_url_encode (nonce @ c)"
      "aead_encrypt C k nonce' (table_binding tbl') (as_bytes p') = Some c'" "sealed = base64_url_encode (nonce' @ c')"
      by (auto simp: seal_token_def seal_def try_bind_Inr_iff split: option.splits)
    with n(1) assms(14) have "table_binding tbl = table_binding tbl'"
      using assms(2) unfolding aead_bound_def by (metis append_eq_append_conv base64_roundtrip(2))
    with assms(7-10) show ?thesis by (rule table_binding_inj)
  qed
  ultimately show ?thesis by blast
qed

definition example_model :: "ustr \<Rightarrow> ustr tokenizable" where
  "example_model table_name = \<lparr>token_model_name = lit ''User'', token_table = Some (None, table_name),
     token_encoder = None, token_decoder = None, key_to_string = Inr, key_from_str = Some\<rparr>"

theorem token_decodes_for_its_table_witness:
  "\<exists>token. tokenize_id clear_crypto (replicate 24 7) example_state (example_model (lit ''a'')) (lit ''1'') = Inr token \<and>
     decode_token clear_crypto example_state (example_model (lit ''a'')) token = Inr (lit ''1'')"
proof -
  let ?tok = "tokenize_id clear_crypto (replicate 24 7) example_state (example_model (lit ''a'')) (lit ''1'')"
  have codecs: "token_codecs (example_model t) example_state = (None, None)" for t
    by (simp add: codecs_default example_model_def example_state_def set_encryption_key_def)
  have ident: "is_identifier_text []" "is_identifier_text (lit ''a'')" "list_all is_scalar (lit ''1'')"
    by (simp_all add: is_identifier_text_def lit_def is_scalar_def)
  obtain token where tok: "?tok = Inr token"
    by (simp add: tokenize_id_def codecs encode_for_table_def seal_token_def example_state_def seal_def
        set_encryption_key_def trim_def trim_start_def lit_def is_whitespace_def clear_crypto_def
        get_derived_encryption_key_def configured_key_def example_model_def token_codecs_def)
  have "decode_token clear_crypto example_state (example_model (lit ''a'')) token = Inr (lit ''1'')"
    using token_decodes_for_its_table [OF clear_crypto_laws codecs [of "lit ''a''"] codecs [of "lit ''a''"],
        of "(None, lit ''a'')" "(None, lit ''a'')" "lit ''1''" "lit ''1''" "replicate 24 7" token] ident tok
    by (simp add: example_model_def schema_text_def NONCE_LEN_def)
  with tok show ?thesis by blast
qed


subsection \<open>Field keys\<close>

text \<open>A sequence of field key requests, each served from the state the last one left.\<close>

fun field_key_requests ::
    "crypto \<Rightarrow> TokenizationState \<Rightarrow> (ustr \<times> ustr) list \<Rightarrow> (Error + byte list) list" where
  "field_key_requests C st [] = []"
| "field_key_requests C st ((t, c) # rs) =
     (case get_derived_encryption_key_for_field C t c st of
        (r, st') \<Rightarrow> r # field_key_requests C st' rs)"

definition scope_salt :: "ustr \<Rightarrow> byte list" where
  "scope_salt scope = ENCRYPTED_FIELD_SCOPE_SALT_PREFIX @ as_bytes scope"

definition key_cache_ok :: "crypto \<Rightarrow> ConfiguredEncryptionKey \<Rightarrow> bool" where
  "key_cache_ok C k \<longleftrightarrow>
     list_all (\<lambda>(scope, v). v = derive_key_with_salt C (derived_key k) (scope_salt scope)) (scoped_derived k)"

lemma derive_scoped_scope:
  "derive_scoped_encryption_key C m t c = derive_key_with_salt C m (scope_salt (t @ [ch_nul] @ c))"
  by (simp add: derive_scoped_encryption_key_def scope_salt_def as_bytes_def utf8_char_def byte_of_def)

lemma derived_field_key_exact:
  assumes "key_cache_ok C k" "derived_field_key C t c k = (v, k')"
  shows "v = derive_scoped_encryption_key C (derived_key k) t c \<and> key_cache_ok C k' \<and>
    derived_key k' = derived_key k"
  using assms
  by (auto simp: derived_field_key_def key_cache_ok_def derive_scoped_scope list_all_iff Let_def
      dest!: map_of_SomeD split: option.splits)

lemma field_key_requests_exact:
  "encryption_key st = Some k \<Longrightarrow> key_cache_ok C k \<Longrightarrow>
   field_key_requests C st rs = map (\<lambda>(t, c). Inr (derive_scoped_encryption_key C (derived_key k) t c)) rs"
proof (induction rs arbitrary: st k)
  case (Cons r rs)
  obtain t c where r: "r = (t, c)" by fastforce
  obtain v k' where d: "derived_field_key C t c k = (v, k')" by fastforce
  note e = derived_field_key_exact [OF Cons.prems(2) d]
  have "get_derived_encryption_key_for_field C t c st = (Inr v, st\<lparr>encryption_key := Some k'\<rparr>)"
    using Cons.prems(1) d by (simp add: get_derived_encryption_key_for_field_def configured_key_def)
  with e Cons.IH [of "st\<lparr>encryption_key := Some k'\<rparr>" k'] show ?case by (simp add: r)
qed simp

text \<open>The cache of field keys is invisible: after a key is set, any sequence of requests is
  answered with the keys derived for each table and column from that key alone, in any order and
  with any repetition; a blank key configures none, and every request fails. Different tables or
  columns are derived with different salts.\<close>

theorem field_keys_exact:
  "field_key_requests C (set_encryption_key C key st) rs =
     (if trim key = [] then map (\<lambda>_. Inl (Tokenization (lit ''No encryption key configured''))) rs
      else map (\<lambda>(t, c). Inr (derive_scoped_encryption_key C (derive_encryption_key C key) t c)) rs) \<and>
   (\<forall>t c t' c'. is_identifier_text t \<and> is_identifier_text c \<and> is_identifier_text t' \<and> is_identifier_text c' \<longrightarrow>
      scope_salt (t @ [ch_nul] @ c) = scope_salt (t' @ [ch_nul] @ c') \<longrightarrow> t = t' \<and> c = c')"
proof (intro conjI allI impI)
  have none: "encryption_key s = None \<Longrightarrow>
      field_key_requests C s rs = map (\<lambda>_. Inl (Tokenization (lit ''No encryption key configured''))) rs" for s
    by (induction rs) (auto simp: get_derived_encryption_key_for_field_def configured_key_def)
  show "field_key_requests C (set_encryption_key C key st) rs =
     (if trim key = [] then map (\<lambda>_. Inl (Tokenization (lit ''No encryption key configured''))) rs
      else map (\<lambda>(t, c). Inr (derive_scoped_encryption_key C (derive_encryption_key C key) t c)) rs)"
    using none field_key_requests_exact [of "set_encryption_key C key st" "ConfiguredEncryptionKey_new C key" C rs]
    by (simp add: set_encryption_key_def key_cache_ok_def ConfiguredEncryptionKey_new_def)
next
  fix t c t' c'
  assume i: "is_identifier_text t \<and> is_identifier_text c \<and> is_identifier_text t' \<and> is_identifier_text c'"
    and "scope_salt (t @ [ch_nul] @ c) = scope_salt (t' @ [ch_nul] @ c')"
  then have "as_bytes (t @ [ch_nul] @ c) = as_bytes (t' @ [ch_nul] @ c')" by (simp add: scope_salt_def)
  moreover have "list_all is_scalar (t @ [ch_nul] @ c)" "list_all is_scalar (t' @ [ch_nul] @ c')"
    using i by (auto dest!: identifier_text_facts simp: is_scalar_def)
  ultimately have "t @ ch_nul # c = t' @ ch_nul # c'" using utf8.enc_inj by fastforce
  then show "t = t'" "c = c'" using i identifier_text_facts by (auto simp: nul_split)
qed

theorem field_keys_exact_witness:
  "field_key_requests clear_crypto (set_encryption_key clear_crypto (lit ''k'') example_state)
     [(lit ''t'', lit ''c'')] =
   [Inr (derive_scoped_encryption_key clear_crypto (derive_encryption_key clear_crypto (lit ''k'')) (lit ''t'') (lit ''c''))]
   \<and> scope_salt (lit ''t'' @ [ch_nul] @ lit ''c'') \<noteq> scope_salt (lit ''tc'' @ [ch_nul] @ [])"
proof -
  note exact = field_keys_exact [of clear_crypto "lit ''k''" example_state "[(lit ''t'', lit ''c'')]"]
  have "trim (lit ''k'') \<noteq> []" by (simp add: trim_def trim_start_def lit_def is_whitespace_def)
  moreover have "is_identifier_text (lit ''t'')" "is_identifier_text (lit ''c'')" "is_identifier_text (lit ''tc'')"
    "is_identifier_text []" "lit ''t'' \<noteq> lit ''tc''"
    by (simp_all add: is_identifier_text_def lit_def is_scalar_def)
  ultimately show ?thesis using exact [THEN conjunct1] exact [THEN conjunct2, rule_format] by auto
qed

end
