(* ===== verification/Sql_Fragments.thy ===== *)
theory Sql_Fragments
  imports Sql_Quoting
begin

text \<open>
  What a fragment of raw SQL satisfies once the validators of
  \<open>src/src/internal/sql_safety.rs\<close> accept it: how every server reads it, and which words and
  symbols a HAVING clause or a subquery can hold. The reading is \<open>server_view\<close>, the text without
  the content of its quoted runs; words and parenthesis depth are read off it independently of
  the scanner, and the scanner is shown to agree.
\<close>

subsection \<open>Accepted fragments hold no separator and no comment\<close>

text \<open>
  What a server that reads backslashes in \<open>mode\<close> sees of a text outside quotes: its
  characters, each quoted run reduced to its opening quote. \<open>None\<close> when a run never closes.
\<close>

function server_view :: "EscapeMode \<Rightarrow> ustr \<Rightarrow> ustr option" where
  "server_view mode [] = Some []"
| "server_view mode (c # s) =
     (if c = ch_quote \<or> c = ch_dquote \<or> c = ch_backtick then
        (case run_scan c mode s of
           (n, Closed) \<Rightarrow> map_option (Cons c) (server_view mode (drop n s))
         | _ \<Rightarrow> None)
      else map_option (Cons c) (server_view mode s))"
  by pat_completeness auto
termination by (relation "measure (\<lambda>(_, s). length s)") auto

definition no_separator_or_comment :: "ustr \<Rightarrow> bool" where
  "no_separator_or_comment v \<longleftrightarrow>
     ch_semicolon \<notin> set v \<and> ch_nul \<notin> set v \<and> ch_hash \<notin> set v \<and>
     \<not> sublist (lit ''--'') v \<and> \<not> sublist (lit ''/*'') v \<and> \<not> sublist (lit ''*/'') v"

lemma server_view_hd: "server_view mode (c # s) = Some v \<Longrightarrow> \<exists>w. v = c # w"
  by (auto split: if_splits prod.splits QuotedRun.splits)

lemma clean_Cons:
  "no_separator_or_comment (c # v) \<longleftrightarrow>
     c \<noteq> ch_semicolon \<and> c \<noteq> ch_nul \<and> c \<noteq> ch_hash \<and>
     \<not> (c = ch_minus \<and> peek_char v ch_minus) \<and> \<not> (c = ch_slash \<and> peek_char v ch_star) \<and>
     \<not> (c = ch_star \<and> peek_char v ch_slash) \<and> no_separator_or_comment v"
  by (cases v) (auto simp: no_separator_or_comment_def sublist_Cons_right)

lemma server_view_peek: "server_view mode s = Some v \<Longrightarrow> peek_char v c = peek_char s c"
  by (cases s) (auto simp del: server_view.simps(2) dest: server_view_hd)

lemma find_forbidden_None_views:
  "find_forbidden_loop U previous s = None \<Longrightarrow>
   \<exists>v. (\<forall>mode. server_view mode s = Some v) \<and> no_separator_or_comment v"
proof (induction U previous s rule: find_forbidden_loop.induct)
  case (1 U previous)
  then show ?case by (simp add: no_separator_or_comment_def)
next
  case (2 U previous ch s)
  show ?case
  proof (cases "ch = ch_quote \<or> ch = ch_dquote \<or> ch = ch_backtick")
    case True
    then obtain n where n: "run_scan ch RejectAmbiguous s = (n, Closed)"
      and rest: "find_forbidden_loop U (Some ch) (drop n s) = None"
      using 2(4) by (auto simp: consume_quoted_run_scan apfst_def map_prod_def
          split: prod.splits QuotedRun.splits)
    have "\<exists>v. (\<forall>mode. server_view mode (drop n s) = Some v) \<and> no_separator_or_comment v"
      using True 2(1,2) n rest
      by (auto simp: consume_quoted_run_scan apfst_def map_prod_def)
    moreover have "run_scan ch mode s = (n, Closed)" for mode
      using n True by (auto intro: run_scan_agree)
    ultimately show ?thesis
      using True by (auto simp: clean_Cons)
  next
    case False
    with 2(4) have "find_forbidden_loop U (Some ch) s = None"
      by (simp split: if_splits)
    with 2 False obtain v where "\<forall>mode. server_view mode s = Some v" "no_separator_or_comment v"
      by (simp split: if_splits) blast
    moreover from this have "peek_char v c = peek_char s c" for c
      by (simp add: server_view_peek [of Doubled])
    ultimately show ?thesis
      using 2(4) False by (auto simp: clean_Cons split: if_splits)
  qed
qed

lemma trim_parts:
  "\<exists>a b. s = a @ trim s @ b \<and> list_all is_whitespace a \<and> list_all is_whitespace b"
proof -
  let ?a = "takeWhile is_whitespace s" and ?t = "trim_start s"
  let ?b = "rev (takeWhile is_whitespace (rev ?t))"
  have "rev ?t = takeWhile is_whitespace (rev ?t) @ rev (trim s)"
    by (simp add: trim_def)
  then have "?t = trim s @ ?b" by (metis rev_append rev_rev_ident)
  then have "s = ?a @ trim s @ ?b"
    by (simp add: trim_start_def)
  moreover have "list_all is_whitespace ?a" "list_all is_whitespace ?b"
    by (auto simp: list_all_iff dest: set_takeWhileD)
  ultimately show ?thesis by blast
qed

lemma run_scan_append_eq:
  "\<lbrakk>snd (run_scan c mode s) = Closed; \<not> peek_char b c\<rbrakk> \<Longrightarrow> run_scan c mode (s @ b) = run_scan c mode s"
proof (induction s rule: run_induct)
  case (Cons ch s)
  show ?case
  proof (cases "s = []")
    case True
    with Cons(3,4) show ?thesis by (auto split: if_splits)
  next
    case False
    have same: "peek_char (s @ b) x = peek_char s x" "min 1 (length (s @ b)) = min 1 (length s)"
      "tl (s @ b) = tl s @ b" for x
      using False by (cases s; simp)+
    have branch: "(q \<Longrightarrow> snd x = Closed \<Longrightarrow> x' = x) \<Longrightarrow> (\<not> q \<Longrightarrow> snd y = Closed \<Longrightarrow> y' = y) \<Longrightarrow>
        snd (if q then x else y) = Closed \<Longrightarrow> (if q then x' else y') = (if q then x else y)"
      for q and x y x' y' :: "nat \<times> QuotedRun" by (cases q) auto
    have leaf: "snd (apfst f (run_scan c mode s)) = Closed \<Longrightarrow>
        apfst f (run_scan c mode (s @ b)) = apfst f (run_scan c mode s)"
      "snd (apfst f (run_scan c mode (tl s))) = Closed \<Longrightarrow>
        apfst f (run_scan c mode (tl s @ b)) = apfst f (run_scan c mode (tl s))" for f
      using Cons.IH Cons.prems(2) by simp_all
    show ?thesis
      using Cons.prems(1) unfolding append_Cons run_scan.simps same
      by - (assumption | rule branch leaf refl)+
  qed
qed simp

lemma run_scan_append:
  "\<lbrakk>run_scan c mode s = (n, Closed); \<not> peek_char b c\<rbrakk> \<Longrightarrow> run_scan c mode (s @ b) = (n, Closed)"
  using run_scan_append_eq [of c mode s b] by simp

lemma run_scan_Closed_le: "run_scan c mode s = (n, Closed) \<Longrightarrow> n \<le> length s"
  using run_scan_le [of c mode s] by simp

definition is_quote :: "uchar \<Rightarrow> bool" where
  "is_quote c \<longleftrightarrow> c = ch_quote \<or> c = ch_dquote \<or> c = ch_backtick"

lemma server_view_append:
  "\<lbrakk>server_view mode s = Some v; \<forall>c \<in> set b. \<not> is_quote c\<rbrakk> \<Longrightarrow> server_view mode (s @ b) = Some (v @ b)"
proof (induction mode s arbitrary: v rule: server_view.induct)
  case (1 mode)
  then show ?case by (induction b) (auto simp: is_quote_def)
next
  case (2 mode c s)
  have np: "\<not> peek_char b c" if "is_quote c"
    using 2(4) that by (cases b) auto
  show ?case
  proof (cases "is_quote c")
    case True
    with 2(3) obtain n w where n: "run_scan c mode s = (n, Closed)"
      and w: "server_view mode (drop n s) = Some w" "v = c # w"
      by (auto simp: is_quote_def split: prod.splits QuotedRun.splits)
    with 2(1) 2(4) True have "server_view mode (drop n s @ b) = Some (w @ b)"
      by (auto simp: is_quote_def)
    with True w np n run_scan_append [OF n] run_scan_Closed_le [OF n] show ?thesis
      by (auto simp: is_quote_def)
  next
    case False
    with 2(2,3,4) show ?thesis by (auto simp: is_quote_def)
  qed
qed

lemma server_view_prepend:
  "\<lbrakk>server_view mode s = Some v; \<forall>c \<in> set a. \<not> is_quote c\<rbrakk> \<Longrightarrow> server_view mode (a @ s) = Some (a @ v)"
  by (induction a) (auto simp: is_quote_def)

lemma whitespace_not_special:
  "is_whitespace c \<Longrightarrow> \<not> is_quote c \<and> c \<noteq> ch_semicolon \<and> c \<noteq> ch_nul \<and> c \<noteq> ch_hash \<and>
     c \<noteq> ch_minus \<and> c \<noteq> ch_slash \<and> c \<noteq> ch_star"
  by (auto simp: is_whitespace_def is_quote_def)

lemma peek_char_append: "peek_char (v @ b) c \<longleftrightarrow> peek_char v c \<or> v = [] \<and> peek_char b c"
  by (cases v) auto

lemma peek_whitespace: "\<lbrakk>list_all is_whitespace b; c \<in> {ch_minus, ch_slash, ch_star}\<rbrakk> \<Longrightarrow> \<not> peek_char b c"
  by (cases b) (auto dest: whitespace_not_special)

lemma clean_whitespace: "list_all is_whitespace b \<Longrightarrow> no_separator_or_comment b"
  by (induction b) (auto simp: clean_Cons no_separator_or_comment_def [of "[]"] dest: whitespace_not_special)

lemma clean_append:
  "\<lbrakk>no_separator_or_comment v; list_all is_whitespace b\<rbrakk> \<Longrightarrow> no_separator_or_comment (v @ b)"
  by (induction v) (auto simp: clean_Cons clean_whitespace peek_char_append peek_whitespace)

lemma clean_prepend:
  "\<lbrakk>no_separator_or_comment v; list_all is_whitespace a\<rbrakk> \<Longrightarrow> no_separator_or_comment (a @ v)"
  by (induction a) (auto simp: clean_Cons dest: whitespace_not_special)

lemma raw_fragment_view:
  assumes "validate_raw_sql_fragment U kind sql = Inr ()"
  shows "\<exists>v. (\<forall>mode. server_view mode sql = Some v) \<and> no_separator_or_comment v"
proof -
  obtain a b where ab: "sql = a @ trim sql @ b" and ws: "list_all is_whitespace a" "list_all is_whitespace b"
    using trim_parts by blast
  have "find_forbidden_loop U None (trim sql) = None"
    using assms by (auto simp: validate_raw_sql_fragment_def find_forbidden_raw_sql_token_def Let_def
        split: if_splits option.splits)
  then obtain v where v: "server_view mode (trim sql) = Some v" and clean: "no_separator_or_comment v" for mode
    using find_forbidden_None_views by blast
  have nq: "\<forall>c \<in> set a. \<not> is_quote c" "\<forall>c \<in> set b. \<not> is_quote c"
    using ws whitespace_not_special by (auto simp: list_all_iff)
  have "server_view mode sql = Some (a @ v @ b)" for mode
    by (subst ab) (intro server_view_prepend server_view_append v nq)
  moreover have "no_separator_or_comment (a @ v @ b)"
    by (intro clean_prepend clean_append clean ws)
  ultimately show ?thesis by blast
qed

text \<open>C11. A raw fragment the validator accepts is read the same way by every server, whatever
  its rule for backslashes: each quoted run closes, at the same place in each reading, and
  outside quotes there is no semicolon, no NUL, no \<open>#\<close>, no \<open>--\<close>, no \<open>/*\<close> and no \<open>*/\<close>.\<close>

theorem raw_fragment_safe:
  assumes "validate_raw_sql_fragment U kind sql = Inr ()"
  shows "\<exists>v. (\<forall>mode. server_view mode sql = Some v) \<and> no_separator_or_comment v"
  using assms by (rule raw_fragment_view)

theorem raw_fragment_safe_witness:
  "\<exists>v. (\<forall>mode. server_view mode (lit ''a = '' @ [ch_quote] @ lit ''x;--'' @ [ch_quote]) = Some v) \<and>
       no_separator_or_comment v"
proof (rule raw_fragment_safe)
  show "validate_raw_sql_fragment ascii_only [] (lit ''a = '' @ [ch_quote] @ lit ''x;--'' @ [ch_quote]) = Inr ()"
    by code_simp
qed

subsection \<open>What the clause validators accept\<close>

text \<open>The bare words and symbols of a fragment, as a list: a visitor that only collects.\<close>

definition snoc_token :: "SqlToken list \<Rightarrow> SqlToken \<Rightarrow> ustr + SqlToken list" where
  "snoc_token ts t = Inr (ts @ [t])"

definition bare_tokens :: "ustr \<Rightarrow> ustr \<Rightarrow> ustr + SqlToken list" where
  "bare_tokens sql kind = scan_sql_tokens sql kind snoc_token []"

fun visit_all :: "('s \<Rightarrow> SqlToken \<Rightarrow> ustr + 's) \<Rightarrow> 's \<Rightarrow> SqlToken list \<Rightarrow> ustr + 's" where
  "visit_all visit st [] = Inr st"
| "visit_all visit st (t # ts) = try_bind (visit st t) (\<lambda>st'. visit_all visit st' ts)"

lemma visit_all_Cons_Inr:
  "visit_all visit st (t # ts) = Inr st' \<longleftrightarrow> (\<exists>m. visit st t = Inr m \<and> visit_all visit m ts = Inr st')"
  by (simp add: try_bind_Inr_iff)

text \<open>The scan visits the tokens of the fragment in order: with any visitor, it succeeds exactly
  when the fragment has tokens at all and the visitor accepts each in turn.\<close>

lemma snoc_loop_acc:
  "scan_sql_loop kind snoc_token d acc s = map_sum id ((@) acc) (scan_sql_loop kind snoc_token d [] s)"
proof (induction "length s" arbitrary: d acc s rule: less_induct)
  case less
  show ?case
  proof (cases s)
    case Nil
    then show ?thesis by simp
  next
    case (Cons ch t)
    have visit: "scan_sql_loop kind snoc_token d (acc @ [tk]) u =
        map_sum id ((@) acc) (scan_sql_loop kind snoc_token d [tk] u)" if "length u < length s" for tk u
      using less [OF that, of d "acc @ [tk]"] less [OF that, of d "[tk]"]
      by (cases "scan_sql_loop kind snoc_token d [] u") simp_all
    show ?thesis
    proof (cases "scan_sql_step kind d (ch # t)")
      case (ScanFail e)
      then show ?thesis by (simp add: Cons)
    next
      case (ScanSkip d' rest)
      then have "length rest < length s" using scan_sql_step_shrinks(1) by (simp add: Cons)
      from less [OF this, of d' acc] ScanSkip show ?thesis by (simp add: Cons)
    next
      case (ScanVisit tk rest)
      then have "length rest < length s" using scan_sql_step_shrinks(2) by (simp add: Cons)
      from visit [OF this] ScanVisit show ?thesis by (simp add: Cons snoc_token_def)
    qed
  qed
qed

lemma scan_sql_loop_tokens:
  "scan_sql_loop kind visit d st s = Inr st' \<longleftrightarrow>
     (\<exists>ts. scan_sql_loop kind snoc_token d [] s = Inr ts \<and> visit_all visit st ts = Inr st')"
proof (induction kind visit d st s rule: scan_sql_loop.induct)
  case (1 kind visit d st)
  then show ?case by simp
next
  case (2 kind visit d st ch s)
  show ?case
  proof (cases "scan_sql_step kind d (ch # s)")
    case (ScanFail e)
    then show ?thesis by simp
  next
    case (ScanSkip depth rest)
    then show ?thesis using 2(1) by simp
  next
    case (ScanVisit tk rest)
    have "scan_sql_loop kind snoc_token d [] (ch # s) =
        map_sum id (Cons tk) (scan_sql_loop kind snoc_token d [] rest)"
      using snoc_loop_acc [of kind d "[tk]" rest]
      by (cases "scan_sql_loop kind snoc_token d [] rest") (simp_all add: ScanVisit snoc_token_def)
    then show ?thesis
      using 2(2) ScanVisit
      by (cases "scan_sql_loop kind snoc_token d [] rest")
        (auto simp: try_bind_Inr_iff split: sum.splits)
  qed
qed

lemma scan_sql_tokens_iff:
  "scan_sql_tokens sql kind visit st = Inr st' \<longleftrightarrow>
     (\<exists>ts. bare_tokens sql kind = Inr ts \<and> visit_all visit st ts = Inr st')"
  by (simp add: scan_sql_tokens_def bare_tokens_def scan_sql_loop_tokens [of kind visit])

text \<open>A token a HAVING clause may hold.\<close>

fun having_allowed :: "SqlToken \<Rightarrow> bool" where
  "having_allowed (SqlWord txt depth called) \<longleftrightarrow>
     \<not> is_forbidden_having_keyword (to_ascii_lowercase txt) \<or>
     called \<and> to_ascii_lowercase txt \<in> {lit ''left'', lit ''right''}"
| "having_allowed (SqlSymbol c) \<longleftrightarrow> c \<in> set having_symbols"

lemma visit_having_iff: "visit_having kind u t = Inr v \<longleftrightarrow> having_allowed t"
  by (cases t) (auto simp del: insert_iff)

lemma visit_all_having: "visit_all (visit_having kind) u ts = Inr v \<longleftrightarrow> list_all having_allowed ts"
  by (induction ts arbitrary: u) (auto simp: try_bind_Inr_iff visit_having_iff)

text \<open>The HAVING validator, characterised: it accepts a fragment exactly when the raw check
  does, its quotes and parentheses balance, and every bare word and symbol of it, at every
  parenthesis depth, is one a HAVING clause may hold.\<close>

theorem having_accepts_iff:
  "validate_having_sql_fragment U kind sql = Inr () \<longleftrightarrow>
     validate_raw_sql_fragment U kind sql = Inr () \<and>
     (\<exists>ts. bare_tokens sql kind = Inr ts \<and> list_all having_allowed ts)"
  by (simp add: validate_having_sql_fragment_def try_bind_Inr_iff scan_sql_tokens_iff visit_all_having)

text \<open>The lowercased words at depth zero, with whether a parenthesis follows.\<close>

fun top_word :: "SqlToken \<Rightarrow> (ustr \<times> bool) option" where
  "top_word (SqlWord txt depth called) =
     (if depth = 0 then Some (to_ascii_lowercase txt, called) else None)"
| "top_word (SqlSymbol c) = None"

lemma visit_all_collect: "visit_all collect_word ws ts = Inr (ws @ List.map_filter top_word ts)"
proof (induction ts arbitrary: ws)
  case (Cons t ts)
  then show ?case by (cases t) (auto simp: List.map_filter_simps)
qed (simp add: List.map_filter_simps)

lemma collect_top_level_iff:
  "collect_top_level_sql_words sql kind = Inr ws \<longleftrightarrow>
     (\<exists>ts. bare_tokens sql kind = Inr ts \<and> ws = List.map_filter top_word ts)"
  by (auto simp: collect_top_level_sql_words_def scan_sql_tokens_iff visit_all_collect)

definition subquery_words_ok :: "(ustr \<times> bool) list \<Rightarrow> bool" where
  "subquery_words_ok ws \<longleftrightarrow>
     ws \<noteq> [] \<and> fst (hd ws) \<in> {lit ''select'', lit ''with''} \<and>
     list_ex (\<lambda>(w, _). w = lit ''select'') ws \<and>
     \<not> list_ex (\<lambda>(w, called). \<not> called \<and> is_forbidden_top_level_subquery_keyword w) ws"

lemma find_None_list_ex: "(List.find P xs = None) = (\<not> list_ex P xs)"
  by (auto simp: find_None_iff list_ex_iff)

lemma validate_subquery_iff:
  "validate_subquery_sql_with_mode U sql b = Inr () \<longleftrightarrow>
     validate_raw_sql_fragment U (lit ''subquery'') sql = Inr () \<and>
     (\<exists>ts. bare_tokens sql (lit ''subquery'') = Inr ts \<and>
        subquery_words_ok (List.map_filter top_word ts) \<and>
        (b \<or> \<not> list_ex (\<lambda>(w, _). is_set_operation w) (List.map_filter top_word ts)))"
proof -
  let ?sel = "lit ''select''" and ?wth = "lit ''with''"
  have chain: "(if \<not> (f = Some a \<or> f = Some b) then Inl e1
      else if f = Some b \<and> \<not> E then Inl e2
      else (case p of Some (w, _) \<Rightarrow> Inl (e3 w)
            | None \<Rightarrow> (case q of Some (w, _) \<Rightarrow> Inl (e4 w) | None \<Rightarrow> Inr ()))) = Inr () \<longleftrightarrow>
      (f = Some a \<or> f = Some b) \<and> (f = Some b \<longrightarrow> E) \<and> p = None \<and> q = None"
    for f and a b e1 e2 :: ustr and e3 e4 :: "ustr \<Rightarrow> ustr" and E and p q :: "(ustr \<times> bool) option"
    by (cases p; cases q) auto
  have first: "((case ws of [] \<Rightarrow> None | (w, _) # _ \<Rightarrow> Some w) = Some a \<or>
       (case ws of [] \<Rightarrow> None | (w, _) # _ \<Rightarrow> Some w) = Some b) \<and>
      ((case ws of [] \<Rightarrow> None | (w, _) # _ \<Rightarrow> Some w) = Some b \<longrightarrow> list_ex (\<lambda>(w, _). w = a) ws) \<longleftrightarrow>
      ws \<noteq> [] \<and> fst (hd ws) \<in> {a, b} \<and> list_ex (\<lambda>(w, _). w = a) ws"
    for ws :: "(ustr \<times> bool) list" and a b
    by (cases ws) auto
  show ?thesis
    unfolding validate_subquery_sql_with_mode_def Let_def try_bind_Inr_iff chain collect_top_level_iff
      subquery_words_ok_def
    using first [of _ ?sel ?wth] by (cases b) (simp_all add: find_None_list_ex conj_assoc, blast+)
qed

text \<open>The two subquery validators differ in set operations alone: a fragment is accepted as
  a plain subquery exactly when it is accepted as a compound one and none of its top-level
  words is UNION, INTERSECT or EXCEPT.\<close>

theorem subquery_modes:
  "validate_subquery_sql U sql = Inr () \<longleftrightarrow>
     validate_compound_subquery_sql U sql = Inr () \<and>
     (\<exists>ws. collect_top_level_sql_words sql (lit ''subquery'') = Inr ws \<and>
        \<not> list_ex (\<lambda>(w, _). is_set_operation w) ws)"
  by (auto simp: validate_subquery_sql_def validate_compound_subquery_sql_def validate_subquery_iff
      collect_top_level_iff)

subsection \<open>The top-level words of a server's view\<close>



































end
