(* ===== verification/Placeholders.thy ===== *)
theory Placeholders
  imports Sql_Lexer
begin

text \<open>
  Bound-value markers, \<open>src/src/query/db_sql/placeholders.rs\<close>: templates written with \<open>?\<close> are
  rendered in the backend's numbering, fragments rendered on their own are renumbered behind
  the values already bound, and statements are inlined for display. The tokenizer and the
  literal renderer of the display path are those of the sea-query crate, parameters here.
\<close>

subsection \<open>Templates\<close>

definition placeholders :: "DatabaseType \<Rightarrow> nat \<Rightarrow> ustr list" where
  "placeholders db_type n = map (placeholder db_type) [1..<n + 1]"

definition is_marker :: "Token \<Rightarrow> bool" where
  "is_marker t \<longleftrightarrow> tok_text t = [ch_question] \<and> tok_kind t = KSymbol"

text \<open>The closure \<open>next\<close> updates what it captures: it takes that state and returns it.\<close>

fun map_template_loop :: "('s \<Rightarrow> ustr \<times> 's) \<Rightarrow> 's \<Rightarrow> Token list \<Rightarrow> ustr" where
  "map_template_loop nxt st [] = []"
| "map_template_loop nxt st (t # ts) =
     (if is_marker t then
        (let (marker, st') = nxt st in marker @ map_template_loop nxt st' ts)
      else tok_text t @ map_template_loop nxt st ts)"

definition map_template_placeholders :: "unicode \<Rightarrow> ustr \<Rightarrow> ('s \<Rightarrow> ustr \<times> 's) \<Rightarrow> 's \<Rightarrow> ustr" where
  "map_template_placeholders U template nxt st = map_template_loop nxt st (tokens U template)"

definition render_template :: "unicode \<Rightarrow> DatabaseType \<Rightarrow> ustr \<Rightarrow> nat \<Rightarrow> ustr" where
  "render_template U db_type template first =
     map_template_placeholders U template (\<lambda>index. (placeholder db_type index, index + 1)) first"

definition count_template_placeholders :: "unicode \<Rightarrow> ustr \<Rightarrow> nat" where
  "count_template_placeholders U template = length (filter is_marker (tokens U template))"

subsection \<open>Renumbering\<close>

text \<open>The text one token contributes when every parameter moves up by \<open>offset\<close>.\<close>

definition shift_token :: "nat \<Rightarrow> Token \<Rightarrow> ustr" where
  "shift_token offset t =
     (if tok_kind t = KParameter then
        (case parse_usize (tl (tok_text t)) of
           Some number \<Rightarrow>
             if 0 < number \<and> number + offset \<le> usize_max then ch_dollar # show_nat (number + offset)
             else tok_text t
         | None \<Rightarrow> tok_text t)
      else tok_text t)"

definition offset_postgres_placeholders :: "unicode \<Rightarrow> ustr \<Rightarrow> nat \<Rightarrow> ustr" where
  "offset_postgres_placeholders U sql offset =
     (if offset = 0 then sql else concat (map (shift_token offset) (tokens U sql)))"

definition rebase_placeholders :: "unicode \<Rightarrow> DatabaseType \<Rightarrow> ustr \<Rightarrow> nat \<Rightarrow> ustr" where
  "rebase_placeholders U db_type sql offset =
     (case db_type of Postgres \<Rightarrow> offset_postgres_placeholders U sql offset | _ \<Rightarrow> sql)"

subsection \<open>Inlining for display\<close>

text \<open>The tokens of sea-query's tokenizer, as far as the source tells them apart.\<close>

datatype SeaToken = Punctuation ustr | Unquoted ustr | OtherToken ustr

fun match_loop :: "DatabaseType \<Rightarrow> bool list \<Rightarrow> nat \<Rightarrow> SeaToken list \<Rightarrow> (bool list \<times> nat) option" where
  "match_loop db_type seen positional [] = Some (seen, positional)"
| "match_loop db_type seen positional (token # rest) =
     (if db_type = Postgres then
        (if token = Punctuation [ch_dollar] then
           (case rest of
              Unquoted number # _ \<Rightarrow>
                (case parse_usize number of
                   Some index \<Rightarrow>
                     if 1 \<le> index \<and> index - 1 < length seen
                     then match_loop db_type (seen[index - 1 := True]) positional rest
                     else None
                 | None \<Rightarrow> match_loop db_type seen positional rest)
            | _ \<Rightarrow> match_loop db_type seen positional rest)
         else match_loop db_type seen positional rest)
      else if token = Punctuation [ch_question] then match_loop db_type seen (positional + 1) rest
      else match_loop db_type seen positional rest)"

definition placeholders_match_values ::
  "(ustr \<Rightarrow> SeaToken list) \<Rightarrow> DatabaseType \<Rightarrow> ustr \<Rightarrow> nat \<Rightarrow> bool" where
  "placeholders_match_values tokenizer db_type sql bound =
     (if ch_backslash \<in> set sql then False
      else (case match_loop db_type (replicate bound False) 0 (tokenizer sql) of
              None \<Rightarrow> False
            | Some (seen, positional) \<Rightarrow>
                if db_type = Postgres then list_all (\<lambda>used. used) seen else positional = bound))"

definition inline_parameters ::
  "(ustr \<Rightarrow> SeaToken list) \<Rightarrow> (DatabaseType \<Rightarrow> ustr \<Rightarrow> 'v list \<Rightarrow> ustr) \<Rightarrow>
     DatabaseType \<Rightarrow> ustr \<Rightarrow> 'v list \<Rightarrow> ustr" where
  "inline_parameters tokenizer inject db_type sql params =
     (if \<not> placeholders_match_values tokenizer db_type sql (length params) then sql
      else inject db_type sql params)"

subsection \<open>Rendering a template\<close>

lemma map_template_loop_nth:
  "map_template_loop (\<lambda>index. (f index, index + 1)) first ts =
     concat (map (\<lambda>i. if is_marker (ts ! i) then f (first + length (filter is_marker (take i ts)))
                      else tok_text (ts ! i)) [0..<length ts])"
proof (induction ts arbitrary: first)
  case (Cons t ts)
  have "map (\<lambda>i. if is_marker ((t # ts) ! i) then f (first + length (filter is_marker (take i (t # ts))))
         else tok_text ((t # ts) ! i)) [0..<length (t # ts)] =
    (if is_marker t then f first else tok_text t) #
    map (\<lambda>i. if is_marker (ts ! i)
         then f ((if is_marker t then first + 1 else first) + length (filter is_marker (take i ts)))
         else tok_text (ts ! i)) [0..<length ts]"
    by (simp add: upt_conv_Cons map_Suc_upt [symmetric] del: upt_Suc)
  then show ?case
    using Cons [of "if is_marker t then first + 1 else first"] by (simp del: upt_Suc split: if_split_asm)
qed simp

lemma map_template_loop_identity:
  "\<forall>index. f index = [ch_question] \<Longrightarrow>
   map_template_loop (\<lambda>index. (f index, index + 1)) first ts = concat (map tok_text ts)"
  by (induction ts arbitrary: first) (auto simp: is_marker_def)

lemma tokens_concat: "concat (map tok_text (tokens U sql)) = sql"
  by (simp add: tokens_def scan_def scan_from_concat)

text \<open>Rendering a template numbers its markers consecutively: every token is copied, except
  that the marker behind \<open>k\<close> earlier markers becomes the backend's marker for \<open>first + k\<close>, a
  \<open>?\<close> inside quotes or comments being no marker; on the backends whose marker is \<open>?\<close> the
  template comes out unchanged.\<close>

theorem render_template_numbering:
  "(let ts = tokens U template in
    render_template U db template first =
      concat (map (\<lambda>i. if is_marker (ts ! i)
                       then placeholder db (first + length (filter is_marker (take i ts)))
                       else tok_text (ts ! i)) [0..<length ts])) \<and>
   (db = Postgres \<or> render_template U db template first = template)"
proof -
  have "render_template U db template first = template" if "db \<noteq> Postgres"
    using that map_template_loop_identity [of "placeholder db" first "tokens U template"]
    by (cases db) (simp_all add: render_template_def map_template_placeholders_def tokens_concat)
  then show ?thesis
    using map_template_loop_nth [of "placeholder db" first "tokens U template"]
    by (auto simp: render_template_def map_template_placeholders_def Let_def)
qed

subsection \<open>Renumbering moves the parameters and nothing else\<close>

text \<open>
  \<open>shifted r r'\<close>: the texts differ only in the digits of numbered parameters. It follows the
  characters; a parameter is a dollar sign with a maximal run of digits behind it.
\<close>

inductive shifted :: "ustr \<Rightarrow> ustr \<Rightarrow> bool" where
  shifted_Nil: "shifted [] []"
| shifted_same: "shifted r r' \<Longrightarrow> shifted (c # r) (c # r')"
| shifted_param: "\<lbrakk>shifted r r'; ds \<noteq> []; ds' \<noteq> []; list_all is_ascii_digit ds; list_all is_ascii_digit ds'\<rbrakk>
    \<Longrightarrow> shifted (ch_dollar # ds @ r) (ch_dollar # ds' @ r')"

lemma shifted_take1: "shifted r r' \<Longrightarrow> take 1 r' = take 1 r"
  by (induction rule: shifted.induct) simp_all

lemma shifted_append: "shifted r r' \<Longrightarrow> shifted (s @ r) (s @ r')"
  by (induction s) (auto intro: shifted_same)

lemma same_hd_takeWhile:
  "\<lbrakk>take 1 r' = take 1 r; takeWhile P (s @ r) = s\<rbrakk> \<Longrightarrow> takeWhile P (s @ r') = s"
proof (induction s)
  case Nil
  then show ?case by (cases r; cases r') (auto split: if_splits)
qed (auto split: if_splits)

lemma same_hd_prefix:
  "\<lbrakk>take 1 r' = take 1 r; s \<noteq> []\<rbrakk> \<Longrightarrow> prefix [a, b] (s @ r') = prefix [a, b] (s @ r)"
  by (cases s; cases "tl s"; cases r; cases r') auto

lemma same_hd_peek: "take 1 r' = take 1 r \<Longrightarrow> peek_char (s @ r') c = peek_char (s @ r) c"
  by (cases s; cases r; cases r') (auto simp: peek_char_def)

lemma same_hd_Nil: "take 1 r' = take 1 (r :: 'a list) \<Longrightarrow> r = [] \<longleftrightarrow> r' = []"
  by (cases r; cases r') auto

text \<open>A dollar tag that starts with a digit opens no dollar quote.\<close>

lemma dollar_len_digit:
  "is_ascii_digit d \<Longrightarrow> dollar_len U (ch_dollar # d # s) = None"
  by (auto simp: dollar_len_def dollar_tag_len_def Let_def is_ascii_digit_def split: option.splits)

text \<open>A dollar quote's delimiter occurs in the one text exactly where it does in the other.\<close>

lemma shifted_prefix:
  "\<lbrakk>shifted r r'; ch_dollar \<notin> set tag; prefix (tag @ [ch_dollar]) r'\<rbrakk> \<Longrightarrow> prefix (tag @ [ch_dollar]) r"
proof (induction tag arbitrary: r r')
  case Nil
  then show ?case by (auto elim: shifted.cases)
next
  case (Cons t tag)
  from Cons(2) show ?case
    by (cases rule: shifted.cases) (use Cons in auto)
qed

lemma find_str_digits:
  "list_all is_ascii_digit ds \<Longrightarrow> find_str (ch_dollar # pat) (ds @ s) = None \<longleftrightarrow> find_str (ch_dollar # pat) s = None"
  by (induction ds) (auto simp: is_ascii_digit_def)

lemma shifted_find_str:
  assumes "shifted r r'" and tag: "ch_dollar \<notin> set tag" "tag = [] \<or> \<not> is_ascii_digit (hd tag)"
    and "find_str (ch_dollar # tag @ [ch_dollar]) r = None"
  shows "find_str (ch_dollar # tag @ [ch_dollar]) r' = None"
  using assms(1,4)
proof (induction rule: shifted.induct)
  case (shifted_same r r' c)
  then show ?case
    using shifted_prefix [OF shifted_same(1) tag(1)] by (auto split: if_splits)
next
  case (shifted_param r r' ds ds')
  have no: "\<not> prefix (tag @ [ch_dollar]) (es @ s)" if "es \<noteq> []" "list_all is_ascii_digit es" for es s
    using that tag(2) by (cases es; cases tag) (auto simp: is_ascii_digit_def)
  have "find_str (ch_dollar # tag @ [ch_dollar]) r = None"
    using shifted_param.prems shifted_param.hyps by (simp add: find_str_digits split: if_splits)
  with shifted_param.IH shifted_param.hyps no show ?case by (simp add: find_str_digits)
qed simp

lemma shifted_first_dollar:
  "shifted r r' \<Longrightarrow> (find_str [ch_dollar] r = None \<and> find_str [ch_dollar] r' = None) \<or>
     (\<exists>tag ds ds' v v'. ch_dollar \<notin> set tag \<and> r = tag @ ch_dollar # ds @ v \<and>
        r' = tag @ ch_dollar # ds' @ v' \<and> list_all is_ascii_digit ds \<and> list_all is_ascii_digit ds' \<and>
        shifted v v')"
proof (induction rule: shifted.induct)
  case (shifted_same r r' c)
  show ?case
  proof (cases "c = ch_dollar")
    case True
    have "r = [] @ r" "r' = [] @ r'" by simp_all
    with True shifted_same(1) show ?thesis
      by - (rule disjI2, rule exI [of _ "[]"], rule exI [of _ "[]"], rule exI [of _ "[]"],
          rule exI [of _ r], rule exI [of _ r'], simp)
  next
    case False
    from shifted_same(2) show ?thesis
    proof (elim disjE exE conjE)
      fix tag ds ds' v v'
      assume "ch_dollar \<notin> set tag" "r = tag @ ch_dollar # ds @ v" "r' = tag @ ch_dollar # ds' @ v'"
        "list_all is_ascii_digit ds" "list_all is_ascii_digit ds'" "shifted v v'"
      with False show ?thesis by - (rule disjI2, rule exI [of _ "c # tag"], rule exI [of _ ds], rule exI [of _ ds'], auto)
    qed (use False in simp)
  qed
next
  case (shifted_param r r' ds ds')
  then show ?case
    by - (rule disjI2, rule exI [of _ "[]"], rule exI [of _ ds], rule exI [of _ ds'], auto)
qed simp

lemma find_str_first: "c \<notin> set tag \<Longrightarrow> find_str [c] (tag @ c # u) = Some (length tag)"
  by (induction tag) auto

definition valid_tag :: "unicode \<Rightarrow> ustr \<Rightarrow> bool" where
  "valid_tag U tag \<longleftrightarrow> \<not> (tag \<noteq> [] \<and> is_ascii_digit (hd tag)) \<and>
     list_all (\<lambda>c. c = ch_underscore \<or> is_alphanumeric U c) tag"

lemma dollar_len_tagged:
  "ch_dollar \<notin> set tag \<Longrightarrow> dollar_len U (ch_dollar # tag @ ch_dollar # u) =
     (if valid_tag U tag
      then map_option (\<lambda>n. length tag + 2 + n + (length tag + 2)) (find_str (ch_dollar # tag @ [ch_dollar]) u)
      else None)"
  by (simp add: dollar_len_def dollar_tag_len_def find_str_first valid_tag_def)

lemma shifted_dollar_len:
  assumes "shifted r r'" "dollar_len U (ch_dollar # r) = None"
  shows "dollar_len U (ch_dollar # r') = None"
  using shifted_first_dollar [OF assms(1)]
proof (elim disjE exE conjE)
  assume "find_str [ch_dollar] r' = None"
  then show ?thesis by (simp add: dollar_len_def dollar_tag_len_def)
next
  fix tag ds ds' v v'
  assume p: "ch_dollar \<notin> set tag" "r = tag @ ch_dollar # ds @ v" "r' = tag @ ch_dollar # ds' @ v'"
    "list_all is_ascii_digit ds" "list_all is_ascii_digit ds'" "shifted v v'"
  show ?thesis
  proof (cases "valid_tag U tag")
    case True
    with p assms(2) have "find_str (ch_dollar # tag @ [ch_dollar]) v = None"
      by (simp add: dollar_len_tagged find_str_digits)
    with shifted_find_str [OF p(6,1)] True p show ?thesis
      by (auto simp: dollar_len_tagged find_str_digits valid_tag_def)
  qed (use p in \<open>simp add: dollar_len_tagged\<close>)
qed

lemma prefix_append_short: "length pat \<le> length s \<Longrightarrow> prefix pat (s @ r) = prefix pat s"
  by (meson prefixI prefix_length_prefix prefix_order.dual_order.trans)

lemma find_str_inside:
  "\<lbrakk>find_str pat (s @ r) = Some m; m + length pat \<le> length s\<rbrakk> \<Longrightarrow> find_str pat (s @ r') = Some m"
proof (induction s arbitrary: m)
  case Nil
  then show ?case by (cases r') auto
next
  case (Cons c s)
  have "prefix pat (c # s @ r) = prefix pat (c # s @ r')" if "length pat \<le> length (c # s)"
    using prefix_append_short [OF that, of r] prefix_append_short [OF that, of r'] by simp
  with Cons show ?case by (auto split: if_splits)
qed

lemma dollar_len_inside:
  assumes "dollar_len U (s @ r) = Some (length s)" "s \<noteq> []"
  shows "dollar_len U (s @ r') = Some (length s)"
proof -
  obtain c t where s: "s = c # t" using assms(2) by (cases s) auto
  from assms(1) obtain opn m where opn: "dollar_tag_len U (s @ r) = Some opn"
    and m: "find_str (take opn (s @ r)) (drop opn (s @ r)) = Some m" and n: "length s = opn + m + opn"
    by (auto simp: dollar_len_def split: option.splits)
  from opn obtain k where k: "find_str [ch_dollar] (t @ r) = Some k" "opn = k + 2"
    and v: "valid_tag U (take k (t @ r))"
    by (auto simp: s dollar_tag_len_def valid_tag_def Let_def split: option.splits if_splits)
  have len: "k + length [ch_dollar] \<le> length t" using n k(2) by (simp add: s)
  have "dollar_tag_len U (s @ r') = Some opn"
    using find_str_inside [OF k(1) len, of r'] v len k(2)
    by (simp add: s dollar_tag_len_def valid_tag_def)
  moreover have "find_str (take opn s) (drop opn s @ r') = Some m"
    by (rule find_str_inside [of _ _ r]) (use m n in simp_all)
  ultimately show ?thesis using n by (simp add: dollar_len_def)
qed

lemma block_comment_loop_progress: "s \<noteq> [] \<Longrightarrow> pos < block_comment_loop s nested depth pos"
proof -
  assume "s \<noteq> []"
  then obtain c t where s: "s = c # t" by (cases s) auto
  have "pos < block_comment_loop u nested d (pos + 1)" "pos < block_comment_loop u nested d (pos + 2)"
    "pos < pos + 2" for u d
    using block_comment_loop_bounds [of "pos + 1" u nested d] block_comment_loop_bounds [of "pos + 2" u nested d]
    by linarith+
  then show ?thesis
    unfolding s block_comment_loop.simps by (intro if_intro [where P = "\<lambda>n. pos < n"])
qed

lemma block_comment_same_hd:
  assumes same: "take 1 r' = take 1 r"
  shows "block_comment_loop (s @ r) nested depth pos = pos + length s \<Longrightarrow>
    block_comment_loop (s @ r') nested depth pos = pos + length s"
proof (induction s arbitrary: depth pos rule: run_induct)
  case Nil
  then have "r = []" using block_comment_loop_progress [of r pos nested depth] by auto
  with same show ?case by simp
next
  case (Cons c s)
  have pre: "prefix [a, b] (c # s @ r') = prefix [a, b] (c # s @ r)" for a b
    using same_hd_prefix [OF same, of "c # s"] by simp
  have beyond: "pos + 2 \<le> block_comment_loop u nested d (pos + 2)" for u d
    using block_comment_loop_bounds [of "pos + 2" u nested d] by simp
  show ?case
  proof (cases "s = []")
    case True
    have "block_comment_loop u nested d (pos + 2) \<noteq> pos + Suc 0" for u d
      using beyond [of u d] by linarith
    with Cons.prems Cons.IH(1) pre show ?thesis
      unfolding True append_Cons append_Nil block_comment_loop.simps lit_delimiters length_Cons list.size
      by (auto split: if_splits)
  next
    case False
    then have tl: "tl (s @ x) = tl s @ x" for x by simp
    let ?P = "\<lambda>n. n = pos + Suc (length s)"
    have leaf: "?P (block_comment_loop (s @ r) nested depth (pos + 1)) \<Longrightarrow>
        ?P (block_comment_loop (s @ r') nested depth (pos + 1))"
      "?P (block_comment_loop (tl s @ r) nested d (pos + 2)) \<Longrightarrow>
        ?P (block_comment_loop (tl s @ r') nested d (pos + 2))" for d
      using Cons.IH(1) [of depth "pos + 1"] Cons.IH(2) [of d "pos + 2"] False by (cases s; simp)+
    from Cons.prems show ?thesis
      unfolding append_Cons block_comment_loop.simps lit_delimiters pre tl length_Cons
      by - (assumption | rule if_transfer [where P = ?P and Q = ?P] leaf)+
  qed
qed

lemma run_scan_progress: "\<lbrakk>s \<noteq> []; mode \<noteq> RejectAmbiguous\<rbrakk> \<Longrightarrow> 0 < fst (run_scan c mode s)"
  by (cases s) auto

lemma run_scan_same_hd:
  assumes same: "take 1 r' = take 1 r" and mode: "mode \<noteq> RejectAmbiguous"
  shows "fst (run_scan c mode (s @ r)) = length s \<Longrightarrow> fst (run_scan c mode (s @ r')) = length s"
proof (induction s rule: run_induct)
  case Nil
  then have "r = []" using run_scan_progress [of r mode c] mode by auto
  with same show ?case by simp
next
  case (Cons ch s)
  have peek: "peek_char (s @ r') x = peek_char (s @ r) x" for x by (rule same_hd_peek [OF same])
  let ?P = "\<lambda>p :: nat \<times> QuotedRun. fst p = Suc (length s)"
  have one: "?P (apfst Suc (run_scan c mode (s @ r))) \<Longrightarrow> ?P (apfst Suc (run_scan c mode (s @ r')))"
    using Cons.IH(1) by simp
  have two: "?P (apfst ((+) 2) (run_scan c mode (tl (s @ r)))) \<Longrightarrow>
      ?P (apfst ((+) 2) (run_scan c mode (tl (s @ r'))))"
    using Cons.IH(2) by (cases s) simp_all
  have bump: "?P (apfst ((+) (1 + min 1 (length (s @ r)))) (run_scan c mode (tl (s @ r)))) \<Longrightarrow>
      ?P (apfst ((+) (1 + min 1 (length (s @ r')))) (run_scan c mode (tl (s @ r'))))"
  proof (cases s)
    case Nil
    then show "?P (apfst ((+) (1 + min 1 (length (s @ r)))) (run_scan c mode (tl (s @ r)))) \<Longrightarrow> ?thesis"
      using same by (cases r; cases r') simp_all
  next
    case (Cons d t)
    then show "?P (apfst ((+) (1 + min 1 (length (s @ r)))) (run_scan c mode (tl (s @ r)))) \<Longrightarrow> ?thesis"
      using Cons.IH(2) by simp
  qed
  from Cons.prems show ?case
    unfolding append_Cons run_scan.simps peek length_Cons
    by - (assumption | rule if_transfer [where P = ?P and Q = ?P] one two bump)+
qed

lemma takeWhile_length: "length (takeWhile P (s @ r)) = length s \<longleftrightarrow> takeWhile P (s @ r) = s"
  by (metis append_eq_conv_conj takeWhile_eq_take)

lemma block_comment_len_same_hd:
  assumes "take 1 r' = take 1 r" "block_comment_len (s @ r) nested = length s"
  shows "block_comment_len (s @ r') nested = length s"
proof -
  have two: "2 \<le> length s"
    using assms(2) block_comment_loop_bounds [of 2 "drop 2 (s @ r)" nested 1]
    by (simp add: block_comment_len_def)
  then have "block_comment_loop (drop 2 s @ r) nested 1 2 = 2 + length (drop 2 s)"
    using assms(2) by (simp add: block_comment_len_def)
  from block_comment_same_hd [OF assms(1) this] two show ?thesis by (simp add: block_comment_len_def)
qed

lemma quoted_len_same_hd:
  assumes "take 1 r' = take 1 r" "s \<noteq> []" "quoted_len (s @ r) d e = length s"
  shows "quoted_len (s @ r') d e = length s"
proof -
  obtain c t where s: "s = c # t" using assms(2) by (cases s) auto
  have "fst (run_scan q (if e then Backslash else Doubled) (t @ r)) = length t \<Longrightarrow>
      fst (run_scan q (if e then Backslash else Doubled) (t @ r')) = length t" for q
    by (rule run_scan_same_hd [OF assms(1)]) simp_all
  with assms(3) show ?thesis by (simp add: s quoted_len_run_scan)
qed

text \<open>What the scanner reads at a dollar sign.\<close>

definition dollar_token :: "unicode \<Rightarrow> ustr \<Rightarrow> Kind \<times> nat" where
  "dollar_token U rest =
     (case dollar_len U rest of
        Some n \<Rightarrow> (KLiteral, n)
      | None \<Rightarrow>
          (let len = 1 + length (takeWhile is_ascii_digit (tl rest))
           in ((if len > 1 then KParameter else KSymbol), len)))"

lemma dollar_token_shifted:
  assumes "shifted r r'" and tok: "dollar_token U (ch_dollar # t @ r) = (k, Suc (length t))"
  shows "dollar_token U (ch_dollar # t @ r') = (k, Suc (length t))"
proof (cases "dollar_len U (ch_dollar # t @ r)")
  case None
  with tok have digits: "takeWhile is_ascii_digit (t @ r) = t"
    by (simp add: dollar_token_def Let_def flip: takeWhile_length)
  have "dollar_len U (ch_dollar # t @ r') = None"
  proof (cases t)
    case Nil
    with None shifted_dollar_len [OF assms(1)] show ?thesis by simp
  next
    case (Cons d u)
    with digits show ?thesis by (simp add: dollar_len_digit split: if_splits)
  qed
  with None tok same_hd_takeWhile [OF shifted_take1 [OF assms(1)] digits] digits show ?thesis
    by (simp add: dollar_token_def Let_def)
next
  case (Some n)
  with tok dollar_len_inside [of U "ch_dollar # t" r r'] show ?thesis by (simp add: dollar_token_def)
qed

lemma next_token_standard:
  "next_token U False before rest =
     (let first = hd rest in
      if lexer_whitespace False first then (KSpace, length (takeWhile (lexer_whitespace False) rest))
      else if prefix [ch_minus, ch_minus] rest then (KComment, length (takeWhile (\<lambda>c. c \<noteq> ch_newline) rest))
      else if prefix [ch_slash, ch_star] rest then (KComment, block_comment_len rest True)
      else if first = ch_quote \<or> first = ch_dquote \<or> first = ch_backtick \<or> first = ch_lbracket then
        ((if first = ch_quote then KLiteral else KIdentifier),
         quoted_len rest first (first = ch_quote \<and> escape_string_prefix U before))
      else if first = ch_dollar then dollar_token U rest
      else if first = ch_underscore \<or> is_alphabetic U first then
        (KWord, length (takeWhile (identifier_char U) rest))
      else (KSymbol, 1))"
  unfolding next_token_def dollar_token_def Let_def lit_delimiters by simp

lemma next_token_same:
  assumes tok: "next_token U False b (w @ r) = (k, length w)" and ne: "w \<noteq> []"
    and sh: "shifted r r'" and b: "escape_string_prefix U b' = escape_string_prefix U b"
  shows "next_token U False b' (w @ r') = (k, length w)"
proof -
  note same = shifted_take1 [OF sh]
  have hd: "hd (w @ x) = hd w" for x using ne by simp
  note pre = same_hd_prefix [OF same ne]
  let ?P = "\<lambda>p. p = (k, length w)"
  have leaf: "?P (kd, length (takeWhile P (w @ r))) \<Longrightarrow> ?P (kd, length (takeWhile P (w @ r')))"
    "?P (kd, block_comment_len (w @ r) True) \<Longrightarrow> ?P (kd, block_comment_len (w @ r') True)"
    "?P (kd, quoted_len (w @ r) d e) \<Longrightarrow> ?P (kd, quoted_len (w @ r') d e)" for kd P d e
    using same_hd_takeWhile [OF same, of P w] block_comment_len_same_hd [OF same, of w True]
      quoted_len_same_hd [OF same ne, of d e]
    by (auto simp: takeWhile_length)
  have dollar: "hd w = ch_dollar \<Longrightarrow> ?P (dollar_token U (w @ r)) \<Longrightarrow> ?P (dollar_token U (w @ r'))"
    using dollar_token_shifted [OF sh, of U "tl w" k] ne by (cases w) auto
  from tok show ?thesis
    unfolding next_token_standard Let_def hd pre b
    by - (assumption | rule if_transfer [where P = ?P and Q = ?P] leaf dollar)+
qed

lemma next_token_param:
  assumes "list_all is_ascii_digit ds" "ds \<noteq> []" "r = [] \<or> \<not> is_ascii_digit (hd r)"
  shows "next_token U False b (ch_dollar # ds @ r) = (KParameter, Suc (length ds))"
proof -
  obtain d es where ds: "ds = d # es" using assms(2) by (cases ds) auto
  have "takeWhile is_ascii_digit (ds @ r) = ds"
    using assms(1,3) by (cases r) (auto simp: takeWhile_append list_all_iff)
  then show ?thesis
    using assms(1) dollar_len_digit [of d U "es @ r"]
    by (simp add: next_token_standard dollar_token_def ds lexer_whitespace_def is_whitespace_def)
qed

text \<open>What the look behind at an \<open>E'...'\<close> string can tell of the text before.\<close>

definition char_class :: "unicode \<Rightarrow> uchar \<Rightarrow> uchar" where
  "char_class U c = (if c = 101 \<or> c = 69 then c else if identifier_char U c then 48 else c)"

definition tail_class :: "unicode \<Rightarrow> ustr \<Rightarrow> ustr" where
  "tail_class U b = take 2 (map (char_class U) b)"

lemma identifier_char_ascii: "identifier_char U 101" "identifier_char U 69" "identifier_char U 48"
  "identifier_char U ch_dollar" "is_ascii_digit c \<Longrightarrow> identifier_char U c"
  by (simp_all add: identifier_char_def is_alphanumeric_def ascii_defs)

lemma char_class_eq:
  "char_class U x = char_class U y \<Longrightarrow> identifier_char U x = identifier_char U y"
  "char_class U x = char_class U y \<Longrightarrow> (x = 101 \<or> x = 69) = (y = 101 \<or> y = 69)"
  using identifier_char_ascii [where U = U] by (auto simp: char_class_def split: if_splits)

lemma escape_string_prefix_class:
  "tail_class U b' = tail_class U b \<Longrightarrow> escape_string_prefix U b' = escape_string_prefix U b"
  by (cases b; cases b'; cases "tl b"; cases "tl b'")
    (auto simp: tail_class_def escape_string_prefix_def numeral_2_eq_2 dest: char_class_eq)

lemma tail_class_append:
  assumes "tail_class U b' = tail_class U b"
  shows "tail_class U (s @ b') = tail_class U (s @ b)"
proof -
  have "take (2 - length s) (take 2 x) = take (2 - length s) x" for x :: ustr by (simp add: min_def)
  with assms show ?thesis by (metis (no_types, lifting) length_map map_append tail_class_def take_append)
qed

lemma tail_class_param:
  assumes "list_all is_ascii_digit ds" "ds \<noteq> []"
  shows "tail_class U (rev (ch_dollar # ds) @ b) = [48, 48]"
proof -
  obtain es d where ds: "ds = es @ [d]" using assms(2) by (cases ds rule: rev_cases) auto
  have d: "d \<noteq> 101" "d \<noteq> 69" "identifier_char U d"
    using assms(1) identifier_char_ascii(5) [where c = d and U = U] by (auto simp: ds is_ascii_digit_def)
  show ?thesis
  proof (cases es rule: rev_cases)
    case Nil
    with d identifier_char_ascii show ?thesis by (simp add: ds tail_class_def char_class_def)
  next
    case (snoc fs e)
    then have "e \<noteq> 101" "e \<noteq> 69" "identifier_char U e"
      using assms(1) identifier_char_ascii(5) [where c = e and U = U] by (auto simp: ds is_ascii_digit_def)
    with d snoc show ?thesis by (simp add: ds tail_class_def char_class_def)
  qed
qed

lemma next_token_Parameter:
  assumes "next_token U False b (c # s) = (KParameter, n)"
  shows "\<exists>ds r. c # s = ch_dollar # ds @ r \<and> n = Suc (length ds) \<and> ds \<noteq> [] \<and>
    list_all is_ascii_digit ds \<and> (r = [] \<or> \<not> is_ascii_digit (hd r))"
proof -
  let ?ds = "takeWhile is_ascii_digit s" and ?r = "dropWhile is_ascii_digit s"
  have "c = ch_dollar \<and> dollar_token U (c # s) = (KParameter, n)"
    using assms unfolding next_token_standard Let_def by (simp split: if_splits)
  then have "c = ch_dollar" "n = Suc (length ?ds)" "?ds \<noteq> []"
    by (auto simp: dollar_token_def Let_def split: option.splits if_splits)
  moreover have "list_all is_ascii_digit ?ds" "?r = [] \<or> \<not> is_ascii_digit (hd ?r)"
    using hd_dropWhile [of is_ascii_digit s] by (auto simp: list_all_iff dest: set_takeWhileD)
  ultimately show ?thesis by (intro exI [of _ ?ds] exI [of _ ?r]) simp
qed

lemma shift_token_cases:
  obtains "shift_token n t = tok_text t"
  | m where "tok_kind t = KParameter" "parse_usize (tl (tok_text t)) = Some m" "0 < m" "m + n \<le> usize_max"
    "shift_token n t = ch_dollar # show_nat (m + n)"
proof (cases "shift_token n t = tok_text t")
  case False
  then show ?thesis using that(2) by (auto simp: shift_token_def split: if_splits option.splits)
qed (rule that(1))

text \<open>The tokens of the renumbered text, one by one.\<close>

abbreviation (input) kind_text :: "Token \<Rightarrow> Kind \<times> ustr" where
  "kind_text t \<equiv> (tok_kind t, tok_text t)"

lemma scan_from_append:
  assumes "next_token U sqlite b (w @ r) = (k, length w)" "w \<noteq> []"
  shows "scan_from U sqlite b off (w @ r) =
    \<lparr>tok_text = w, tok_start = off, tok_kind = k\<rparr> # scan_from U sqlite (rev w @ b) (off + utf8_len w) r"
proof -
  obtain c s where w: "w = c # s" using assms(2) by (cases w) auto
  show ?thesis using scan_from_Cons [of U sqlite b off c "s @ r"] assms(1) by (simp add: w Let_def)
qed

lemma scan_from_shift:
  "\<forall>b' off'. tail_class U b' = tail_class U b \<longrightarrow>
     shifted rest (concat (map (shift_token n) (scan_from U False b off rest))) \<and>
     map kind_text (scan_from U False b' off' (concat (map (shift_token n) (scan_from U False b off rest)))) =
       map (\<lambda>t. (tok_kind t, shift_token n t)) (scan_from U False b off rest)"
proof (induction b off rest rule: scan_from_induct [where U = U and sqlite = False])
  case (Nil b off)
  then show ?case by (simp add: shifted_Nil)
next
  case (Cons b off c s m)
  let ?w = "take m (c # s)" and ?r = "drop m (c # s)" and ?k = "fst (next_token U False b (c # s))"
  let ?t = "\<lparr>tok_text = ?w, tok_start = off, tok_kind = ?k\<rparr>"
  let ?ts = "scan_from U False (rev ?w @ b) (off + utf8_len ?w) ?r"
  let ?r' = "concat (map (shift_token n) ?ts)"
  have w: "?w \<noteq> []" "length ?w = m" "?w @ ?r = c # s" using Cons(2,3) by auto
  have tok: "next_token U False b (?w @ ?r) = (?k, length ?w)" using Cons(1) w by simp
  have ts: "scan_from U False b off (c # s) = ?t # ?ts" using scan_from_append [OF tok w(1)] w(3) by simp
  have IH: "shifted ?r ?r'"
    "tail_class U b' = tail_class U (rev ?w @ b) \<Longrightarrow> map kind_text (scan_from U False b' off' ?r') =
       map (\<lambda>t. (tok_kind t, shift_token n t)) ?ts" for b' off'
    using Cons(4) by blast+
  show ?case
  proof (intro allI impI, unfold ts list.map concat.simps)
    fix b' off'
    assume b': "tail_class U b' = tail_class U b"
    show "shifted (c # s) (shift_token n ?t @ ?r') \<and>
      map kind_text (scan_from U False b' off' (shift_token n ?t @ ?r')) =
        (tok_kind ?t, shift_token n ?t) # map (\<lambda>t. (tok_kind t, shift_token n t)) ?ts"
    proof (cases rule: shift_token_cases [of n ?t])
      case 1
      have "next_token U False b' (?w @ ?r') = (?k, length ?w)"
        using next_token_same [OF tok w(1) IH(1)] escape_string_prefix_class [OF b'] by simp
      from scan_from_append [OF this w(1)] IH(2) [OF tail_class_append [OF b']]
      have "map kind_text (scan_from U False b' off' (?w @ ?r')) =
          (?k, ?w) # map (\<lambda>t. (tok_kind t, shift_token n t)) ?ts" by simp
      moreover have "shifted (c # s) (?w @ ?r')" using shifted_append [OF IH(1), of ?w] w(3) by simp
      ultimately show ?thesis unfolding 1 by simp
    next
      case (2 q)
      then obtain ds r where ds: "c # s = ch_dollar # ds @ r" "m = Suc (length ds)" "ds \<noteq> []"
        "list_all is_ascii_digit ds" "r = [] \<or> \<not> is_ascii_digit (hd r)"
        using next_token_Parameter [of U b c s m] Cons(1) by (metis Token.select_convs(3) prod.collapse)
      then have wr: "?w = ch_dollar # ds" "?r = r" by simp_all
      let ?ds = "show_nat (q + n)"
      note digits = show_nat_digits [of "q + n"] show_nat_nonempty [of "q + n"]
      have "?r' = [] \<or> \<not> is_ascii_digit (hd ?r')"
        using shifted_take1 [OF IH(1)] ds(5) wr(2) by (cases ?r'; cases r) auto
      from next_token_param [OF digits this, of U b']
      have "next_token U False b' ((ch_dollar # ?ds) @ ?r') = (KParameter, length (ch_dollar # ?ds))" by simp
      from scan_from_append [OF this] IH(2) [of "rev (ch_dollar # ?ds) @ b'"]
        tail_class_param [OF digits, of U b'] tail_class_param [OF ds(4,3), of U b] wr(1)
      have "map kind_text (scan_from U False b' off' ((ch_dollar # ?ds) @ ?r')) =
          (KParameter, ch_dollar # ?ds) # map (\<lambda>t. (tok_kind t, shift_token n t)) ?ts" by simp
      moreover have "shifted (c # s) ((ch_dollar # ?ds) @ ?r')"
        using shifted_param [OF IH(1) ds(3) digits(2) ds(4) digits(1)] ds(1) wr(2) by simp
      ultimately show ?thesis unfolding 2(5) using 2(1) by simp
    qed
  qed
qed

definition parameter_number :: "Token \<Rightarrow> nat option" where
  "parameter_number t = (if tok_kind t = KParameter then parse_usize (tl (tok_text t)) else None)"

definition parameter_numbers :: "unicode \<Rightarrow> ustr \<Rightarrow> nat list" where
  "parameter_numbers U sql = List.map_filter parameter_number (tokens U sql)"

definition other_tokens :: "unicode \<Rightarrow> ustr \<Rightarrow> (Kind \<times> ustr) list" where
  "other_tokens U sql = map kind_text (filter (\<lambda>t. tok_kind t \<noteq> KParameter) (tokens U sql))"

lemma offset_tokens:
  "0 < n \<Longrightarrow> map kind_text (tokens U (offset_postgres_placeholders U sql n)) =
     map (\<lambda>t. (tok_kind t, shift_token n t)) (tokens U sql)"
  using scan_from_shift [of U "[]" sql n 0]
  by (simp add: offset_postgres_placeholders_def tokens_def scan_def)

text \<open>Both readings of a token list depend on the kinds and texts alone.\<close>

lemma kind_text_lists:
  "map kind_text ts' = map (\<lambda>t. (tok_kind t, f t)) ts \<Longrightarrow>
     List.map_filter parameter_number ts' =
       List.map_filter (\<lambda>t. if tok_kind t = KParameter then parse_usize (tl (f t)) else None) ts \<and>
     map kind_text (filter (\<lambda>t. tok_kind t \<noteq> KParameter) ts') =
       map (\<lambda>t. (tok_kind t, f t)) (filter (\<lambda>t. tok_kind t \<noteq> KParameter) ts) \<and>
     map (shift_token b) ts' = map (\<lambda>t. shift_token b (t\<lparr>tok_text := f t\<rparr>)) ts"
proof (induction ts arbitrary: ts')
  case (Cons t ts)
  then obtain u us where ts': "ts' = u # us" "tok_kind u = tok_kind t" "tok_text u = f t"
    "map kind_text us = map (\<lambda>t. (tok_kind t, f t)) ts"
    by (cases ts') auto
  with Cons.IH [OF ts'(4)] show ?case
    by (simp add: List.map_filter_simps parameter_number_def shift_token_def split: option.split)
qed (simp add: List.map_filter_simps)

lemma shift_token_number:
  assumes "\<forall>m. parameter_number t = Some m \<longrightarrow> 0 < m \<and> m + n \<le> usize_max"
  shows "(if tok_kind t = KParameter then parse_usize (tl (shift_token n t)) else None) =
    map_option (\<lambda>m. m + n) (parameter_number t)"
  using assms
  by (auto simp: parameter_number_def shift_token_def parse_usize_show_nat split: option.split)

lemma map_filter_map_option:
  "\<lbrakk>\<And>t. t \<in> set ts \<Longrightarrow> f t = map_option g (h t)\<rbrakk> \<Longrightarrow> List.map_filter f ts = map g (List.map_filter h ts)"
  by (induction ts) (simp_all add: List.map_filter_simps split: option.split)

lemma map_filter_member: "t \<in> set ts \<Longrightarrow> h t = Some m \<Longrightarrow> m \<in> set (List.map_filter h ts)"
  by (force simp: List.map_filter_def)

text \<open>C27. Splicing a fragment behind \<open>offset\<close> bound values moves every numbered parameter the
  scanner reads up by exactly \<open>offset\<close>, in order, and leaves every other token as it was,
  among them quoted text, comments and dollar-quoted strings that look like parameters.\<close>

theorem rebase_parameters:
  assumes "list_all (\<lambda>m. 0 < m \<and> m + offset \<le> usize_max) (parameter_numbers U sql)"
  shows "parameter_numbers U (rebase_placeholders U Postgres sql offset) =
      map (\<lambda>m. m + offset) (parameter_numbers U sql) \<and>
    other_tokens U (rebase_placeholders U Postgres sql offset) = other_tokens U sql"
proof (cases "offset = 0")
  case True
  then show ?thesis by (simp add: rebase_placeholders_def offset_postgres_placeholders_def)
next
  case False
  note parts = kind_text_lists [OF offset_tokens [of offset U sql]]
  have "(if tok_kind t = KParameter then parse_usize (tl (shift_token offset t)) else None) =
      map_option (\<lambda>m. m + offset) (parameter_number t)" if "t \<in> set (tokens U sql)" for t
    using assms map_filter_member [OF that, of parameter_number]
    by (intro shift_token_number) (auto simp: parameter_numbers_def list_all_iff)
  from map_filter_map_option [OF this] show ?thesis
    using parts False
    by (simp add: rebase_placeholders_def parameter_numbers_def other_tokens_def shift_token_def cong: map_cong)
qed

theorem rebase_parameters_witness:
  "parameter_numbers ascii_only (rebase_placeholders ascii_only Postgres (lit ''a=$1 /*$2*/'') 3) =
      map (\<lambda>m. m + 3) (parameter_numbers ascii_only (lit ''a=$1 /*$2*/'')) \<and>
    other_tokens ascii_only (rebase_placeholders ascii_only Postgres (lit ''a=$1 /*$2*/'') 3) =
      other_tokens ascii_only (lit ''a=$1 /*$2*/'')"
proof (rule rebase_parameters)
  have "parameter_numbers ascii_only (lit ''a=$1 /*$2*/'') = [1]" by code_simp
  then show "list_all (\<lambda>m. 0 < m \<and> m + 3 \<le> usize_max) (parameter_numbers ascii_only (lit ''a=$1 /*$2*/''))"
    by (simp add: usize_max_def)
qed

lemma shift_token_twice:
  assumes "\<forall>m. parameter_number t = Some m \<longrightarrow> m + a + b \<le> usize_max"
  shows "shift_token b (t\<lparr>tok_text := shift_token a t\<rparr>) = shift_token (a + b) t"
  using assms
  by (auto simp: parameter_number_def shift_token_def parse_usize_show_nat add.assoc split: option.splits)

text \<open>Renumbering composes: a fragment spliced into a fragment that is spliced in turn is
  numbered as if it had been moved by the sum of the offsets at once, on every backend.\<close>

theorem rebase_compose:
  assumes "list_all (\<lambda>m. m + a + b \<le> usize_max) (parameter_numbers U sql)"
  shows "rebase_placeholders U db (rebase_placeholders U db sql a) b = rebase_placeholders U db sql (a + b)"
proof (cases "db = Postgres \<and> 0 < a \<and> 0 < b")
  case True
  have "map (shift_token b) (tokens U (offset_postgres_placeholders U sql a)) =
      map (\<lambda>t. shift_token b (t\<lparr>tok_text := shift_token a t\<rparr>)) (tokens U sql)"
    using kind_text_lists [OF offset_tokens [of a U sql]] True by blast
  also have "\<dots> = map (shift_token (a + b)) (tokens U sql)"
    using assms map_filter_member [of _ "tokens U sql" parameter_number]
    by (intro map_cong shift_token_twice) (auto simp: parameter_numbers_def list_all_iff)
  finally show ?thesis
    using True by (simp add: rebase_placeholders_def offset_postgres_placeholders_def [of U _ b]
        offset_postgres_placeholders_def [of U sql "a + b"])
next
  case False
  then show ?thesis
    by (cases db) (auto simp: rebase_placeholders_def offset_postgres_placeholders_def)
qed

theorem rebase_compose_witness:
  "rebase_placeholders ascii_only Postgres (rebase_placeholders ascii_only Postgres (lit ''a=$1'') 3) 4 =
     rebase_placeholders ascii_only Postgres (lit ''a=$1'') (3 + 4)"
proof (rule rebase_compose)
  have "parameter_numbers ascii_only (lit ''a=$1'') = [1]" by code_simp
  then show "list_all (\<lambda>m. m + 3 + 4 \<le> usize_max) (parameter_numbers ascii_only (lit ''a=$1''))"
    by (simp add: usize_max_def)
qed

subsection \<open>Inlining is safe\<close>

text \<open>The numbers that follow a bare dollar sign in sea-query's reading.\<close>

fun sea_indexes :: "SeaToken list \<Rightarrow> nat list" where
  "sea_indexes (token # rest) =
     (case (token, rest) of
        (Punctuation d, Unquoted number # _) \<Rightarrow>
          if d = [ch_dollar] then
            (case parse_usize number of Some n \<Rightarrow> n # sea_indexes rest | None \<Rightarrow> sea_indexes rest)
          else sea_indexes rest
      | _ \<Rightarrow> sea_indexes rest)"
| "sea_indexes [] = []"

lemma match_loop_postgres:
  "match_loop Postgres seen pos ts =
     (if list_all (\<lambda>n. 1 \<le> n \<and> n \<le> length seen) (sea_indexes ts)
      then Some (map (\<lambda>i. seen ! i \<or> Suc i \<in> set (sea_indexes ts)) [0..<length seen], pos) else None)"
proof (induction ts arbitrary: seen)
  case Nil
  then show ?case by (simp add: map_nth)
next
  case (Cons t ts)
  show ?case
  proof (cases "\<exists>number us n. t = Punctuation [ch_dollar] \<and> ts = Unquoted number # us \<and> parse_usize number = Some n")
    case True
    then obtain number us n where t: "t = Punctuation [ch_dollar]" "ts = Unquoted number # us"
      "parse_usize number = Some n" by blast
    then have idx: "sea_indexes (t # ts) = n # sea_indexes ts" by simp
    have step: "match_loop Postgres seen pos (t # ts) =
        (if 1 \<le> n \<and> n - 1 < length seen then match_loop Postgres (seen[n - 1 := True]) pos ts else None)"
      using t by simp
    have "seen[n - 1 := True] ! i \<or> Suc i \<in> set (sea_indexes ts) \<longleftrightarrow>
        seen ! i \<or> Suc i \<in> set (n # sea_indexes ts)" if "1 \<le> n" "i < length seen" for i
      using that by (cases n; cases "n - 1 = i") auto
    then show ?thesis unfolding step idx Cons by (auto cong: map_cong)
  next
    case False
    then have "match_loop Postgres seen pos (t # ts) = match_loop Postgres seen pos ts"
      "sea_indexes (t # ts) = sea_indexes ts"
      by (auto split: list.split SeaToken.split option.split)
    with Cons show ?thesis by simp
  qed
qed

lemma match_loop_positional:
  "db \<noteq> Postgres \<Longrightarrow> match_loop db seen pos ts = Some (seen, pos + count_list ts (Punctuation [ch_question]))"
  by (induction ts arbitrary: pos) auto

text \<open>A statement is inlined exactly when its placeholders are its values, whatever
  sea-query's tokenizer reads: no backslash occurs in it, and on PostgreSQL the numbers behind
  dollar signs are \<open>1\<close> to the number of values with none missing and none beyond, elsewhere
  there are as many question marks as values. So the literal renderer, which indexes the
  values by placeholder, is never asked for a value that is not there, and any other
  statement is shown as it is.\<close>

theorem inline_parameters_guarded:
  "inline_parameters tokenizer inject db sql params =
     (if ch_backslash \<notin> set sql \<and>
         (if db = Postgres then set (sea_indexes (tokenizer sql)) = {1..length params}
          else count_list (tokenizer sql) (Punctuation [ch_question]) = length params)
      then inject db sql params else sql)"
proof (cases "db = Postgres")
  case True
  let ?idx = "sea_indexes (tokenizer sql)" and ?n = "length params"
  have "list_all (\<lambda>n. 1 \<le> n \<and> n \<le> ?n) ?idx \<and> list_all (\<lambda>i. Suc i \<in> set ?idx) [0..<?n] \<longleftrightarrow>
      set ?idx = {1..?n}"
  proof -
    have "(\<forall>i < ?n. Suc i \<in> set ?idx) \<longleftrightarrow> {1..?n} \<subseteq> set ?idx"
      by (auto simp: subset_iff) (metis Suc_le_D Suc_le_eq atLeastAtMost_iff One_nat_def Suc_le_mono)
    then show ?thesis by (auto simp: list_all_iff)
  qed
  with True show ?thesis
    by (auto simp: inline_parameters_def placeholders_match_values_def match_loop_postgres
        list_all_iff split: if_splits)
next
  case False
  then show ?thesis
    by (simp add: inline_parameters_def placeholders_match_values_def match_loop_positional)
qed

end
