(* ===== verification/Cache_Keys.thy ===== *)
theory Cache_Keys
  imports Tide_Prelude
begin

text \<open>
  Cache keys built from query parts, \<open>src/src/cache/builders.rs\<close>. A condition's value arrives
  as the text its \<open>Display\<close> writes; the 64-bit digest is a parameter.
\<close>

definition escaped_char :: "uchar \<Rightarrow> ustr" where
  "escaped_char ch = (if ch = ch_backslash \<or> ch = ch_colon \<or> ch = ch_equals then [ch_backslash, ch] else [ch])"

definition escaped :: "ustr \<Rightarrow> ustr" where
  "escaped s = concat (map escaped_char s)"

record CacheKeyBuilder =
  key_parts :: "ustr list"

definition CacheKeyBuilder_new :: CacheKeyBuilder where
  "CacheKeyBuilder_new = \<lparr>key_parts = []\<rparr>"

definition push_part :: "ustr \<Rightarrow> CacheKeyBuilder \<Rightarrow> CacheKeyBuilder" where
  "push_part part b = b\<lparr>key_parts := key_parts b @ [part]\<rparr>"

definition key_table :: "ustr \<Rightarrow> CacheKeyBuilder \<Rightarrow> CacheKeyBuilder" where
  "key_table table b = push_part (lit ''t:'' @ escaped table) b"

definition key_condition :: "ustr \<Rightarrow> ustr \<Rightarrow> CacheKeyBuilder \<Rightarrow> CacheKeyBuilder" where
  "key_condition column val b = push_part (escaped column @ [ch_equals] @ escaped val) b"

definition key_order :: "ustr \<Rightarrow> ustr \<Rightarrow> CacheKeyBuilder \<Rightarrow> CacheKeyBuilder" where
  "key_order column direction b =
     push_part (lit ''o:'' @ escaped column @ [ch_colon] @ escaped direction) b"

definition key_limit :: "64 word \<Rightarrow> CacheKeyBuilder \<Rightarrow> CacheKeyBuilder" where
  "key_limit limit b = push_part (lit ''l:'' @ show_nat (unat limit)) b"

definition key_offset :: "64 word \<Rightarrow> CacheKeyBuilder \<Rightarrow> CacheKeyBuilder" where
  "key_offset offset b = push_part (lit ''off:'' @ show_nat (unat offset)) b"

definition key_raw :: "ustr \<Rightarrow> CacheKeyBuilder \<Rightarrow> CacheKeyBuilder" where
  "key_raw part b = push_part (lit ''r:'' @ escaped part) b"

definition key_build :: "CacheKeyBuilder \<Rightarrow> ustr" where
  "key_build b = join [ch_colon] (key_parts b)"

definition key_build_hash :: "(ustr \<Rightarrow> 64 word) \<Rightarrow> CacheKeyBuilder \<Rightarrow> 64 word" where
  "key_build_hash hash_text b = hash_text (key_build b)"

subsection \<open>Different parts, different keys\<close>

text \<open>A sequence of builder calls, as a program that builds a key makes them.\<close>

datatype KeyCall =
    Table ustr | Condition ustr ustr | Order ustr ustr | Limit "64 word" | Offset "64 word" | Raw ustr

fun key_call :: "KeyCall \<Rightarrow> CacheKeyBuilder \<Rightarrow> CacheKeyBuilder" where
  "key_call (Table t) = key_table t"
| "key_call (Condition c v) = key_condition c v"
| "key_call (Order c d) = key_order c d"
| "key_call (Limit n) = key_limit n"
| "key_call (Offset n) = key_offset n"
| "key_call (Raw p) = key_raw p"

definition key_of :: "KeyCall list \<Rightarrow> ustr" where
  "key_of calls = key_build (fold key_call calls CacheKeyBuilder_new)"

text \<open>Every part is an escaped head, a separator and one or two escaped fields.\<close>

fun call_view :: "KeyCall \<Rightarrow> ustr \<times> uchar \<times> ustr \<times> ustr option" where
  "call_view (Table t) = (lit ''t'', ch_colon, t, None)"
| "call_view (Condition c v) = (c, ch_equals, v, None)"
| "call_view (Order c d) = (lit ''o'', ch_colon, c, Some d)"
| "call_view (Limit n) = (lit ''l'', ch_colon, show_nat (unat n), None)"
| "call_view (Offset n) = (lit ''off'', ch_colon, show_nat (unat n), None)"
| "call_view (Raw p) = (lit ''r'', ch_colon, p, None)"

definition view_text :: "ustr \<times> uchar \<times> ustr \<times> ustr option \<Rightarrow> ustr" where
  "view_text v = (case v of (h, sep, f, g) \<Rightarrow>
     escaped h @ [sep] @ escaped f @ (case g of Some d \<Rightarrow> ch_colon # escaped d | None \<Rightarrow> []))"

definition call_text :: "KeyCall \<Rightarrow> ustr" where
  "call_text c = view_text (call_view c)"

lemma escaped_simps [simp]: "escaped [] = []" "escaped (c # s) = escaped_char c @ escaped s"
  by (simp_all add: escaped_def)

lemma escaped_digits: "list_all is_ascii_digit s \<Longrightarrow> escaped s = s"
  by (induction s) (auto simp: escaped_char_def is_ascii_digit_def)

lemma key_call_text: "key_call c b = push_part (call_text c) b"
  by (cases c)
    (simp_all add: call_text_def view_text_def key_table_def key_condition_def key_order_def key_limit_def
      key_offset_def key_raw_def escaped_digits show_nat_digits lit_def escaped_char_def)

lemma key_of_eq: "key_of calls = join [ch_colon] (map call_text calls)"
proof -
  have "key_parts (fold key_call calls b) = key_parts b @ map call_text calls" for b
    by (induction calls arbitrary: b) (simp_all add: key_call_text push_part_def)
  then show ?thesis by (simp add: key_of_def key_build_def CacheKeyBuilder_new_def)
qed

text \<open>An escaped text followed by nothing or by a separator is read back in one way.\<close>

definition sep_start :: "ustr \<Rightarrow> bool" where
  "sep_start r \<longleftrightarrow> r = [] \<or> hd r = ch_colon \<or> hd r = ch_equals"

lemma escaped_unique:
  "\<lbrakk>escaped a @ r = escaped b @ s; sep_start r; sep_start s\<rbrakk> \<Longrightarrow> a = b \<and> r = s"
proof (induction a arbitrary: b)
  case Nil
  then show ?case by (cases b) (auto simp: escaped_char_def sep_start_def split: if_splits)
next
  case (Cons c a)
  show ?case
  proof (cases b)
    case Nil
    with Cons(2,3,4) show ?thesis by (auto simp: escaped_char_def sep_start_def split: if_splits)
  next
    case (Cons d b')
    with Cons.prems Cons.IH [of b'] show ?thesis
      by (auto simp: escaped_char_def split: if_splits)
  qed
qed

lemma view_text_unique:
  assumes "view_text (h, sep, f, g) @ r = view_text (h', sep', f', g') @ s"
    and "sep_start r" "sep_start s" "sep \<in> {ch_colon, ch_equals}" "sep' \<in> {ch_colon, ch_equals}"
    and "h = h' \<and> sep = sep' \<Longrightarrow> g = None \<longleftrightarrow> g' = None"
  shows "(h, sep, f, g) = (h', sep', f', g') \<and> r = s"
proof -
  let ?g = "\<lambda>g. case g of Some d \<Rightarrow> ch_colon # escaped d | None \<Rightarrow> []"
  have start: "sep_start (?g x @ y)" if "sep_start y" for x y
    using that by (cases x) (simp_all add: sep_start_def)
  have "h = h' \<and> sep # escaped f @ ?g g @ r = sep' # escaped f' @ ?g g' @ s"
    using assms(1,4,5) by (intro escaped_unique) (auto simp: view_text_def sep_start_def)
  then have hd: "h = h'" "sep = sep'" and rest: "escaped f @ (?g g @ r) = escaped f' @ (?g g' @ s)" by auto
  from escaped_unique [OF rest start start] assms(2,3) have f: "f = f'" "?g g @ r = ?g g' @ s" by auto
  moreover have "g = g' \<and> r = s"
  proof (cases g)
    case None
    with assms(6) hd f(2) show ?thesis by simp
  next
    case (Some d)
    with assms(6) hd obtain d' where d': "g' = Some d'" by auto
    with Some f(2) have "escaped d @ r = escaped d' @ s" by simp
    from escaped_unique [OF this assms(2,3)] Some d' show ?thesis by simp
  qed
  ultimately show ?thesis using hd by simp
qed

lemma call_view_inj: "call_view c = call_view d \<Longrightarrow> c = d"
  by (cases c; cases d) (auto simp: lit_def dest!: show_nat_inj intro: unsigned_word_eqI)

lemma call_view_facts:
  "fst (snd (call_view c)) \<in> {ch_colon, ch_equals}"
  "\<lbrakk>fst (call_view c) = fst (call_view d); fst (snd (call_view c)) = fst (snd (call_view d))\<rbrakk> \<Longrightarrow>
     snd (snd (snd (call_view c))) = None \<longleftrightarrow> snd (snd (snd (call_view d))) = None"
  by (cases c; simp) (cases c; cases d; simp add: lit_def)

lemma call_text_unique:
  assumes "call_text c @ r = call_text d @ s" "sep_start r" "sep_start s"
  shows "c = d \<and> r = s"
proof -
  obtain h sep f g where c: "call_view c = (h, sep, f, g)" by (metis surj_pair)
  obtain h' sep' f' g' where d: "call_view d = (h', sep', f', g')" by (metis surj_pair)
  have "(h, sep, f, g) = (h', sep', f', g') \<and> r = s"
    using assms call_view_facts(1) [of c] call_view_facts(1) [of d] call_view_facts(2) [of c d]
    by (intro view_text_unique) (simp_all add: call_text_def c d)
  with c d show ?thesis by (metis call_view_inj)
qed

lemma call_text_nonempty: "call_text c \<noteq> []"
  by (cases c) (simp_all add: call_text_def view_text_def)

text \<open>C32. Two different sequences of builder calls never build one key, whatever the texts they
  are given: separators and backslashes inside a table, column, value or raw part cannot be
  taken for the structure of the key.\<close>

theorem key_of_injective: "key_of calls = key_of calls' \<longleftrightarrow> calls = calls'"
proof -
  have step: "key_of (c # cs) = call_text c @ (if cs = [] then [] else ch_colon # key_of cs)" for c cs
    by (cases cs) (simp_all add: key_of_eq)
  have "key_of calls = key_of calls' \<Longrightarrow> calls = calls'"
  proof (induction calls arbitrary: calls')
    case Nil
    then show ?case by (cases calls') (auto simp: step call_text_nonempty key_of_eq [of "[]"])
  next
    case (Cons c cs)
    show ?case
    proof (cases calls')
      case Nil
      with Cons.prems show ?thesis by (auto simp: step call_text_nonempty key_of_eq [of "[]"])
    next
      case d: (Cons d ds)
      have "c = d \<and> (if cs = [] then [] else ch_colon # key_of cs) = (if ds = [] then [] else ch_colon # key_of ds)"
        using Cons.prems by (intro call_text_unique) (auto simp: d step sep_start_def)
      with Cons.IH [of ds] d show ?thesis by (auto split: if_splits)
    qed
  qed
  then show ?thesis by blast
qed

end
