(* ===== verification/Prepared_Statements.thy ===== *)
theory Prepared_Statements
  imports Cache_Store Cache_Toggle
begin

text \<open>
  Statement statistics, \<open>src/src/cache/prepared_statements.rs\<close>: which SQL shapes ran, how
  often and for how long. Statements live in slots numbered by a 64-bit digest, a parameter
  here, so every theorem holds for every digest, one under which all statements collide
  included. One call reads the clock once.
\<close>

subsection \<open>State\<close>

record PreparedStatement =
  stmt_sql :: ustr
  prepared_at :: nat
  last_used :: nat
  execution_count :: u64
  total_execution_time_us :: "128 word"

definition PreparedStatement_new :: "nat \<Rightarrow> ustr \<Rightarrow> PreparedStatement" where
  "PreparedStatement_new now sql = \<lparr>stmt_sql = sql, prepared_at = now, last_used = now,
     execution_count = 0, total_execution_time_us = 0\<rparr>"

definition stmt_record_execution :: "nat \<Rightarrow> u64 \<Rightarrow> PreparedStatement \<Rightarrow> PreparedStatement" where
  "stmt_record_execution now execution_time_us stmt =
     stmt\<lparr>last_used := now,
          total_execution_time_us := total_execution_time_us stmt + ucast execution_time_us,
          execution_count := execution_count stmt + 1\<rparr>"

record PreparedStatementConfig =
  psc_enabled :: bool
  max_statements :: nat
  max_age :: nat

definition default_statement_config :: PreparedStatementConfig where
  "default_statement_config = \<lparr>psc_enabled = False, max_statements = 500, max_age = 3600 * 10 ^ 9\<rparr>"

interpretation statement_config: switchable psc_enabled "\<lambda>b c. c\<lparr>psc_enabled := b\<rparr>"
  by unfold_locales simp

record PreparedStatementCache =
  ps_config :: "PreparedStatementConfig Toggle"
  statements :: "(u64 \<times> PreparedStatement) list"
  ps_hits :: u64
  ps_misses :: u64
  total_executions :: u64
  ps_evictions :: u64

definition ps_with_config :: "PreparedStatementConfig \<Rightarrow> PreparedStatementCache" where
  "ps_with_config config = \<lparr>ps_config = toggle_new psc_enabled config, statements = [], ps_hits = 0,
     ps_misses = 0, total_executions = 0, ps_evictions = 0\<rparr>"

definition ps_apply_config :: "PreparedStatementConfig \<Rightarrow> PreparedStatementCache \<Rightarrow> PreparedStatementCache" where
  "ps_apply_config config c = c\<lparr>ps_config := toggle_apply psc_enabled config (ps_config c)\<rparr>"

definition ps_set_enabled :: "bool \<Rightarrow> PreparedStatementCache \<Rightarrow> PreparedStatementCache" where
  "ps_set_enabled b c =
     c\<lparr>ps_config := toggle_set_enabled (\<lambda>b c. c\<lparr>psc_enabled := b\<rparr>) b (ps_config c)\<rparr>"

definition ps_is_enabled :: "PreparedStatementCache \<Rightarrow> bool" where
  "ps_is_enabled c = toggle_enabled (ps_config c)"

definition set_max_statements :: "nat \<Rightarrow> PreparedStatementCache \<Rightarrow> PreparedStatementCache" where
  "set_max_statements n c = c\<lparr>ps_config := toggle_write (\<lambda>c. c\<lparr>max_statements := n\<rparr>) (ps_config c)\<rparr>"

definition set_max_age :: "nat \<Rightarrow> PreparedStatementCache \<Rightarrow> PreparedStatementCache" where
  "set_max_age age c = c\<lparr>ps_config := toggle_write (\<lambda>c. c\<lparr>max_age := age\<rparr>) (ps_config c)\<rparr>"

subsection \<open>Operations\<close>

text \<open>\<open>min_by_key\<close> over the slots: the first of the least recently used.\<close>

fun oldest_slot :: "(u64 \<times> PreparedStatement) list \<Rightarrow> u64 option" where
  "oldest_slot [] = None"
| "oldest_slot ((k, stmt) # slots) =
     Some (fst (fold (\<lambda>(k', stmt') (b, used). if last_used stmt' < used then (k', last_used stmt') else (b, used))
       slots (k, last_used stmt)))"

lemma oldest_slot_in: "oldest_slot slots = Some k \<Longrightarrow> k \<in> fst ` set slots"
proof -
  have "fst (fold (\<lambda>(k', stmt') (b, used). if last_used stmt' < used then (k', last_used stmt') else (b, used))
       xs p) \<in> insert (fst p) (fst ` set xs)" for xs p
    by (induction xs arbitrary: p) (fastforce split: if_splits)+
  then show "oldest_slot slots = Some k \<Longrightarrow> k \<in> fst ` set slots"
    by (cases slots rule: oldest_slot.cases) force+
qed

lemma delete_slot_shrinks:
  "oldest_slot slots = Some k \<Longrightarrow> length (AList.delete k slots) < length slots"
  using oldest_slot_in [of slots k] by (auto simp: AList.delete_eq intro!: length_filter_less)

text \<open>\<open>while statements.len() >= max { remove the oldest }\<close>, counting the evictions.\<close>

function trim_slots ::
  "nat \<Rightarrow> (u64 \<times> PreparedStatement) list \<Rightarrow> u64 \<Rightarrow> (u64 \<times> PreparedStatement) list \<times> u64" where
  "trim_slots limit slots n =
     (if length slots \<ge> limit then
        (case oldest_slot slots of
           Some k \<Rightarrow> trim_slots limit (AList.delete k slots) (n + 1)
         | None \<Rightarrow> (slots, n))
      else (slots, n))"
  by pat_completeness auto
termination
  by (relation "measure (\<lambda>(_, slots, _). length slots)") (auto dest: delete_slot_shrinks)

declare trim_slots.simps [simp del]

definition is_hit :: "nat \<Rightarrow> nat \<Rightarrow> ustr \<Rightarrow> PreparedStatement option \<Rightarrow> bool" where
  "is_hit now age sql slot =
     (case slot of Some stmt \<Rightarrow> stmt_sql stmt = sql \<and> now - prepared_at stmt < age | None \<Rightarrow> False)"

text \<open>The slots after a registration, before any timing is attributed.\<close>

definition register_slots ::
  "u64 \<Rightarrow> nat \<Rightarrow> ustr \<Rightarrow> PreparedStatementCache \<Rightarrow> bool \<times> PreparedStatementCache" where
  "register_slots hash now sql c =
     (let config = toggle_config (ps_config c); slot = map_of (statements c) hash in
      if is_hit now (max_age config) sql slot then
        (True, c\<lparr>statements := AList.update hash ((the slot)\<lparr>last_used := now\<rparr>) (statements c),
                 ps_hits := ps_hits c + 1\<rparr>)
      else
        (let c1 = c\<lparr>ps_misses := ps_misses c + 1, statements := AList.delete hash (statements c)\<rparr> in
         if max_statements config > 0 then
           (let (slots, n) = trim_slots (max_statements config) (statements c1) (ps_evictions c1)
            in (False, c1\<lparr>statements := AList.update hash (PreparedStatement_new now sql) slots,
                          ps_evictions := n\<rparr>))
         else (False, c1)))"

definition attribute_time ::
  "u64 \<Rightarrow> nat \<Rightarrow> u64 option \<Rightarrow> PreparedStatementCache \<Rightarrow> PreparedStatementCache" where
  "attribute_time hash now execution_time_us c =
     (case execution_time_us of
        None \<Rightarrow> c
      | Some duration \<Rightarrow>
          (case map_of (statements c) hash of
             Some stmt \<Rightarrow>
               c\<lparr>statements := AList.update hash (stmt_record_execution now duration stmt) (statements c)\<rparr>
           | None \<Rightarrow> c)\<lparr>total_executions := total_executions c + 1\<rparr>)"

definition register ::
  "(ustr \<Rightarrow> u64) \<Rightarrow> nat \<Rightarrow> ustr \<Rightarrow> u64 option \<Rightarrow> PreparedStatementCache \<Rightarrow> bool \<times> PreparedStatementCache" where
  "register hash_sql now sql execution_time_us c =
     (if \<not> ps_is_enabled c then (False, c)
      else (let (hit, c') = register_slots (hash_sql sql) now sql c
            in (hit, attribute_time (hash_sql sql) now execution_time_us c')))"

definition get_or_prepare ::
  "(ustr \<Rightarrow> u64) \<Rightarrow> nat \<Rightarrow> ustr \<Rightarrow> PreparedStatementCache \<Rightarrow> (ustr \<times> bool) \<times> PreparedStatementCache" where
  "get_or_prepare hash_sql now sql c = (let (hit, c') = register hash_sql now sql None c in ((sql, hit), c'))"

definition observe_execution ::
  "(ustr \<Rightarrow> u64) \<Rightarrow> nat \<Rightarrow> ustr \<Rightarrow> u64 \<Rightarrow> PreparedStatementCache \<Rightarrow> PreparedStatementCache" where
  "observe_execution hash_sql now sql execution_time_us c =
     (if \<not> ps_is_enabled c then c else snd (register hash_sql now sql (Some execution_time_us) c))"

definition record_execution ::
  "(ustr \<Rightarrow> u64) \<Rightarrow> nat \<Rightarrow> ustr \<Rightarrow> u64 \<Rightarrow> PreparedStatementCache \<Rightarrow> PreparedStatementCache" where
  "record_execution hash_sql now sql execution_time_us c =
     (if \<not> ps_is_enabled c then c
      else (let hash = hash_sql sql in
        (case map_of (statements c) hash of
           Some stmt \<Rightarrow>
             if stmt_sql stmt = sql
             then c\<lparr>statements := AList.update hash (stmt_record_execution now execution_time_us stmt) (statements c)\<rparr>
             else c
         | None \<Rightarrow> c)\<lparr>total_executions := total_executions c + 1\<rparr>))"

definition ps_invalidate :: "(ustr \<Rightarrow> u64) \<Rightarrow> ustr \<Rightarrow> PreparedStatementCache \<Rightarrow> bool \<times> PreparedStatementCache" where
  "ps_invalidate hash_sql sql c =
     (let hash = hash_sql sql in
      if (case map_of (statements c) hash of Some stmt \<Rightarrow> stmt_sql stmt \<noteq> sql | None \<Rightarrow> True) then (False, c)
      else (True, c\<lparr>statements := AList.delete hash (statements c)\<rparr>))"

definition ps_clear :: "PreparedStatementCache \<Rightarrow> PreparedStatementCache" where
  "ps_clear c = c\<lparr>statements := []\<rparr>"

definition ps_reset_stats :: "PreparedStatementCache \<Rightarrow> PreparedStatementCache" where
  "ps_reset_stats c = c\<lparr>ps_hits := 0, ps_misses := 0, total_executions := 0, ps_evictions := 0\<rparr>"

definition ps_len :: "PreparedStatementCache \<Rightarrow> nat" where
  "ps_len c = length (statements c)"

definition sql_preview :: "ustr \<Rightarrow> ustr" where
  "sql_preview sql = (if length sql > 100 then take 100 sql @ lit ''...'' else sql)"

definition avg_execution_time_us :: "PreparedStatement \<Rightarrow> u64" where
  "avg_execution_time_us stmt =
     ucast (total_execution_time_us stmt div ucast (max (execution_count stmt) 1))"

subsection \<open>The invariant\<close>

definition slots_ok :: "(ustr \<Rightarrow> u64) \<Rightarrow> (u64 \<times> PreparedStatement) list \<Rightarrow> bool" where
  "slots_ok hash_sql slots \<longleftrightarrow> distinct (map fst slots) \<and> list_all (\<lambda>(h, stmt). h = hash_sql (stmt_sql stmt)) slots"

lemma slots_ok_delete: "slots_ok H slots \<Longrightarrow> slots_ok H (AList.delete k slots)"
  by (auto simp: slots_ok_def distinct_map_filter list_all_iff AList.delete_eq)

lemma slots_ok_update:
  "slots_ok H slots \<Longrightarrow> H (stmt_sql stmt) = k \<Longrightarrow> slots_ok H (AList.update k stmt slots)"
proof -
  have "set (AList.update k stmt slots) \<subseteq> insert (k, stmt) (set slots)" by (induction slots) auto
  then show "slots_ok H slots \<Longrightarrow> H (stmt_sql stmt) = k \<Longrightarrow> ?thesis"
    by (fastforce simp: slots_ok_def distinct_update list_all_iff)
qed

lemma slots_ok_lookup: "slots_ok H slots \<Longrightarrow> map_of slots h = Some stmt \<Longrightarrow> H (stmt_sql stmt) = h"
  by (auto simp: slots_ok_def list_all_iff dest!: map_of_SomeD)

lemma trim_slots_spec:
  "slots_ok H slots \<Longrightarrow> let (slots', n') = trim_slots limit slots n in
     slots_ok H slots' \<and> map_of slots' \<subseteq>\<^sub>m map_of slots \<and> (limit = 0 \<or> length slots' < limit)"
proof (induction limit slots n rule: trim_slots.induct)
  case (1 limit slots n)
  show ?case
  proof (cases "length slots \<ge> limit")
    case True
    show ?thesis
    proof (cases "oldest_slot slots")
      case None
      then have "slots = []" by (cases slots rule: oldest_slot.cases) auto
      with 1(2) show ?thesis by (simp add: trim_slots.simps [of limit])
    next
      case (Some k)
      have "map_of (AList.delete k slots) \<subseteq>\<^sub>m map_of slots" by (auto simp: delete_conv' map_le_def)
      with 1(1) [OF True Some slots_ok_delete [OF 1(2)]] True Some show ?thesis
        by (auto simp: trim_slots.simps [of limit slots] intro: map_le_trans split: prod.splits)
    qed
  next
    case False
    with 1(2) show ?thesis by (simp add: trim_slots.simps [of limit])
  qed
qed

text \<open>What a lookup by SQL sees: the slot of its digest, if it holds this very statement.\<close>

definition statement_of :: "(ustr \<Rightarrow> u64) \<Rightarrow> ustr \<Rightarrow> PreparedStatementCache \<Rightarrow> PreparedStatement option" where
  "statement_of hash_sql sql c =
     (case map_of (statements c) (hash_sql sql) of
        Some stmt \<Rightarrow> if stmt_sql stmt = sql then Some stmt else None
      | None \<Rightarrow> None)"

lemma register_slots_spec:
  assumes ok: "slots_ok H (statements c)" and "0 < max_statements (toggle_config (ps_config c))"
    and run: "register_slots (H sql) now sql c = (hit, c')"
  shows "slots_ok H (statements c') \<and>
    ps_len c' \<le> max (max_statements (toggle_config (ps_config c))) (ps_len c) \<and>
    (hit \<longleftrightarrow> is_hit now (max_age (toggle_config (ps_config c))) sql (map_of (statements c) (H sql))) \<and>
    (\<exists>stmt. map_of (statements c') (H sql) = Some stmt \<and> stmt_sql stmt = sql \<and>
       execution_count stmt = (if hit then execution_count (the (map_of (statements c) (H sql))) else 0)) \<and>
    (\<forall>h. h \<noteq> H sql \<longrightarrow> map_of (statements c') h = None \<or> map_of (statements c') h = map_of (statements c) h)"
proof (cases "is_hit now (max_age (toggle_config (ps_config c))) sql (map_of (statements c) (H sql))")
  case True
  then obtain stmt where stmt: "map_of (statements c) (H sql) = Some stmt" "stmt_sql stmt = sql"
    by (auto simp: is_hit_def split: option.splits)
  have "length (AList.update (H sql) s (statements c)) = length (statements c)" for s
    using stmt(1) by (intro length_update_present) (metis map_of_eq_None_iff option.distinct(1))
  with True run stmt ok show ?thesis
    by (auto simp: register_slots_def Let_def ps_len_def update_conv' slots_ok_update)
next
  case False
  obtain slots n where trim: "trim_slots (max_statements (toggle_config (ps_config c)))
      (AList.delete (H sql) (statements c)) (ps_evictions c) = (slots, n)" by fastforce
  have t: "slots_ok H slots" "map_of slots \<subseteq>\<^sub>m map_of (AList.delete (H sql) (statements c))"
    "length slots < max_statements (toggle_config (ps_config c))"
    using trim_slots_spec [OF slots_ok_delete [OF ok], of "max_statements (toggle_config (ps_config c))"
        "H sql" "ps_evictions c"] trim assms(2) by simp_all
  have c': "hit = False" "statements c' = AList.update (H sql) (PreparedStatement_new now sql) slots"
    using run False assms(2) trim by (auto simp: register_slots_def Let_def)
  have "map_of slots (H sql) = None"
    using t(2) by (metis domIff map_le_def map_of_delete_same)
  then have "length (AList.update (H sql) (PreparedStatement_new now sql) slots) = Suc (length slots)"
    by (simp add: length_update_absent map_of_eq_None_iff)
  moreover have "map_of slots h = None \<or> map_of slots h = map_of (statements c) h" if "h \<noteq> H sql" for h
    using t(2) that by (simp add: map_le_def delete_conv') (metis domIff)
  ultimately show ?thesis
    using False c' t by (auto simp: ps_len_def PreparedStatement_new_def update_conv' intro!: slots_ok_update)
qed

text \<open>A digest collision never confuses two statements, whatever the digest. Registering a
  statement reports a hit exactly when this very SQL is there and young enough; afterwards its
  slot holds it, with its own execution count carried over on a hit and started afresh
  otherwise; any other statement is unchanged or was evicted, and the slots stay within the
  configured number.\<close>

theorem register_exact:
  assumes "slots_ok H (statements c)" "ps_is_enabled c" "0 < max_statements (toggle_config (ps_config c))"
  shows "let (hit, c') = register H now sql time c in
    slots_ok H (statements c') \<and>
    ps_len c' \<le> max (max_statements (toggle_config (ps_config c))) (ps_len c) \<and>
    (hit \<longleftrightarrow> (\<exists>stmt. statement_of H sql c = Some stmt \<and>
       now - prepared_at stmt < max_age (toggle_config (ps_config c)))) \<and>
    (\<exists>stmt. statement_of H sql c' = Some stmt \<and>
       execution_count stmt = (if hit then execution_count (the (statement_of H sql c)) else 0) +
         (if time = None then 0 else 1)) \<and>
    (\<forall>other. other \<noteq> sql \<longrightarrow>
       statement_of H other c' = None \<or> statement_of H other c' = statement_of H other c)"
proof -
  obtain hit c1 where run: "register_slots (H sql) now sql c = (hit, c1)" by fastforce
  note spec = register_slots_spec [OF assms(1,3) run]
  then obtain stmt where stmt: "map_of (statements c1) (H sql) = Some stmt" "stmt_sql stmt = sql"
    "execution_count stmt = (if hit then execution_count (the (map_of (statements c) (H sql))) else 0)" by blast
  let ?c = "attribute_time (H sql) now time c1"
  obtain stmt' where after: "map_of (statements ?c) = (map_of (statements c1))(H sql \<mapsto> stmt')" "stmt_sql stmt' = sql"
    "execution_count stmt' = execution_count stmt + (if time = None then 0 else 1)" "ps_len ?c = ps_len c1"
    "slots_ok H (statements ?c)"
  proof (cases time)
    case None
    have same: "(map_of (statements c1))(H sql \<mapsto> stmt) = map_of (statements c1)"
      using stmt(1) by (simp add: fun_upd_idem)
    show ?thesis
      by (rule that [of stmt]) (simp_all add: None attribute_time_def same stmt(2) spec [THEN conjunct1])
  next
    case (Some d)
    have "length (AList.update (H sql) s (statements c1)) = length (statements c1)" for s
      using stmt(1) by (intro length_update_present) (metis map_of_eq_None_iff option.distinct(1))
    then show ?thesis
      by (intro that [of "stmt_record_execution now d stmt"])
        (simp_all add: Some attribute_time_def update_conv' stmt_record_execution_def ps_len_def slots_ok_update
          stmt spec [THEN conjunct1])
  qed
  have other: "statement_of H other ?c = None \<or> statement_of H other ?c = statement_of H other c" if "other \<noteq> sql" for other
    using spec that after(1,2) by (cases "H other = H sql") (auto simp: statement_of_def)
  have hit: "hit \<longleftrightarrow> (\<exists>stmt. statement_of H sql c = Some stmt \<and>
       now - prepared_at stmt < max_age (toggle_config (ps_config c)))"
    using spec by (auto simp: is_hit_def statement_of_def split: option.splits)
  moreover have "statement_of H sql ?c = Some stmt'" using after by (simp add: statement_of_def)
  moreover have "hit \<Longrightarrow> the (statement_of H sql c) = the (map_of (statements c) (H sql))"
    using hit by (auto simp: statement_of_def split: option.splits if_splits)
  then have "execution_count stmt' = (if hit then execution_count (the (statement_of H sql c)) else 0) +
      (if time = None then 0 else 1)"
    using after(3) stmt(3) by simp
  moreover have reg: "register H now sql time c = (hit, ?c)"
    using assms(2) run by (simp add: register_def)
  moreover have "ps_len ?c \<le> max (max_statements (toggle_config (ps_config c))) (ps_len c)"
    using spec after(4) by simp
  ultimately show ?thesis
    unfolding reg Let_def prod.case using after(5) other
    by (intro conjI exI [of _ stmt'] allI impI) assumption+
qed

theorem register_exact_witness:
  "let c = ps_set_enabled True (ps_with_config default_statement_config) in
   let (hit, c') = register (\<lambda>_. 0) 5 (lit ''SELECT 1'') None c in
    slots_ok (\<lambda>_. 0) (statements c') \<and>
    ps_len c' \<le> max (max_statements (toggle_config (ps_config c))) (ps_len c) \<and>
    (hit \<longleftrightarrow> (\<exists>stmt. statement_of (\<lambda>_. 0) (lit ''SELECT 1'') c = Some stmt \<and>
       5 - prepared_at stmt < max_age (toggle_config (ps_config c)))) \<and>
    (\<exists>stmt. statement_of (\<lambda>_. 0) (lit ''SELECT 1'') c' = Some stmt \<and>
       execution_count stmt = (if hit then execution_count (the (statement_of (\<lambda>_. 0) (lit ''SELECT 1'') c)) else 0) +
         (if None = (None :: u64 option) then 0 else 1)) \<and>
    (\<forall>other. other \<noteq> lit ''SELECT 1'' \<longrightarrow>
       statement_of (\<lambda>_. 0) other c' = None \<or> statement_of (\<lambda>_. 0) other c' = statement_of (\<lambda>_. 0) other c)"
  unfolding Let_def [of "ps_set_enabled True (ps_with_config default_statement_config)"]
  by (rule register_exact)
    (simp_all add: ps_set_enabled_def ps_with_config_def toggle_defs slots_ok_def
      ps_is_enabled_def default_statement_config_def)

subsection \<open>Timings\<close>

lemma unat_u64_less: "unat (x :: u64) < 2 ^ 64"
proof -
  have "unat x < 2 ^ LENGTH(64)" by (rule unsigned_less)
  then show ?thesis by simp
qed

lemma sum_unat_le: "sum_list (map (\<lambda>(_, d). unat (d :: u64)) runs) \<le> length runs * (2 ^ 64 - 1)"
proof (induction runs)
  case (Cons run runs)
  obtain t d where run: "run = (t, d)" by fastforce
  have "unat d \<le> 2 ^ 64 - 1" using unat_u64_less [of d] by simp
  with Cons show ?case by (simp add: run)
qed simp

lemma unat_ucast_128: "unat (ucast (d :: u64) :: 128 word) = unat d"
proof -
  have "unat d < 2 ^ 128" using unat_u64_less [of d] by simp
  then show ?thesis by (simp add: unsigned_ucast_eq take_bit_nat_eq_self)
qed

lemma unat_narrow: "unat (w :: 128 word) < 2 ^ 64 \<Longrightarrow> unat (ucast w :: u64) = unat w"
  by (simp add: unsigned_ucast_eq take_bit_nat_eq_self)

lemma record_fields:
  "execution_count (stmt_record_execution now d s) = execution_count s + 1"
  "total_execution_time_us (stmt_record_execution now d s) = total_execution_time_us s + ucast d"
  by (simp_all add: stmt_record_execution_def)

lemma executions_exact:
  "length runs < 2 ^ 64 \<Longrightarrow>
   let stmt = fold (\<lambda>(now, d). stmt_record_execution now d) runs (PreparedStatement_new t sql) in
     unat (execution_count stmt) = length runs \<and>
     unat (total_execution_time_us stmt) = sum_list (map (\<lambda>(_, d). unat d) runs)"
proof (induction runs rule: rev_induct)
  case Nil
  then show ?case by (simp add: PreparedStatement_new_def)
next
  case (snoc run runs)
  obtain now d where run: "run = (now, d)" by fastforce
  let ?s = "fold (\<lambda>(now, d). stmt_record_execution now d) runs (PreparedStatement_new t sql)"
  let ?sum = "sum_list (map (\<lambda>(_, d). unat (d :: u64)) runs)"
  have IH: "unat (execution_count ?s) = length runs" "unat (total_execution_time_us ?s) = ?sum"
    using snoc by (simp_all add: Let_def)
  have "?sum + unat d < 2 ^ 128"
    using sum_unat_le [of runs] unat_u64_less [of d] snoc.prems by simp
  then have "unat (total_execution_time_us ?s + ucast d) = ?sum + unat d"
    using IH(2) by (simp add: unat_word_ariths unat_ucast_128)
  moreover have "unat (execution_count ?s + 1) = length runs + 1"
    using IH(1) snoc.prems by (simp add: unat_word_ariths)
  ultimately show ?case by (simp add: run record_fields)
qed

text \<open>Timings do not overflow: after any number of executions below \<open>2^64\<close>, whatever their
  durations, the 128-bit total is the exact sum of them, the count is their number, and the
  average that is reported, narrowed to 64 bits, is the exact quotient.\<close>

theorem statement_timings_exact:
  assumes "length runs < 2 ^ 64"
  shows "let stmt = fold (\<lambda>(now, d). stmt_record_execution now d) runs (PreparedStatement_new t sql) in
    unat (execution_count stmt) = length runs \<and>
    unat (total_execution_time_us stmt) = sum_list (map (\<lambda>(_, d). unat d) runs) \<and>
    unat (avg_execution_time_us stmt) = sum_list (map (\<lambda>(_, d). unat d) runs) div max (length runs) 1"
proof -
  let ?s = "fold (\<lambda>(now, d). stmt_record_execution now d) runs (PreparedStatement_new t sql)"
  let ?sum = "sum_list (map (\<lambda>(_, d). unat (d :: u64)) runs)"
  have exact: "unat (execution_count ?s) = length runs" "unat (total_execution_time_us ?s) = ?sum"
    using executions_exact [OF assms, of t sql] by (simp_all add: Let_def)
  have cnt: "unat (ucast (max (execution_count ?s) 1) :: 128 word) = max (length runs) 1"
    by (simp add: unat_ucast_128 max_def word_le_nat_alt exact(1))
  have "?sum \<le> max (length runs) 1 * (2 ^ 64 - 1)"
    using sum_unat_le [of runs] by (cases runs) simp_all
  then have "?sum div max (length runs) 1 \<le> 2 ^ 64 - 1"
    using div_le_mono [of ?sum "max (length runs) 1 * (2 ^ 64 - 1)" "max (length runs) 1"] by simp
  moreover have "unat (total_execution_time_us ?s div ucast (max (execution_count ?s) 1)) =
      ?sum div max (length runs) 1"
    unfolding unat_div_distrib cnt exact(2) ..
  ultimately have "unat (avg_execution_time_us ?s) = ?sum div max (length runs) 1"
    unfolding avg_execution_time_us_def by (subst unat_narrow) simp_all
  with exact show ?thesis by (simp add: Let_def)
qed

theorem statement_timings_exact_witness:
  "let stmt = fold (\<lambda>(now, d). stmt_record_execution now d) [(1, 3), (2, 8)] (PreparedStatement_new 0 []) in
    unat (execution_count stmt) = length [(1 :: nat, 3 :: u64), (2, 8)] \<and>
    unat (total_execution_time_us stmt) = sum_list (map (\<lambda>(_, d). unat d) [(1 :: nat, 3 :: u64), (2, 8)]) \<and>
    unat (avg_execution_time_us stmt) =
      sum_list (map (\<lambda>(_, d). unat d) [(1 :: nat, 3 :: u64), (2, 8)]) div max (length [(1 :: nat, 3 :: u64), (2, 8)]) 1"
  by (rule statement_timings_exact) simp

end
