(* ===== verification/Query_Filters.thy ===== *)
theory Query_Filters
  imports Validation_Rules Placeholders
begin

text \<open>
  The filters a query carries: \<open>src/src/query/filters.rs\<close>, \<open>filters/or_group.rs\<close>,
  \<open>filters/or_branch_builder.rs\<close>, \<open>filters/finite.rs\<close>, the condition table of
  \<open>src/src/query/sql.rs\<close> and \<open>sql/condition_builders/sea_condition_helpers.rs\<close>, and the \<open>LIKE\<close>
  helpers of \<open>src/src/columns.rs\<close> and \<open>comparison_pattern_list.rs\<close>.

  A bound value of the driver is a type variable. Serde's writer is the parameter \<open>to_value\<close>, and
  the walk that tells a NaN from a \<open>None\<close> the parameter \<open>loss_of\<close>.
\<close>

subsection \<open>Conditions\<close>

datatype Order = Asc | Desc

fun order_as_str :: "Order \<Rightarrow> ustr" where
  "order_as_str Asc = lit ''ASC''"
| "order_as_str Desc = lit ''DESC''"

datatype Operator =
    Eq | NotEq | Gt | Gte | Lt | Lte | Like | LikeEscaped | NotLike | In | NotIn | IsNull | IsNotNull
  | Between | NotBetween | JsonContains | JsonContainedBy | JsonKeyExists | JsonKeyNotExists
  | JsonPathExists | JsonPathNotExists | ArrayContains | ArrayContainedBy | ArrayOverlaps | Raw

text \<open>The constructor \<open>ConditionValue::None\<close> is \<open>NoValue\<close> here.\<close>

datatype 'v ConditionValue =
    Single Json
  | ValueList "Json list"
  | DocumentList "Json list" bool
  | Range Json Json
  | NoValue
  | RawExpr ustr
  | RawExprWithValues ustr "'v list"
  | RawTemplate ustr "'v list"
  | OtherColumn ustr
  | Invalid ustr

record 'v WhereCondition =
  cond_column :: ustr
  cond_operator :: Operator
  cond_value :: "'v ConditionValue"

datatype LogicalOp = And | Or

fun logical_as_sql :: "LogicalOp \<Rightarrow> ustr" where
  "logical_as_sql And = lit ''AND''"
| "logical_as_sql Or = lit ''OR''"

datatype 'v OrGroup =
  OrGroup (group_conditions: "'v WhereCondition list") (nested_groups: "'v OrGroup list")
    (combine_with: LogicalOp)

subsection \<open>Values a filter can carry\<close>

record filter_loss =
  loss_non_finite :: bool
  loss_none :: bool

record 'a serializer =
  to_value :: "'a \<Rightarrow> ustr + Json"
  loss_of :: "'a \<Rightarrow> ustr + filter_loss"

fun holds_null :: "Json \<Rightarrow> bool" where
  "holds_null JNull = True"
| "holds_null (JArray items) = list_ex holds_null items"
| "holds_null (JObject members) = list_ex (\<lambda>m. holds_null (snd m)) members"
| "holds_null _ = False"

definition checked_filter_value :: "'a serializer \<Rightarrow> 'a \<Rightarrow> ustr + Json" where
  "checked_filter_value S v =
     (case to_value S v of
        Inl e \<Rightarrow> Inl (lit ''a filter value cannot be bound: '' @ e)
      | Inr json \<Rightarrow>
          if holds_null json \<and> (case loss_of S v of Inr loss \<Rightarrow> loss_non_finite loss | Inl _ \<Rightarrow> False)
          then Inl (lit ''a filter value holds a NaN or infinite float, which SQL cannot compare'')
          else Inr json)"

definition checked_assignment_value :: "'a serializer \<Rightarrow> 'a \<Rightarrow> ustr + (Json \<times> bool)" where
  "checked_assignment_value S v =
     try_bind (checked_filter_value S v) (\<lambda>json.
       if json = JNull then try_bind (loss_of S v) (\<lambda>loss. Inr (json, loss_none loss))
       else Inr (json, False))"

fun collect_results :: "('e + 'a) list \<Rightarrow> 'e + 'a list" where
  "collect_results [] = Inr []"
| "collect_results (Inl e # rs) = Inl e"
| "collect_results (Inr a # rs) = try_bind (collect_results rs) (\<lambda>as. Inr (a # as))"

definition single :: "'a serializer \<Rightarrow> 'a \<Rightarrow> 'v ConditionValue" where
  "single S v =
     (case checked_assignment_value S v of
        Inr (_, True) \<Rightarrow> NoValue
      | Inr (json, False) \<Rightarrow> Single json
      | Inl reason \<Rightarrow> Invalid reason)"

definition value_list :: "'a serializer \<Rightarrow> 'a list \<Rightarrow> 'v ConditionValue" where
  "value_list S vs =
     (case collect_results (map (checked_filter_value S) vs) of
        Inl reason \<Rightarrow> Invalid reason
      | Inr values \<Rightarrow> ValueList values)"

definition members :: "'a serializer \<Rightarrow> 'a list \<Rightarrow> 'v ConditionValue" where
  "members S vs =
     (case collect_results (map (checked_assignment_value S) vs) of
        Inl reason \<Rightarrow> Invalid reason
      | Inr checked \<Rightarrow>
          if \<not> list_ex (\<lambda>(v, sql_null). v = JNull \<and> \<not> sql_null) checked
          then ValueList (map fst checked)
          else DocumentList (map fst (filter (\<lambda>(_, sql_null). \<not> sql_null) checked)) (list_ex snd checked))"

definition value_range :: "'a serializer \<Rightarrow> 'b serializer \<Rightarrow> 'a \<Rightarrow> 'b \<Rightarrow> 'v ConditionValue" where
  "value_range S S' low high =
     (case (checked_filter_value S low, checked_filter_value S' high) of
        (Inr l, Inr h) \<Rightarrow> Range l h
      | (Inl reason, _) \<Rightarrow> Invalid reason
      | (_, Inl reason) \<Rightarrow> Invalid reason)"

definition value_text :: "ustr \<Rightarrow> 'v ConditionValue" where
  "value_text t = Single (JString t)"

subsection \<open>Literal text in a LIKE pattern\<close>

definition LIKE_ESCAPE_CHAR :: uchar where
  "LIKE_ESCAPE_CHAR = 33"

definition escape_like_char :: "uchar \<Rightarrow> ustr" where
  "escape_like_char c =
     (if c = LIKE_ESCAPE_CHAR \<or> c = 37 \<or> c = ch_underscore then [LIKE_ESCAPE_CHAR, c] else [c])"

definition escape_like_literal :: "ustr \<Rightarrow> ustr" where
  "escape_like_literal v = concat (map escape_like_char v)"

definition contains_pattern :: "ustr \<Rightarrow> ustr" where
  "contains_pattern v = [37] @ escape_like_literal v @ [37]"

definition starts_with_pattern :: "ustr \<Rightarrow> ustr" where
  "starts_with_pattern v = escape_like_literal v @ [37]"

definition ends_with_pattern :: "ustr \<Rightarrow> ustr" where
  "ends_with_pattern v = [37] @ escape_like_literal v"

definition value_contains :: "ustr \<Rightarrow> 'v ConditionValue" where
  "value_contains v = value_text (contains_pattern v)"

definition value_starts_with :: "ustr \<Rightarrow> 'v ConditionValue" where
  "value_starts_with v = value_text (starts_with_pattern v)"

definition value_ends_with :: "ustr \<Rightarrow> 'v ConditionValue" where
  "value_ends_with v = value_text (ends_with_pattern v)"

fun literal_tokens :: "ustr \<Rightarrow> (uchar \<times> bool) list option" where
  "literal_tokens [] = Some []"
| "literal_tokens (c # cs) =
     (if c = 33 then
        (case cs of [] \<Rightarrow> None | d # ds \<Rightarrow> map_option (\<lambda>ts. (d, False) # ts) (literal_tokens ds))
      else if c = ch_underscore then None
      else map_option (\<lambda>ts. (c, c = 37) # ts) (literal_tokens cs))"

definition sqlite_literal_pattern :: "ustr \<Rightarrow> (ustr \<times> bool \<times> bool) option" where
  "sqlite_literal_pattern pattern =
     (case literal_tokens pattern of
        None \<Rightarrow> None
      | Some toks \<Rightarrow>
          let leading = (toks \<noteq> [] \<and> snd (hd toks));
              trailing = (toks \<noteq> [] \<and> snd (last toks));
              from = (if leading then 1 else 0);
              upto = max (length toks - (if trailing then 1 else 0)) from;
              middle = drop from (take upto toks)
          in if list_ex snd middle then None else Some (map fst middle, leading, trailing))"

text \<open>The test the SQLite rendering writes for the literal, over the case-folded texts.\<close>

fun sqlite_literal_test :: "bool \<Rightarrow> bool \<Rightarrow> ustr \<Rightarrow> ustr \<Rightarrow> bool" where
  "sqlite_literal_test True True needle hay = sublist needle hay"
| "sqlite_literal_test False True needle hay = (take (length needle) hay = needle)"
| "sqlite_literal_test True False needle hay =
     (needle = [] \<or> drop (length hay - length needle) hay = needle)"
| "sqlite_literal_test False False needle hay = (hay = needle)"

subsection \<open>Groups of conditions\<close>

definition OrGroup_new :: "'v OrGroup" where
  "OrGroup_new = OrGroup [] [] Or"

definition and_group :: "'v OrGroup" where
  "and_group = OrGroup [] [] And"

fun nested_or :: "('v OrGroup \<Rightarrow> 'v OrGroup) \<Rightarrow> 'v OrGroup \<Rightarrow> 'v OrGroup" where
  "nested_or f (OrGroup cs gs op) = OrGroup cs (gs @ [f OrGroup_new]) op"

fun nested_and :: "('v OrGroup \<Rightarrow> 'v OrGroup) \<Rightarrow> 'v OrGroup \<Rightarrow> 'v OrGroup" where
  "nested_and f (OrGroup cs gs op) = OrGroup cs (gs @ [f and_group]) op"

fun group_push_condition :: "'v WhereCondition \<Rightarrow> 'v OrGroup \<Rightarrow> 'v OrGroup" where
  "group_push_condition c (OrGroup cs gs op) = OrGroup (cs @ [c]) gs op"

fun group_is_empty :: "'v OrGroup \<Rightarrow> bool" where
  "group_is_empty (OrGroup cs gs op) = (cs = [] \<and> list_all group_is_empty gs)"

fun condition_count :: "'v OrGroup \<Rightarrow> nat" where
  "condition_count (OrGroup cs gs op) = length cs + sum_list (map condition_count gs)"

fun collect_conditions :: "'v OrGroup \<Rightarrow> 'v WhereCondition list" where
  "collect_conditions (OrGroup cs gs op) = cs @ concat (map collect_conditions gs)"

fun is_restrictive_with :: "('v WhereCondition \<Rightarrow> bool) \<Rightarrow> 'v OrGroup \<Rightarrow> bool" where
  "is_restrictive_with vac (OrGroup cs gs And) =
     (list_ex (\<lambda>c. \<not> vac c) cs \<or> list_ex (is_restrictive_with vac) gs)"
| "is_restrictive_with vac (OrGroup cs gs Or) =
     (\<not> group_is_empty (OrGroup cs gs Or) \<and> list_all (\<lambda>c. \<not> vac c) cs
      \<and> list_all (\<lambda>g. group_is_empty g \<or> is_restrictive_with vac g) gs)"

fun condition_is_vacuous :: "(ustr \<Rightarrow> bool) \<Rightarrow> 'v WhereCondition \<Rightarrow> bool" where
  "condition_is_vacuous is_json c =
     (case (cond_operator c, cond_value c) of
        (NotIn, ValueList values) \<Rightarrow> list_all (\<lambda>v. v = JNull) values
      | (NotIn, DocumentList values _) \<Rightarrow> list_all (\<lambda>v. v = JNull) values \<and> \<not> is_json (cond_column c)
      | (NotEq, NoValue) \<Rightarrow> True
      | (NotEq, Single JNull) \<Rightarrow> \<not> is_json (cond_column c)
      | (ArrayContains, ValueList values) \<Rightarrow> values = []
      | (Like, Single (JString pattern)) \<Rightarrow> pattern \<noteq> [] \<and> list_all (\<lambda>ch. ch = 37) pattern
      | (LikeEscaped, Single (JString pattern)) \<Rightarrow> pattern \<noteq> [] \<and> list_all (\<lambda>ch. ch = 37) pattern
      | (JsonContains, Single document) \<Rightarrow> document = JObject [] \<or> document = JArray []
      | _ \<Rightarrow> False)"


subsection \<open>What a group of conditions keeps\<close>

text \<open>
  A row passes an AND group when every member holds for it, and an OR group when one does; an
  empty nested group renders nothing. Holding means being true, so a comparison with NULL, which
  SQL calls unknown, does not hold.
\<close>

fun group_holds :: "('v WhereCondition \<Rightarrow> bool) \<Rightarrow> 'v OrGroup \<Rightarrow> bool" where
  "group_holds h (OrGroup cs gs And) =
     (list_all h cs \<and> list_all (\<lambda>g. group_is_empty g \<or> group_holds h g) gs)"
| "group_holds h (OrGroup cs gs Or) =
     (list_ex h cs \<or> list_ex (\<lambda>g. \<not> group_is_empty g \<and> group_holds h g) gs)"

lemma group_holds_mono:
  assumes "\<And>c. h c \<Longrightarrow> h' c"
  shows "group_holds h g \<Longrightarrow> group_holds h' g"
proof (induction g)
  case (OrGroup cs gs op)
  then show ?case using assms by (cases op) (auto simp: list_all_iff list_ex_iff)
qed

lemma empty_not_restrictive: "group_is_empty g \<Longrightarrow> \<not> is_restrictive_with vac g"
  by (induction vac g rule: is_restrictive_with.induct) (auto simp: list_all_iff list_ex_iff)

text \<open>The check decides the least row: the one for which only the vacuous conditions hold.\<close>

lemma restrictive_least_row:
  "\<not> group_is_empty g \<Longrightarrow> is_restrictive_with vac g \<longleftrightarrow> \<not> group_holds vac g"
proof (induction vac g rule: is_restrictive_with.induct)
  case (1 vac cs gs)
  then show ?case
    using empty_not_restrictive by (fastforce simp: list_all_iff list_ex_iff)
next
  case (2 vac cs gs)
  then show ?case by (auto simp: list_all_iff list_ex_iff)
qed

lemma restrictive_iff:
  assumes "\<not> group_is_empty g"
  shows "is_restrictive_with vac g \<longleftrightarrow> (\<exists>h. (\<forall>c. vac c \<longrightarrow> h c) \<and> \<not> group_holds h g)"
  using restrictive_least_row [OF assms] group_holds_mono [of vac _ g] by blast

subsection \<open>The fluent OR expression\<close>

text \<open>An \<open>or_where_*\<close> call starts a branch, an \<open>and_where_*\<close> call extends the current one.\<close>

datatype 'v branch_call = StartBranch "'v WhereCondition" | ExtendBranch "'v WhereCondition"

record 'v branches =
  closed_branches :: "'v OrGroup list"
  current_branch :: "'v OrGroup"

definition branches_new :: "'v branches" where
  "branches_new = \<lparr>closed_branches = [], current_branch = and_group\<rparr>"

definition start_branch :: "'v WhereCondition \<Rightarrow> 'v branches \<Rightarrow> 'v branches" where
  "start_branch c b = \<lparr>
     closed_branches = closed_branches b
       @ (if group_is_empty (current_branch b) then [] else [current_branch b]),
     current_branch = group_push_condition c and_group\<rparr>"

definition extend_branch :: "'v WhereCondition \<Rightarrow> 'v branches \<Rightarrow> 'v branches" where
  "extend_branch c b = b\<lparr>current_branch := group_push_condition c (current_branch b)\<rparr>"

fun run_branch_call :: "'v branch_call \<Rightarrow> 'v branches \<Rightarrow> 'v branches" where
  "run_branch_call (StartBranch c) = start_branch c"
| "run_branch_call (ExtendBranch c) = extend_branch c"

definition add_branch :: "'v OrGroup \<Rightarrow> 'v OrGroup \<Rightarrow> 'v OrGroup" where
  "add_branch branch g =
     (if length (group_conditions branch) = 1
      then OrGroup (group_conditions g @ group_conditions branch) (nested_groups g) (combine_with g)
      else OrGroup (group_conditions g) (nested_groups g @ [branch]) (combine_with g))"

definition end_or :: "'v branches \<Rightarrow> 'v OrGroup list \<Rightarrow> 'v OrGroup list" where
  "end_or b or_groups =
     (let all = closed_branches b
        @ (if group_is_empty (current_branch b) then [] else [current_branch b])
      in if all = [] then or_groups else or_groups @ [fold add_branch all OrGroup_new])"

text \<open>The calls that write a list of branches, each a first condition and those ANDed to it.\<close>

definition branch_calls :: "('v WhereCondition \<times> 'v WhereCondition list) list \<Rightarrow> 'v branch_call list" where
  "branch_calls bs = concat (map (\<lambda>(c, cs). StartBranch c # map ExtendBranch cs) bs)"

lemma branch_calls_simps [simp]:
  "branch_calls [] = []"
  "branch_calls ((c, cs) # bs) = StartBranch c # map ExtendBranch cs @ branch_calls bs"
  by (simp_all add: branch_calls_def)

definition branch_group :: "'v WhereCondition \<times> 'v WhereCondition list \<Rightarrow> 'v OrGroup" where
  "branch_group b = OrGroup (fst b # snd b) [] And"

lemma extend_run:
  "fold run_branch_call (map ExtendBranch cs) \<lparr>closed_branches = B, current_branch = OrGroup ds [] And\<rparr>
     = \<lparr>closed_branches = B, current_branch = OrGroup (ds @ cs) [] And\<rparr>"
  by (induction cs arbitrary: ds) (simp_all add: extend_branch_def)

lemma branch_run:
  "fold run_branch_call (branch_calls bs) \<lparr>closed_branches = B, current_branch = branch_group b\<rparr>
     = \<lparr>closed_branches = B @ map branch_group (butlast (b # bs)), current_branch = branch_group (last (b # bs))\<rparr>"
proof (induction bs arbitrary: B b)
  case (Cons x bs)
  obtain c cs where x: "x = (c, cs)" by (cases x)
  have "fold run_branch_call (branch_calls (x # bs)) \<lparr>closed_branches = B, current_branch = branch_group b\<rparr>
      = fold run_branch_call (branch_calls bs)
          \<lparr>closed_branches = B @ [branch_group b], current_branch = branch_group x\<rparr>"
    using extend_run [of cs "B @ [branch_group b]" "[c]"]
    by (simp add: x start_branch_def and_group_def branch_group_def)
  then show ?case by (simp add: Cons.IH)
qed simp

lemma branches_written:
  assumes "bs \<noteq> []"
  shows "fold run_branch_call (branch_calls bs) branches_new
     = \<lparr>closed_branches = map branch_group (butlast bs), current_branch = branch_group (last bs)\<rparr>"
proof -
  obtain c cs bs' where bs: "bs = (c, cs) # bs'" using assms by (cases bs) auto
  have "fold run_branch_call (branch_calls bs) branches_new
      = fold run_branch_call (branch_calls bs') \<lparr>closed_branches = [], current_branch = branch_group (c, cs)\<rparr>"
    using extend_run [of cs "[]" "[c]"]
    by (simp add: bs start_branch_def and_group_def branch_group_def branches_new_def)
  then show ?thesis by (simp add: branch_run bs)
qed

lemma add_branches_holds:
  "group_holds h (fold add_branch (map branch_group bs) (OrGroup cs gs Or))
     \<longleftrightarrow> group_holds h (OrGroup cs gs Or) \<or> list_ex (\<lambda>b. list_all h (fst b # snd b)) bs"
proof (induction bs arbitrary: cs gs)
  case (Cons b bs)
  show ?case
  proof (cases "snd b = []")
    case True
    then have "add_branch (branch_group b) (OrGroup cs gs Or) = OrGroup (cs @ [fst b]) gs Or"
      by (simp add: add_branch_def branch_group_def)
    then show ?thesis using Cons.IH [of "cs @ [fst b]" gs] True by auto
  next
    case False
    then have "add_branch (branch_group b) (OrGroup cs gs Or) = OrGroup cs (gs @ [branch_group b]) Or"
      by (simp add: add_branch_def branch_group_def)
    then show ?thesis using Cons.IH [of cs "gs @ [branch_group b]"] by (auto simp: branch_group_def)
  qed
qed simp

text \<open>The fluent OR expression adds to a query one group, which a row passes exactly when some
  branch holds for it whole, whatever mixture of one-condition and longer branches is written; with
  no branch nothing is added.\<close>

theorem or_expression_holds:
  "end_or (fold run_branch_call (branch_calls bs) branches_new) groups
     = groups @ (if bs = [] then [] else [fold add_branch (map branch_group bs) OrGroup_new])
   \<and> group_holds h (fold add_branch (map branch_group bs) OrGroup_new)
       = list_ex (\<lambda>b. list_all h (fst b # snd b)) bs"
proof
  show "end_or (fold run_branch_call (branch_calls bs) branches_new) groups
     = groups @ (if bs = [] then [] else [fold add_branch (map branch_group bs) OrGroup_new])"
  proof (cases "bs = []")
    case True
    then show ?thesis by (simp add: end_or_def branches_new_def and_group_def)
  next
    case False
    have "map branch_group (butlast bs) @ [branch_group (last bs)] = map branch_group bs"
      using False by (metis append_butlast_last_id list.simps(9) list.simps(8) map_append)
    then show ?thesis
      using False branches_written [OF False]
      by (simp add: end_or_def branch_group_def [of "last bs"] Let_def)
  qed
  show "group_holds h (fold add_branch (map branch_group bs) OrGroup_new)
       = list_ex (\<lambda>b. list_all h (fst b # snd b)) bs"
    using add_branches_holds [of h bs "[]" "[]"] by (simp add: OrGroup_new_def)
qed

subsection \<open>What a LIKE pattern matches\<close>

text \<open>
  SQL's \<open>LIKE p ESCAPE '!'\<close>: a percent sign stands for any run of characters, an underscore for one
  character, and the escape makes the next character literal. Characters compare through a case
  folding \<open>f\<close>, the identity for a case-sensitive collation. A pattern that ends in the escape is an
  error.
\<close>

datatype like_token = AnyRun | AnyOne | Exactly uchar

fun like_tokens :: "ustr \<Rightarrow> like_token list option" where
  "like_tokens [] = Some []"
| "like_tokens (c # cs) =
     (if c = 33 then
        (case cs of [] \<Rightarrow> None | d # ds \<Rightarrow> map_option ((#) (Exactly d)) (like_tokens ds))
      else map_option ((#) (if c = 37 then AnyRun else if c = ch_underscore then AnyOne else Exactly c))
             (like_tokens cs))"

fun tokens_match :: "(uchar \<Rightarrow> uchar) \<Rightarrow> like_token list \<Rightarrow> ustr \<Rightarrow> bool" where
  "tokens_match f [] t \<longleftrightarrow> t = []"
| "tokens_match f (AnyRun # ts) t \<longleftrightarrow>
     tokens_match f ts t \<or> (case t of [] \<Rightarrow> False | _ # t' \<Rightarrow> tokens_match f (AnyRun # ts) t')"
| "tokens_match f (AnyOne # ts) t \<longleftrightarrow> (case t of [] \<Rightarrow> False | _ # t' \<Rightarrow> tokens_match f ts t')"
| "tokens_match f (Exactly c # ts) t \<longleftrightarrow>
     (case t of [] \<Rightarrow> False | d # t' \<Rightarrow> f c = f d \<and> tokens_match f ts t')"

definition like_matches :: "(uchar \<Rightarrow> uchar) \<Rightarrow> ustr \<Rightarrow> ustr \<Rightarrow> bool" where
  "like_matches f pattern t = (case like_tokens pattern of None \<Rightarrow> False | Some ts \<Rightarrow> tokens_match f ts t)"

lemma any_run_match: "tokens_match f (AnyRun # ts) t \<longleftrightarrow> (\<exists>u v. t = u @ v \<and> tokens_match f ts v)"
proof (induction t)
  case (Cons c t)
  have "(\<exists>u v. c # t = u @ v \<and> tokens_match f ts v)
      \<longleftrightarrow> tokens_match f ts (c # t) \<or> (\<exists>u v. t = u @ v \<and> tokens_match f ts v)"
    by (metis append_Cons append_Nil append_eq_Cons_conv)
  then show ?case using Cons.IH by simp
qed simp

declare tokens_match.simps(2) [simp del]

lemma exact_match:
  "tokens_match f (map Exactly cs @ ts) t
     \<longleftrightarrow> (\<exists>u v. t = u @ v \<and> map f u = map f cs \<and> tokens_match f ts v)"
proof (induction cs arbitrary: t)
  case (Cons c cs)
  show ?case
  proof (cases t)
    case (Cons d t')
    have "(\<exists>u v. t = u @ v \<and> map f u = map f (c # cs) \<and> tokens_match f ts v)
        \<longleftrightarrow> f c = f d \<and> (\<exists>u v. t' = u @ v \<and> map f u = map f cs \<and> tokens_match f ts v)"
      unfolding Cons by (auto simp: Cons_eq_append_conv map_eq_Cons_conv) (metis append_Cons list.simps(9))+
    then show ?thesis using Cons.IH [of t'] by (simp add: Cons)
  qed simp
qed auto

lemma prefix_map: "(\<exists>b c. t = b @ c \<and> map f b = w) \<longleftrightarrow> prefix w (map f t)"
  by (auto simp: prefix_def map_eq_append_conv)

lemma suffix_map: "(\<exists>a b. t = a @ b \<and> map f b = w) \<longleftrightarrow> suffix w (map f t)"
  by (auto simp: suffix_def map_eq_append_conv)

lemma sublist_map: "(\<exists>a b. t = a @ b \<and> prefix w (map f b)) \<longleftrightarrow> sublist w (map f t)"
  by (auto simp: sublist_altdef' suffix_def map_eq_append_conv)

lemma match_equal: "tokens_match f (map Exactly v) t \<longleftrightarrow> map f t = map f v"
  using exact_match [of f v "[]" t] by auto

lemma match_prefix: "tokens_match f (map Exactly v @ [AnyRun]) t \<longleftrightarrow> prefix (map f v) (map f t)"
  using prefix_map [of t f "map f v"] by (simp add: exact_match any_run_match) 

lemma match_suffix: "tokens_match f (AnyRun # map Exactly v) t \<longleftrightarrow> suffix (map f v) (map f t)"
  using suffix_map [of t f "map f v"] by (simp add: any_run_match match_equal)

lemma match_sublist: "tokens_match f (AnyRun # map Exactly v @ [AnyRun]) t \<longleftrightarrow> sublist (map f v) (map f t)"
  using sublist_map [of t "map f v" f] by (simp add: any_run_match match_prefix)

lemmas literal_match = match_equal match_prefix match_suffix match_sublist

lemma like_tokens_literal:
  "like_tokens (escape_like_literal v @ p) = map_option (\<lambda>ts. map Exactly v @ ts) (like_tokens p)"
  by (induction v)
    (auto simp: escape_like_literal_def escape_like_char_def LIKE_ESCAPE_CHAR_def option.map_comp comp_def
       option.map_ident)

lemma literal_tokens_literal:
  "literal_tokens (escape_like_literal v @ p) = map_option (\<lambda>ts. map (\<lambda>c. (c, False)) v @ ts) (literal_tokens p)"
  by (induction v)
    (auto simp: escape_like_literal_def escape_like_char_def LIKE_ESCAPE_CHAR_def option.map_comp comp_def
       option.map_ident)

text \<open>C37. The patterns of \<open>contains\<close>, \<open>starts_with\<close> and \<open>ends_with\<close> match literally: a text matches
  exactly when it contains, starts with or ends with the value, compared through the collation's
  case folding, whatever wildcards and escapes the value holds.\<close>

theorem literal_patterns_match:
  "like_matches f (contains_pattern v) t = sublist (map f v) (map f t)
   \<and> like_matches f (starts_with_pattern v) t = prefix (map f v) (map f t)
   \<and> like_matches f (ends_with_pattern v) t = suffix (map f v) (map f t)"
  using like_tokens_literal [of v "[37]"] like_tokens_literal [of v "[]"]
  by (simp add: like_matches_def contains_pattern_def starts_with_pattern_def ends_with_pattern_def
      literal_match)

lemma sqlite_literal_test_eq:
  "sqlite_literal_test l r w u \<longleftrightarrow>
     (if l then if r then sublist w u else suffix w u else if r then prefix w u else u = w)"
proof -
  have "prefix w u \<longleftrightarrow> take (length w) u = w"
    by (metis append_eq_conv_conj prefix_def append_take_drop_id)
  moreover have "suffix w u \<longleftrightarrow> w = [] \<or> drop (length u - length w) u = w"
    by (metis suffix_bot.bot_least suffix_drop suffix_take append_take_drop_id suffixE suffixI
        append_eq_conv_conj diff_add_inverse2 length_append)
  ultimately show ?thesis by (cases l; cases r) auto
qed

text \<open>The SQLite rendering: the pattern taken apart again.\<close>

fun pattern_token :: "uchar \<times> bool \<Rightarrow> like_token" where
  "pattern_token (c, wildcard) = (if wildcard then AnyRun else Exactly c)"

lemma literal_tokens_like:
  "literal_tokens p = Some ts \<Longrightarrow> like_tokens p = Some (map pattern_token ts)"
  by (induction p arbitrary: ts rule: literal_tokens.induct)
    (auto split: if_splits list.splits)

lemma no_wildcards: "\<not> list_ex snd ts \<Longrightarrow> map pattern_token ts = map Exactly (map fst ts)"
  by (induction ts) auto

lemma sqlite_literal_shape:
  assumes "sqlite_literal_pattern p = Some (v, l, r)"
  shows "like_tokens p = Some ((if l then [AnyRun] else []) @ map Exactly v @ (if r then [AnyRun] else []))
       \<or> l \<and> r \<and> v = [] \<and> like_tokens p = Some [AnyRun]"
proof -
  obtain ts where ts: "literal_tokens p = Some ts"
    using assms by (auto simp: sqlite_literal_pattern_def split: option.splits)
  note like = literal_tokens_like [OF ts]
  define middle where "middle = drop (if l then 1 else 0)
    (take (max (length ts - (if r then 1 else 0)) (if l then 1 else 0)) ts)"
  have parts: "l \<longleftrightarrow> ts \<noteq> [] \<and> snd (hd ts)" "r \<longleftrightarrow> ts \<noteq> [] \<and> snd (last ts)"
    "\<not> list_ex snd middle" "v = map fst middle"
    using assms by (auto simp: sqlite_literal_pattern_def ts middle_def Let_def split: if_splits)
  note exact = no_wildcards [OF parts(3)]
  consider (none) "\<not> l" "\<not> r" | (left) "l" "\<not> r" | (right) "\<not> l" "r"
    | (alone) "l" "r" "length ts = 1" | (both) "l" "r" "2 \<le> length ts"
    using parts(1) by (cases ts) (auto, cases "tl ts", auto)
  then show ?thesis
  proof cases
    case none
    then show ?thesis using like exact by (simp add: middle_def parts(4))
  next
    case left
    then show ?thesis using like exact parts by (cases ts) (auto simp: middle_def)
  next
    case right
    then have "ts = middle @ [last ts]"
      using parts(2) append_butlast_last_id [of ts] by (simp add: middle_def butlast_conv_take)
    then have "map pattern_token ts = map Exactly v @ [AnyRun]"
      using exact parts(2,4) right by (subst \<open>ts = _\<close>) (cases "last ts", simp)
    then show ?thesis using like right by simp
  next
    case alone
    then show ?thesis using like parts by (cases ts) (auto simp: middle_def)
  next
    case both
    obtain a zs where zs: "ts = a # zs" using both(3) by (cases ts) auto
    moreover have "zs \<noteq> []" using both(3) zs by auto
    ultimately obtain us b where us: "ts = a # us @ [b]" by (cases zs rule: rev_cases) auto
    then have "middle = us" using both by (simp add: middle_def)
    then show ?thesis using like exact parts both us by (cases a; cases b) auto
  qed
qed

text \<open>On SQLite a literal filter is written as a slice comparison, which agrees with \<open>LIKE\<close> on every
  text: whenever the pattern can be taken apart, matching it is the same as the slice test on the
  literal. The patterns the builders write can always be taken apart, into the value itself.\<close>

theorem sqlite_literal_agrees:
  "(case sqlite_literal_pattern p of
      None \<Rightarrow> True
    | Some (v, l, r) \<Rightarrow> like_matches f p t = sqlite_literal_test l r (map f v) (map f t))
   \<and> sqlite_literal_pattern (contains_pattern v) = Some (v, True, True)
   \<and> sqlite_literal_pattern (starts_with_pattern v) = Some (v, v = [], True)
   \<and> sqlite_literal_pattern (ends_with_pattern v) = Some (v, True, v = [])"
proof (intro conjI)
  have "like_matches f p t = sqlite_literal_test l r (map f v) (map f t)"
    if "sqlite_literal_pattern p = Some (v, l, r)" for v l r
    using sqlite_literal_shape [OF that]
  proof
    assume tokens: "like_tokens p = Some ((if l then [AnyRun] else []) @ map Exactly v @ (if r then [AnyRun] else []))"
    then show ?thesis
      by (simp add: like_matches_def literal_match sqlite_literal_test_eq)
  next
    assume "l \<and> r \<and> v = [] \<and> like_tokens p = Some [AnyRun]"
    then show ?thesis by (auto simp: like_matches_def any_run_match)
  qed
  then show "case sqlite_literal_pattern p of
      None \<Rightarrow> True
    | Some (v, l, r) \<Rightarrow> like_matches f p t = sqlite_literal_test l r (map f v) (map f t)"
    by (auto split: option.splits)
  have flags: "\<not> list_ex snd (map (\<lambda>c. (c, False)) v)" "map fst (map (\<lambda>c. (c, False)) v) = v"
    by (induction v) auto
  show "sqlite_literal_pattern (contains_pattern v) = Some (v, True, True)"
    using flags literal_tokens_literal [of v "[37]"]
    by (simp add: sqlite_literal_pattern_def contains_pattern_def Let_def)
  show "sqlite_literal_pattern (starts_with_pattern v) = Some (v, v = [], True)"
    using flags literal_tokens_literal [of v "[37]"]
    by (cases v) (auto simp add: sqlite_literal_pattern_def starts_with_pattern_def Let_def)
  show "sqlite_literal_pattern (ends_with_pattern v) = Some (v, True, v = [])"
    using flags literal_tokens_literal [of v "[]"]
    by (cases v) (auto simp add: sqlite_literal_pattern_def ends_with_pattern_def Let_def last_map)
qed

end
