(* ===== verification/Model_Meta.thy ===== *)
theory Model_Meta
  imports Sql_Quoting Errors
begin

text \<open>
  What a model tells the library about its table, and how names are resolved against it:
  \<open>src/src/model/meta.rs\<close> and the column references of \<open>src/src/columns.rs\<close>.

  The facts a model declares (its table, schema, columns, fields, keys) are generated by the derive
  macro, so they are a record; the functions over them are the trait's provided methods.
\<close>

text \<open>\<open>str::rsplit_once\<close> on a character.\<close>

definition rsplit_once :: "uchar \<Rightarrow> ustr \<Rightarrow> (ustr \<times> ustr) option" where
  "rsplit_once d s =
     (if d \<in> set s
      then Some (rev (tl (dropWhile (\<lambda>c. c \<noteq> d) (rev s))), rev (takeWhile (\<lambda>c. c \<noteq> d) (rev s)))
      else None)"

lemma rsplit_once_none: "rsplit_once d s = None \<longleftrightarrow> d \<notin> set s"
  by (simp add: rsplit_once_def)

lemma rsplit_once_append: "d \<notin> set b \<Longrightarrow> rsplit_once d (a @ d # b) = Some (a, b)"
  by (simp add: rsplit_once_def dropWhile_append takeWhile_append)

lemma rsplit_once_Some: "rsplit_once d s = Some (a, b) \<longleftrightarrow> s = a @ d # b \<and> d \<notin> set b"
proof
  assume "rsplit_once d s = Some (a, b)"
  then have d: "d \<in> set s" by (simp add: rsplit_once_def split: if_splits)
  then obtain u w where "s = u @ d # w" "d \<notin> set w" by (meson split_list_last)
  then show "s = a @ d # b \<and> d \<notin> set b"
    using \<open>rsplit_once d s = Some (a, b)\<close> by (simp add: rsplit_once_append)
qed (simp add: rsplit_once_append)

record model =
  table_name :: ustr
  schema_name :: "ustr option"
  column_names :: "ustr list"
  field_names :: "ustr list"
  primary_key_names :: "ustr list"
  soft_delete_enabled :: bool
  deleted_at_column :: ustr

definition primary_key_name :: "model \<Rightarrow> ustr" where
  "primary_key_name M = (case primary_key_names M of [] \<Rightarrow> lit ''id'' | k # _ \<Rightarrow> k)"

definition canonical_column_name :: "model \<Rightarrow> ustr \<Rightarrow> ustr option" where
  "canonical_column_name M name =
     (if name \<in> set (column_names M) then Some name
      else map_option snd (find (\<lambda>(field, column). field = name) (zip (field_names M) (column_names M))))"

definition canonical_field_name :: "model \<Rightarrow> ustr \<Rightarrow> ustr option" where
  "canonical_field_name M name =
     (if name \<in> set (field_names M) then Some name
      else map_option fst (find (\<lambda>(field, column). column = name) (zip (field_names M) (column_names M))))"

definition column_named :: "model \<Rightarrow> ustr \<Rightarrow> ustr" where
  "column_named M name = (case canonical_column_name M name of None \<Rightarrow> name | Some column \<Rightarrow> column)"

definition owns_table_reference :: "model \<Rightarrow> ustr \<Rightarrow> bool" where
  "owns_table_reference M reference =
     (case split_once ch_dot reference of
        Some (schema, table) \<Rightarrow> Some schema = schema_name M \<and> table = table_name M
      | None \<Rightarrow> reference = table_name M)"

definition canonical_column_parts :: "model \<Rightarrow> ustr \<Rightarrow> ustr option \<times> ustr" where
  "canonical_column_parts M name =
     (case rsplit_once ch_dot name of
        Some (table, column) \<Rightarrow>
          if owns_table_reference M table then (Some (table_name M), column_named M column)
          else (Some table, column)
      | None \<Rightarrow> (None, column_named M name))"

definition own_column_name :: "model \<Rightarrow> ustr \<Rightarrow> ustr option" where
  "own_column_name M name =
     (case rsplit_once ch_dot (trim name) of
        Some (table, column) \<Rightarrow>
          if owns_table_reference M table then canonical_column_name M column else None
      | None \<Rightarrow> canonical_column_name M (trim name))"

text \<open>A column as a builder call takes it: a name, and for a model's typed column its table and schema.\<close>

record column_ref =
  ref_name :: ustr
  ref_table :: "ustr option"
  ref_schema :: "ustr option"

definition plain_column :: "ustr \<Rightarrow> column_ref" where
  "plain_column name = \<lparr>ref_name = name, ref_table = None, ref_schema = None\<rparr>"

definition column_reference :: "column_ref \<Rightarrow> (ustr \<times> ustr option) option \<Rightarrow> ustr" where
  "column_reference c own_table =
     (case ref_table c of
        Some table \<Rightarrow>
          if Some (table, ref_schema c) \<noteq> own_table
          then (case ref_schema c of
                  Some schema \<Rightarrow> schema @ [ch_dot] @ table @ [ch_dot] @ ref_name c
                | None \<Rightarrow> table @ [ch_dot] @ ref_name c)
          else ref_name c
      | None \<Rightarrow> ref_name c)"

definition model_table :: "model \<Rightarrow> (ustr \<times> ustr option) option" where
  "model_table M = Some (table_name M, schema_name M)"

subsection \<open>Name resolution\<close>

lemma canonical_column_is_column: "canonical_column_name M name = Some column \<Longrightarrow> column \<in> set (column_names M)"
  by (auto simp: canonical_column_name_def split: if_splits dest!: find_Some_iff [THEN iffD1] set_zip_rightD)

lemma canonical_column_self: "column \<in> set (column_names M) \<Longrightarrow> canonical_column_name M column = Some column"
  by (simp add: canonical_column_name_def)

lemmas canonical_column_idem = canonical_column_self [OF canonical_column_is_column]

lemma column_named_idem [simp]: "column_named M (column_named M name) = column_named M name"
  by (auto simp: column_named_def canonical_column_idem split: option.splits)

text \<open>A model to try the definitions on.\<close>

definition demo_model :: model where
  "demo_model = \<lparr>table_name = lit ''posts'', schema_name = None, column_names = [lit ''id'', lit ''title''],
     field_names = [lit ''id'', lit ''title''], primary_key_names = [lit ''id''], soft_delete_enabled = True,
     deleted_at_column = lit ''deleted_at''\<rparr>"

end
