(* ===== verification/Query_Structure.thy ===== *)
theory Query_Structure
  imports Query_Filters Model_Meta
begin

text \<open>
  The clause structures of a query and their rendering: \<open>src/src/query/structure.rs\<close>, and the shared
  helpers of \<open>src/src/query/db_sql.rs\<close>. A bound value of the driver is the type \<open>'v\<close>, a column type
  the type \<open>'t\<close>.
\<close>

subsection \<open>Joins and compound selects\<close>

datatype JoinType = InnerJoin | LeftJoin | RightJoin

fun join_as_sql :: "JoinType \<Rightarrow> ustr" where
  "join_as_sql InnerJoin = lit ''INNER JOIN''"
| "join_as_sql LeftJoin = lit ''LEFT JOIN''"
| "join_as_sql RightJoin = lit ''RIGHT JOIN''"

record JoinClause =
  join_type :: JoinType
  join_table :: ustr
  join_alias :: "ustr option"
  left_column :: ustr
  right_column :: ustr

definition bare_table :: "JoinClause \<Rightarrow> ustr" where
  "bare_table j = last (split_on ch_dot (join_table j))"

definition join_qualifier :: "JoinClause \<Rightarrow> ustr" where
  "join_qualifier j = (case join_alias j of Some alias \<Rightarrow> alias | None \<Rightarrow> bare_table j)"

record EncryptedColumn =
  enc_table :: ustr
  enc_field :: ustr
  enc_column :: ustr

record ('v, 't) SubquerySelect =
  sub_query_sql :: ustr
  sub_alias :: ustr
  sub_params :: "'v list"
  sub_source :: "(ustr \<times> ustr) option"
  sub_encrypted_column :: "EncryptedColumn option"
  sub_column_type :: "'t option"

datatype UnionType = UnionDistinct | UnionAll

fun union_as_sql :: "UnionType \<Rightarrow> ustr" where
  "union_as_sql UnionDistinct = lit ''UNION''"
| "union_as_sql UnionAll = lit ''UNION ALL''"

record 't UnionProjection =
  proj_columns :: "EncryptedColumn option list"
  proj_types :: "'t option list"
  proj_complete :: bool
  proj_has_encrypted :: bool

record ('v, 't) UnionClause =
  union_type :: UnionType
  union_query_sql :: ustr
  union_params :: "'v list"
  union_raw :: bool
  union_projection :: "'t UnionProjection option"

definition UnionClause_new :: "UnionType \<Rightarrow> ustr \<Rightarrow> ('v, 't) UnionClause" where
  "UnionClause_new u sql =
     \<lparr>union_type = u, union_query_sql = sql, union_params = [], union_raw = True, union_projection = None\<rparr>"

definition union_with_params :: "UnionType \<Rightarrow> ustr \<Rightarrow> 'v list \<Rightarrow> ('v, 't) UnionClause" where
  "union_with_params u sql params = (UnionClause_new u sql)\<lparr>union_params := params, union_raw := False\<rparr>"

subsection \<open>Identifiers in rendered SQL\<close>

definition select_from_derived :: "DatabaseType \<Rightarrow> ustr \<Rightarrow> ustr \<Rightarrow> ustr \<Rightarrow> ustr" where
  "select_from_derived db_type projection inner_sql alias =
     lit ''SELECT '' @ projection @ lit '' FROM ('' @ inner_sql @ lit '') AS '' @ quote_ident db_type alias"

definition push_quoted_table :: "model \<Rightarrow> ustr \<Rightarrow> DatabaseType \<Rightarrow> ustr" where
  "push_quoted_table M out db_type =
     push_quoted_ident
       (case schema_name M of
          Some schema \<Rightarrow> push_quoted_ident out db_type schema @ [ch_dot]
        | None \<Rightarrow> out)
       db_type (table_name M)"

definition quote_table :: "model \<Rightarrow> DatabaseType \<Rightarrow> ustr" where
  "quote_table M db_type = push_quoted_table M [] db_type"

definition model_columns_sql :: "model \<Rightarrow> DatabaseType \<Rightarrow> ustr option \<Rightarrow> ustr" where
  "model_columns_sql M db_type qualifier =
     join (lit '', '') (map (\<lambda>column.
       (case qualifier of Some q \<Rightarrow> quote_ident db_type q @ [ch_dot] | None \<Rightarrow> []) @ quote_ident db_type column)
       (column_names M))"

definition format_column_or_trusted_expression :: "DatabaseType \<Rightarrow> ustr \<Rightarrow> ustr" where
  "format_column_or_trusted_expression db_type column_or_expression =
     (let trimmed = trim column_or_expression in
      case format_identifier_reference db_type trimmed of Some r \<Rightarrow> r | None \<Rightarrow> trimmed)"

definition format_column :: "DatabaseType \<Rightarrow> ustr \<Rightarrow> ustr" where
  "format_column db_type column =
     (let trimmed = trim column in
      case format_identifier_reference db_type trimmed of Some r \<Rightarrow> r | None \<Rightarrow> quote_ident db_type trimmed)"

text \<open>A name no one has taken: underscores are added until it is free. The loop ends whenever the taken
  names are finitely many; the model walks through a number of candidates that is enough for them.\<close>

fun unused_name_within :: "nat \<Rightarrow> ustr \<Rightarrow> (ustr \<Rightarrow> bool) \<Rightarrow> ustr option" where
  "unused_name_within 0 name taken = None"
| "unused_name_within (Suc n) name taken =
     (if taken name then unused_name_within n (name @ [ch_underscore]) taken else Some name)"

lemma unused_name_found:
  assumes "finite {name. taken name}" and "card {name. taken name} < n"
  shows "\<exists>k name. unused_name_within n base taken = Some name \<and> name = base @ replicate k ch_underscore
           \<and> \<not> taken name \<and> (\<forall>j<k. taken (base @ replicate j ch_underscore))"
proof -
  let ?at = "\<lambda>k. base @ replicate k ch_underscore"
  have reach: "unused_name_within (n - j) (?at j) taken = unused_name_within n base taken"
    if "\<forall>i<j. taken (?at i)" "j \<le> n" for j
    using that
  proof (induction j)
    case (Suc j)
    then have "n - j = Suc (n - Suc j)" by simp
    moreover have "?at j @ [ch_underscore] = ?at (Suc j)" by (simp add: replicate_append_same)
    ultimately have "unused_name_within (n - j) (?at j) taken = unused_name_within (n - Suc j) (?at (Suc j)) taken"
      using Suc.prems by (simp del: replicate.simps)
    then show ?case using Suc by simp
  qed simp
  have inj: "inj ?at" by (auto intro: injI)
  obtain k where k: "\<not> taken (?at k)" "k < n"
  proof (rule ccontr)
    assume "\<not> thesis"
    then have "?at ` {..<n} \<subseteq> {name. taken name}" using that by auto
    then have "card (?at ` {..<n}) \<le> card {name. taken name}" by (simp add: assms(1) card_mono)
    then show False using assms(2) inj by (simp add: card_image inj_on_subset [OF inj])
  qed
  define m where "m = (LEAST k. \<not> taken (?at k))"
  have m: "\<not> taken (?at m)" unfolding m_def by (rule LeastI [of _ k]) (rule k(1))
  have least: "\<forall>j<m. taken (?at j)" unfolding m_def using not_less_Least by blast
  have "m \<le> k" unfolding m_def by (rule Least_le) (rule k(1))
  then have "m < n" using k(2) by simp
  have "unused_name_within n base taken = Some (?at m)"
    using reach [of m] least m \<open>m < n\<close> by (cases "n - m") auto
  then show ?thesis using m least by blast
qed

subsection \<open>Window functions\<close>

datatype FrameBound = UnboundedPreceding | UnboundedFollowing | CurrentRow | Preceding nat | Following nat

fun bound_as_sql :: "FrameBound \<Rightarrow> ustr" where
  "bound_as_sql UnboundedPreceding = lit ''UNBOUNDED PRECEDING''"
| "bound_as_sql UnboundedFollowing = lit ''UNBOUNDED FOLLOWING''"
| "bound_as_sql CurrentRow = lit ''CURRENT ROW''"
| "bound_as_sql (Preceding n) = show_nat n @ lit '' PRECEDING''"
| "bound_as_sql (Following n) = show_nat n @ lit '' FOLLOWING''"

datatype FrameType = FrameRows | FrameRange | FrameGroups

fun frame_as_sql :: "FrameType \<Rightarrow> ustr" where
  "frame_as_sql FrameRows = lit ''ROWS''"
| "frame_as_sql FrameRange = lit ''RANGE''"
| "frame_as_sql FrameGroups = lit ''GROUPS''"

datatype WindowFunctionType =
    RowNumber | Rank | DenseRank | Ntile nat
  | Lag ustr "int option" "ustr option" | Lead ustr "int option" "ustr option"
  | FirstValue ustr | LastValue ustr | NthValue ustr nat
  | WindowSum ustr | WindowAvg ustr | WindowCount "ustr option" | WindowMin ustr | WindowMax ustr
  | CustomWindow ustr

fun window_column :: "WindowFunctionType \<Rightarrow> ustr option" where
  "window_column (Lag column _ _) = Some column"
| "window_column (Lead column _ _) = Some column"
| "window_column (FirstValue column) = Some column"
| "window_column (LastValue column) = Some column"
| "window_column (NthValue column _) = Some column"
| "window_column (WindowSum column) = Some column"
| "window_column (WindowAvg column) = Some column"
| "window_column (WindowCount column) = column"
| "window_column (WindowMin column) = Some column"
| "window_column (WindowMax column) = Some column"
| "window_column _ = None"

fun value_column :: "WindowFunctionType \<Rightarrow> ustr option" where
  "value_column (Lag column _ _) = Some column"
| "value_column (Lead column _ _) = Some column"
| "value_column (FirstValue column) = Some column"
| "value_column (LastValue column) = Some column"
| "value_column (NthValue column _) = Some column"
| "value_column (WindowMin column) = Some column"
| "value_column (WindowMax column) = Some column"
| "value_column _ = None"

fun map_column :: "(ustr \<Rightarrow> ustr) \<Rightarrow> WindowFunctionType \<Rightarrow> WindowFunctionType" where
  "map_column f (Lag column off dflt) = Lag (f column) off dflt"
| "map_column f (Lead column off dflt) = Lead (f column) off dflt"
| "map_column f (FirstValue column) = FirstValue (f column)"
| "map_column f (LastValue column) = LastValue (f column)"
| "map_column f (NthValue column n) = NthValue (f column) n"
| "map_column f (WindowSum column) = WindowSum (f column)"
| "map_column f (WindowAvg column) = WindowAvg (f column)"
| "map_column f (WindowCount (Some column)) = WindowCount (Some (f column))"
| "map_column f (WindowMin column) = WindowMin (f column)"
| "map_column f (WindowMax column) = WindowMax (f column)"
| "map_column f w = w"

text \<open>An \<open>i32\<close> as decimal text.\<close>

definition show_int :: "int \<Rightarrow> ustr" where
  "show_int n = (if n < 0 then [ch_minus] @ show_nat (nat (- n)) else show_nat (nat n))"

definition offset_call :: "DatabaseType \<Rightarrow> ustr \<Rightarrow> ustr \<Rightarrow> int option \<Rightarrow> ustr option \<Rightarrow> ustr" where
  "offset_call db_type name column off dflt =
     name @ [ch_lparen] @ format_column db_type column
     @ (case off of
          None \<Rightarrow> []
        | Some n \<Rightarrow> lit '', '' @ show_int n @ (case dflt of None \<Rightarrow> [] | Some d \<Rightarrow> lit '', '' @ d))
     @ [ch_rparen]"

fun function_as_sql :: "DatabaseType \<Rightarrow> WindowFunctionType \<Rightarrow> ustr" where
  "function_as_sql db RowNumber = lit ''ROW_NUMBER()''"
| "function_as_sql db Rank = lit ''RANK()''"
| "function_as_sql db DenseRank = lit ''DENSE_RANK()''"
| "function_as_sql db (Ntile n) = lit ''NTILE('' @ show_nat n @ [ch_rparen]"
| "function_as_sql db (Lag column off dflt) = offset_call db (lit ''LAG'') column off dflt"
| "function_as_sql db (Lead column off dflt) = offset_call db (lit ''LEAD'') column off dflt"
| "function_as_sql db (FirstValue column) = lit ''FIRST_VALUE('' @ format_column db column @ [ch_rparen]"
| "function_as_sql db (LastValue column) = lit ''LAST_VALUE('' @ format_column db column @ [ch_rparen]"
| "function_as_sql db (NthValue column n) =
     lit ''NTH_VALUE('' @ format_column db column @ lit '', '' @ show_nat n @ [ch_rparen]"
| "function_as_sql db (WindowSum column) = lit ''SUM('' @ format_column db column @ [ch_rparen]"
| "function_as_sql db (WindowAvg column) = lit ''AVG('' @ format_column db column @ [ch_rparen]"
| "function_as_sql db (WindowCount (Some column)) = lit ''COUNT('' @ format_column db column @ [ch_rparen]"
| "function_as_sql db (WindowCount None) = lit ''COUNT(*)''"
| "function_as_sql db (WindowMin column) = lit ''MIN('' @ format_column db column @ [ch_rparen]"
| "function_as_sql db (WindowMax column) = lit ''MAX('' @ format_column db column @ [ch_rparen]"
| "function_as_sql db (CustomWindow expression) = expression"

record WindowFunction =
  win_function :: WindowFunctionType
  win_partition_by :: "ustr list"
  win_order_by :: "(ustr \<times> Order) list"
  frame_type :: "FrameType option"
  frame_start :: "FrameBound option"
  frame_end :: "FrameBound option"
  win_alias :: ustr

definition WindowFunction_new :: "WindowFunctionType \<Rightarrow> ustr \<Rightarrow> WindowFunction" where
  "WindowFunction_new f alias = \<lparr>win_function = f, win_partition_by = [], win_order_by = [],
     frame_type = None, frame_start = None, frame_end = None, win_alias = alias\<rparr>"

definition map_columns :: "(ustr \<Rightarrow> ustr) \<Rightarrow> WindowFunction \<Rightarrow> WindowFunction" where
  "map_columns f w = w\<lparr>win_function := map_column f (win_function w),
     win_partition_by := map f (win_partition_by w),
     win_order_by := map (\<lambda>(c, direction). (f c, direction)) (win_order_by w)\<rparr>"

definition window_partition_by :: "column_ref \<Rightarrow> WindowFunction \<Rightarrow> WindowFunction" where
  "window_partition_by column w =
     w\<lparr>win_partition_by := win_partition_by w @ [column_reference column None]\<rparr>"

definition window_order_by :: "column_ref \<Rightarrow> Order \<Rightarrow> WindowFunction \<Rightarrow> WindowFunction" where
  "window_order_by column direction w =
     w\<lparr>win_order_by := win_order_by w @ [(column_reference column None, direction)]\<rparr>"

definition window_frame :: "FrameType \<Rightarrow> FrameBound \<Rightarrow> FrameBound \<Rightarrow> WindowFunction \<Rightarrow> WindowFunction" where
  "window_frame f low high w = w\<lparr>frame_type := Some f, frame_start := Some low, frame_end := Some high\<rparr>"

definition over_clause_for_db :: "DatabaseType \<Rightarrow> WindowFunction \<Rightarrow> ustr" where
  "over_clause_for_db db w =
     join [ch_space]
       ((if win_partition_by w = [] then []
         else [lit ''PARTITION BY '' @ join (lit '', '') (map (format_column db) (win_partition_by w))])
        @ (if win_order_by w = [] then []
           else [lit ''ORDER BY '' @ join (lit '', '')
                  (map (\<lambda>(c, d). format_column db c @ [ch_space] @ order_as_str d) (win_order_by w))])
        @ (case (frame_type w, frame_start w) of
             (Some f, Some low) \<Rightarrow>
               [case frame_end w of
                  Some high \<Rightarrow> frame_as_sql f @ lit '' BETWEEN '' @ bound_as_sql low @ lit '' AND '' @ bound_as_sql high
                | None \<Rightarrow> frame_as_sql f @ [ch_space] @ bound_as_sql low]
           | _ \<Rightarrow> []))"

definition window_to_sql :: "DatabaseType \<Rightarrow> WindowFunction \<Rightarrow> ustr" where
  "window_to_sql db w =
     (let over = over_clause_for_db db w;
          with_default = (case win_function w of
              Lag column (Some off) (Some dflt) \<Rightarrow> Some (lit ''LAG'', column, off, dflt)
            | Lead column (Some off) (Some dflt) \<Rightarrow> Some (lit ''LEAD'', column, off, dflt)
            | _ \<Rightarrow> None);
          plain = function_as_sql db (win_function w) @ lit '' OVER ('' @ over @ [ch_rparen];
          call = (case with_default of
              None \<Rightarrow> plain
            | Some (name, column, off, dflt) \<Rightarrow>
                if db = MySQL \<or> db = MariaDB then
                  lit ''CASE WHEN '' @ name @ lit ''(1, '' @ show_int off @ lit '') OVER ('' @ over
                  @ lit '') IS NULL THEN '' @ dflt @ lit '' ELSE '' @ name @ [ch_lparen]
                  @ format_column db column @ lit '', '' @ show_int off @ lit '') OVER ('' @ over @ lit '') END''
                else plain)
      in call @ lit '' AS '' @ quote_ident db (win_alias w))"

subsection \<open>Common table expressions\<close>

record 'v CTE =
  cte_name :: ustr
  cte_columns :: "ustr list option"
  cte_query_sql :: ustr
  cte_recursive :: bool
  cte_params :: "'v list"

definition CTE_new :: "ustr \<Rightarrow> ustr \<Rightarrow> 'v CTE" where
  "CTE_new name sql =
     \<lparr>cte_name = name, cte_columns = None, cte_query_sql = sql, cte_recursive = False, cte_params = []\<rparr>"

definition cte_with_columns :: "ustr \<Rightarrow> ustr list \<Rightarrow> ustr \<Rightarrow> 'v CTE" where
  "cte_with_columns name columns sql = (CTE_new name sql)\<lparr>cte_columns := Some columns\<rparr>"

definition cte_with_params :: "ustr \<Rightarrow> ustr \<Rightarrow> 'v list \<Rightarrow> 'v CTE" where
  "cte_with_params name sql params = (CTE_new name sql)\<lparr>cte_params := params\<rparr>"

definition recursive :: "'v CTE \<Rightarrow> 'v CTE" where
  "recursive c = c\<lparr>cte_recursive := True\<rparr>"

definition cte_to_sql_with_body :: "DatabaseType \<Rightarrow> 'v CTE \<Rightarrow> ustr \<Rightarrow> ustr" where
  "cte_to_sql_with_body db c body =
     quote_ident db (cte_name c)
     @ (case cte_columns c of Some cols \<Rightarrow> lit '' ('' @ column_list db cols [] @ [ch_rparen] | None \<Rightarrow> [])
     @ lit '' AS ('' @ body @ [ch_rparen]"

definition cte_to_sql :: "DatabaseType \<Rightarrow> 'v CTE \<Rightarrow> ustr" where
  "cte_to_sql db c = cte_to_sql_with_body db c (cte_query_sql c)"

end
