(* ===== verification/Query_Clauses.thy ===== *)
theory Query_Clauses
  imports Query_Structure
begin

text \<open>
  The clauses of a query and how a reusable fragment merges into them:
  \<open>src/src/query/clauses.rs\<close>. The handle of a database is the type \<open>'d\<close>.
\<close>

definition DISTINCT_SELECT_MARKER :: ustr where
  "DISTINCT_SELECT_MARKER = [1] @ lit ''tideorm_select_distinct'' @ [1]"

record ('v, 't, 'd) Clauses =
  dependencies :: "ustr list"
  operand_databases :: "'d list"
  conditions :: "'v WhereCondition list"
  or_groups :: "'v OrGroup list"
  simple_or_group :: "nat option"
  order_by :: "(ustr \<times> Order) list"
  limit_value :: "nat option"
  offset_value :: "nat option"
  select_columns :: "ustr list option"
  raw_select_expressions :: "ustr list"
  subquery_select_expressions :: "('v, 't) SubquerySelect list"
  group_by :: "ustr list"
  having_conditions :: "ustr list"
  having_bindings :: "'v list list"
  having_typed_bindings :: "(nat \<times> ustr \<times> Json) list"
  having_comparisons :: "(ustr \<times> ustr) list"
  joins :: "JoinClause list"
  unions :: "('v, 't) UnionClause list"
  window_functions :: "WindowFunction list"
  ctes :: "'v CTE list"
  cache_options :: "nat option"
  cache_key :: "ustr option"
  invalid_query_reason :: "ustr option"
  invalid_page :: "(ustr \<times> ustr) option"
  include_trashed :: bool
  only_trashed :: bool
  lock_for_update :: bool

definition default_clauses :: "('v, 't, 'd) Clauses" where
  "default_clauses = \<lparr>dependencies = [], operand_databases = [], conditions = [], or_groups = [],
     simple_or_group = None, order_by = [], limit_value = None, offset_value = None,
     select_columns = None, raw_select_expressions = [], subquery_select_expressions = [],
     group_by = [], having_conditions = [], having_bindings = [], having_typed_bindings = [],
     having_comparisons = [], joins = [], unions = [], window_functions = [], ctes = [],
     cache_options = None, cache_key = None, invalid_query_reason = None, invalid_page = None,
     include_trashed = False, only_trashed = False, lock_for_update = False\<rparr>"

definition clauses_is_empty :: "('v, 't, 'd) Clauses \<Rightarrow> bool" where
  "clauses_is_empty c \<longleftrightarrow>
     operand_databases c = [] \<and> conditions c = [] \<and> or_groups c = [] \<and> order_by c = []
     \<and> limit_value c = None \<and> offset_value c = None \<and> select_columns c = None
     \<and> raw_select_expressions c = [] \<and> subquery_select_expressions c = [] \<and> group_by c = []
     \<and> having_conditions c = [] \<and> joins c = [] \<and> unions c = [] \<and> window_functions c = []
     \<and> ctes c = [] \<and> cache_options c = None \<and> cache_key c = None \<and> invalid_query_reason c = None
     \<and> invalid_page c = None \<and> \<not> include_trashed c \<and> \<not> only_trashed c \<and> \<not> lock_for_update c"

definition is_distinct :: "('v, 't, 'd) Clauses \<Rightarrow> bool" where
  "is_distinct c = list_ex (\<lambda>e. e = DISTINCT_SELECT_MARKER) (raw_select_expressions c)"

text \<open>\<open>BTreeMap::insert\<close> and \<open>get\<close> on the indices of the typed HAVING operands.\<close>

definition typed_insert :: "nat \<Rightarrow> ustr \<times> Json \<Rightarrow> (nat \<times> ustr \<times> Json) list \<Rightarrow> (nat \<times> ustr \<times> Json) list" where
  "typed_insert i operand m = AList.update i operand m"

text \<open>\<open>Vec::resize\<close> with empty lists, and \<open>get(i).unwrap_or_default()\<close>.\<close>

definition resize :: "nat \<Rightarrow> 'a list list \<Rightarrow> 'a list list" where
  "resize n xs = take n xs @ replicate (n - length xs) []"

definition get_or_empty :: "'a list list \<Rightarrow> nat \<Rightarrow> 'a list" where
  "get_or_empty xs i = (if i < length xs then xs ! i else [])"

definition merge_having :: "('v, 't, 'd) Clauses \<Rightarrow> ('v, 't, 'd) Clauses \<Rightarrow> ('v, 't, 'd) Clauses" where
  "merge_having other c =
     (let off = length (having_conditions c) in
      c\<lparr>having_comparisons := having_comparisons c @ having_comparisons other,
        having_typed_bindings := fold (\<lambda>(index, operand). typed_insert (off + index) operand)
          (having_typed_bindings other) (having_typed_bindings c),
        having_conditions := having_conditions c @ having_conditions other,
        having_bindings := resize off (having_bindings c)
          @ map (get_or_empty (having_bindings other)) [0..<length (having_conditions other)]\<rparr>)"

text \<open>One group of the fragment, the \<open>index\<close>-th.\<close>

definition merge_or_group :: "nat option \<Rightarrow> nat \<times> 'v OrGroup \<Rightarrow> 'v OrGroup list \<times> nat option
    \<Rightarrow> 'v OrGroup list \<times> nat option" where
  "merge_or_group other_simple entry own =
     (case (entry, own) of ((index, g), (groups, simple)) \<Rightarrow>
        if other_simple \<noteq> Some index then (groups @ [g], simple)
        else (case simple of
                Some i \<Rightarrow>
                  if i < length groups
                  then (groups[i := OrGroup (group_conditions (groups ! i) @ group_conditions g)
                                  (nested_groups (groups ! i)) (combine_with (groups ! i))], simple)
                  else (groups @ [g], Some (length groups))
              | None \<Rightarrow> (groups @ [g], Some (length groups))))"

definition merge_or_groups :: "('v, 't, 'd) Clauses \<Rightarrow> ('v, 't, 'd) Clauses \<Rightarrow> ('v, 't, 'd) Clauses" where
  "merge_or_groups other c =
     (case fold (merge_or_group (simple_or_group other)) (enumerate 0 (or_groups other))
             (or_groups c, simple_or_group c) of
        (groups, simple) \<Rightarrow> c\<lparr>or_groups := groups, simple_or_group := simple\<rparr>)"

definition last_wins :: "'a option \<Rightarrow> 'a option \<Rightarrow> 'a option" where
  "last_wins own other = (if other \<noteq> None then other else own)"

definition first_wins :: "'a option \<Rightarrow> 'a option \<Rightarrow> 'a option" where
  "first_wins own other = (if own = None then other else own)"

text \<open>Every slot is merged by its own rule and no rule reads another slot, so the slots are written side
  by side.\<close>

definition merge :: "('v, 't, 'd) Clauses \<Rightarrow> ('v, 't, 'd) Clauses \<Rightarrow> ('v, 't, 'd) Clauses" where
  "merge other c = (merge_having other (merge_or_groups other c))\<lparr>
     dependencies := dependencies c @ dependencies other,
     operand_databases := operand_databases c @ operand_databases other,
     conditions := conditions c @ conditions other,
     order_by := order_by c @ order_by other,
     limit_value := last_wins (limit_value c) (limit_value other),
     offset_value := last_wins (offset_value c) (offset_value other),
     select_columns := last_wins (select_columns c) (select_columns other),
     raw_select_expressions := raw_select_expressions c
       @ filter (\<lambda>e. e \<noteq> DISTINCT_SELECT_MARKER \<or> \<not> is_distinct c) (raw_select_expressions other),
     subquery_select_expressions := subquery_select_expressions c @ subquery_select_expressions other,
     group_by := group_by c @ group_by other,
     joins := joins c @ joins other,
     unions := unions c @ unions other,
     window_functions := window_functions c @ window_functions other,
     ctes := ctes c @ ctes other,
     cache_options := last_wins (cache_options c) (cache_options other),
     cache_key := last_wins (cache_key c) (cache_key other),
     invalid_query_reason := first_wins (invalid_query_reason c) (invalid_query_reason other),
     invalid_page := first_wins (invalid_page c) (invalid_page other),
     include_trashed := (if only_trashed other then False
                         else if include_trashed other then True else include_trashed c),
     only_trashed := (if only_trashed other then True
                      else if include_trashed other then False else only_trashed c),
     lock_for_update := (lock_for_update c \<or> lock_for_update other)\<rparr>"

definition fragment_condition_count :: "('v, 't, 'd) Clauses \<Rightarrow> nat" where
  "fragment_condition_count c = length (conditions c) + sum_list (map condition_count (or_groups c))"

definition all_conditions :: "('v, 't, 'd) Clauses \<Rightarrow> 'v WhereCondition list" where
  "all_conditions c = conditions c @ concat (map collect_conditions (or_groups c))"

end
