(* ===== verification/Query_Builder.thy ===== *)
theory Query_Builder
  imports Query_Clauses
begin

text \<open>
  The calls that build a query: \<open>src/src/query/advanced\<close> (ordering, pagination, projection, joins,
  grouping, windows, CTEs, unions, soft-delete scopes), \<open>src/src/query/or_clauses.rs\<close>,
  \<open>src/src/query/predicates.rs\<close> and the cache setters of \<open>src/src/query/sql/execution.rs\<close>.

  Every call is a function on the clauses. A query embedded in another one enters as an \<open>operand\<close>: the
  tables and databases it reads, whether it could run on its own, and the SQL and values it renders
  to. Conversion of a JSON value into a bound value is the parameter \<open>bind_value\<close>, the numbers of a
  HAVING comparison \<open>numeric_value\<close>, and the types of registered models \<open>registered_type\<close>.
\<close>

record ('v, 't) builder_env =
  letters :: unicode
  the_model :: model
  backend_type :: DatabaseType
  own_type :: "ustr \<Rightarrow> 't option"
  registered_type :: "ustr \<Rightarrow> ustr \<Rightarrow> 't option"
  bind_value :: "Json \<Rightarrow> 't option \<Rightarrow> 'v"
  numeric_value :: "Json \<Rightarrow> 'v option"
  own_table_name :: ustr

record ('v, 'd) operand =
  operand_tables :: "ustr list"
  operand_dbs :: "'d list"
  operand_check :: "Error + unit"
  operand_sql :: ustr
  operand_values :: "'v list"
  operand_paged :: bool

subsection \<open>Deferred failures and conditions\<close>

definition invalidate_query :: "ustr \<Rightarrow> ('v, 't, 'd) Clauses \<Rightarrow> ('v, 't, 'd) Clauses" where
  "invalidate_query reason c =
     (if invalid_query_reason c = None then c\<lparr>invalid_query_reason := Some reason\<rparr> else c)"

definition invalidate_if :: "ustr + unit \<Rightarrow> (ustr \<Rightarrow> ustr) \<Rightarrow> ('v, 't, 'd) Clauses \<Rightarrow> ('v, 't, 'd) Clauses" where
  "invalidate_if r say c = (case r of Inl reason \<Rightarrow> invalidate_query (say reason) c | Inr _ \<Rightarrow> c)"

definition push_condition :: "'v WhereCondition \<Rightarrow> ('v, 't, 'd) Clauses \<Rightarrow> ('v, 't, 'd) Clauses" where
  "push_condition w c = c\<lparr>conditions := conditions c @ [w]\<rparr>"

definition push_or_condition :: "'v WhereCondition \<Rightarrow> ('v, 't, 'd) Clauses \<Rightarrow> ('v, 't, 'd) Clauses" where
  "push_or_condition w c =
     (case simple_or_group c of
        Some i \<Rightarrow>
          if i < length (or_groups c)
          then c\<lparr>or_groups := (or_groups c)[i := group_push_condition w (or_groups c ! i)]\<rparr>
          else c\<lparr>simple_or_group := Some (length (or_groups c)),
                 or_groups := or_groups c @ [group_push_condition w OrGroup_new]\<rparr>
      | None \<Rightarrow> c\<lparr>simple_or_group := Some (length (or_groups c)),
                 or_groups := or_groups c @ [group_push_condition w OrGroup_new]\<rparr>)"

definition or_where :: "('v OrGroup \<Rightarrow> 'v OrGroup) \<Rightarrow> ('v, 't, 'd) Clauses \<Rightarrow> ('v, 't, 'd) Clauses" where
  "or_where f c =
     (let g = f OrGroup_new in if group_is_empty g then c else c\<lparr>or_groups := or_groups c @ [g]\<rparr>)"

definition or_expression :: "'v branch_call list \<Rightarrow> ('v, 't, 'd) Clauses \<Rightarrow> ('v, 't, 'd) Clauses" where
  "or_expression calls c = c\<lparr>or_groups := end_or (fold run_branch_call calls branches_new) (or_groups c)\<rparr>"

definition where_col :: "model \<Rightarrow> 'v WhereCondition \<Rightarrow> ('v, 't, 'd) Clauses \<Rightarrow> ('v, 't, 'd) Clauses" where
  "where_col M w c =
     push_condition
       (case rsplit_once ch_dot (cond_column w) of
          Some (table, name) \<Rightarrow> if owns_table_reference M table then w\<lparr>cond_column := name\<rparr> else w
        | None \<Rightarrow> w) c"

subsection \<open>Ordering and pagination\<close>

definition RAW_ORDER_BY_MARKER :: ustr where
  "RAW_ORDER_BY_MARKER = [1] @ lit ''tideorm_raw_order_by'' @ [1]"

definition raw_order_by_entry :: "ustr \<Rightarrow> ustr" where
  "raw_order_by_entry expression = RAW_ORDER_BY_MARKER @ trim expression"

definition raw_order_by_expression :: "ustr \<Rightarrow> ustr option" where
  "raw_order_by_expression v = strip_prefix RAW_ORDER_BY_MARKER v"

definition contains_raw_order_by_marker :: "ustr \<Rightarrow> bool" where
  "contains_raw_order_by_marker v = sublist RAW_ORDER_BY_MARKER v"

definition trim_end :: "ustr \<Rightarrow> ustr" where
  "trim_end s = rev (trim_start (rev s))"

definition split_direction :: "ustr \<Rightarrow> (ustr \<times> Order) option" where
  "split_direction term =
     (let s = rev (trim term);
          word = rev (takeWhile (\<lambda>c. \<not> is_whitespace c) s);
          rest = dropWhile (\<lambda>c. \<not> is_whitespace c) s
      in if rest = [] then None
         else if eq_ignore_ascii_case word (lit ''asc'') then Some (trim_end (rev (tl rest)), Asc)
         else if eq_ignore_ascii_case word (lit ''desc'') then Some (trim_end (rev (tl rest)), Desc)
         else None)"

fun order_debug :: "Order \<Rightarrow> ustr" where
  "order_debug Asc = lit ''Asc''"
| "order_debug Desc = lit ''Desc''"

definition push_order_by :: "model \<Rightarrow> column_ref \<Rightarrow> Order \<Rightarrow> ('v, 't, 'd) Clauses \<Rightarrow> ('v, 't, 'd) Clauses" where
  "push_order_by M column_name direction c =
     (let column = column_reference column_name (model_table M) in
      if contains_raw_order_by_marker column then
        invalidate_query (lit ''invalid ORDER BY column '' @ [ch_quote] @ column @ [ch_quote]
          @ lit '': the raw-expression marker is reserved; use order_by_raw() for trusted SQL expressions'') c
      else (case split_direction column of
          Some (_, written) \<Rightarrow>
            if written \<noteq> direction then
              invalidate_query (lit ''order_by('' @ [ch_quote] @ column @ [ch_quote] @ lit '', Order::''
                @ order_debug direction
                @ lit '') names two directions; pass the direction once, or sort() a request'' @ [ch_quote]
                @ lit ''s sort string'') c
            else c\<lparr>order_by := order_by c @ [(column, direction)]\<rparr>
        | None \<Rightarrow> c\<lparr>order_by := order_by c @ [(column, direction)]\<rparr>))"

definition sort_term :: "ustr \<Rightarrow> ustr \<times> Order" where
  "sort_term term =
     (case strip_prefix [ch_minus] term of
        Some column \<Rightarrow> (trim column, Desc)
      | None \<Rightarrow>
          (case strip_prefix [43] term of
             Some column \<Rightarrow> (trim column, Asc)
           | None \<Rightarrow> (case split_direction term of Some r \<Rightarrow> r | None \<Rightarrow> (term, Asc))))"

fun sort_terms :: "model \<Rightarrow> ustr \<Rightarrow> ustr list \<Rightarrow> ('v, 't, 'd) Clauses \<Rightarrow> ('v, 't, 'd) Clauses" where
  "sort_terms M spec [] c = c"
| "sort_terms M spec (t # ts) c =
     (case sort_term t of (column, direction) \<Rightarrow>
        if column = [] then
          invalidate_query (lit ''sort('' @ [ch_quote] @ spec @ [ch_quote] @ lit '') has a term with no column'') c
        else sort_terms M spec ts (push_order_by M (plain_column column) direction c))"

definition sort :: "model \<Rightarrow> ustr \<Rightarrow> ('v, 't, 'd) Clauses \<Rightarrow> ('v, 't, 'd) Clauses" where
  "sort M spec c = sort_terms M spec (filter (\<lambda>t. t \<noteq> []) (map trim (split_on ch_comma spec))) c"

definition reorder :: "model \<Rightarrow> column_ref \<Rightarrow> Order \<Rightarrow> ('v, 't, 'd) Clauses \<Rightarrow> ('v, 't, 'd) Clauses" where
  "reorder M column direction c = push_order_by M column direction (c\<lparr>order_by := []\<rparr>)"

definition order_by_raw :: "ustr \<Rightarrow> Order \<Rightarrow> ('v, 't, 'd) Clauses \<Rightarrow> ('v, 't, 'd) Clauses" where
  "order_by_raw expression direction c =
     c\<lparr>order_by := order_by c @ [(raw_order_by_entry expression, direction)]\<rparr>"

definition latest :: "model \<Rightarrow> ('v, 't, 'd) Clauses \<Rightarrow> ('v, 't, 'd) Clauses" where
  "latest M c = push_order_by M (plain_column (lit ''created_at'')) Desc c"

definition oldest :: "model \<Rightarrow> ('v, 't, 'd) Clauses \<Rightarrow> ('v, 't, 'd) Clauses" where
  "oldest M c = push_order_by M (plain_column (lit ''created_at'')) Asc c"

definition limit :: "nat \<Rightarrow> ('v, 't, 'd) Clauses \<Rightarrow> ('v, 't, 'd) Clauses" where
  "limit n c = c\<lparr>limit_value := Some n\<rparr>"

definition offset :: "nat \<Rightarrow> ('v, 't, 'd) Clauses \<Rightarrow> ('v, 't, 'd) Clauses" where
  "offset n c = c\<lparr>offset_value := Some n\<rparr>"

definition u64_max :: nat where "u64_max = 2 ^ 64 - 1"
definition i64_max :: nat where "i64_max = 2 ^ 63 - 1"

text \<open>\<open>u64::checked_mul\<close>.\<close>

definition checked_mul :: "nat \<Rightarrow> nat \<Rightarrow> nat option" where
  "checked_mul a b = (if a * b \<le> u64_max then Some (a * b) else None)"

definition page_offset :: "nat \<Rightarrow> nat \<Rightarrow> (ustr \<times> ustr) + nat" where
  "page_offset page per_page =
     (if page = 0 then Inl (lit ''page'', lit ''must be at least 1'')
      else if per_page = 0 then Inl (lit ''per_page'', lit ''must be greater than 0'')
      else if per_page > i64_max then Inl (lit ''per_page'', lit ''must be at most i64::MAX'')
      else (case checked_mul (page - 1) per_page of
          Some off \<Rightarrow>
            if off \<le> i64_max then Inr off
            else Inl (lit ''page'', lit ''page is too large for this page size; (page - 1) * per_page exceeds i64::MAX'')
        | None \<Rightarrow> Inl (lit ''page'', lit ''page is too large for this page size; (page - 1) * per_page exceeds i64::MAX'')))"

definition page :: "nat \<Rightarrow> nat \<Rightarrow> ('v, 't, 'd) Clauses \<Rightarrow> ('v, 't, 'd) Clauses" where
  "page p per_page c =
     (case page_offset p per_page of
        Inr off \<Rightarrow> offset off (limit per_page c)
      | Inl refusal \<Rightarrow> if invalid_page c = None then c\<lparr>invalid_page := Some refusal\<rparr> else c)"

subsection \<open>Projection and joins\<close>

definition select :: "ustr list \<Rightarrow> ('v, 't, 'd) Clauses \<Rightarrow> ('v, 't, 'd) Clauses" where
  "select columns c = c\<lparr>select_columns := Some columns\<rparr>"

definition distinct_rows :: "('v, 't, 'd) Clauses \<Rightarrow> ('v, 't, 'd) Clauses" where
  "distinct_rows c =
     (if is_distinct c then c
      else c\<lparr>raw_select_expressions := raw_select_expressions c @ [DISTINCT_SELECT_MARKER]\<rparr>)"

definition set_lock_for_update :: "('v, 't, 'd) Clauses \<Rightarrow> ('v, 't, 'd) Clauses" where
  "set_lock_for_update c = c\<lparr>lock_for_update := True\<rparr>"

definition select_raw :: "unicode \<Rightarrow> ustr \<Rightarrow> ('v, 't, 'd) Clauses \<Rightarrow> ('v, 't, 'd) Clauses" where
  "select_raw U raw c =
     (let c = invalidate_if (validate_raw_sql_fragment U (lit ''SELECT raw SQL'') raw) (\<lambda>r. r) c
      in c\<lparr>raw_select_expressions := raw_select_expressions c @ [raw]\<rparr>)"

definition validate_join_clause :: "ustr \<Rightarrow> ustr option \<Rightarrow> ustr \<Rightarrow> ustr \<Rightarrow> ustr + unit" where
  "validate_join_clause table alias left right =
     (case validate_identifier_reference (lit ''JOIN table'') table of
        Inl _ \<Rightarrow> Inl (lit ''unsafe JOIN table '' @ [ch_quote] @ table @ [ch_quote]
          @ lit '': expected a table or schema.table using only ASCII letters, numbers, and underscores'')
      | Inr _ \<Rightarrow>
          try_bind (case alias of Some a \<Rightarrow> validate_identifier (lit ''JOIN alias'') a | None \<Rightarrow> Inr ()) (\<lambda>_.
          try_bind (validate_join_column left) (\<lambda>_. validate_join_column right)))"

definition push_join :: "JoinType \<Rightarrow> ustr \<Rightarrow> ustr option \<Rightarrow> ustr \<Rightarrow> ustr
    \<Rightarrow> ('v, 't, 'd) Clauses \<Rightarrow> ('v, 't, 'd) Clauses" where
  "push_join ty table alias left right c =
     (case validate_join_clause table alias left right of
        Inl reason \<Rightarrow> invalidate_query reason c
      | Inr _ \<Rightarrow> c\<lparr>joins := joins c @ [\<lparr>join_type = ty, join_table = table, join_alias = alias,
                   left_column = left, right_column = right\<rparr>]\<rparr>)"

definition select_with_linked :: "model \<Rightarrow> ustr list \<Rightarrow> ustr \<Rightarrow> ustr \<Rightarrow> ustr \<Rightarrow> ustr list
    \<Rightarrow> ('v, 't, 'd) Clauses \<Rightarrow> ('v, 't, 'd) Clauses" where
  "select_with_linked M local_columns linked_table local_fk remote_pk linked_columns c =
     (let qualified = (\<lambda>t column. t @ [ch_dot] @ column) in
      (push_join LeftJoin linked_table None (qualified (table_name M) local_fk)
         (qualified linked_table remote_pk) c)
      \<lparr>select_columns := Some (map (qualified (table_name M)) local_columns
          @ map (qualified linked_table) linked_columns)\<rparr>)"

definition select_also_linked :: "model \<Rightarrow> ustr \<Rightarrow> ustr \<Rightarrow> ustr \<Rightarrow> ustr list
    \<Rightarrow> ('v, 't, 'd) Clauses \<Rightarrow> ('v, 't, 'd) Clauses" where
  "select_also_linked M linked_table local_pk remote_fk linked_columns c =
     select_with_linked M (column_names M) linked_table local_pk remote_fk linked_columns c"

subsection \<open>Grouping\<close>

definition push_group_by :: "model \<Rightarrow> column_ref \<Rightarrow> ('v, 't, 'd) Clauses \<Rightarrow> ('v, 't, 'd) Clauses" where
  "push_group_by M column c = c\<lparr>group_by := group_by c @ [column_reference column (model_table M)]\<rparr>"

datatype Aggregate =
    AggCount | AggCountDistinct ustr | AggSum ustr | AggAvg ustr | AggMin ustr | AggMax ustr

definition sum_expression :: "ustr \<Rightarrow> ustr" where
  "sum_expression column_sql = lit ''COALESCE(SUM('' @ column_sql @ lit ''), 0)''"

fun aggregate_render :: "(ustr \<Rightarrow> ustr) \<Rightarrow> Aggregate \<Rightarrow> ustr" where
  "aggregate_render f AggCount = lit ''COUNT(*)''"
| "aggregate_render f (AggCountDistinct column) = lit ''COUNT(DISTINCT '' @ f column @ [ch_rparen]"
| "aggregate_render f (AggSum column) = sum_expression (f column)"
| "aggregate_render f (AggAvg column) = lit ''AVG('' @ f column @ [ch_rparen]"
| "aggregate_render f (AggMin column) = lit ''MIN('' @ f column @ [ch_rparen]"
| "aggregate_render f (AggMax column) = lit ''MAX('' @ f column @ [ch_rparen]"

fun extreme_column :: "Aggregate \<Rightarrow> ustr option" where
  "extreme_column (AggMin column) = Some column"
| "extreme_column (AggMax column) = Some column"
| "extreme_column _ = None"

fun compared_column :: "Aggregate \<Rightarrow> (ustr \<times> ustr) option" where
  "compared_column (AggMin column) = Some (column, lit ''MIN/MAX'')"
| "compared_column (AggMax column) = Some (column, lit ''MIN/MAX'')"
| "compared_column (AggCountDistinct column) = Some (column, lit ''DISTINCT'')"
| "compared_column (AggSum column) = Some (column, lit ''SUM/AVG'')"
| "compared_column (AggAvg column) = Some (column, lit ''SUM/AVG'')"
| "compared_column AggCount = None"

record AggregateCondition =
  agg_aggregate :: Aggregate
  agg_operator :: ustr
  agg_value :: "ustr + Json"

datatype HavingCondition = HavingAggregate AggregateCondition | HavingRaw ustr

text \<open>\<open>join_named\<close> and \<open>column_type\<close>: the model's own type for a column, else a joined model's.\<close>

definition join_named :: "ustr \<Rightarrow> ('v, 't, 'd) Clauses \<Rightarrow> JoinClause option" where
  "join_named qualifier c =
     find (\<lambda>j. join_qualifier j = qualifier \<or> (join_alias j = None \<and> join_table j = qualifier)) (joins c)"

definition column_type :: "('v, 't) builder_env \<Rightarrow> ('v, 't, 'd) Clauses \<Rightarrow> ustr \<Rightarrow> 't option" where
  "column_type E c column =
     (case own_type E column of
        Some ty \<Rightarrow> Some ty
      | None \<Rightarrow>
          (case rsplit_once ch_dot column of
             None \<Rightarrow> None
           | Some (qualifier, name) \<Rightarrow>
               (case join_named qualifier c of
                  None \<Rightarrow> None
                | Some j \<Rightarrow> registered_type E (join_table j) name)))"

definition model_identifier :: "('v, 't) builder_env \<Rightarrow> ustr \<Rightarrow> bool \<Rightarrow> ustr" where
  "model_identifier E identifier qualify_own =
     (let M = the_model E in
      case canonical_column_parts M identifier of
        (Some table, column) \<Rightarrow>
          (if table = table_name M then own_table_name E else table) @ [ch_dot] @ column
      | (None, column) \<Rightarrow>
          if qualify_own \<and> column \<in> set (column_names M) then own_table_name E @ [ch_dot] @ column else column)"

definition having_with_params :: "ustr \<Rightarrow> 'v list \<Rightarrow> ('v, 't, 'd) Clauses \<Rightarrow> ('v, 't, 'd) Clauses" where
  "having_with_params template params c =
     c\<lparr>having_conditions := having_conditions c @ [template], having_bindings := having_bindings c @ [params]\<rparr>"

definition having_operand :: "('v, 't) builder_env \<Rightarrow> Aggregate \<Rightarrow> Json \<Rightarrow> 't option \<Rightarrow> ustr + 'v" where
  "having_operand E aggregate json ty =
     (if extreme_column aggregate = None
      then (case numeric_value E json of
              None \<Rightarrow> Inl (lit ''numeric HAVING comparisons require a number'')
            | Some v \<Rightarrow> Inr v)
      else Inr (bind_value E json ty))"

definition having_aggregate :: "('v, 't) builder_env \<Rightarrow> AggregateCondition \<Rightarrow> ('v, 't, 'd) Clauses \<Rightarrow> ('v, 't, 'd) Clauses" where
  "having_aggregate E cond c =
     (let aggregate = agg_aggregate cond;
          c = (case compared_column aggregate of
                 Some comparison \<Rightarrow> c\<lparr>having_comparisons := having_comparisons c @ [comparison]\<rparr>
               | None \<Rightarrow> c);
          expression = aggregate_render
            (\<lambda>column. format_column (backend_type E) (model_identifier E (trim column) True)) aggregate;
          ty = (case aggregate of
                  AggSum column \<Rightarrow> column_type E c column | AggAvg column \<Rightarrow> column_type E c column
                | AggMin column \<Rightarrow> column_type E c column | AggMax column \<Rightarrow> column_type E c column
                | _ \<Rightarrow> None)
      in case agg_value cond of
           Inl reason \<Rightarrow> invalidate_query (lit ''having(): '' @ reason) c
         | Inr json \<Rightarrow>
             if json = JNull then
               (if agg_operator cond = lit ''='' then having_with_params (expression @ lit '' IS NULL'') [] c
                else if agg_operator cond = lit ''<>'' then having_with_params (expression @ lit '' IS NOT NULL'') [] c
                else invalidate_query (lit ''HAVING ordering comparisons cannot use NULL'') c)
             else (case having_operand E aggregate json ty of
                 Inl reason \<Rightarrow> invalidate_query reason c
               | Inr v \<Rightarrow>
                   having_with_params (expression @ [ch_space] @ agg_operator cond @ lit '' ?'') [v]
                     (case extreme_column aggregate of
                        Some column \<Rightarrow> c\<lparr>having_typed_bindings :=
                          typed_insert (length (having_conditions c)) (column, json) (having_typed_bindings c)\<rparr>
                      | None \<Rightarrow> c)))"

definition having :: "('v, 't) builder_env \<Rightarrow> HavingCondition \<Rightarrow> ('v, 't, 'd) Clauses \<Rightarrow> ('v, 't, 'd) Clauses" where
  "having E cond c =
     (case cond of
        HavingAggregate a \<Rightarrow> having_aggregate E a c
      | HavingRaw sql \<Rightarrow>
          having_with_params sql []
            (invalidate_if (validate_having_sql_fragment (letters E) (lit ''HAVING raw SQL'') sql) (\<lambda>r. r) c))"

definition having_clauses :: "('v, 't) builder_env \<Rightarrow> ('v, 't, 'd) Clauses \<Rightarrow> (ustr \<times> 'v list) list" where
  "having_clauses E c =
     map (\<lambda>(index, clause).
            (clause, case map_of (having_typed_bindings c) index of
                       Some (column, json) \<Rightarrow> [bind_value E json (column_type E c column)]
                     | None \<Rightarrow> get_or_empty (having_bindings c) index))
       (enumerate 0 (having_conditions c))"

subsection \<open>Windows, CTEs and compound selects\<close>

definition push_window :: "WindowFunction \<Rightarrow> ('v, 't, 'd) Clauses \<Rightarrow> ('v, 't, 'd) Clauses" where
  "push_window w c = c\<lparr>window_functions := window_functions c @ [w]\<rparr>"

definition ordered_window :: "WindowFunctionType \<Rightarrow> ustr \<Rightarrow> ustr option \<Rightarrow> ustr \<Rightarrow> Order
    \<Rightarrow> ('v, 't, 'd) Clauses \<Rightarrow> ('v, 't, 'd) Clauses" where
  "ordered_window f alias part ord direction c =
     (let w = window_order_by (plain_column ord) direction (WindowFunction_new f alias)
      in push_window (case part of Some p \<Rightarrow> window_partition_by (plain_column p) w | None \<Rightarrow> w) c)"

definition row_number :: "ustr \<Rightarrow> ustr option \<Rightarrow> ustr \<Rightarrow> Order \<Rightarrow> ('v, 't, 'd) Clauses \<Rightarrow> ('v, 't, 'd) Clauses" where
  "row_number alias part ord direction = ordered_window RowNumber alias part ord direction"

definition rank :: "ustr \<Rightarrow> ustr option \<Rightarrow> ustr \<Rightarrow> Order \<Rightarrow> ('v, 't, 'd) Clauses \<Rightarrow> ('v, 't, 'd) Clauses" where
  "rank alias part ord direction = ordered_window Rank alias part ord direction"

definition dense_rank :: "ustr \<Rightarrow> ustr option \<Rightarrow> ustr \<Rightarrow> Order \<Rightarrow> ('v, 't, 'd) Clauses \<Rightarrow> ('v, 't, 'd) Clauses" where
  "dense_rank alias part ord direction = ordered_window DenseRank alias part ord direction"

definition lag :: "ustr \<Rightarrow> ustr \<Rightarrow> int \<Rightarrow> ustr option \<Rightarrow> ustr \<Rightarrow> ustr \<Rightarrow> Order
    \<Rightarrow> ('v, 't, 'd) Clauses \<Rightarrow> ('v, 't, 'd) Clauses" where
  "lag alias column off dflt part ord direction =
     ordered_window (Lag column (Some off) dflt) alias (Some part) ord direction"

definition lead :: "ustr \<Rightarrow> ustr \<Rightarrow> int \<Rightarrow> ustr option \<Rightarrow> ustr \<Rightarrow> ustr \<Rightarrow> Order
    \<Rightarrow> ('v, 't, 'd) Clauses \<Rightarrow> ('v, 't, 'd) Clauses" where
  "lead alias column off dflt part ord direction =
     ordered_window (Lead column (Some off) dflt) alias (Some part) ord direction"

definition running_sum :: "ustr \<Rightarrow> ustr \<Rightarrow> ustr \<Rightarrow> Order \<Rightarrow> ('v, 't, 'd) Clauses \<Rightarrow> ('v, 't, 'd) Clauses" where
  "running_sum alias column ord direction c =
     push_window (window_frame FrameRows UnboundedPreceding CurrentRow
       (window_order_by (plain_column ord) direction (WindowFunction_new (WindowSum column) alias))) c"

definition ntile :: "ustr \<Rightarrow> nat \<Rightarrow> ustr \<Rightarrow> Order \<Rightarrow> ('v, 't, 'd) Clauses \<Rightarrow> ('v, 't, 'd) Clauses" where
  "ntile alias buckets ord direction = ordered_window (Ntile buckets) alias None ord direction"

definition first_value :: "ustr \<Rightarrow> ustr \<Rightarrow> ustr \<Rightarrow> ustr \<Rightarrow> Order \<Rightarrow> ('v, 't, 'd) Clauses \<Rightarrow> ('v, 't, 'd) Clauses" where
  "first_value alias column part ord direction =
     ordered_window (FirstValue column) alias (Some part) ord direction"

fun validate_each :: "('a \<Rightarrow> 'e + unit) \<Rightarrow> 'a list \<Rightarrow> 'e + unit" where
  "validate_each check [] = Inr ()"
| "validate_each check (x # xs) = try_bind (check x) (\<lambda>_. validate_each check xs)"

lemma validate_each_ok: "validate_each check xs = Inr () \<longleftrightarrow> list_all (\<lambda>x. check x = Inr ()) xs"
  by (induction xs) (auto simp: try_bind_Inr_iff)

definition validate_cte_clause :: "unicode \<Rightarrow> 'v CTE \<Rightarrow> ustr + unit" where
  "validate_cte_clause U cte =
     try_bind (validate_identifier (lit ''CTE name'') (cte_name cte)) (\<lambda>_.
     try_bind (case cte_columns cte of
                 Some columns \<Rightarrow> validate_each (validate_identifier (lit ''CTE column'')) columns
               | None \<Rightarrow> Inr ()) (\<lambda>_.
     validate_compound_subquery_sql U (cte_query_sql cte)))"

definition validate_union_clause :: "unicode \<Rightarrow> ('v, 't) UnionClause \<Rightarrow> ustr + unit" where
  "validate_union_clause U u = validate_subquery_sql U (union_query_sql u)"

definition push_cte :: "unicode \<Rightarrow> ustr \<Rightarrow> 'v CTE \<Rightarrow> ('v, 't, 'd) Clauses \<Rightarrow> ('v, 't, 'd) Clauses" where
  "push_cte U caller cte c =
     (let c = invalidate_if (validate_cte_clause U cte)
                (\<lambda>reason. lit ''invalid CTE for '' @ caller @ lit ''(): '' @ reason) c
      in c\<lparr>ctes := ctes c @ [cte]\<rparr>)"

definition with_cte :: "unicode \<Rightarrow> 'v CTE \<Rightarrow> ('v, 't, 'd) Clauses \<Rightarrow> ('v, 't, 'd) Clauses" where
  "with_cte U cte = push_cte U (lit ''with_cte'') cte"

definition with_recursive_cte :: "unicode \<Rightarrow> ustr \<Rightarrow> ustr list \<Rightarrow> ustr \<Rightarrow> ustr
    \<Rightarrow> ('v, 't, 'd) Clauses \<Rightarrow> ('v, 't, 'd) Clauses" where
  "with_recursive_cte U name columns base_case recursive_case c =
     push_cte U (lit ''with_recursive_cte'')
       (recursive (cte_with_columns name columns (base_case @ lit '' UNION ALL '' @ recursive_case)))
       (invalidate_if (validate_subquery_sql U recursive_case)
          (\<lambda>reason. lit ''invalid subquery for with_recursive_cte() recursive query: '' @ reason)
          (invalidate_if (validate_subquery_sql U base_case)
             (\<lambda>reason. lit ''invalid subquery for with_recursive_cte() base query: '' @ reason) c))"

text \<open>An embedded query: its tables become dependencies, and its failure is this query's.\<close>

definition absorb_operand_error :: "ustr \<Rightarrow> ustr \<Rightarrow> ('v, 'd) operand \<Rightarrow> ('v, 't, 'd) Clauses \<Rightarrow> ('v, 't, 'd) Clauses" where
  "absorb_operand_error what caller operand c =
     (let c = c\<lparr>dependencies := dependencies c @ operand_tables operand,
                operand_databases := operand_databases c @ operand_dbs operand\<rparr>
      in case operand_check operand of
           Inl e \<Rightarrow> invalidate_query (lit ''invalid '' @ what @ lit '' for '' @ caller @ lit ''(): '' @ display_error e) c
         | Inr _ \<Rightarrow> c)"

definition with_query :: "unicode \<Rightarrow> ustr \<Rightarrow> ('v, 'd) operand \<Rightarrow> ('v, 't, 'd) Clauses \<Rightarrow> ('v, 't, 'd) Clauses" where
  "with_query U name operand c =
     push_cte U (lit ''with_query'') (cte_with_params name (operand_sql operand) (operand_values operand))
       (absorb_operand_error (lit ''subquery'') (lit ''with_query'') operand c)"

definition push_raw_union :: "unicode \<Rightarrow> UnionType \<Rightarrow> ustr \<Rightarrow> ustr \<Rightarrow> ('v, 't, 'd) Clauses \<Rightarrow> ('v, 't, 'd) Clauses" where
  "push_raw_union U ty caller sql c =
     (let c = invalidate_if (validate_subquery_sql U sql)
                (\<lambda>reason. lit ''invalid subquery for '' @ caller @ lit ''(): '' @ reason) c
      in c\<lparr>unions := unions c @ [UnionClause_new ty sql]\<rparr>)"

text \<open>A typed compound operand: whether it reads a wildcard, and its checked projection.\<close>

definition push_compound_operand :: "UnionType \<Rightarrow> ustr \<Rightarrow> ('v, 'd) operand \<Rightarrow> bool \<Rightarrow> Error + unit
    \<Rightarrow> Error + 't UnionProjection \<Rightarrow> ('v, 't, 'd) Clauses \<Rightarrow> ('v, 't, 'd) Clauses" where
  "push_compound_operand ty caller operand wildcard unions_check projection c =
     (let c = absorb_operand_error (lit ''operand'') caller operand c;
          u = (union_with_params ty (operand_sql operand) (operand_values operand))\<lparr>union_raw := wildcard\<rparr>;
          c = invalidate_if (case unions_check of Inl e \<Rightarrow> Inl (display_error e) | Inr _ \<Rightarrow> Inr ()) (\<lambda>r. r) c
      in if wildcard then c\<lparr>unions := unions c @ [u]\<rparr>
         else (case projection of
             Inr p \<Rightarrow> c\<lparr>unions := unions c @ [u\<lparr>union_projection := Some p\<rparr>]\<rparr>
           | Inl e \<Rightarrow> (let c = invalidate_query (display_error e) c in c\<lparr>unions := unions c @ [u]\<rparr>)))"

subsection \<open>Subquery conditions\<close>

definition push_bound_raw :: "ustr \<Rightarrow> ustr \<Rightarrow> 'v list \<Rightarrow> ('v, 't, 'd) Clauses \<Rightarrow> ('v, 't, 'd) Clauses" where
  "push_bound_raw column sql values c =
     push_condition \<lparr>cond_column = column, cond_operator = Raw, cond_value = RawExprWithValues sql values\<rparr> c"

definition push_subquery_condition :: "unicode \<Rightarrow> DatabaseType \<Rightarrow> ustr \<Rightarrow> ustr \<Rightarrow> ustr \<Rightarrow> ('v, 'd) operand
    \<Rightarrow> ('v, 't, 'd) Clauses \<Rightarrow> ('v, 't, 'd) Clauses" where
  "push_subquery_condition U db_type caller column keyword operand c =
     (let c = absorb_operand_error (lit ''subquery'') caller operand c;
          sql = (if ends_with keyword (lit ''IN'') \<and> (db_type = MySQL \<or> db_type = MariaDB) \<and> operand_paged operand
                 then select_from_derived db_type [ch_star] (operand_sql operand) (lit ''tideorm_in_subquery'')
                 else operand_sql operand);
          c = invalidate_if (validate_compound_subquery_sql U sql)
                (\<lambda>reason. lit ''invalid subquery for '' @ caller @ lit ''(): '' @ reason) c
      in push_bound_raw column (keyword @ lit '' ('' @ sql @ [ch_rparen]) (operand_values operand) c)"

subsection \<open>Scopes, locks and caching\<close>

definition with_trashed :: "('v, 't, 'd) Clauses \<Rightarrow> ('v, 't, 'd) Clauses" where
  "with_trashed c = c\<lparr>include_trashed := True, only_trashed := False\<rparr>"

definition set_only_trashed :: "model \<Rightarrow> ('v, 't, 'd) Clauses \<Rightarrow> ('v, 't, 'd) Clauses" where
  "set_only_trashed M c =
     (if soft_delete_enabled M then c
      else invalidate_query (lit ''only_trashed() cannot be used: this model has no soft delete'') c)
     \<lparr>only_trashed := True, include_trashed := False\<rparr>"

definition cache :: "nat \<Rightarrow> ('v, 't, 'd) Clauses \<Rightarrow> ('v, 't, 'd) Clauses" where
  "cache ttl c = c\<lparr>cache_options := Some ttl\<rparr>"

definition cache_with_key :: "ustr \<Rightarrow> nat \<Rightarrow> ('v, 't, 'd) Clauses \<Rightarrow> ('v, 't, 'd) Clauses" where
  "cache_with_key key ttl c = c\<lparr>cache_key := Some key, cache_options := Some ttl\<rparr>"

definition no_cache :: "('v, 't, 'd) Clauses \<Rightarrow> ('v, 't, 'd) Clauses" where
  "no_cache c = c\<lparr>cache_options := None, cache_key := None\<rparr>"

subsection \<open>A concrete environment\<close>

definition demo_builder_env :: "(unit, unit) builder_env" where
  "demo_builder_env = \<lparr>letters = ascii_only, the_model = demo_model, backend_type = Postgres, own_type = (\<lambda>_. None),
     registered_type = (\<lambda>_ _. None), bind_value = (\<lambda>_ _. ()), numeric_value = (\<lambda>_. None),
     own_table_name = lit ''posts''\<rparr>"

end
