(* ===== verification/Query_Fragments.thy ===== *)
theory Query_Fragments
  imports Query_Builder
begin

text \<open>
  Reusable fragments: \<open>consolidate\<close> takes the clauses of a query, \<open>apply\<close> merges them into another.
  The builder calls are collected in one datatype, and merging a fragment is shown to be the same as
  making the calls that built it.
\<close>

datatype ('v, 't, 'd) Call =
    CallWhere "'v WhereCondition" | CallWhereCol "'v WhereCondition" | CallOrWhere "'v WhereCondition"
  | CallOrGroup "'v OrGroup \<Rightarrow> 'v OrGroup" | CallOrExpression "'v branch_call list"
  | CallOrderBy column_ref Order | CallSort ustr | CallOrderByRaw ustr Order | CallLatest | CallOldest
  | CallLimit nat | CallOffset nat | CallPage nat nat
  | CallSelect "ustr list" | CallDistinct | CallSelectRaw ustr | CallLock
  | CallJoin JoinType ustr "ustr option" ustr ustr
  | CallSelectWithLinked "ustr list" ustr ustr ustr "ustr list"
  | CallGroupBy column_ref | CallHaving HavingCondition | CallWindow WindowFunction
  | CallCte "'v CTE" | CallRecursiveCte ustr "ustr list" ustr ustr | CallWithQuery ustr "('v, 'd) operand"
  | CallRawUnion UnionType ustr ustr
  | CallUnion UnionType ustr "('v, 'd) operand" bool "Error + unit" "Error + 't UnionProjection"
  | CallSubquery ustr ustr ustr "('v, 'd) operand"
  | CallWithTrashed | CallOnlyTrashed | CallCache nat | CallCacheWithKey ustr nat

fun run_call :: "('v, 't) builder_env \<Rightarrow> ('v, 't, 'd) Call \<Rightarrow> ('v, 't, 'd) Clauses \<Rightarrow> ('v, 't, 'd) Clauses" where
  "run_call E (CallWhere w) = push_condition w"
| "run_call E (CallWhereCol w) = where_col (the_model E) w"
| "run_call E (CallOrWhere w) = push_or_condition w"
| "run_call E (CallOrGroup f) = or_where f"
| "run_call E (CallOrExpression calls) = or_expression calls"
| "run_call E (CallOrderBy column direction) = push_order_by (the_model E) column direction"
| "run_call E (CallSort spec) = sort (the_model E) spec"
| "run_call E (CallOrderByRaw e direction) = order_by_raw e direction"
| "run_call E CallLatest = latest (the_model E)"
| "run_call E CallOldest = oldest (the_model E)"
| "run_call E (CallLimit n) = limit n"
| "run_call E (CallOffset n) = offset n"
| "run_call E (CallPage p n) = page p n"
| "run_call E (CallSelect columns) = select columns"
| "run_call E CallDistinct = distinct_rows"
| "run_call E (CallSelectRaw sql) = select_raw (letters E) sql"
| "run_call E CallLock = set_lock_for_update"
| "run_call E (CallJoin ty table alias l r) = push_join ty table alias l r"
| "run_call E (CallSelectWithLinked ls table fk pk rs) = select_with_linked (the_model E) ls table fk pk rs"
| "run_call E (CallGroupBy column) = push_group_by (the_model E) column"
| "run_call E (CallHaving h) = having E h"
| "run_call E (CallWindow w) = push_window w"
| "run_call E (CallCte cte) = with_cte (letters E) cte"
| "run_call E (CallRecursiveCte name columns base step) = with_recursive_cte (letters E) name columns base step"
| "run_call E (CallWithQuery name op) = with_query (letters E) name op"
| "run_call E (CallRawUnion ty caller sql) = push_raw_union (letters E) ty caller sql"
| "run_call E (CallUnion ty caller op w chk p) = push_compound_operand ty caller op w chk p"
| "run_call E (CallSubquery caller column keyword op) =
     push_subquery_condition (letters E) (backend_type E) caller column keyword op"
| "run_call E CallWithTrashed = with_trashed"
| "run_call E CallOnlyTrashed = set_only_trashed (the_model E)"
| "run_call E (CallCache ttl) = cache ttl"
| "run_call E (CallCacheWithKey key ttl) = cache_with_key key ttl"

definition consolidate :: "('v, 't, 'd) Clauses \<Rightarrow> ('v, 't, 'd) Clauses" where
  "consolidate c = c"

definition apply_fragment :: "('v, 't, 'd) Clauses \<Rightarrow> ('v, 't, 'd) Clauses \<Rightarrow> ('v, 't, 'd) Clauses" where
  "apply_fragment fragment c = merge fragment c"

text \<open>
  The calls whose effect does not look at the rest of the query: a raw projection is not the private
  marker of \<open>distinct()\<close>, and the column of a MIN or MAX comparison is the model's own, so that its
  type is known before any join.
\<close>

fun self_contained :: "('v, 't) builder_env \<Rightarrow> ('v, 't, 'd) Call \<Rightarrow> bool" where
  "self_contained E (CallSelectRaw sql) = (sql \<noteq> DISTINCT_SELECT_MARKER)"
| "self_contained E (CallHaving (HavingAggregate a)) =
     (case extreme_column (agg_aggregate a) of Some column \<Rightarrow> own_type E column \<noteq> None | None \<Rightarrow> True)"
| "self_contained E _ = True"

subsection \<open>What every built query satisfies\<close>

definition simple_group_ok :: "'v OrGroup list \<Rightarrow> nat option \<Rightarrow> bool" where
  "simple_group_ok groups simple \<longleftrightarrow>
     (\<forall>i. simple = Some i \<longrightarrow> i < length groups \<and> nested_groups (groups ! i) = []
            \<and> combine_with (groups ! i) = Or \<and> group_conditions (groups ! i) \<noteq> [])"

definition clauses_ok :: "('v, 't, 'd) Clauses \<Rightarrow> bool" where
  "clauses_ok c \<longleftrightarrow>
     length (having_bindings c) = length (having_conditions c)
     \<and> (\<forall>i \<in> fst ` set (having_typed_bindings c). i < length (having_conditions c))
     \<and> distinct (map fst (having_typed_bindings c))
     \<and> simple_group_ok (or_groups c) (simple_or_group c)
     \<and> \<not> (only_trashed c \<and> include_trashed c)
     \<and> length (filter (\<lambda>e. e = DISTINCT_SELECT_MARKER) (raw_select_expressions c)) \<le> 1"

text \<open>The slots \<open>is_empty\<close> does not look at are filled only together with one it does look at.\<close>

definition nothing_hidden :: "('v, 't, 'd) Clauses \<Rightarrow> bool" where
  "nothing_hidden c \<longleftrightarrow>
     (having_comparisons c = [] \<or> having_conditions c \<noteq> [] \<or> invalid_query_reason c \<noteq> None)
     \<and> (dependencies c = [] \<or> conditions c \<noteq> [] \<or> ctes c \<noteq> [] \<or> unions c \<noteq> [])"

lemma default_ok: "clauses_ok default_clauses"
  by (simp add: clauses_ok_def default_clauses_def simple_group_ok_def)

text \<open>The slots that are not merged by themselves: the OR groups and the HAVING clauses.\<close>

definition merged_groups :: "'v OrGroup list \<times> nat option \<Rightarrow> 'v OrGroup list \<times> nat option \<Rightarrow> 'v OrGroup list \<times> nat option" where
  "merged_groups other own = fold (merge_or_group (snd other)) (enumerate 0 (fst other)) own"

definition merged_typed :: "nat \<Rightarrow> (nat \<times> ustr \<times> Json) list \<Rightarrow> (nat \<times> ustr \<times> Json) list \<Rightarrow> (nat \<times> ustr \<times> Json) list" where
  "merged_typed off other own = fold (\<lambda>(index, operand). typed_insert (off + index) operand) other own"

definition merged_bindings :: "nat \<Rightarrow> nat \<Rightarrow> 'v list list \<Rightarrow> 'v list list \<Rightarrow> 'v list list" where
  "merged_bindings off n other own = resize off own @ map (get_or_empty other) [0..<n]"

lemma merge_fields:
  "merge other c = \<lparr>
     dependencies = dependencies c @ dependencies other,
     operand_databases = operand_databases c @ operand_databases other,
     conditions = conditions c @ conditions other,
     or_groups = fst (merged_groups (or_groups other, simple_or_group other) (or_groups c, simple_or_group c)),
     simple_or_group = snd (merged_groups (or_groups other, simple_or_group other) (or_groups c, simple_or_group c)),
     order_by = order_by c @ order_by other,
     limit_value = last_wins (limit_value c) (limit_value other),
     offset_value = last_wins (offset_value c) (offset_value other),
     select_columns = last_wins (select_columns c) (select_columns other),
     raw_select_expressions = raw_select_expressions c
       @ filter (\<lambda>e. e \<noteq> DISTINCT_SELECT_MARKER \<or> \<not> is_distinct c) (raw_select_expressions other),
     subquery_select_expressions = subquery_select_expressions c @ subquery_select_expressions other,
     group_by = group_by c @ group_by other,
     having_conditions = having_conditions c @ having_conditions other,
     having_bindings = merged_bindings (length (having_conditions c)) (length (having_conditions other))
       (having_bindings other) (having_bindings c),
     having_typed_bindings = merged_typed (length (having_conditions c)) (having_typed_bindings other)
       (having_typed_bindings c),
     having_comparisons = having_comparisons c @ having_comparisons other,
     joins = joins c @ joins other,
     unions = unions c @ unions other,
     window_functions = window_functions c @ window_functions other,
     ctes = ctes c @ ctes other,
     cache_options = last_wins (cache_options c) (cache_options other),
     cache_key = last_wins (cache_key c) (cache_key other),
     invalid_query_reason = first_wins (invalid_query_reason c) (invalid_query_reason other),
     invalid_page = first_wins (invalid_page c) (invalid_page other),
     include_trashed = (if only_trashed other then False
                         else if include_trashed other then True else include_trashed c),
     only_trashed = (if only_trashed other then True
                      else if include_trashed other then False else only_trashed c),
     lock_for_update = (lock_for_update c \<or> lock_for_update other)\<rparr>"
proof -
  have "merge_or_groups other c = c\<lparr>
      or_groups := fst (merged_groups (or_groups other, simple_or_group other) (or_groups c, simple_or_group c)),
      simple_or_group := snd (merged_groups (or_groups other, simple_or_group other) (or_groups c, simple_or_group c))\<rparr>"
    by (simp add: merge_or_groups_def merged_groups_def split: prod.split)
  then show ?thesis
    by (simp add: merge_def merge_having_def Let_def merged_typed_def merged_bindings_def)
qed

subsection \<open>Groups and HAVING clauses under merging\<close>

lemma merge_untouched:
  assumes "\<forall>(index, g) \<in> set es. simple \<noteq> Some index"
  shows "fold (merge_or_group simple) es (groups, s) = (groups @ map snd es, s)"
  using assms by (induction es arbitrary: groups) (auto simp: merge_or_group_def)

lemma merged_groups_none [simp]: "merged_groups (other, None) (groups, s) = (groups @ other, s)"
  using merge_untouched [of "enumerate 0 other" None groups s] by (simp add: merged_groups_def)

definition extended :: "'v OrGroup \<Rightarrow> 'v WhereCondition list \<Rightarrow> 'v OrGroup" where
  "extended g cs = OrGroup (group_conditions g @ cs) (nested_groups g) (combine_with g)"

lemma merged_groups_some:
  assumes "i < length other" and "\<forall>j. s = Some j \<longrightarrow> j < length groups"
  shows "merged_groups (other, Some i) (groups, s) =
    (case s of
       Some j \<Rightarrow> (groups[j := extended (groups ! j) (group_conditions (other ! i))] @ take i other @ drop (Suc i) other, s)
     | None \<Rightarrow> (groups @ other, Some (length groups + i)))"
proof -
  have cut: "enumerate 0 other = enumerate 0 (take i other) @ (i, other ! i) # enumerate (Suc i) (drop (Suc i) other)"
    using assms(1) enumerate_append_eq [of 0 "take i other" "other ! i # drop (Suc i) other"]
    by (simp add: id_take_nth_drop [symmetric])
  have before: "fold (merge_or_group (Some i)) (enumerate 0 (take i other)) (groups, s) = (groups @ take i other, s)"
    by (subst merge_untouched) (auto simp: in_set_enumerate_eq)
  have after: "fold (merge_or_group (Some i)) (enumerate (Suc i) (drop (Suc i) other)) (gs, s')
      = (gs @ drop (Suc i) other, s')" for gs s'
    by (subst merge_untouched) (auto simp: in_set_enumerate_eq)
  show ?thesis
    using assms
    by (auto simp: merged_groups_def cut before after merge_or_group_def extended_def nth_append
        list_update_append id_take_nth_drop [symmetric] split: option.splits)
qed

lemma merged_bindings_all:
  "length own = off \<Longrightarrow> length other = n \<Longrightarrow> merged_bindings off n other own = own @ other"
  by (auto simp: merged_bindings_def resize_def get_or_empty_def intro: nth_equalityI)

lemma update_fresh: "k \<notin> fst ` set m \<Longrightarrow> AList.update k v m = m @ [(k, v)]"
  by (induction m) (auto simp: image_iff)

lemma merged_typed_all:
  assumes "distinct (map fst other)" "\<forall>i \<in> fst ` set own. i < off"
  shows "merged_typed off other own = own @ map (\<lambda>(i, x). (off + i, x)) other"
  using assms
proof (induction other arbitrary: own rule: rev_induct)
  case (snoc p other)
  obtain i x where p: "p = (i, x)" by (cases p)
  have "off + i \<notin> fst ` set (own @ map (\<lambda>(i, x). (off + i, x)) other)"
    using snoc.prems by (force simp: p)
  then show ?case
    using snoc by (simp add: p merged_typed_def typed_insert_def update_fresh)
qed (simp add: merged_typed_def)

subsection \<open>Merging commutes with every call\<close>

named_theorems replay \<open>making a call before or after a merge gives the same clauses\<close>

lemma merge_append [replay]:
  "merge (d\<lparr>dependencies := dependencies d @ xs0\<rparr>) c = (merge d c)\<lparr>dependencies := dependencies (merge d c) @ xs0\<rparr>"
  "merge (d\<lparr>operand_databases := operand_databases d @ xs1\<rparr>) c = (merge d c)\<lparr>operand_databases := operand_databases (merge d c) @ xs1\<rparr>"
  "merge (d\<lparr>conditions := conditions d @ xs2\<rparr>) c = (merge d c)\<lparr>conditions := conditions (merge d c) @ xs2\<rparr>"
  "merge (d\<lparr>order_by := order_by d @ xs3\<rparr>) c = (merge d c)\<lparr>order_by := order_by (merge d c) @ xs3\<rparr>"
  "merge (d\<lparr>subquery_select_expressions := subquery_select_expressions d @ xs4\<rparr>) c = (merge d c)\<lparr>subquery_select_expressions := subquery_select_expressions (merge d c) @ xs4\<rparr>"
  "merge (d\<lparr>group_by := group_by d @ xs5\<rparr>) c = (merge d c)\<lparr>group_by := group_by (merge d c) @ xs5\<rparr>"
  "merge (d\<lparr>having_comparisons := having_comparisons d @ xs6\<rparr>) c = (merge d c)\<lparr>having_comparisons := having_comparisons (merge d c) @ xs6\<rparr>"
  "merge (d\<lparr>joins := joins d @ xs7\<rparr>) c = (merge d c)\<lparr>joins := joins (merge d c) @ xs7\<rparr>"
  "merge (d\<lparr>unions := unions d @ xs8\<rparr>) c = (merge d c)\<lparr>unions := unions (merge d c) @ xs8\<rparr>"
  "merge (d\<lparr>window_functions := window_functions d @ xs9\<rparr>) c = (merge d c)\<lparr>window_functions := window_functions (merge d c) @ xs9\<rparr>"
  "merge (d\<lparr>ctes := ctes d @ xs10\<rparr>) c = (merge d c)\<lparr>ctes := ctes (merge d c) @ xs10\<rparr>"
  "merge (d\<lparr>dependencies := dependencies d @ xs, operand_databases := operand_databases d @ ys\<rparr>) c
     = (merge d c)\<lparr>dependencies := dependencies (merge d c) @ xs,
         operand_databases := operand_databases (merge d c) @ ys\<rparr>"
  by (simp_all add: merge_fields)

lemma merge_set [replay]:
  "merge (d\<lparr>limit_value := Some n\<rparr>) c = (merge d c)\<lparr>limit_value := Some n\<rparr>"
  "merge (d\<lparr>offset_value := Some n\<rparr>) c = (merge d c)\<lparr>offset_value := Some n\<rparr>"
  "merge (d\<lparr>select_columns := Some columns\<rparr>) c = (merge d c)\<lparr>select_columns := Some columns\<rparr>"
  "merge (d\<lparr>cache_options := Some ttl\<rparr>) c = (merge d c)\<lparr>cache_options := Some ttl\<rparr>"
  "merge (d\<lparr>cache_key := Some key\<rparr>) c = (merge d c)\<lparr>cache_key := Some key\<rparr>"
  "merge (d\<lparr>lock_for_update := True\<rparr>) c = (merge d c)\<lparr>lock_for_update := True\<rparr>"
  "merge (d\<lparr>include_trashed := True, only_trashed := False\<rparr>) c
     = (merge d c)\<lparr>include_trashed := True, only_trashed := False\<rparr>"
  "merge (d\<lparr>only_trashed := True, include_trashed := False\<rparr>) c
     = (merge d c)\<lparr>only_trashed := True, include_trashed := False\<rparr>"
  by (simp_all add: merge_fields last_wins_def)

lemma merge_invalidate [replay]: "merge (invalidate_query r d) c = invalidate_query r (merge d c)"
  by (cases "invalid_query_reason c"; cases "invalid_query_reason d")
    (simp_all add: invalidate_query_def merge_fields first_wins_def)

lemma merge_invalidate_if [replay]: "merge (invalidate_if r say d) c = invalidate_if r say (merge d c)"
  by (simp add: invalidate_if_def replay split: sum.split)

lemma merge_invalid_page [replay]:
  "merge (if invalid_page d = None then d\<lparr>invalid_page := Some r\<rparr> else d) c
     = (if invalid_page (merge d c) = None then (merge d c)\<lparr>invalid_page := Some r\<rparr> else merge d c)"
  by (cases "invalid_page c"; cases "invalid_page d") (simp_all add: merge_fields first_wins_def)

lemma merge_raw [replay]:
  "raw \<noteq> DISTINCT_SELECT_MARKER \<Longrightarrow>
   merge (d\<lparr>raw_select_expressions := raw_select_expressions d @ [raw]\<rparr>) c
     = (merge d c)\<lparr>raw_select_expressions := raw_select_expressions (merge d c) @ [raw]\<rparr>"
  by (simp add: merge_fields)

lemma merge_distinct [replay]: "merge (distinct_rows d) c = distinct_rows (merge d c)"
  by (auto simp: distinct_rows_def merge_fields is_distinct_def list_ex_iff)

lemma merge_absorb [replay]:
  "merge (absorb_operand_error what caller op d) c = absorb_operand_error what caller op (merge d c)"
  by (simp add: absorb_operand_error_def Let_def replay split: sum.split)

lemma merge_order [replay]: "merge (push_order_by M column direction d) c = push_order_by M column direction (merge d c)"
  by (simp add: push_order_by_def Let_def replay split: option.split)

lemma merge_sort_terms: "merge (sort_terms M spec ts d) c = sort_terms M spec ts (merge d c)"
  by (induction ts arbitrary: d) (simp_all add: replay split: prod.split)

lemma merge_join [replay]: "merge (push_join ty table alias l r d) c = push_join ty table alias l r (merge d c)"
  by (simp add: push_join_def replay split: sum.split)

lemma merge_cte [replay]: "merge (push_cte U caller cte d) c = push_cte U caller cte (merge d c)"
  by (simp add: push_cte_def Let_def replay)

lemma merge_group [replay]:
  assumes "clauses_ok c" "clauses_ok d"
  shows "merge (d\<lparr>or_groups := or_groups d @ gs\<rparr>) c = (merge d c)\<lparr>or_groups := or_groups (merge d c) @ gs\<rparr>"
  using assms
  by (cases "simple_or_group d"; cases "simple_or_group c")
    (auto simp: merge_fields clauses_ok_def simple_group_ok_def merged_groups_some nth_append)

lemma merge_or_condition [replay]:
  assumes "clauses_ok c" "clauses_ok d"
  shows "merge (push_or_condition w d) c = push_or_condition w (merge d c)"
proof -
  have push: "group_push_condition w g = extended g [w]" for g
    by (cases g) (simp add: extended_def)
  have more: "extended (extended g xs) ys = extended g (xs @ ys)" for g xs ys
    by (simp add: extended_def)
  have own: "simple_or_group c = Some j \<Longrightarrow> j < length (or_groups c)" for j
    using assms(1) by (simp add: clauses_ok_def simple_group_ok_def)
  have other: "simple_or_group d = Some i \<Longrightarrow> i < length (or_groups d)" for i
    using assms(2) by (simp add: clauses_ok_def simple_group_ok_def)
  show ?thesis
    using own other
    by (cases "simple_or_group d"; cases "simple_or_group c")
      (auto simp: merge_fields push_or_condition_def merged_groups_some push more nth_append
         list_update_append OrGroup_new_def extended_def drop_update_swap)
qed

lemma merge_having_push [replay]:
  assumes "clauses_ok c" "clauses_ok d"
  shows "merge (having_with_params template params d) c = having_with_params template params (merge d c)"
  using assms
  by (simp add: merge_fields having_with_params_def clauses_ok_def merged_bindings_all)

lemma merge_typed [replay]:
  assumes "clauses_ok c" "clauses_ok d"
  shows "merge (having_with_params template params
           (d\<lparr>having_typed_bindings := typed_insert (length (having_conditions d)) x (having_typed_bindings d)\<rparr>)) c
     = having_with_params template params ((merge d c)\<lparr>having_typed_bindings :=
         typed_insert (length (having_conditions (merge d c))) x (having_typed_bindings (merge d c))\<rparr>)"
proof -
  let ?n = "length (having_conditions d)" and ?off = "length (having_conditions c)"
  have fresh: "?n \<notin> fst ` set (having_typed_bindings d)"
    using assms(2) by (auto simp: clauses_ok_def)
  have all: "merged_typed ?off other (having_typed_bindings c)
      = having_typed_bindings c @ map (\<lambda>(i, x). (?off + i, x)) other"
    if "distinct (map fst other)" for other
    using that assms(1) by (intro merged_typed_all) (auto simp: clauses_ok_def)
  have "?off + ?n \<notin> fst ` set (having_typed_bindings c)"
    using assms(1) by (auto simp: clauses_ok_def)
  moreover have "?off + ?n \<notin> fst ` set (map (\<lambda>(i, x). (?off + i, x)) (having_typed_bindings d))"
    using fresh by (force simp: image_iff)
  ultimately have "?off + ?n \<notin> fst ` set (having_typed_bindings c @ map (\<lambda>(i, x). (?off + i, x)) (having_typed_bindings d))"
    by auto
  then show ?thesis
    using assms fresh
    by (simp add: merge_fields having_with_params_def clauses_ok_def merged_bindings_all
        typed_insert_def update_fresh all)
qed

text \<open>The comparison of a HAVING aggregate does not depend on the rest of the query, except that a MIN or
  MAX is typed by its column.\<close>

definition having_effect :: "('v, 't) builder_env \<Rightarrow> AggregateCondition \<Rightarrow> 't option \<Rightarrow> ustr + (ustr \<times> 'v list \<times> (ustr \<times> Json) option)" where
  "having_effect E cond ty =
     (let expression = aggregate_render
            (\<lambda>column. format_column (backend_type E) (model_identifier E (trim column) True)) (agg_aggregate cond)
      in case agg_value cond of
           Inl reason \<Rightarrow> Inl (lit ''having(): '' @ reason)
         | Inr json \<Rightarrow>
             if json = JNull then
               (if agg_operator cond = lit ''='' then Inr (expression @ lit '' IS NULL'', [], None)
                else if agg_operator cond = lit ''<>'' then Inr (expression @ lit '' IS NOT NULL'', [], None)
                else Inl (lit ''HAVING ordering comparisons cannot use NULL''))
             else (case having_operand E (agg_aggregate cond) json ty of
                 Inl reason \<Rightarrow> Inl reason
               | Inr v \<Rightarrow> Inr (expression @ [ch_space] @ agg_operator cond @ lit '' ?'', [v],
                   map_option (\<lambda>column. (column, json)) (extreme_column (agg_aggregate cond)))))"

definition push_having :: "ustr + (ustr \<times> 'v list \<times> (ustr \<times> Json) option) \<Rightarrow> ('v, 't, 'd) Clauses \<Rightarrow> ('v, 't, 'd) Clauses" where
  "push_having effect c =
     (case effect of
        Inl reason \<Rightarrow> invalidate_query reason c
      | Inr (template, params, None) \<Rightarrow> having_with_params template params c
      | Inr (template, params, Some x) \<Rightarrow>
          having_with_params template params
            (c\<lparr>having_typed_bindings := typed_insert (length (having_conditions c)) x (having_typed_bindings c)\<rparr>))"

definition note_comparison :: "Aggregate \<Rightarrow> ('v, 't, 'd) Clauses \<Rightarrow> ('v, 't, 'd) Clauses" where
  "note_comparison aggregate c =
     (case compared_column aggregate of
        Some comparison \<Rightarrow> c\<lparr>having_comparisons := having_comparisons c @ [comparison]\<rparr>
      | None \<Rightarrow> c)"

definition extreme_type :: "('v, 't) builder_env \<Rightarrow> ('v, 't, 'd) Clauses \<Rightarrow> Aggregate \<Rightarrow> 't option" where
  "extreme_type E c aggregate =
     (case extreme_column aggregate of Some column \<Rightarrow> column_type E c column | None \<Rightarrow> None)"

lemma having_operand_type:
  "extreme_column aggregate = None \<Longrightarrow> having_operand E aggregate json ty = having_operand E aggregate json ty'"
  by (simp add: having_operand_def)

lemma column_type_comparisons [simp]:
  "column_type E (c\<lparr>having_comparisons := xs\<rparr>) column = column_type E c column"
  by (auto simp: column_type_def join_named_def split: option.split)

lemma having_aggregate_split:
  "having_aggregate E cond c
     = push_having (having_effect E cond (extreme_type E c (agg_aggregate cond))) (note_comparison (agg_aggregate cond) c)"
  by (cases "agg_aggregate cond"; cases "agg_value cond")
    (simp_all add: having_aggregate_def push_having_def having_effect_def note_comparison_def extreme_type_def
       Let_def having_operand_def split: sum.split option.split)

lemma merge_note [replay]: "merge (note_comparison a d) c = note_comparison a (merge d c)"
  by (simp add: note_comparison_def replay split: option.split)

lemma note_ok [simp]: "clauses_ok (note_comparison a c) = clauses_ok c"
  by (simp add: note_comparison_def clauses_ok_def split: option.split)

lemma invalidate_ok [simp]:
  "clauses_ok (invalidate_query r c) = clauses_ok c"
  "clauses_ok (invalidate_if e say c) = clauses_ok c"
  by (auto simp: invalidate_if_def invalidate_query_def clauses_ok_def split: sum.split)

lemma merge_push_having [replay]:
  assumes "clauses_ok c" "clauses_ok d"
  shows "merge (push_having effect d) c = push_having effect (merge d c)"
  using assms by (simp add: push_having_def replay split: sum.split option.split)

lemma merge_having_aggregate:
  assumes "clauses_ok c" "clauses_ok d" "self_contained E (CallHaving (HavingAggregate a))"
  shows "merge (having_aggregate E a d) c = having_aggregate E a (merge d c)"
proof -
  have "extreme_type E d (agg_aggregate a) = extreme_type E (merge d c) (agg_aggregate a)"
    using assms(3) by (auto simp: extreme_type_def column_type_def split: option.splits)
  then show ?thesis using assms by (simp add: having_aggregate_split replay)
qed

lemma end_or_append: "end_or b groups = groups @ end_or b []"
  by (simp add: end_or_def Let_def)

lemma merge_run_call:
  assumes "clauses_ok c" "clauses_ok d" "self_contained E k"
  shows "merge (run_call E k d) c = run_call E k (merge d c)"
proof (cases k)
  case (CallHaving h)
  then show ?thesis
    using assms merge_having_aggregate [OF assms(1,2)]
    by (cases h) (auto simp: having_def replay)
next
  case (CallOrGroup f)
  then show ?thesis using assms by (simp add: or_where_def Let_def replay)
next
  case (CallOrExpression calls)
  define gs where "gs = end_or (fold run_branch_call calls branches_new) []"
  have "end_or (fold run_branch_call calls branches_new) groups = groups @ gs" for groups
    unfolding gs_def by (rule end_or_append)
  then show ?thesis using assms by (simp add: CallOrExpression or_expression_def replay)
next
  case (CallUnion ty caller op w chk p)
  then show ?thesis
    by (simp add: push_compound_operand_def Let_def replay split: sum.split)
next
  case (CallOnlyTrashed)
  then show ?thesis by (simp add: set_only_trashed_def replay)
next
  case (CallPage n m)
  then show ?thesis by (simp add: page_def limit_def offset_def replay split: sum.split)
qed (use assms in \<open>simp_all add: replay push_condition_def where_col_def order_by_raw_def latest_def oldest_def
       limit_def offset_def select_def select_raw_def set_lock_for_update_def select_with_linked_def
       push_group_by_def push_window_def with_cte_def with_recursive_cte_def with_query_def push_raw_union_def
       push_subquery_condition_def push_bound_raw_def with_trashed_def cache_def cache_with_key_def sort_def
       merge_sort_terms Let_def\<close>)

subsection \<open>The invariant\<close>

lemma typed_insert_fresh:
  "clauses_ok c \<Longrightarrow> typed_insert (length (having_conditions c)) x (having_typed_bindings c)
     = having_typed_bindings c @ [(length (having_conditions c), x)]"
  by (subst typed_insert_def, rule update_fresh) (auto simp: clauses_ok_def)

lemma having_push_ok: "clauses_ok c \<Longrightarrow> clauses_ok (having_with_params template params c)"
  by (auto simp: clauses_ok_def having_with_params_def less_Suc_eq)

lemma push_having_ok: "clauses_ok c \<Longrightarrow> clauses_ok (push_having effect c)"
  unfolding push_having_def
  by (auto simp: typed_insert_fresh split: sum.split option.split)
    (auto simp: clauses_ok_def having_with_params_def less_Suc_eq)

lemma or_condition_ok: "clauses_ok c \<Longrightarrow> clauses_ok (push_or_condition w c)"
proof -
  have push: "nested_groups (group_push_condition w g) = nested_groups g"
    "combine_with (group_push_condition w g) = combine_with g"
    "group_conditions (group_push_condition w g) = group_conditions g @ [w]" for g
    by (cases g; simp)+
  show "clauses_ok c \<Longrightarrow> clauses_ok (push_or_condition w c)"
    by (auto simp: clauses_ok_def simple_group_ok_def push_or_condition_def push OrGroup_new_def nth_append
        split: option.splits)
qed

lemma groups_ok:
  "clauses_ok c \<Longrightarrow> clauses_ok (c\<lparr>or_groups := or_groups c @ gs\<rparr>)"
  by (auto simp: clauses_ok_def simple_group_ok_def nth_append)

lemma absorb_ok [simp]: "clauses_ok (absorb_operand_error what caller op c) = clauses_ok c"
  by (simp add: absorb_operand_error_def Let_def split: sum.split) (simp add: clauses_ok_def)

lemma order_ok [simp]: "clauses_ok (push_order_by M column direction c) = clauses_ok c"
  by (simp add: push_order_by_def Let_def split: option.split) (simp add: clauses_ok_def)

lemma sort_ok [simp]: "clauses_ok (sort_terms M spec ts c) = clauses_ok c"
  by (induction ts arbitrary: c) (simp_all split: prod.split)

lemma appended_ok [simp]:
  "clauses_ok (c\<lparr>conditions := ws\<rparr>) = clauses_ok c"
  "clauses_ok (c\<lparr>order_by := os\<rparr>) = clauses_ok c"
  "clauses_ok (c\<lparr>select_columns := sel\<rparr>) = clauses_ok c"
  "clauses_ok (c\<lparr>joins := js\<rparr>) = clauses_ok c"
  "clauses_ok (c\<lparr>unions := us\<rparr>) = clauses_ok c"
  "clauses_ok (c\<lparr>ctes := cs\<rparr>) = clauses_ok c"
  "clauses_ok (c\<lparr>window_functions := fs\<rparr>) = clauses_ok c"
  "clauses_ok (c\<lparr>group_by := gs\<rparr>) = clauses_ok c"
  "clauses_ok (c\<lparr>limit_value := l\<rparr>) = clauses_ok c"
  "clauses_ok (c\<lparr>offset_value := l\<rparr>) = clauses_ok c"
  "clauses_ok (c\<lparr>invalid_page := ip\<rparr>) = clauses_ok c"
  "clauses_ok (c\<lparr>lock_for_update := b\<rparr>) = clauses_ok c"
  "clauses_ok (c\<lparr>cache_options := co\<rparr>) = clauses_ok c"
  "clauses_ok (c\<lparr>cache_key := ck\<rparr>) = clauses_ok c"
  by (simp_all add: clauses_ok_def)

lemma join_ok [simp]: "clauses_ok (push_join ty table alias l r c) = clauses_ok c"
  by (simp add: push_join_def split: sum.split)

lemma cte_ok [simp]: "clauses_ok (push_cte U caller cte c) = clauses_ok c"
  by (simp add: push_cte_def Let_def)

lemma run_call_ok:
  fixes c :: "('v, 't, 'd) Clauses"
  assumes "clauses_ok c" "self_contained E k"
  shows "clauses_ok (run_call E k c)"
proof (cases k)
  case (CallHaving h)
  then show ?thesis
    using assms by (cases h) (auto simp: having_def having_aggregate_split push_having_ok having_push_ok)
next
  case (CallOrExpression calls)
  then show ?thesis using assms by (simp add: or_expression_def end_or_def Let_def groups_ok)
next
  case CallDistinct
  then show ?thesis using assms
    by (auto simp: distinct_rows_def is_distinct_def clauses_ok_def list_ex_iff filter_empty_conv)
next
  case (CallSelectRaw sql)
  have "clauses_ok (c'\<lparr>raw_select_expressions := raw_select_expressions c' @ [sql]\<rparr>)" if "clauses_ok c'" for c' :: "('v, 't, 'd) Clauses"
    using that assms(2) by (simp add: CallSelectRaw clauses_ok_def)
  then show ?thesis using assms by (simp add: CallSelectRaw select_raw_def Let_def)
next
  case (CallUnion ty caller op w chk p)
  then show ?thesis using assms by (simp add: push_compound_operand_def Let_def split: sum.split)
next
  case CallWithTrashed
  then show ?thesis using assms by (simp add: with_trashed_def clauses_ok_def)
next
  case CallOnlyTrashed
  have "clauses_ok (c'\<lparr>only_trashed := True, include_trashed := False\<rparr>)" if "clauses_ok c'" for c' :: "('v, 't, 'd) Clauses"
    using that by (simp add: clauses_ok_def)
  then show ?thesis using assms by (simp add: CallOnlyTrashed set_only_trashed_def)
next
  case (CallPage n m)
  then show ?thesis using assms by (simp add: page_def limit_def offset_def split: sum.split)
qed (use assms in \<open>simp_all add: or_condition_ok groups_ok push_condition_def where_col_def order_by_raw_def latest_def
       oldest_def or_where_def limit_def offset_def select_def set_lock_for_update_def select_with_linked_def
       push_group_by_def push_window_def with_cte_def with_recursive_cte_def with_query_def push_raw_union_def
       push_subquery_condition_def push_bound_raw_def cache_def cache_with_key_def sort_def Let_def\<close>)

lemma calls_ok:
  "clauses_ok c \<Longrightarrow> list_all (self_contained E) ks \<Longrightarrow> clauses_ok (fold (run_call E) ks c)"
  by (induction ks arbitrary: c) (simp_all add: run_call_ok)

lemma merge_default: "clauses_ok c \<Longrightarrow> merge default_clauses c = c"
  by (simp add: merge_fields default_clauses_def clauses_ok_def merged_bindings_all merged_typed_def
      last_wins_def first_wins_def)

text \<open>C5. Applying a fragment replays it, for the calls that add to a query: merging the clauses that a
  sequence of builder calls makes gives exactly the query those calls make on top of it, slot by
  slot, failures included. So applying the fragment of a query to an empty builder gives the query
  back. The calls are those of the type \<open>Call\<close>; \<open>reorder\<close> and \<open>no_cache\<close>, which reset a slot of the
  builder they are called on, are not among them (lemma \<open>reset_calls_not_replayed\<close>). By
  \<open>self_contained\<close> a raw projection is not the marker \<open>distinct\<close> uses, and a HAVING on MIN or MAX
  compares a column of the model, whose type the query's joins cannot change.\<close>

theorem fragment_replays_calls:
  fixes E :: "('v, 't) builder_env" and ks base :: "('v, 't, 'd) Call list"
  assumes "list_all (self_contained E) ks" and "list_all (self_contained E) base"
  shows "apply_fragment (consolidate (fold (run_call E) ks default_clauses))
           (fold (run_call E) base default_clauses)
         = fold (run_call E) (base @ ks) default_clauses
       \<and> apply_fragment (consolidate (fold (run_call E) ks default_clauses)) default_clauses
         = fold (run_call E) ks default_clauses"
proof -
  have "merge (fold (run_call E) ks default_clauses) c = fold (run_call E) ks c"
    if "clauses_ok c" for c :: "('v, 't, 'd) Clauses"
    using assms(1)
  proof (induction ks rule: rev_induct)
    case Nil
    then show ?case using that by (simp add: merge_default)
  next
    case (snoc k ks)
    then show ?case using that by (simp add: merge_run_call calls_ok default_ok)
  qed
  then show ?thesis
    using assms(2) by (simp add: apply_fragment_def consolidate_def calls_ok default_ok)
qed

subsection \<open>Empty fragments\<close>

lemma invalidate_hidden: "nothing_hidden c \<Longrightarrow> nothing_hidden (invalidate_query r c)"
  "nothing_hidden c \<Longrightarrow> nothing_hidden (invalidate_if e say c)"
  by (auto simp: invalidate_if_def invalidate_query_def nothing_hidden_def split: sum.split)

lemma plain_hidden [simp]:
  "nothing_hidden (c\<lparr>order_by := os\<rparr>) = nothing_hidden c"
  "nothing_hidden (c\<lparr>or_groups := gs\<rparr>) = nothing_hidden c"
  "nothing_hidden (c\<lparr>simple_or_group := s\<rparr>) = nothing_hidden c"
  "nothing_hidden (c\<lparr>select_columns := sel\<rparr>) = nothing_hidden c"
  "nothing_hidden (c\<lparr>raw_select_expressions := rs\<rparr>) = nothing_hidden c"
  "nothing_hidden (c\<lparr>joins := js\<rparr>) = nothing_hidden c"
  "nothing_hidden (c\<lparr>window_functions := fs\<rparr>) = nothing_hidden c"
  "nothing_hidden (c\<lparr>group_by := qs\<rparr>) = nothing_hidden c"
  "nothing_hidden (c\<lparr>limit_value := l\<rparr>) = nothing_hidden c"
  "nothing_hidden (c\<lparr>offset_value := l\<rparr>) = nothing_hidden c"
  "nothing_hidden (c\<lparr>invalid_page := ip\<rparr>) = nothing_hidden c"
  "nothing_hidden (c\<lparr>lock_for_update := b\<rparr>) = nothing_hidden c"
  "nothing_hidden (c\<lparr>include_trashed := b, only_trashed := b'\<rparr>) = nothing_hidden c"
  "nothing_hidden (c\<lparr>only_trashed := b, include_trashed := b'\<rparr>) = nothing_hidden c"
  "nothing_hidden (c\<lparr>cache_options := co\<rparr>) = nothing_hidden c"
  "nothing_hidden (c\<lparr>cache_key := ck\<rparr>) = nothing_hidden c"
  by (simp_all add: nothing_hidden_def)

lemma order_hidden: "nothing_hidden c \<Longrightarrow> nothing_hidden (push_order_by M column direction c)"
  by (simp add: push_order_by_def Let_def invalidate_hidden split: option.split)

lemma sort_hidden: "nothing_hidden c \<Longrightarrow> nothing_hidden (sort_terms M spec ts c)"
  by (induction ts arbitrary: c) (simp_all add: order_hidden invalidate_hidden split: prod.split)

lemma join_hidden: "nothing_hidden c \<Longrightarrow> nothing_hidden (push_join ty table alias l r c)"
  by (simp add: push_join_def invalidate_hidden split: sum.split)

text \<open>What an absorbed operand adds is covered by the clause pushed with it.\<close>

definition compared_covered :: "('v, 't, 'd) Clauses \<Rightarrow> bool" where
  "compared_covered c \<longleftrightarrow> having_comparisons c = [] \<or> having_conditions c \<noteq> [] \<or> invalid_query_reason c \<noteq> None"

lemma covered_invalidate: "compared_covered c \<Longrightarrow> compared_covered (invalidate_query r c)"
  "compared_covered c \<Longrightarrow> compared_covered (invalidate_if e say c)"
  by (auto simp: invalidate_if_def invalidate_query_def compared_covered_def split: sum.split)

lemma covered_absorb: "compared_covered c \<Longrightarrow> compared_covered (absorb_operand_error what caller op c)"
  by (auto simp: absorb_operand_error_def Let_def invalidate_query_def compared_covered_def split: sum.split)

lemma covered_pushed:
  "compared_covered c \<Longrightarrow> nothing_hidden (c\<lparr>conditions := conditions c @ [w]\<rparr>)"
  "compared_covered c \<Longrightarrow> nothing_hidden (c\<lparr>ctes := ctes c @ [x]\<rparr>)"
  "compared_covered c \<Longrightarrow> nothing_hidden (c\<lparr>unions := unions c @ [u]\<rparr>)"
  by (auto simp: nothing_hidden_def compared_covered_def)

lemma hidden_covered: "nothing_hidden c \<Longrightarrow> compared_covered c"
  by (simp add: nothing_hidden_def compared_covered_def)

lemma cte_hidden: "compared_covered c \<Longrightarrow> nothing_hidden (push_cte U caller cte c)"
  by (simp add: push_cte_def Let_def covered_pushed covered_invalidate)

lemma having_hidden: "nothing_hidden c \<Longrightarrow> nothing_hidden (having E h c)"
  by (auto simp: having_def having_aggregate_split push_having_def note_comparison_def having_with_params_def
      invalidate_query_def invalidate_if_def nothing_hidden_def
      split: HavingCondition.split sum.split option.split)

lemma run_call_hidden: "nothing_hidden c \<Longrightarrow> nothing_hidden (run_call E k c)"
  by (cases k)
    (simp_all add: hidden_covered covered_pushed covered_invalidate covered_absorb invalidate_hidden order_hidden
       sort_hidden join_hidden cte_hidden having_hidden push_condition_def where_col_def order_by_raw_def
       latest_def oldest_def or_where_def or_expression_def push_or_condition_def limit_def offset_def page_def
       select_def distinct_rows_def select_raw_def set_lock_for_update_def select_with_linked_def
       push_group_by_def push_window_def with_cte_def with_recursive_cte_def with_query_def push_raw_union_def
       push_compound_operand_def push_subquery_condition_def push_bound_raw_def with_trashed_def
       set_only_trashed_def cache_def cache_with_key_def sort_def Let_def split: option.split sum.split)

lemma calls_hidden: "nothing_hidden c \<Longrightarrow> nothing_hidden (fold (run_call E) ks c)"
  by (induction ks arbitrary: c) (simp_all add: run_call_hidden)

lemma empty_is_default:
  assumes "clauses_ok c" "nothing_hidden c" "clauses_is_empty c"
  shows "c = default_clauses"
proof -
  have "having_typed_bindings c = []" "simple_or_group c = None" "having_bindings c = []"
    using assms by (cases "simple_or_group c"; auto simp: clauses_ok_def clauses_is_empty_def simple_group_ok_def)+
  then show ?thesis
    using assms(2,3) by (intro Clauses.equality) (auto simp: nothing_hidden_def clauses_is_empty_def default_clauses_def)
qed

text \<open>A fragment reports itself empty exactly when applying it changes nothing: it is then the default
  value, with no dependency, binding or failure left in a slot the check does not look at.\<close>

theorem empty_fragment_is_identity:
  fixes E :: "('v, 't) builder_env" and ks base :: "('v, 't, 'd) Call list"
  assumes "list_all (self_contained E) ks" and "list_all (self_contained E) base"
  shows "(clauses_is_empty (fold (run_call E) ks default_clauses)
           \<longleftrightarrow> fold (run_call E) ks default_clauses = default_clauses)
       \<and> (clauses_is_empty (fold (run_call E) ks default_clauses)
           \<longrightarrow> apply_fragment (fold (run_call E) ks default_clauses) (fold (run_call E) base default_clauses)
               = fold (run_call E) base default_clauses)"
proof -
  have hidden: "nothing_hidden default_clauses" and empty: "clauses_is_empty default_clauses"
    by (simp_all add: nothing_hidden_def clauses_is_empty_def default_clauses_def)
  have "clauses_is_empty (fold (run_call E) ks default_clauses)
      \<longleftrightarrow> fold (run_call E) ks default_clauses = default_clauses"
    using empty_is_default [OF calls_ok [OF default_ok assms(1)] calls_hidden [OF hidden]] empty by metis
  then show ?thesis
    using merge_default [OF calls_ok [OF default_ok assms(2)]] by (auto simp: apply_fragment_def)
qed

text \<open>
  Two calls are not replayed: \<open>reorder()\<close> clears only the order its own builder had, and \<open>no_cache()\<close>
  leaves nothing for a fragment to carry.
\<close>

theorem reset_calls_not_replayed:
  "apply_fragment (consolidate (no_cache (default_clauses :: (unit, unit, unit) Clauses))) (cache 5 default_clauses)
     \<noteq> no_cache (cache 5 default_clauses)
   \<and> apply_fragment (consolidate (reorder M (plain_column (lit ''id'')) Asc (default_clauses :: (unit, unit, unit) Clauses)))
       (order_by_raw (lit ''rank'') Desc default_clauses)
     \<noteq> reorder M (plain_column (lit ''id'')) Asc (order_by_raw (lit ''rank'') Desc default_clauses)"
proof
  show "apply_fragment (consolidate (no_cache (default_clauses :: (unit, unit, unit) Clauses))) (cache 5 default_clauses)
     \<noteq> no_cache (cache 5 default_clauses)"
    by (simp add: apply_fragment_def consolidate_def no_cache_def cache_def merge_fields default_clauses_def last_wins_def)
  show "apply_fragment (consolidate (reorder M (plain_column (lit ''id'')) Asc (default_clauses :: (unit, unit, unit) Clauses)))
       (order_by_raw (lit ''rank'') Desc default_clauses)
     \<noteq> reorder M (plain_column (lit ''id'')) Asc (order_by_raw (lit ''rank'') Desc default_clauses)"
  proof -
    have order: "order_by (push_order_by M k dir c) = order_by c @ order_by (push_order_by M k dir c')"
      if "order_by c' = []" for M k dir and c c' :: "(unit, unit, unit) Clauses"
      using that by (simp add: push_order_by_def Let_def invalidate_query_def split: option.split)
    let ?k = "plain_column (lit ''id'')"
    have "order_by (apply_fragment (consolidate (reorder M ?k Asc (default_clauses :: (unit, unit, unit) Clauses)))
        (order_by_raw (lit ''rank'') Desc default_clauses))
      = (raw_order_by_entry (lit ''rank''), Desc) # order_by (reorder M ?k Asc (default_clauses :: (unit, unit, unit) Clauses))"
      by (simp add: apply_fragment_def consolidate_def merge_fields order_by_raw_def default_clauses_def)
    moreover have "order_by (reorder M ?k Asc (order_by_raw (lit ''rank'') Desc (default_clauses :: (unit, unit, unit) Clauses)))
      = order_by (reorder M ?k Asc (default_clauses :: (unit, unit, unit) Clauses))"
      using order [where c = "(order_by_raw (lit ''rank'') Desc default_clauses)\<lparr>order_by := []\<rparr>"
          and c' = "default_clauses\<lparr>order_by := []\<rparr>" and M = M and k = ?k and dir = Asc]
      by (simp add: reorder_def)
    ultimately show ?thesis by (metis not_Cons_self2)
  qed
qed

subsection \<open>A fragment applied to a query\<close>

definition demo_calls :: "(unit, unit, unit) Call list" where
  "demo_calls = [CallWhere \<lparr>cond_column = lit ''title'', cond_operator = Eq, cond_value = Single (JString (lit ''x''))\<rparr>,
     CallOrderBy (plain_column (lit ''id'')) Desc, CallSelectRaw (lit ''count(*)''), CallLimit 3]"

theorem fragment_replays_calls_witness:
  "list_all (self_contained demo_builder_env) demo_calls
   \<and> apply_fragment (consolidate (fold (run_call demo_builder_env) demo_calls default_clauses))
       (fold (run_call demo_builder_env) (CallLock # demo_calls) default_clauses)
     = fold (run_call demo_builder_env) ((CallLock # demo_calls) @ demo_calls) default_clauses"
proof -
  have "list_all (self_contained demo_builder_env) demo_calls" by code_simp
  then show ?thesis using fragment_replays_calls [of demo_builder_env demo_calls "CallLock # demo_calls"] by simp
qed

theorem empty_fragment_is_identity_witness:
  "list_all (self_contained demo_builder_env) demo_calls
   \<and> clauses_is_empty (fold (run_call demo_builder_env) [] (default_clauses :: (unit, unit, unit) Clauses))
   \<and> apply_fragment (fold (run_call demo_builder_env) [] default_clauses) (fold (run_call demo_builder_env) demo_calls default_clauses)
     = fold (run_call demo_builder_env) demo_calls default_clauses"
proof -
  have "list_all (self_contained demo_builder_env) demo_calls" by code_simp
  then show ?thesis using empty_fragment_is_identity [of demo_builder_env "[]" demo_calls] by simp
qed

end
