(* ===== verification/Chunk_Reading.thy ===== *)
theory Chunk_Reading
  imports Query_Builder "HOL-Library.Multiset"
begin

text \<open>
  Reading a query in batches: \<open>chunk\<close> of \<open>src/src/query/sql/execution.rs\<close>. The loop pages by the primary
  key: every batch starts after the last key handed out, or at it when a join repeats keys and a full
  batch ended inside a run of rows with one key.

  The rows a query returns (\<open>get_rows\<close>), the caller's callback and the keys of rows are parameters. The
  loop is a \<open>partial_function\<close>, so that not returning is the value \<open>None\<close>.
\<close>

subsection \<open>The checks before the loop\<close>

definition chunk_primary_key_column :: "model \<Rightarrow> Error + ustr" where
  "chunk_primary_key_column M =
     (case primary_key_names M of
        [primary_key] \<Rightarrow> Inr primary_key
      | keys \<Rightarrow> Inl (query (lit ''chunk() only supports models with a single-column primary key; model ''
          @ [ch_quote] @ table_name M @ [ch_quote] @ lit '' uses '' @ show_nat (length keys) @ lit '' key columns'')))"

definition chunk_order :: "model \<Rightarrow> ustr \<Rightarrow> ('v, 't, 'd) Clauses \<Rightarrow> Error + Order" where
  "chunk_order M primary_key c =
     (let refusal = Inl (query (lit ''chunk() only supports explicit ordering by the single primary key ''
            @ [ch_quote] @ primary_key @ [ch_quote] @ lit '' for model '' @ [ch_quote] @ table_name M @ [ch_quote]))
      in case order_by c of
           [] \<Rightarrow> Inr Asc
         | [(column, direction)] \<Rightarrow> if own_column_name M column = Some primary_key then Inr direction else refusal
         | _ \<Rightarrow> refusal)"

definition ensure_query_is_chunkable :: "nat \<Rightarrow> ('v, 't, 'd) Clauses \<Rightarrow> Error + unit" where
  "ensure_query_is_chunkable chunk_size c =
     (if chunk_size = 0 then Inl (query (lit ''chunk() requires chunk_size to be greater than 0''))
      else if window_functions c \<noteq> [] then
        Inl (query (lit ''chunk() does not support window functions: its cursor changes the window input; use get() or page()''))
      else if group_by c \<noteq> [] \<or> having_conditions c \<noteq> [] then
        Inl (query (lit ''chunk() does not support GROUP BY or HAVING: its primary-key cursor changes group membership; read grouped results with get() or page()''))
      else if (case offset_value c of Some n \<Rightarrow> n > 0 | None \<Rightarrow> False) then
        Inl (query (lit ''chunk() does not support offset(); use page()/get() for fixed windows or chunk over primary-key order''))
      else if unions c \<noteq> [] then
        Inl (query (lit ''chunk() pages by the model'' @ [ch_quote]
          @ lit ''s primary key, which the other branches of a union() do not follow; read a union with get(), or page() it''))
      else Inr ())"

subsection \<open>The loop\<close>

text \<open>Which keys a batch reads: all of them, those after a key, those from it on, or one key.\<close>

datatype 'k key_filter = AllKeys | AfterKey 'k | FromKey 'k | OnlyKey 'k

record ('v, 't, 'd, 'r, 'k, 's) chunk_env =
  get_rows :: "('v, 't, 'd) Clauses \<Rightarrow> Error + 'r list"
  key_of :: "'r \<Rightarrow> Error + 'k"
  key_value :: "'k \<Rightarrow> 'v ConditionValue"
  key_text :: "'k \<Rightarrow> ustr"
  callback :: "'r list \<Rightarrow> 's \<Rightarrow> Error + 's"

fun filter_operator :: "Order \<Rightarrow> 'k key_filter \<Rightarrow> (Operator \<times> 'k) option" where
  "filter_operator direction AllKeys = None"
| "filter_operator Asc (AfterKey k) = Some (Gt, k)"
| "filter_operator Asc (FromKey k) = Some (Gte, k)"
| "filter_operator Desc (AfterKey k) = Some (Lt, k)"
| "filter_operator Desc (FromKey k) = Some (Lte, k)"
| "filter_operator direction (OnlyKey k) = Some (Eq, k)"

definition batch_query :: "('v, 't, 'd, 'r, 'k, 's) chunk_env \<Rightarrow> ('v, 't, 'd) Clauses \<Rightarrow> ustr \<Rightarrow> Order \<Rightarrow> 'k key_filter
    \<Rightarrow> nat \<Rightarrow> ('v, 't, 'd) Clauses" where
  "batch_query E base cursor_column direction f n =
     (case filter_operator direction f of
        None \<Rightarrow> limit n base
      | Some (op, k) \<Rightarrow>
          push_condition \<lparr>cond_column = cursor_column, cond_operator = op, cond_value = key_value E k\<rparr> (limit n base))"

text \<open>How many rows at the end of a batch, read backwards, have its last key.\<close>

fun tail_run :: "('r \<Rightarrow> Error + 'k) \<Rightarrow> 'k \<Rightarrow> 'r list \<Rightarrow> Error + nat" where
  "tail_run key last_key [] = Inr 0"
| "tail_run key last_key (r # rs) =
     try_bind (key r) (\<lambda>k. if k \<noteq> last_key then Inr 0 else try_bind (tail_run key last_key rs) (\<lambda>n. Inr (Suc n)))"

definition saturating_succ :: "nat \<Rightarrow> nat" where
  "saturating_succ n = min (Suc n) u64_max"

text \<open>What of a fetched batch is handed out, and whether the next one starts at its last key.\<close>

definition whole_runs :: "('v, 't, 'd, 'r, 'k, 's) chunk_env \<Rightarrow> (('k key_filter \<Rightarrow> nat \<Rightarrow> Error + 'r list)) \<Rightarrow> nat
    \<Rightarrow> 'k \<Rightarrow> 'r list \<Rightarrow> Error + ('r list \<times> bool)" where
  "whole_runs E fetch chunk_size last_key batch =
     try_bind (tail_run (key_of E) last_key (rev batch)) (\<lambda>tail.
       if tail = length batch then
         try_bind (fetch (OnlyKey last_key) (saturating_succ chunk_size)) (\<lambda>run.
           if length run > chunk_size
           then Inl (query (lit ''chunk('' @ show_nat chunk_size @ lit '') found more rows with the key ''
                  @ key_text E last_key
                  @ lit '' than a batch holds: the join repeats it, so pass a larger chunk size''))
           else Inr (run, False))
       else Inr (take (length batch - tail) batch, True))"

partial_function (option) chunk_loop ::
    "('v, 't, 'd, 'r, 'k, 's) chunk_env \<Rightarrow> ('k key_filter \<Rightarrow> nat \<Rightarrow> Error + 'r list) \<Rightarrow> nat \<Rightarrow> bool
      \<Rightarrow> nat option \<Rightarrow> ('k \<times> bool) option \<Rightarrow> 's \<Rightarrow> ((Error + unit) \<times> 's) option" where
  [code]: "chunk_loop E fetch chunk_size joins_repeat_keys remaining cursor s =
     (let batch_limit = (case remaining of None \<Rightarrow> chunk_size | Some l \<Rightarrow> min l chunk_size) in
      if batch_limit = 0 then Some (Inr (), s)
      else
        (case fetch (case cursor of None \<Rightarrow> AllKeys
                     | Some (k, inclusive) \<Rightarrow> if inclusive then FromKey k else AfterKey k) batch_limit of
           Inl e \<Rightarrow> Some (Inl e, s)
         | Inr batch \<Rightarrow>
             if batch = [] then Some (Inr (), s)
             else
               (case key_of E (last batch) of
                  Inl e \<Rightarrow> Some (Inl e, s)
                | Inr last_key \<Rightarrow>
                    (case (if joins_repeat_keys \<and> length batch = batch_limit
                              \<and> (case remaining of None \<Rightarrow> True | Some l \<Rightarrow> l > batch_limit)
                           then whole_runs E fetch chunk_size last_key batch else Inr (batch, False)) of
                       Inl e \<Rightarrow> Some (Inl e, s)
                     | Inr (handed, starts_at_last_key) \<Rightarrow>
                         (case callback E handed s of
                            Inl e \<Rightarrow> Some (Inl e, s)
                          | Inr s' \<Rightarrow>
                              (let remaining' = map_option (\<lambda>l. l - length handed) remaining in
                               if remaining' = Some 0 then Some (Inr (), s')
                               else if length batch < batch_limit then Some (Inr (), s')
                               else chunk_loop E fetch chunk_size joins_repeat_keys remaining'
                                      (Some (last_key, starts_at_last_key)) s'))))))"

definition chunk_base :: "model \<Rightarrow> ustr \<Rightarrow> Order \<Rightarrow> ('v, 't, 'd) Clauses \<Rightarrow> ('v, 't, 'd) Clauses" where
  "chunk_base M cursor_column direction c =
     (let b = c\<lparr>limit_value := None, offset_value := None\<rparr>
      in if order_by b = [] then push_order_by M (plain_column cursor_column) direction b else b)"

definition chunk :: "(('v, 't, 'd) Clauses \<Rightarrow> Error + unit) \<Rightarrow> (ustr \<Rightarrow> ('v, 't, 'd) Clauses \<Rightarrow> Error + unit) \<Rightarrow> model
    \<Rightarrow> ('v, 't, 'd, 'r, 'k, 's) chunk_env \<Rightarrow> nat \<Rightarrow> ('v, 't, 'd) Clauses \<Rightarrow> 's \<Rightarrow> ((Error + unit) \<times> 's) option" where
  "chunk executable key_is_original M E chunk_size c s =
     (case try_bind (executable c) (\<lambda>_.
           try_bind (ensure_query_is_chunkable chunk_size c) (\<lambda>_.
           try_bind (chunk_primary_key_column M) (\<lambda>primary_key.
           try_bind (key_is_original primary_key c) (\<lambda>_.
           try_bind (chunk_order M primary_key c) (\<lambda>direction. Inr (primary_key, direction)))))) of
        Inl e \<Rightarrow> Some (Inl e, s)
      | Inr (primary_key, direction) \<Rightarrow>
          (let cursor_column = table_name M @ [ch_dot] @ primary_key;
               base = chunk_base M cursor_column direction c
           in chunk_loop E (\<lambda>f n. get_rows E (batch_query E base cursor_column direction f n)) chunk_size
                (joins base \<noteq> []) (limit_value c) None s))"

subsection \<open>What the database and the callback do\<close>

fun in_filter :: "('k \<Rightarrow> 'k \<Rightarrow> bool) \<Rightarrow> 'k key_filter \<Rightarrow> 'k \<Rightarrow> bool" where
  "in_filter before AllKeys k = True"
| "in_filter before (AfterKey a) k = before a k"
| "in_filter before (FromKey a) k = (a = k \<or> before a k)"
| "in_filter before (OnlyKey a) k = (k = a)"

abbreviation in_order :: "('k \<Rightarrow> 'k \<Rightarrow> bool) \<Rightarrow> ('r \<Rightarrow> 'k) \<Rightarrow> 'r list \<Rightarrow> bool" where
  "in_order before key rows \<equiv> sorted_wrt (\<lambda>a b. \<not> before (key b) (key a)) rows"

text \<open>
  The table holds still while it is read: every batch is the first rows, in key order, of the rows whose
  key the filter admits. Rows with equal keys may come in another order every time.
\<close>

definition reads_in_order ::
    "('k \<Rightarrow> 'k \<Rightarrow> bool) \<Rightarrow> ('r \<Rightarrow> 'k) \<Rightarrow> 'r list \<Rightarrow> ('k key_filter \<Rightarrow> nat \<Rightarrow> Error + 'r list) \<Rightarrow> bool" where
  "reads_in_order before key T fetch \<longleftrightarrow>
     (\<forall>f n. \<exists>rows. mset rows = filter_mset (\<lambda>r. in_filter before f (key r)) (mset T)
        \<and> in_order before key rows \<and> fetch f n = Inr (take n rows))"

fun run_callbacks :: "('r list \<Rightarrow> 's \<Rightarrow> Error + 's) \<Rightarrow> 'r list list \<Rightarrow> 's \<Rightarrow> (Error + unit) \<times> 's" where
  "run_callbacks cb [] s = (Inr (), s)"
| "run_callbacks cb (b # bs) s = (case cb b s of Inl e \<Rightarrow> (Inl e, s) | Inr s' \<Rightarrow> run_callbacks cb bs s')"

text \<open>Without a join a key is one row's; with one, a batch holds every run of rows with one key.\<close>

definition keys_fit :: "('r \<Rightarrow> 'k) \<Rightarrow> 'r list \<Rightarrow> bool \<Rightarrow> nat \<Rightarrow> bool" where
  "keys_fit key T joined chunk_size \<longleftrightarrow>
     (if joined then \<forall>r \<in> set T. length (filter (\<lambda>r'. key r' = key r) T) \<le> chunk_size else distinct (map key T))"

definition cursor_filter :: "('k \<times> bool) option \<Rightarrow> 'k key_filter" where
  "cursor_filter cursor =
     (case cursor of None \<Rightarrow> AllKeys | Some (k, inclusive) \<Rightarrow> if inclusive then FromKey k else AfterKey k)"

lemma tail_run_keys:
  "(\<And>r. kf r = Inr (key r)) \<Longrightarrow> tail_run kf k rs = Inr (length (takeWhile (\<lambda>r. key r = k) rs))"
  by (induction rs) auto

subsection \<open>Paging by an ordered key\<close>

locale key_order =
  fixes before :: "'k \<Rightarrow> 'k \<Rightarrow> bool"
  assumes irrefl: "\<not> before a a"
    and trans: "before a b \<Longrightarrow> before b c \<Longrightarrow> before a c"
    and total: "a \<noteq> b \<Longrightarrow> before a b \<or> before b a"
begin

lemma asym: "before a b \<Longrightarrow> \<not> before b a"
  using trans irrefl by blast

lemma not_before_trans: "\<not> before b a \<Longrightarrow> \<not> before c b \<Longrightarrow> \<not> before c a"
  by (metis trans total)

lemma filter_after:
  assumes "\<forall>c. f \<noteq> OnlyKey c" "in_filter before f k" "g = AfterKey k \<or> g = FromKey k" "in_filter before g x"
  shows "in_filter before f x"
  using assms trans by (cases f) auto

text \<open>A batch that hands out exactly the rows before the next filter leaves exactly those in it.\<close>

lemma filter_advance:
  assumes rows: "mset (A @ B) = filter_mset (\<lambda>r. in_filter before f (key r)) (mset T)"
    and f: "\<forall>c. f \<noteq> OnlyKey c" "in_filter before f k" and g: "g = AfterKey k \<or> g = FromKey k"
    and A: "\<forall>a \<in> set A. \<not> in_filter before g (key a)" and B: "\<forall>b \<in> set B. in_filter before g (key b)"
  shows "mset B = filter_mset (\<lambda>r. in_filter before g (key r)) (mset T)"
proof -
  have "filter_mset (\<lambda>r. in_filter before g (key r)) (mset T)
      = filter_mset (\<lambda>r. in_filter before g (key r)) (filter_mset (\<lambda>r. in_filter before f (key r)) (mset T))"
    unfolding filter_filter_mset using filter_after [OF f g] by (intro filter_mset_cong) auto
  also have "\<dots> = filter_mset (\<lambda>r. in_filter before g (key r)) (mset A) + filter_mset (\<lambda>r. in_filter before g (key r)) (mset B)"
    by (simp flip: rows)
  also have "\<dots> = mset B"
    using A B by (simp flip: mset_filter)
  finally show ?thesis by simp
qed

lemma last_is_latest:
  assumes "in_order before key batch" "batch \<noteq> []" "a \<in> set batch"
  shows "\<not> before (key (last batch)) (key a)"
proof -
  obtain bs b where "batch = bs @ [b]" using assms(2) by (metis append_butlast_last_id)
  then show ?thesis using assms by (auto simp: sorted_wrt_append irrefl)
qed

text \<open>The rows of a sorted batch before its last run of keys.\<close>

lemma run_split:
  assumes sorted: "in_order before key batch" and "batch \<noteq> []"
    and tail: "tail = length (takeWhile (\<lambda>r. key r = key (last batch)) (rev batch))"
  shows "\<forall>a \<in> set (take (length batch - tail) batch). before (key a) (key (last batch))"
    and "\<forall>b \<in> set (drop (length batch - tail) batch). key b = key (last batch)"
    and "0 < tail"
proof -
  let ?k = "key (last batch)" and ?P = "\<lambda>r. key r = key (last batch)"
  have parts: "batch = rev (dropWhile ?P (rev batch)) @ rev (takeWhile ?P (rev batch))"
    by (metis rev_append rev_rev_ident takeWhile_dropWhile_id)
  have "length batch = tail + length (dropWhile ?P (rev batch))"
    using tail by (metis length_append length_rev takeWhile_dropWhile_id)
  then have "take (length batch - tail) batch = rev (dropWhile ?P (rev batch))
      \<and> drop (length batch - tail) batch = rev (takeWhile ?P (rev batch))"
    by (subst (1 2) parts) simp
  then have take: "take (length batch - tail) batch = rev (dropWhile ?P (rev batch))"
    and drop: "drop (length batch - tail) batch = rev (takeWhile ?P (rev batch))" by auto
  show "\<forall>b \<in> set (drop (length batch - tail) batch). key b = ?k"
    unfolding drop using set_takeWhileD by fastforce
  show "0 < tail" using assms(2) tail by (cases batch rule: rev_cases) auto
  show "\<forall>a \<in> set (take (length batch - tail) batch). before (key a) ?k"
  proof (cases "dropWhile ?P (rev batch)")
    case Nil
    show ?thesis by (simp only: take Nil) simp
  next
    case (Cons d ds)
    then have "key d \<noteq> ?k" by (metis (mono_tags) hd_dropWhile list.sel(1) list.discI)
    have cut: "batch = rev ds @ [d] @ rev (takeWhile ?P (rev batch))" using parts Cons by simp
    have "\<not> before ?k (key d)" using last_is_latest [OF sorted assms(2), of d] cut by (metis in_set_conv_decomp append_Cons)
    then have d: "before (key d) ?k" using total \<open>key d \<noteq> ?k\<close> by blast
    have "\<not> before (key d) (key a)" if "a \<in> set ds" for a
      using sorted that by (subst (asm) cut) (simp add: sorted_wrt_append)
    then have "before (key a) ?k" if "a \<in> set ds" for a
      using that d total trans by metis
    then show ?thesis using d by (auto simp: take Cons)
  qed
qed

text \<open>A full batch: what is handed out, and that the next filter admits exactly the rest.\<close>

lemma full_step:
  assumes reads: "reads_in_order before key T fetch" and keys: "\<And>r. key_of E r = Inr (key r)"
    and size: "0 < chunk_size" "chunk_size < u64_max" and fit: "keys_fit key T joined chunk_size"
    and rows: "mset rows = filter_mset (\<lambda>r. in_filter before f (key r)) (mset T)"
    and sorted: "in_order before key rows" and f: "\<forall>c. f \<noteq> OnlyKey c"
    and batch: "batch = take chunk_size rows" "length batch = chunk_size"
  shows "\<exists>handed starts rest.
     (if joined then whole_runs E fetch chunk_size (key (last batch)) batch else Inr (batch, False)) = Inr (handed, starts)
     \<and> mset (handed @ rest) = mset rows \<and> in_order before key (handed @ rest)
     \<and> handed \<noteq> [] \<and> length handed \<le> chunk_size
     \<and> mset rest = filter_mset (\<lambda>r. in_filter before (cursor_filter (Some (key (last batch), starts))) (key r)) (mset T)"
proof -
  let ?k = "key (last batch)" and ?rest = "drop chunk_size rows"
  have cut: "rows = batch @ ?rest" using batch(1) by simp
  have ne: "batch \<noteq> []" using batch(2) size(1) by auto
  have batch_sorted: "in_order before key batch" using sorted by (subst (asm) cut) (simp add: sorted_wrt_append)
  have rest_after: "\<not> before (key b) ?k" if "b \<in> set ?rest" for b
    using sorted that ne by (subst (asm) cut) (simp add: sorted_wrt_append)
  have rest_from: "?k = key b \<or> before ?k (key b)" if "b \<in> set ?rest" for b
    using rest_after [OF that] total by metis
  have in_T: "set rows \<subseteq> set T" using rows by (metis mset_subset_eqD multiset_filter_subset set_mset_mset subsetI)
  have fk: "in_filter before f ?k"
    using rows ne cut by (metis (no_types, lifting) UnI1 last_in_set mem_Collect_eq set_append set_mset_filter set_mset_mset)
  note advance = filter_advance [OF _ f fk, of _ _ key T]
  show ?thesis
  proof (cases joined)
    case False
    then have "distinct (map key T)" using fit by (simp add: keys_fit_def)
    then have "distinct (map key rows)"
      using rows by (metis (no_types, lifting) distinct_map_filter mset_eq_imp_distinct_iff mset_filter mset_map)
    then have "key b \<noteq> ?k" if "b \<in> set ?rest" for b
      using that ne by (subst (asm) cut) (auto simp: image_iff dest: last_in_set)
    then have "\<forall>b \<in> set ?rest. in_filter before (AfterKey ?k) (key b)" using rest_from by fastforce
    moreover have "\<forall>a \<in> set batch. \<not> in_filter before (AfterKey ?k) (key a)"
      using last_is_latest [OF batch_sorted ne] by simp
    ultimately have "mset ?rest = filter_mset (\<lambda>r. in_filter before (AfterKey ?k) (key r)) (mset T)"
      using advance [of batch ?rest "AfterKey ?k"] rows cut by simp
    then show ?thesis
      using False sorted ne batch cut by (intro exI [of _ batch] exI [of _ False] exI [of _ ?rest])
        (simp add: cursor_filter_def)
  next
    case True
    define tail where "tail = length (takeWhile (\<lambda>r. key r = ?k) (rev batch))"
    note run = run_split [OF batch_sorted ne tail_def]
    have tail: "tail_run (key_of E) ?k (rev batch) = Inr tail"
      unfolding tail_def by (rule tail_run_keys) (rule keys)
    show ?thesis
    proof (cases "tail = length batch")
      case False
      then have short: "tail < length batch"
        unfolding tail_def by (metis length_rev length_takeWhile_le order_le_less)
      let ?A = "take (length batch - tail) batch" and ?B = "drop (length batch - tail) batch @ ?rest"
      have parts: "rows = ?A @ ?B" using cut by (metis append.assoc append_take_drop_id)
      have "\<forall>a \<in> set ?A. \<not> in_filter before (FromKey ?k) (key a)" 
        using run(1) asym irrefl in_filter.simps(3) by metis
      moreover have "\<forall>b \<in> set ?B. in_filter before (FromKey ?k) (key b)" 
        using run(2) rest_from by auto
      ultimately have "mset ?B = filter_mset (\<lambda>r. in_filter before (FromKey ?k) (key r)) (mset T)"
        using advance [of ?A ?B "FromKey ?k"] rows parts by simp
      moreover have "whole_runs E fetch chunk_size ?k batch = Inr (?A, True)"
        using tail False by (simp add: whole_runs_def)
      ultimately show ?thesis
        using True sorted parts short batch(2)
        by (intro exI [of _ ?A] exI [of _ True] exI [of _ ?B]) (auto simp: cursor_filter_def)
    next
      case all: True
      then have same: "\<forall>a \<in> set batch. key a = ?k" using run(2) by simp
      obtain group where group: "mset group = filter_mset (\<lambda>r. key r = ?k) (mset T)"
        and fetch: "fetch (OnlyKey ?k) (saturating_succ chunk_size) = Inr (take (saturating_succ chunk_size) group)"
        using reads unfolding reads_in_order_def by (elim allE [of _ "OnlyKey ?k"] allE [of _ "saturating_succ chunk_size"]) auto
      have "last batch \<in> set T" using in_T cut ne by (metis Un_iff last_in_set set_append subsetD)
      then have small: "length group \<le> chunk_size"
        using fit True arg_cong [OF group, of size] by (simp add: keys_fit_def flip: mset_filter)
      have "filter_mset (\<lambda>r. key r = ?k) (mset rows) \<subseteq># mset group"
        unfolding group rows by (rule multiset_filter_mono) simp
      moreover have parts: "filter_mset (\<lambda>r. key r = ?k) (mset rows) = mset batch + filter_mset (\<lambda>r. key r = ?k) (mset ?rest)"
        using same by (subst cut) (simp flip: mset_filter)
      ultimately have sub: "mset batch + filter_mset (\<lambda>r. key r = ?k) (mset ?rest) \<subseteq># mset group" by simp
      then obtain R where R: "mset group = mset batch + filter_mset (\<lambda>r. key r = ?k) (mset ?rest) + R"
        by (metis mset_subset_eq_exists_conv)
      have "size R + size (filter_mset (\<lambda>r. key r = ?k) (mset ?rest)) = 0"
        using small batch(2) arg_cong [OF R, of size] by simp
      then have eq: "mset group = mset batch" and "\<forall>b \<in> set ?rest. key b \<noteq> ?k"
        using R by (auto simp flip: mset_filter simp: filter_empty_conv)
      then have after: "\<forall>b \<in> set ?rest. in_filter before (AfterKey ?k) (key b)" using rest_from by fastforce
      have "\<forall>a \<in> set batch. \<not> in_filter before (AfterKey ?k) (key a)" using same irrefl by simp
      then have rest: "mset ?rest = filter_mset (\<lambda>r. in_filter before (AfterKey ?k) (key r)) (mset T)"
        using advance [of batch ?rest "AfterKey ?k"] rows cut after by simp
      have group_keys: "\<forall>a \<in> set group. key a = ?k" using eq same by (metis set_mset_mset)
      have "sorted_wrt (\<lambda>a b. \<not> before (key b) (key a)) group"
        using group_keys irrefl by (simp add: sorted_wrt_iff_nth_less)
      moreover have "in_order before key ?rest" using sorted by (subst (asm) cut) (simp add: sorted_wrt_append)
      ultimately have "in_order before key (group @ ?rest)"
        using group_keys rest_after by (simp add: sorted_wrt_append)
      moreover have "whole_runs E fetch chunk_size ?k batch = Inr (group, False)"
        using tail all fetch small size(2) by (simp add: whole_runs_def saturating_succ_def min_def)
      moreover have "mset (group @ ?rest) = mset rows" using eq cut by (metis mset_append)
      moreover have "group \<noteq> []" using eq ne by auto
      ultimately show ?thesis
        using True small rest by (intro exI [of _ group] exI [of _ False] exI [of _ ?rest]) (simp add: cursor_filter_def)
    qed
  qed
qed

lemma loop_hands_out:
  assumes reads: "reads_in_order before key T fetch" and keys: "\<And>r. key_of E r = Inr (key r)"
    and size: "0 < chunk_size" "chunk_size < u64_max" and fit: "keys_fit key T joined chunk_size"
  shows "\<exists>batches rows. (\<forall>s. chunk_loop E fetch chunk_size joined remaining cursor s = Some (run_callbacks (callback E) batches s))
     \<and> mset rows = filter_mset (\<lambda>r. in_filter before (cursor_filter cursor) (key r)) (mset T)
     \<and> in_order before key rows
     \<and> concat batches = (case remaining of None \<Rightarrow> rows | Some l \<Rightarrow> take l rows)
     \<and> (\<forall>b \<in> set batches. b \<noteq> [] \<and> length b \<le> chunk_size)"
proof (induction "size (filter_mset (\<lambda>r. in_filter before (cursor_filter cursor) (key r)) (mset T))"
    arbitrary: remaining cursor rule: less_induct)
  case less
  let ?f = "cursor_filter cursor"
  let ?n = "case remaining of None \<Rightarrow> chunk_size | Some l \<Rightarrow> min l chunk_size"
  let ?more = "case remaining of None \<Rightarrow> True | Some l \<Rightarrow> l > ?n"
  obtain rows where rows: "mset rows = filter_mset (\<lambda>r. in_filter before ?f (key r)) (mset T)"
    and sorted: "in_order before key rows" and fetch: "fetch ?f ?n = Inr (take ?n rows)"
    using reads unfolding reads_in_order_def by meson
  let ?batch = "take ?n rows"
  note loop = chunk_loop.simps [of E fetch chunk_size joined remaining cursor, folded cursor_filter_def]
  consider (over) "?n = 0 \<or> rows = []" | (last) "?n \<noteq> 0" "rows \<noteq> []" "\<not> (length ?batch = ?n \<and> ?more)"
    | (full) "?n \<noteq> 0" "rows \<noteq> []" "length ?batch = ?n" "?more" by blast
  then show ?case
  proof cases
    case over
    then have "\<forall>s. chunk_loop E fetch chunk_size joined remaining cursor s = Some (run_callbacks (callback E) [] s)"
      using loop fetch by (auto simp: Let_def)
    moreover have "(case remaining of None \<Rightarrow> rows | Some l \<Rightarrow> take l rows) = []"
      using over size(1) by (cases remaining) (simp_all add: min_def split: if_splits)
    ultimately show ?thesis using rows sorted by (intro exI [of _ "[]"] exI [of _ rows]) simp
  next
    case last
    have plan: "(if joined \<and> length ?batch = ?n \<and> ?more then whole_runs E fetch chunk_size k ?batch else Inr (?batch, False))
        = Inr (?batch, False)" for k using last by auto
    have "map_option (\<lambda>l. l - length ?batch) remaining = Some 0 \<or> length ?batch < ?n"
      using last by (auto split: option.splits if_splits simp: min_def)
    then have "\<forall>s. chunk_loop E fetch chunk_size joined remaining cursor s = Some (run_callbacks (callback E) [?batch] s)"
      using loop fetch last(1,2) plan by (auto simp: Let_def keys split: sum.split)
    moreover have "(case remaining of None \<Rightarrow> rows | Some l \<Rightarrow> take l rows) = ?batch"
      using last by (auto split: option.splits if_splits simp: min_def)
    moreover have "length ?batch \<le> chunk_size" by (auto split: option.splits)
    ultimately show ?thesis
      using rows sorted last(1,2) by (intro exI [of _ "[?batch]"] exI [of _ rows]) simp
  next
    case full
    have n: "?n = chunk_size" using full(4) by (auto split: option.splits simp: min_def)
    have f: "\<forall>c. ?f \<noteq> OnlyKey c" by (simp add: cursor_filter_def split: option.split)
    obtain handed starts rest where
      step: "(if joined then whole_runs E fetch chunk_size (key (last ?batch)) ?batch else Inr (?batch, False)) = Inr (handed, starts)"
      and perm: "mset (handed @ rest) = mset rows" and order: "in_order before key (handed @ rest)"
      and handed: "handed \<noteq> []" "length handed \<le> chunk_size"
      and rest: "mset rest = filter_mset (\<lambda>r. in_filter before (cursor_filter (Some (key (last ?batch), starts))) (key r)) (mset T)"
      using full_step [OF reads keys size fit rows sorted f, of ?batch] full(3) n by auto
    let ?rem = "map_option (\<lambda>l. l - length handed) remaining"
    have "length rest < length rows" using perm handed(1) by (metis length_append length_greater_0_conv less_add_same_cancel2 mset_eq_length)
    then have "size (filter_mset (\<lambda>r. in_filter before (cursor_filter (Some (key (last ?batch), starts))) (key r)) (mset T))
        < size (filter_mset (\<lambda>r. in_filter before ?f (key r)) (mset T))"
      by (simp flip: rest rows)
    from less [OF this, of ?rem] obtain batches rows' where
      IH: "\<forall>s. chunk_loop E fetch chunk_size joined ?rem (Some (key (last ?batch), starts)) s = Some (run_callbacks (callback E) batches s)"
      and rows': "mset rows' = mset rest" and order': "in_order before key rows'"
      and handed': "concat batches = (case ?rem of None \<Rightarrow> rows' | Some l \<Rightarrow> take l rows')"
      and small: "\<forall>b \<in> set batches. b \<noteq> [] \<and> length b \<le> chunk_size"
      unfolding rest by blast
    have go_on: "?rem \<noteq> Some 0" using full(4) handed(2) n by (auto split: option.splits)
    have plan: "(if joined \<and> length ?batch = ?n \<and> ?more then whole_runs E fetch chunk_size (key (last ?batch)) ?batch else Inr (?batch, False))
        = Inr (handed, starts)" using step full(3,4) by auto
    have "\<forall>s. chunk_loop E fetch chunk_size joined remaining cursor s = Some (run_callbacks (callback E) (handed # batches) s)"
      using loop fetch full(1,2,3) plan go_on IH by (auto simp: Let_def keys split: sum.split)
    moreover have "in_order before key (handed @ rows')"
      using order order' rows' by (auto simp: sorted_wrt_append dest: mset_eq_setD)
    moreover have "mset (handed @ rows') = filter_mset (\<lambda>r. in_filter before ?f (key r)) (mset T)"
      using perm rows' rows by simp
    moreover have "concat (handed # batches) = (case remaining of None \<Rightarrow> handed @ rows' | Some l \<Rightarrow> take l (handed @ rows'))"
      using handed' full(4) handed(2) n by (auto split: option.splits)
    ultimately show ?thesis using handed small by (intro exI [of _ "handed # batches"] exI [of _ "handed @ rows'"]) simp
  qed
qed

text \<open>The next filter always leaves a row behind, so the loop returns whether or not the keys fit.\<close>

lemma filter_shrinks:
  assumes f: "\<forall>c. f \<noteq> OnlyKey c" "in_filter before f k" and g: "g = AfterKey k \<or> g = FromKey k"
    and r: "r \<in> set T" "in_filter before f (key r)" "\<not> in_filter before g (key r)"
  shows "size (filter_mset (\<lambda>r. in_filter before g (key r)) (mset T))
       < size (filter_mset (\<lambda>r. in_filter before f (key r)) (mset T))"
proof (rule mset_subset_size)
  have "filter_mset (\<lambda>r. in_filter before g (key r)) (mset T) \<subseteq># filter_mset (\<lambda>r. in_filter before f (key r)) (mset T)"
    using filter_after [OF f g] by (intro filter_mset_mono_strong) auto
  moreover have "r \<in># filter_mset (\<lambda>r. in_filter before f (key r)) (mset T)"
    and "r \<notin># filter_mset (\<lambda>r. in_filter before g (key r)) (mset T)" using r by simp_all
  ultimately show "filter_mset (\<lambda>r. in_filter before g (key r)) (mset T) \<subset># filter_mset (\<lambda>r. in_filter before f (key r)) (mset T)"
    by (metis subset_mset.le_imp_less_or_eq)
qed

lemma loop_returns:
  assumes reads: "reads_in_order before key T fetch" and keys: "\<And>r. key_of E r = Inr (key r)"
  shows "chunk_loop E fetch chunk_size joined remaining cursor s \<noteq> None"
proof (induction "size (filter_mset (\<lambda>r. in_filter before (cursor_filter cursor) (key r)) (mset T))"
    arbitrary: remaining cursor s rule: less_induct)
  case less
  let ?f = "cursor_filter cursor"
  let ?n = "case remaining of None \<Rightarrow> chunk_size | Some l \<Rightarrow> min l chunk_size"
  obtain rows where rows: "mset rows = filter_mset (\<lambda>r. in_filter before ?f (key r)) (mset T)"
    and sorted: "in_order before key rows" and fetch: "fetch ?f ?n = Inr (take ?n rows)"
    using reads unfolding reads_in_order_def by meson
  let ?batch = "take ?n rows"
  let ?k = "key (last ?batch)"
  have f: "\<forall>c. ?f \<noteq> OnlyKey c" by (simp add: cursor_filter_def split: option.split)
  have member: "r \<in> set T \<and> in_filter before ?f (key r)" if "r \<in> set ?batch" for r
    using rows in_set_takeD [OF that] by (metis (mono_tags, lifting) filter_mset_eq_conv mset_subset_eqD multiset_filter_subset set_mset_mset)
  have batch_sorted: "in_order before key ?batch" using sorted by (metis append_take_drop_id sorted_wrt_append)
  have again: "chunk_loop E fetch chunk_size joined rem (Some (?k, starts)) s' \<noteq> None"
    if "?batch \<noteq> []" and plan: "(if full then whole_runs E fetch chunk_size ?k ?batch else Inr (?batch, False)) = Inr (handed, starts)"
    for full handed starts rem s'
  proof -
    have last: "last ?batch \<in> set T" "in_filter before ?f ?k" using member that(1) by (meson last_in_set)+
    have "\<exists>r \<in> set ?batch. \<not> in_filter before (cursor_filter (Some (?k, starts))) (key r)"
    proof (cases starts)
      case False
      then show ?thesis using that(1) irrefl by (intro bexI [of _ "last ?batch"]) (auto simp: cursor_filter_def)
    next
      case True
      define tail where "tail = length (takeWhile (\<lambda>r. key r = ?k) (rev ?batch))"
      have "tail \<noteq> length ?batch"
        using plan True tail_run_keys [of "key_of E" key ?k "rev ?batch", OF keys]
        by (auto simp: whole_runs_def tail_def try_bind_Inr_iff split: if_splits)
      then have "tail < length ?batch"
        unfolding tail_def by (metis length_rev length_takeWhile_le order_le_less)
      then have "hd ?batch \<in> set (take (length ?batch - tail) ?batch)"
        using that(1) by (cases ?batch) (auto simp: take_Cons' )
      then have "before (key (hd ?batch)) ?k" using run_split(1) [OF batch_sorted that(1) tail_def] by blast
      then show ?thesis
        using True asym irrefl hd_in_set [OF that(1)]
        by (intro bexI [of _ "hd ?batch"]) (auto simp: cursor_filter_def simp del: hd_take)
    qed
    then obtain r where r: "r \<in> set ?batch" "\<not> in_filter before (cursor_filter (Some (?k, starts))) (key r)" by blast
    have g: "cursor_filter (Some (?k, starts)) = AfterKey ?k \<or> cursor_filter (Some (?k, starts)) = FromKey ?k"
      by (simp add: cursor_filter_def)
    have "size (filter_mset (\<lambda>r. in_filter before (cursor_filter (Some (?k, starts))) (key r)) (mset T))
        < size (filter_mset (\<lambda>r. in_filter before ?f (key r)) (mset T))"
      using member [OF r(1)] r(2) by (intro filter_shrinks [where r = r and k = ?k] f last(2) g) auto
    then show ?thesis by (rule less)
  qed
  note loop = chunk_loop.simps [of E fetch chunk_size joined remaining cursor s, folded cursor_filter_def]
  show ?case
  proof (cases "?batch = []")
    case True
    then have "chunk_loop E fetch chunk_size joined remaining cursor s = Some (Inr (), s)"
      using loop fetch by (auto simp: Let_def)
    then show ?thesis by simp
  next
    case False
    then have n: "?n \<noteq> 0" by auto
    define full where "full \<longleftrightarrow> joined \<and> length ?batch = ?n \<and> (case remaining of None \<Rightarrow> True | Some l \<Rightarrow> l > ?n)"
    define plan where "plan = (if full then whole_runs E fetch chunk_size ?k ?batch else Inr (?batch, False))"
    have step: "chunk_loop E fetch chunk_size joined remaining cursor s =
        (case plan of Inl e \<Rightarrow> Some (Inl e, s)
         | Inr (handed, starts) \<Rightarrow>
             (case callback E handed s of Inl e \<Rightarrow> Some (Inl e, s)
              | Inr s' \<Rightarrow>
                  (let remaining' = map_option (\<lambda>l. l - length handed) remaining in
                   if remaining' = Some 0 then Some (Inr (), s')
                   else if length ?batch < ?n then Some (Inr (), s')
                   else chunk_loop E fetch chunk_size joined remaining' (Some (?k, starts)) s')))"
      unfolding loop Let_def [of ?n] fetch plan_def full_def using n False by (simp add: keys)
    show ?thesis
    proof (cases plan)
      case (Inr p)
      obtain handed starts where p: "p = (handed, starts)" by (cases p)
      show ?thesis
        unfolding step Inr p using again [OF False, of full handed starts] Inr p
        by (simp add: plan_def Let_def split: sum.split)
    qed (simp add: step)
  qed
qed

end

definition key_before :: "Order \<Rightarrow> 'k::linorder \<Rightarrow> 'k \<Rightarrow> bool" where
  "key_before direction a b = (case direction of Asc \<Rightarrow> a < b | Desc \<Rightarrow> b < a)"

interpretation paging: key_order "key_before direction :: 'k::linorder \<Rightarrow> 'k \<Rightarrow> bool" for direction
  by unfold_locales (auto simp: key_before_def split: Order.splits)

subsection \<open>Reading a query in batches\<close>

text \<open>The reads of the loop that a query starts, in the direction it orders its key by.\<close>

definition chunk_fetch :: "model \<Rightarrow> ('v, 't, 'd, 'r, 'k, 's) chunk_env \<Rightarrow> Order \<Rightarrow> ('v, 't, 'd) Clauses
    \<Rightarrow> 'k key_filter \<Rightarrow> nat \<Rightarrow> Error + 'r list" where
  "chunk_fetch M E direction c f n =
     (let cursor_column = table_name M @ [ch_dot] @ primary_key_name M
      in get_rows E (batch_query E (chunk_base M cursor_column direction c) cursor_column direction f n))"

lemma chunk_column_name: "chunk_primary_key_column M = Inr pk \<Longrightarrow> primary_key_name M = pk"
  by (auto simp: chunk_primary_key_column_def primary_key_name_def split: list.splits)

lemma chunk_base_joins [simp]: "joins (chunk_base M column direction c) = joins c"
  by (simp add: chunk_base_def push_order_by_def Let_def invalidate_query_def split: option.split)

lemma chunk_runs_loop:
  assumes "executable c = Inr ()" "ensure_query_is_chunkable n c = Inr ()" "chunk_primary_key_column M = Inr pk"
    "original pk c = Inr ()" "chunk_order M pk c = Inr direction"
  shows "chunk executable original M E n c s
    = chunk_loop E (chunk_fetch M E direction c) n (joins c \<noteq> []) (limit_value c) None s"
  using assms by (simp add: chunk_def chunk_fetch_def [abs_def] chunk_column_name [OF assms(3)] Let_def)

text \<open>C7. Chunked reading hands out every row of the query once, in key order and up to its limit: the
  callback gets non-empty batches of at most the chunk size, whose concatenation is the ordered rows,
  also when a join repeats keys and the database orders equal keys differently on every read. The call
  ends as the callbacks do, stopping at the first that fails.\<close>

theorem chunk_reads_every_row_once:
  fixes key :: "'r \<Rightarrow> 'k::linorder"
  assumes "executable c = Inr ()" "ensure_query_is_chunkable n c = Inr ()" "chunk_primary_key_column M = Inr pk"
    "original pk c = Inr ()" "chunk_order M pk c = Inr direction"
    and reads: "reads_in_order (key_before direction) key T (chunk_fetch M E direction c)"
    and keys: "\<And>r. key_of E r = Inr (key r)"
    and "n < u64_max" and fit: "keys_fit key T (joins c \<noteq> []) n"
  shows "\<exists>batches rows. chunk executable original M E n c s = Some (run_callbacks (callback E) batches s)
     \<and> mset rows = mset T \<and> in_order (key_before direction) key rows
     \<and> concat batches = (case limit_value c of None \<Rightarrow> rows | Some l \<Rightarrow> take l rows)
     \<and> (\<forall>b \<in> set batches. b \<noteq> [] \<and> length b \<le> n)"
proof -
  have "0 < n" using assms(2) by (cases "n = 0") (simp_all add: ensure_query_is_chunkable_def)
  from paging.loop_hands_out [OF reads keys this \<open>n < u64_max\<close> fit, of "limit_value c" None]
  show ?thesis
    unfolding chunk_runs_loop [of executable c n M pk original direction, OF assms(1-5)] by (auto simp: cursor_filter_def)
qed

text \<open>C16. Chunked reading always returns, whatever the keys, the chunk size and the callback: the loop ends
  even on a query it refuses in the middle because one key has more rows than a batch.\<close>

theorem chunk_returns:
  fixes key :: "'r \<Rightarrow> 'k::linorder"
  assumes "\<And>direction. \<exists>T. reads_in_order (key_before direction) key T (chunk_fetch M E direction c)"
    and keys: "\<And>r. key_of E r = Inr (key r)"
  shows "\<exists>result s'. chunk executable original M E n c s = Some (result, s')"
proof -
  have loop: "chunk_loop E (chunk_fetch M E direction c) n (joins c \<noteq> []) (limit_value c) None s \<noteq> None" for direction
    using paging.loop_returns [OF _ keys] assms(1) [of direction] by blast
  let ?checks = "try_bind (executable c) (\<lambda>_. try_bind (ensure_query_is_chunkable n c) (\<lambda>_.
           try_bind (chunk_primary_key_column M) (\<lambda>primary_key. try_bind (original primary_key c) (\<lambda>_.
           try_bind (chunk_order M primary_key c) (\<lambda>direction. Inr (primary_key, direction))))))"
  have "chunk executable original M E n c s \<noteq> None"
  proof (cases ?checks)
    case (Inl e)
    then show ?thesis by (simp add: chunk_def)
  next
    case (Inr p)
    then obtain pk direction where "executable c = Inr ()" "ensure_query_is_chunkable n c = Inr ()"
      "chunk_primary_key_column M = Inr pk" "original pk c = Inr ()" "chunk_order M pk c = Inr direction"
      by (auto simp: try_bind_Inr_iff)
    then show ?thesis
      using loop [of direction] by (simp add: chunk_runs_loop [of executable c n M pk original direction])
  qed
  then show ?thesis by (metis not_None_eq prod.exhaust_sel)
qed

subsection \<open>A table read in batches of two\<close>

text \<open>Five joined rows, two of which have one key, and a database that reads them in order.\<close>

definition demo_table :: "(int \<times> nat) list" where
  "demo_table = [(1, 0), (2, 0), (2, 1), (3, 0), (4, 0)]"

fun demo_condition :: "unit WhereCondition \<Rightarrow> int \<Rightarrow> bool" where
  "demo_condition w k =
     (case cond_value w of
        Single (JNumber _ (Some v)) \<Rightarrow>
          (case cond_operator w of Gt \<Rightarrow> v < k | Gte \<Rightarrow> v \<le> k | Lt \<Rightarrow> k < v | Lte \<Rightarrow> k \<le> v | _ \<Rightarrow> k = v)
      | _ \<Rightarrow> True)"

definition demo_chunk_env :: "(unit, unit, unit, int \<times> nat, int, nat list) chunk_env" where
  "demo_chunk_env =
     \<lparr>get_rows = (\<lambda>c. Inr (take (case limit_value c of Some n \<Rightarrow> n | None \<Rightarrow> 0)
        ((if map snd (order_by c) = [Desc] then rev else (\<lambda>rs. rs))
          (filter (\<lambda>r. list_all (\<lambda>w. demo_condition w (fst r)) (conditions c)) demo_table)))),
      key_of = (\<lambda>r. Inr (fst r)), key_value = (\<lambda>k. Single (JNumber None (Some k))), key_text = (\<lambda>k. []),
      callback = (\<lambda>rs s. Inr (s @ [length rs]))\<rparr>"

definition demo_joined :: "(unit, unit, unit) Clauses" where
  "demo_joined = default_clauses\<lparr>limit_value := Some 4,
     joins := [\<lparr>join_type = LeftJoin, join_table = lit ''comments'', join_alias = None, left_column = lit ''posts.id'',
       right_column = lit ''comments.post_id''\<rparr>]\<rparr>"

lemma demo_base:
  "conditions (chunk_base demo_model (table_name demo_model @ [ch_dot] @ primary_key_name demo_model) direction demo_joined) = []"
  "map snd (order_by (chunk_base demo_model (table_name demo_model @ [ch_dot] @ primary_key_name demo_model) direction demo_joined)) = [direction]"
  by (cases direction; code_simp)+

lemma demo_batch:
  assumes "conditions b = []" "map snd (order_by b) = [direction]"
  shows "get_rows demo_chunk_env (batch_query demo_chunk_env b column direction f n) =
     Inr (take n ((if direction = Desc then rev else (\<lambda>rs. rs)) (filter (\<lambda>r. in_filter (key_before direction) f (fst r)) demo_table)))"
proof -
  have "list_all (\<lambda>w. demo_condition w k) (conditions (batch_query demo_chunk_env b column direction f n))
      = in_filter (key_before direction) f k" for k
    using assms(1) by (cases direction; cases f)
      (auto simp: batch_query_def demo_chunk_env_def limit_def push_condition_def key_before_def)
  moreover have "limit_value (batch_query demo_chunk_env b column direction f n) = Some n"
    and "order_by (batch_query demo_chunk_env b column direction f n) = order_by b"
    by (simp_all add: batch_query_def limit_def push_condition_def split: option.split prod.split)
  ultimately show ?thesis using assms(2) by (simp add: demo_chunk_env_def del: demo_condition.simps)
qed

lemma demo_fetch:
  "chunk_fetch demo_model demo_chunk_env direction demo_joined f n =
     Inr (take n ((if direction = Desc then rev else (\<lambda>rs. rs)) (filter (\<lambda>r. in_filter (key_before direction) f (fst r)) demo_table)))"
  unfolding chunk_fetch_def Let_def by (rule demo_batch [OF demo_base])

lemma demo_reads: "reads_in_order (key_before direction) fst demo_table (chunk_fetch demo_model demo_chunk_env direction demo_joined)"
  unfolding reads_in_order_def demo_fetch
proof (intro allI)
  fix f n
  have "in_order (key_before Asc) fst demo_table" "in_order (key_before Desc) fst (rev demo_table)"
    by (simp_all add: demo_table_def key_before_def)
  then have "in_order (key_before direction) fst ((if direction = Desc then rev else (\<lambda>rs. rs))
      (filter (\<lambda>r. in_filter (key_before direction) f (fst r)) demo_table))"
    by (cases direction) (simp_all add: rev_filter sorted_wrt_filter)
  then show "\<exists>rows. mset rows = filter_mset (\<lambda>r. in_filter (key_before direction) f (fst r)) (mset demo_table)
      \<and> in_order (key_before direction) fst rows
      \<and> Inr (take n ((if direction = Desc then rev else (\<lambda>rs. rs)) (filter (\<lambda>r. in_filter (key_before direction) f (fst r)) demo_table)))
        = Inr (take n rows)"
    by (intro exI [of _ "(if direction = Desc then rev else (\<lambda>rs. rs)) (filter (\<lambda>r. in_filter (key_before direction) f (fst r)) demo_table)"]) auto
qed

lemma demo_checks:
  "ensure_query_is_chunkable 2 demo_joined = Inr ()" "chunk_primary_key_column demo_model = Inr (lit ''id'')"
  "chunk_order demo_model (lit ''id'') demo_joined = Inr Asc" "keys_fit fst demo_table (joins demo_joined \<noteq> []) 2"
  by (simp_all add: ensure_query_is_chunkable_def demo_joined_def default_clauses_def chunk_primary_key_column_def
      demo_model_def chunk_order_def keys_fit_def demo_table_def)

theorem chunk_reads_every_row_once_witness:
  "\<exists>batches rows. chunk (\<lambda>_. Inr ()) (\<lambda>_ _. Inr ()) demo_model demo_chunk_env 2 demo_joined []
       = Some (run_callbacks (callback demo_chunk_env) batches [])
     \<and> mset rows = mset demo_table \<and> in_order (key_before Asc) fst rows \<and> concat batches = take 4 rows
     \<and> (\<forall>b \<in> set batches. b \<noteq> [] \<and> length b \<le> 2)"
  using chunk_reads_every_row_once [where executable = "\<lambda>_. Inr ()" and original = "\<lambda>_ _. Inr ()" and s = "[]",
      OF refl demo_checks(1,2) refl demo_checks(3) demo_reads _ _ demo_checks(4)]
  by (simp add: demo_chunk_env_def demo_joined_def u64_max_def)

theorem chunk_returns_witness:
  "\<exists>result s'. chunk (\<lambda>_. Inr ()) (\<lambda>_ _. Inr ()) demo_model demo_chunk_env 1 demo_joined [] = Some (result, s')"
  by (rule chunk_returns [of fst]) (blast intro: demo_reads, simp add: demo_chunk_env_def)

end
