(* ===== verification/Query_Mutations.thy ===== *)
theory Query_Mutations
  imports Query_Builder
begin

text \<open>
  The guards in front of a bulk mutation, \<open>src/src/query/sql/execution/mutation_safety.rs\<close>, the
  blockers of \<open>src/src/query/builder.rs\<close> and the soft-delete scope of \<open>src/src/soft_delete.rs\<close>, with
  the rows a query matches.
\<close>

subsection \<open>The soft-delete scope\<close>

datatype SoftDeleteScope = Disabled | ActiveOnly | WithTrashed | OnlyTrashed

definition query_scope_for :: "model \<Rightarrow> bool \<Rightarrow> bool \<Rightarrow> SoftDeleteScope" where
  "query_scope_for M include only =
     (if \<not> soft_delete_enabled M then Disabled else if only then OnlyTrashed
      else if include then WithTrashed else ActiveOnly)"

definition live_rows_only :: "('v, 't, 'd) Clauses \<Rightarrow> ('v, 't, 'd) Clauses" where
  "live_rows_only c = c\<lparr>include_trashed := False, only_trashed := False\<rparr>"

subsection \<open>What a bulk mutation cannot keep\<close>

definition raw_projection :: "('v, 't, 'd) Clauses \<Rightarrow> ustr list" where
  "raw_projection c = filter (\<lambda>e. e \<noteq> DISTINCT_SELECT_MARKER) (raw_select_expressions c)"

definition has_explicit_projection :: "('v, 't, 'd) Clauses \<Rightarrow> bool" where
  "has_explicit_projection c \<longleftrightarrow>
     select_columns c \<noteq> None \<or> subquery_select_expressions c \<noteq> [] \<or> raw_projection c \<noteq> []"

fun first_present :: "(bool \<times> ustr) list \<Rightarrow> ustr option" where
  "first_present [] = None"
| "first_present ((present, part) # rest) = (if present then Some part else first_present rest)"

definition update_blocker :: "('v, 't, 'd) Clauses \<Rightarrow> ustr option" where
  "update_blocker c = first_present
     [(joins c \<noteq> [], lit ''a join''), (unions c \<noteq> [], lit ''a union''), (ctes c \<noteq> [], lit ''a CTE''),
      (group_by c \<noteq> [], lit ''group_by()''), (having_conditions c \<noteq> [], lit ''having()''),
      (window_functions c \<noteq> [], lit ''a window function''),
      (limit_value c \<noteq> None \<or> offset_value c \<noteq> None, lit ''limit() or offset()'')]"

definition mutation_blocker :: "('v, 't, 'd) Clauses \<Rightarrow> ustr option" where
  "mutation_blocker c =
     (case update_blocker c of
        Some part \<Rightarrow> Some part
      | None \<Rightarrow> first_present
          [(has_explicit_projection c, lit ''a select()''), (is_distinct c, lit ''distinct()''),
           (order_by c \<noteq> [], lit ''an ordering'')])"

definition ensure_mutation_query_is_safe :: "ustr \<Rightarrow> ('v, 't, 'd) Clauses \<Rightarrow> Error + unit" where
  "ensure_mutation_query_is_safe operation c =
     (case mutation_blocker c of
        Some part \<Rightarrow> Inl (query (operation @ lit '' keeps a query'' @ [ch_quote]
          @ lit ''s filters and scope only; '' @ part @ lit '' cannot be part of it''))
      | None \<Rightarrow> Inr ())"

definition ensure_key_lookup_is_unpaged :: "model \<Rightarrow> ('v, 't, 'd) Clauses \<Rightarrow> Error + unit" where
  "ensure_key_lookup_is_unpaged M c =
     (if limit_value c \<noteq> None \<or> offset_value c \<noteq> None
      then Inl (query (lit ''find() looks a '' @ table_name M
        @ lit '' row up by its key, so it takes no limit() or offset(); filter the query instead''))
      else Inr ())"

subsection \<open>Filters that can exclude a row\<close>

definition has_explicit_mutation_filters :: "(ustr \<Rightarrow> bool) \<Rightarrow> ('v, 't, 'd) Clauses \<Rightarrow> bool" where
  "has_explicit_mutation_filters is_json c \<longleftrightarrow>
     list_ex (\<lambda>w. \<not> condition_is_vacuous is_json w) (conditions c)
     \<or> list_ex (is_restrictive_with (condition_is_vacuous is_json)) (or_groups c)"

definition ensure_mutation_has_explicit_filters :: "(ustr \<Rightarrow> bool) \<Rightarrow> ustr \<Rightarrow> ('v, 't, 'd) Clauses \<Rightarrow> Error + unit" where
  "ensure_mutation_has_explicit_filters is_json operation c =
     (if has_explicit_mutation_filters is_json c then Inr ()
      else Inl (query (operation @ lit '' requires at least one explicit filter that can exclude a row; unfiltered bulk mutations are blocked'')))"

definition ensure_mutation_has_no_explicit_filters :: "(ustr \<Rightarrow> bool) \<Rightarrow> ustr \<Rightarrow> ('v, 't, 'd) Clauses \<Rightarrow> Error + unit" where
  "ensure_mutation_has_no_explicit_filters is_json operation c =
     (if has_explicit_mutation_filters is_json c
      then Inl (query (operation @ lit '' does not accept WHERE filters; use delete() when you intend to target specific rows''))
      else Inr ())"

definition ensure_trash_mutation_has_filters :: "model \<Rightarrow> (ustr \<Rightarrow> bool) \<Rightarrow> ustr \<Rightarrow> ('v, 't, 'd) Clauses \<Rightarrow> Error + unit" where
  "ensure_trash_mutation_has_filters M is_json operation c =
     (if only_trashed c then
        (if soft_delete_enabled M then Inr ()
         else Inl (query (operation @ lit '' with only_trashed() on '' @ [ch_quote] @ table_name M @ [ch_quote]
           @ lit '', which has no soft delete and so no trash'')))
      else ensure_mutation_has_explicit_filters is_json operation c)"

definition ensure_not_only_trashed :: "model \<Rightarrow> ustr \<Rightarrow> ('v, 't, 'd) Clauses \<Rightarrow> Error + unit" where
  "ensure_not_only_trashed M operation c =
     (if only_trashed c
      then Inl (query (operation @ lit ''() on only_trashed() rows of '' @ table_name M
        @ lit '' would mark rows that are already deleted; force_delete() removes them for good''))
      else Inr ())"

definition to_ascii_upper :: "uchar \<Rightarrow> uchar" where
  "to_ascii_upper ch = (if is_ascii_lowercase ch then ch - 32 else ch)"

definition is_unrestricted_where_body :: "ustr \<Rightarrow> bool" where
  "is_unrestricted_where_body where_sql =
     (let normalized = map to_ascii_upper
            (filter (\<lambda>ch. \<not> (is_whitespace ch \<or> ch = ch_lparen \<or> ch = ch_rparen)) where_sql)
      in normalized \<in> set [[], lit ''TRUE'', lit ''1'', lit ''1=1'', lit ''TRUE=TRUE''])"

definition ensure_rendered_filter_is_restrictive :: "ustr \<Rightarrow> ustr \<Rightarrow> Error + unit" where
  "ensure_rendered_filter_is_restrictive operation where_sql =
     (if is_unrestricted_where_body where_sql
      then Inl (query (operation @ lit '' rendered a WHERE clause that matches every row; unfiltered bulk mutations are blocked''))
      else Inr ())"

subsection \<open>The rows a query matches\<close>

text \<open>
  A row is the truth of each condition on it and whether it is in the trash. A query matches it when
  every condition holds, every non-empty group holds, and its scope admits it.
\<close>

definition filters_hold :: "('v WhereCondition \<Rightarrow> bool) \<Rightarrow> ('v, 't, 'd) Clauses \<Rightarrow> bool" where
  "filters_hold h c \<longleftrightarrow> list_all h (conditions c) \<and> list_all (\<lambda>g. group_is_empty g \<or> group_holds h g) (or_groups c)"

fun scope_admits :: "SoftDeleteScope \<Rightarrow> bool \<Rightarrow> bool" where
  "scope_admits Disabled trashed = True"
| "scope_admits ActiveOnly trashed = (\<not> trashed)"
| "scope_admits WithTrashed trashed = True"
| "scope_admits OnlyTrashed trashed = trashed"

definition matches_row :: "model \<Rightarrow> ('v, 't, 'd) Clauses \<Rightarrow> ('v WhereCondition \<Rightarrow> bool) \<Rightarrow> bool \<Rightarrow> bool" where
  "matches_row M c h trashed \<longleftrightarrow>
     filters_hold h c \<and> scope_admits (query_scope_for M (include_trashed c) (only_trashed c)) trashed"

lemma filters_hold_mono: "(\<And>w. h w \<Longrightarrow> h' w) \<Longrightarrow> filters_hold h c \<Longrightarrow> filters_hold h' c"
  unfolding filters_hold_def list_all_iff using group_holds_mono by blast

lemma explicit_filters_least_row:
  "has_explicit_mutation_filters is_json c \<longleftrightarrow> \<not> filters_hold (condition_is_vacuous is_json) c"
proof -
  have "is_restrictive_with vac g \<longleftrightarrow> \<not> (group_is_empty g \<or> group_holds vac g)" for vac and g :: "'a OrGroup"
    using restrictive_least_row [of g vac] empty_not_restrictive [of g vac] by blast
  then show ?thesis
    by (auto simp: has_explicit_mutation_filters_def filters_hold_def list_all_iff list_ex_iff)
qed

lemma blocker_free:
  "ensure_mutation_query_is_safe operation c = Inr () \<longleftrightarrow>
     joins c = [] \<and> unions c = [] \<and> ctes c = [] \<and> group_by c = [] \<and> having_conditions c = []
     \<and> window_functions c = [] \<and> limit_value c = None \<and> offset_value c = None
     \<and> \<not> has_explicit_projection c \<and> \<not> is_distinct c \<and> order_by c = []"
  by (auto simp: ensure_mutation_query_is_safe_def mutation_blocker_def update_blocker_def)

lemma guards_passed:
  "ensure_mutation_has_explicit_filters is_json operation c = Inr u \<longleftrightarrow> has_explicit_mutation_filters is_json c"
  "ensure_mutation_has_no_explicit_filters is_json operation c = Inr u \<longleftrightarrow> \<not> has_explicit_mutation_filters is_json c"
  "ensure_not_only_trashed M operation c = Inr u \<longleftrightarrow> \<not> only_trashed c"
  "ensure_trash_mutation_has_filters M is_json operation c = Inr u
     \<longleftrightarrow> (if only_trashed c then soft_delete_enabled M else has_explicit_mutation_filters is_json c)"
  by (simp_all add: ensure_mutation_has_explicit_filters_def ensure_mutation_has_no_explicit_filters_def
      ensure_not_only_trashed_def ensure_trash_mutation_has_filters_def)

lemma filters_hold_scope [simp]:
  "filters_hold h (live_rows_only c) = filters_hold h c"
  "filters_hold h (c\<lparr>only_trashed := a\<rparr>) = filters_hold h c"
  "filters_hold h (c\<lparr>include_trashed := b\<rparr>) = filters_hold h c"
  by (simp_all add: filters_hold_def live_rows_only_def)

subsection \<open>A filtered delete\<close>

definition demo_filter :: "unit WhereCondition" where
  "demo_filter = \<lparr>cond_column = lit ''title'', cond_operator = Eq, cond_value = Single (JString (lit ''x''))\<rparr>"

definition demo_filtered :: "(unit, unit, unit) Clauses" where
  "demo_filtered = push_condition demo_filter default_clauses"

end
