(* ===== verification/Query_Projection.thy ===== *)
theory Query_Projection
  imports Query_Mutations "HOL-Library.List_Lexorder"
begin

text \<open>
  What a query selects: the projection half of \<open>src/src/query/builder.rs\<close>, the encrypted-column lookups of
  \<open>src/src/model/mod.rs\<close> and \<open>src/src/query/advanced/aggregations_unions.rs\<close>, and the registered models of
  \<open>src/src/sync/registry.rs\<close>.

  The models compiled into the program are a list of registrations, in the order the inventory yields
  them. A \<open>BTreeSet\<close> of names is the sorted list of its members.
\<close>

record registration =
  reg_table :: ustr
  reg_schema :: "ustr option"
  reg_columns :: "ustr list"
  reg_encrypted :: "ustr \<Rightarrow> Error + EncryptedColumn option"

record ('v, 't) query_env =
  building :: "('v, 't) builder_env"
  encrypted_fields :: "ustr list"
  encrypted_column_names :: "ustr list"
  registrations :: "registration list"

abbreviation own :: "('v, 't) query_env \<Rightarrow> model" where
  "own Q \<equiv> the_model (building Q)"

definition btree_set :: "ustr list \<Rightarrow> ustr list" where
  "btree_set names = List.sort (remdups names)"

lemma set_btree_set [simp]: "set (btree_set names) = set names"
  by (simp add: btree_set_def)

subsection \<open>Registered models\<close>

definition registered_column_names :: "registration list \<Rightarrow> ustr option \<Rightarrow> ustr \<Rightarrow> ustr list" where
  "registered_column_names rs schema table =
     (case find (\<lambda>r. reg_table r = table \<and> reg_schema r = schema) rs of Some r \<Rightarrow> reg_columns r | None \<Rightarrow> [])"

fun registered_encrypted_column :: "registration list \<Rightarrow> ustr option \<Rightarrow> ustr \<Rightarrow> ustr
    \<Rightarrow> Error + EncryptedColumn option" where
  "registered_encrypted_column [] schema table column = Inr None"
| "registered_encrypted_column (r # rs) schema table column =
     (if reg_table r = table \<and> reg_schema r = schema
      then try_bind (reg_encrypted r column) (\<lambda>found.
             if found \<noteq> None then Inr found else registered_encrypted_column rs schema table column)
      else registered_encrypted_column rs schema table column)"

definition encrypted_field_columns :: "('v, 't) query_env \<Rightarrow> Error + (ustr \<times> ustr) list" where
  "encrypted_field_columns Q =
     (if length (encrypted_fields Q) \<noteq> length (encrypted_column_names Q)
      then Inl (Configuration (lit ''Model '' @ [ch_quote] @ table_name (own Q) @ [ch_quote] @ lit '' declares ''
             @ show_nat (length (encrypted_fields Q)) @ lit '' encrypted field name(s) but ''
             @ show_nat (length (encrypted_column_names Q))
             @ lit '' encrypted column name(s); encrypted_fields() and encrypted_column_names() must describe the same columns in the same order, otherwise an encrypted column can be written as plaintext''))
      else Inr (zip (encrypted_fields Q) (encrypted_column_names Q)))"

definition own_encrypted_column :: "('v, 't) query_env \<Rightarrow> ustr \<Rightarrow> Error + EncryptedColumn option" where
  "own_encrypted_column Q name =
     (let column = column_named (own Q) name in
      try_bind (encrypted_field_columns Q) (\<lambda>pairs.
        Inr (map_option (\<lambda>(field, column). \<lparr>enc_table = table_name (own Q), enc_field = field, enc_column = column\<rparr>)
          (find (\<lambda>(_, encrypted). encrypted = column) pairs))))"

definition refuse_encrypted :: "EncryptedColumn \<Rightarrow> ustr \<Rightarrow> ustr \<Rightarrow> Error" where
  "refuse_encrypted e operation reason =
     query (operation @ lit '' is not supported for encrypted column '' @ enc_table e @ [ch_dot] @ enc_column e
       @ lit '': '' @ reason)"

subsection \<open>Column references\<close>

definition order_reference :: "ustr \<Rightarrow> ustr" where
  "order_reference term =
     (case split_direction (trim term) of Some (reference, _) \<Rightarrow> reference | None \<Rightarrow> trim term)"

definition schema_and_table :: "ustr \<Rightarrow> ustr option \<times> ustr" where
  "schema_and_table reference =
     (case Errors.split_once ch_dot reference of Some (schema, table) \<Rightarrow> (Some schema, table) | None \<Rightarrow> (None, reference))"

definition alias_space :: "uchar \<Rightarrow> bool" where
  "alias_space b \<longleftrightarrow> b = 32 \<or> b = 9 \<or> b = 10 \<or> b = 13"

text \<open>
  The scan of \<open>split_alias\<close>: the quote it is inside of, the parenthesis depth, the position, and the last
  \<open> AS \<close> seen at depth zero. The source works on bytes; every byte it looks for is ASCII.
\<close>

fun alias_loop :: "uchar option \<Rightarrow> int \<Rightarrow> nat \<Rightarrow> (nat \<times> nat) option \<Rightarrow> ustr \<Rightarrow> (nat \<times> nat) option" where
  "alias_loop quote depth i last_as [] = last_as"
| "alias_loop (Some q) depth i last_as (b # bs) =
     (if b = q
      then (case bs of
              c # cs \<Rightarrow> if c = q then alias_loop (Some q) depth (i + 2) last_as cs
                        else alias_loop None depth (i + 1) last_as bs
            | [] \<Rightarrow> alias_loop None depth (i + 1) last_as bs)
      else alias_loop (Some q) depth (i + 1) last_as bs)"
| "alias_loop None depth i last_as (b # bs) =
     (if b = ch_quote \<or> b = ch_dquote \<or> b = ch_backtick then alias_loop (Some b) depth (i + 1) last_as bs
      else if b = ch_lparen then alias_loop None (depth + 1) (i + 1) last_as bs
      else if b = ch_rparen then alias_loop None (depth - 1) (i + 1) last_as bs
      else if alias_space b \<and> depth = 0 then
        (case bs of
           a # s # sp # rest \<Rightarrow>
             if (a = 97 \<or> a = 65) \<and> (s = 115 \<or> s = 83) \<and> alias_space sp
             then alias_loop None depth (i + 4) (Some (i, i + 4)) rest
             else alias_loop None depth (i + 1) last_as bs
         | _ \<Rightarrow> alias_loop None depth (i + 1) last_as bs)
      else alias_loop None depth (i + 1) last_as bs)"

definition split_alias :: "ustr \<Rightarrow> ustr \<times> ustr option" where
  "split_alias val =
     (let text = trim val in
      case alias_loop None 0 0 None text of
        None \<Rightarrow> (text, None)
      | Some (start, fin) \<Rightarrow>
          (let expression = trim (take start text); alias = trim (drop fin text)
           in if expression = [] \<or> alias = [] then (text, None) else (expression, Some alias)))"

definition simple_column_reference :: "model \<Rightarrow> ustr \<Rightarrow> (ustr \<times> ustr) option" where
  "simple_column_reference M val =
     (let text = fst (split_alias val) in
      case identifier_reference_parts text of
        Some [column] \<Rightarrow> Some ([], column)
      | Some [table, column] \<Rightarrow> Some (table, column)
      | Some [_, _, column] \<Rightarrow>
          map_option (\<lambda>(table, _). (if owns_table_reference M table then table_name M else table, column))
            (rsplit_once ch_dot text)
      | _ \<Rightarrow> None)"

definition column_source :: "model \<Rightarrow> ustr \<Rightarrow> (ustr \<times> ustr) option" where
  "column_source M reference =
     map_option (\<lambda>(table, column). (if table = [] then table_name M else table, column))
       (simple_column_reference M reference)"

subsection \<open>Result columns\<close>

definition trim_quotes :: "ustr \<Rightarrow> ustr" where
  "trim_quotes s =
     (let quoted = (\<lambda>c. c = ch_dquote \<or> c = ch_backtick) in rev (dropWhile quoted (rev (dropWhile quoted s))))"

definition named_projection_output :: "model \<Rightarrow> ustr \<Rightarrow> (ustr \<times> (ustr \<times> ustr) option) option" where
  "named_projection_output M entry =
     (let (expression, alias) = split_alias (trim entry);
          source = column_source M expression
      in case alias of
           Some a \<Rightarrow> Some (trim_quotes a, source)
         | None \<Rightarrow>
             (case source of
                None \<Rightarrow> None
              | Some (table, column) \<Rightarrow>
                  Some (if table = table_name M then column_named M column else column, source)))"

definition strip_suffix :: "ustr \<Rightarrow> ustr \<Rightarrow> ustr option" where
  "strip_suffix s p = (if ends_with s p then Some (take (length s - length p) s) else None)"

abbreviation (input) star :: ustr where "star \<equiv> [ch_star]"
abbreviation (input) dot_star :: ustr where "dot_star \<equiv> [ch_dot, ch_star]"

definition is_model_table_qualifier :: "('v, 't) query_env \<Rightarrow> ('v, 't, 'd) Clauses \<Rightarrow> ustr \<Rightarrow> bool" where
  "is_model_table_qualifier Q c qualifier \<longleftrightarrow>
     owns_table_reference (own Q) qualifier
     \<or> list_ex (\<lambda>j. join_qualifier j = qualifier
          \<and> schema_and_table (join_table j) = (schema_name (own Q), table_name (own Q))) (joins c)"

definition joined_column_names :: "('v, 't) query_env \<Rightarrow> ('v, 't, 'd) Clauses \<Rightarrow> JoinClause \<Rightarrow> ustr list" where
  "joined_column_names Q c j =
     (if is_model_table_qualifier Q c (join_qualifier j) then column_names (own Q)
      else (case schema_and_table (join_table j) of
              (schema, table) \<Rightarrow> registered_column_names (registrations Q) schema table))"

definition joined_wildcard_outputs :: "('v, 't) query_env \<Rightarrow> ('v, 't, 'd) Clauses \<Rightarrow> ustr
    \<Rightarrow> (ustr \<times> (ustr \<times> ustr) option) list" where
  "joined_wildcard_outputs Q c entry =
     (let text = trim entry;
          outputs = (\<lambda>js. concat (map (\<lambda>j. map (\<lambda>column. (column, Some (join_qualifier j, column)))
                       (joined_column_names Q c j)) js))
      in if text = star then outputs (joins c)
         else (case strip_suffix text dot_star of
                 Some qualifier \<Rightarrow> outputs (filter (\<lambda>j. qualifier = join_qualifier j) (joins c))
               | None \<Rightarrow> []))"

definition selected :: "('v, 't, 'd) Clauses \<Rightarrow> ustr list" where
  "selected c = (case select_columns c of Some columns \<Rightarrow> columns | None \<Rightarrow> [])"

definition projection_outputs :: "('v, 't) query_env \<Rightarrow> ('v, 't, 'd) Clauses
    \<Rightarrow> (ustr \<times> (ustr \<times> ustr) option) list" where
  "projection_outputs Q c =
     concat (map (\<lambda>entry. (case named_projection_output (own Q) entry of Some out \<Rightarrow> [out] | None \<Rightarrow> [])
                   @ joined_wildcard_outputs Q c entry)
              (selected c @ raw_projection c))
     @ map (\<lambda>s. (sub_alias s, sub_source s)) (subquery_select_expressions c)
     @ map (\<lambda>w. (win_alias w, Option.bind (value_column (win_function w)) (column_source (own Q)))) (window_functions c)"

definition model_projection_count :: "('v, 't) query_env \<Rightarrow> ('v, 't, 'd) Clauses \<Rightarrow> nat" where
  "model_projection_count Q c =
     (if selected c = [] \<and> raw_projection c = [] \<and> subquery_select_expressions c = [] then 1 else 0)
     + length (filter (\<lambda>entry. trim entry = star \<or> strip_suffix (trim entry) dot_star = Some (table_name (own Q)))
         (selected c @ raw_projection c))"

fun first_repeated :: "ustr list \<Rightarrow> ustr list \<Rightarrow> ustr option" where
  "first_repeated seen [] = None"
| "first_repeated seen (name # names) =
     (if name \<in> set seen then Some name else first_repeated (name # seen) names)"

definition projected_names :: "('v, 't) query_env \<Rightarrow> ('v, 't, 'd) Clauses \<Rightarrow> ustr list" where
  "projected_names Q c =
     map fst (projection_outputs Q c) @ concat (replicate (model_projection_count Q c) (column_names (own Q)))"

definition validate_projection_names :: "('v, 't) query_env \<Rightarrow> ('v, 't, 'd) Clauses \<Rightarrow> ustr + unit" where
  "validate_projection_names Q c =
     (case first_repeated [] (projected_names Q c) of
        None \<Rightarrow> Inr ()
      | Some name \<Rightarrow> Inl (lit ''the projection names the column '' @ [ch_quote] @ name @ [ch_quote]
          @ lit '' twice, and a result row keeps one value per name; alias one of them, as in `joined_table.''
          @ name @ lit '' AS joined_'' @ name @ [ch_backtick]))"

definition projection_is_closed :: "('v, 't, 'd) Clauses \<Rightarrow> bool" where
  "projection_is_closed c \<longleftrightarrow>
     has_explicit_projection c
     \<and> \<not> list_ex (\<lambda>entry. trim entry = star \<or> ends_with (trim entry) dot_star) (selected c @ raw_select_expressions c)"

definition ensure_chunk_key_is_original :: "('v, 't) query_env \<Rightarrow> ustr \<Rightarrow> ('v, 't, 'd) Clauses \<Rightarrow> Error + unit" where
  "ensure_chunk_key_is_original Q primary_key c =
     (if model_projection_count Q c > 0
         \<or> list_ex (\<lambda>(name, source). name = primary_key
              \<and> (case source of Some (table, column) \<Rightarrow>
                    table = table_name (own Q) \<and> column_named (own Q) column = primary_key | None \<Rightarrow> False))
            (projection_outputs Q c)
      then Inr ()
      else Inl (query (lit ''chunk() requires the original primary key '' @ [ch_quote] @ table_name (own Q) @ [ch_dot]
             @ primary_key @ [ch_quote] @ lit '' in its projection; use get() for a projection that replaces it'')))"

definition reads_table_wildcard :: "('v, 't, 'd) Clauses \<Rightarrow> bool" where
  "reads_table_wildcard c \<longleftrightarrow> \<not> has_explicit_projection c \<and> list_ex union_raw (unions c)"

definition derived_output_name :: "('v, 't) query_env \<Rightarrow> ('v, 't, 'd) Clauses \<Rightarrow> ustr \<Rightarrow> ustr option" where
  "derived_output_name Q c reference =
     (let column = trim reference;
          (table, name) = (case canonical_column_parts (own Q) column of
             (Some table, name) \<Rightarrow> (table, name) | (None, name) \<Rightarrow> (table_name (own Q), name));
          outputs = projection_outputs Q c;
          named = (if ch_dot \<in> set column then None else find (\<lambda>(out, _). out = column) outputs);
          read_from = find (\<lambda>(_, source). case source of
             Some (source_table, source_column) \<Rightarrow> source_table = table
               \<and> (if source_table = table_name (own Q) then column_named (own Q) source_column else source_column) = name
           | None \<Rightarrow> False) outputs
      in case named of
           Some (out, _) \<Rightarrow> Some out
         | None \<Rightarrow>
             (case read_from of
                Some (out, _) \<Rightarrow> Some out
              | None \<Rightarrow> if \<not> projection_is_closed c \<and> table = table_name (own Q) then Some name else None))"

subsection \<open>Models from a projection\<close>

text \<open>The aliases of the raw expressions; \<open>None\<close> when one of them has none.\<close>

definition raw_aliases :: "('v, 't, 'd) Clauses \<Rightarrow> ustr list option" where
  "raw_aliases c =
     (let aliases = map (\<lambda>e. snd (split_alias e)) (raw_projection c)
      in if None \<in> set aliases then None else Some (map the aliases))"

definition joined_wildcard :: "model \<Rightarrow> ('v, 't, 'd) Clauses \<Rightarrow> ustr \<Rightarrow> bool" where
  "joined_wildcard M c column \<longleftrightarrow>
     \<not> (column = table_name M @ dot_star \<or> (column = star \<and> joins c = [])) \<and> ends_with column star"

definition whole_wildcard :: "model \<Rightarrow> ('v, 't, 'd) Clauses \<Rightarrow> ustr \<Rightarrow> bool" where
  "whole_wildcard M c column \<longleftrightarrow> column = table_name M @ dot_star \<or> (column = star \<and> joins c = [])"

definition covered_column :: "model \<Rightarrow> ustr \<Rightarrow> ustr option" where
  "covered_column M entry =
     (let column = trim entry in
      case snd (split_alias column) of
        Some alias \<Rightarrow> if alias \<in> set (column_names M) then Some alias else None
      | None \<Rightarrow>
          (case rsplit_once ch_dot column of
             Some (table, name) \<Rightarrow> if owns_table_reference M table then canonical_column_name M name else None
           | None \<Rightarrow> canonical_column_name M column))"

definition covered_columns :: "model \<Rightarrow> ustr list \<Rightarrow> ('v, 't, 'd) Clauses \<Rightarrow> ustr set" where
  "covered_columns M aliases c =
     {name. Some name \<in> covered_column M ` set (selected c)}
     \<union> (set (column_names M) \<inter> (set aliases \<union> sub_alias ` set (subquery_select_expressions c)
          \<union> win_alias ` set (window_functions c)))"

definition ensure_projection_covers_model :: "('v, 't) query_env \<Rightarrow> ('v, 't, 'd) Clauses \<Rightarrow> Error + unit" where
  "ensure_projection_covers_model Q c =
     (let M = own Q; columns = map trim (selected c) in
      if selected c = [] \<and> raw_projection c = [] \<and> subquery_select_expressions c = [] then Inr ()
      else (case raw_aliases c of
         None \<Rightarrow> Inr ()
       | Some aliases \<Rightarrow>
           (case find (joined_wildcard M c) columns of
              Some column \<Rightarrow> Inl (query (lit ''select('' @ [ch_dquote] @ column @ [ch_dquote]
                @ lit '') also reads a joined table'' @ [ch_quote] @ lit ''s columns, which get() would fill '' @ [ch_quote]
                @ table_name M @ [ch_quote] @ lit '' from wherever a name repeats; select '' @ [ch_dquote]
                @ table_name M @ dot_star @ [ch_dquote] @ lit '', and read other tables'' @ [ch_quote]
                @ lit '' columns with get_json()''))
            | None \<Rightarrow>
                if list_ex (whole_wildcard M c) columns then Inr ()
                else (let missing = filter (\<lambda>column. column \<notin> covered_columns M aliases c) (column_names M)
                      in if missing = [] then Inr ()
                         else Inl (query (lit ''select() leaves out '' @ join (lit '', '') missing @ lit '' of ''
                           @ [ch_quote] @ table_name M @ [ch_quote]
                           @ lit '', which get() would fill with defaults that a later save() writes back; select every column, or read the partial rows with get_json()''))))))"

subsection \<open>Encrypted columns\<close>

definition encrypted_source_column :: "('v, 't) query_env \<Rightarrow> ('v, 't, 'd) Clauses \<Rightarrow> ustr \<Rightarrow> ustr
    \<Rightarrow> Error + EncryptedColumn option" where
  "encrypted_source_column Q c table column =
     (if is_model_table_qualifier Q c table then own_encrypted_column Q column
      else (case join_named table c of
         None \<Rightarrow> Inr None
       | Some j \<Rightarrow> (case schema_and_table (join_table j) of
            (schema, joined) \<Rightarrow> registered_encrypted_column (registrations Q) schema joined column)))"

definition projected_encrypted_column :: "('v, 't) query_env \<Rightarrow> ('v, 't, 'd) Clauses \<Rightarrow> ustr
    \<Rightarrow> (ustr \<times> ustr) option \<Rightarrow> Error + EncryptedColumn option" where
  "projected_encrypted_column Q c output source =
     (case find (\<lambda>s. sub_alias s = output \<and> sub_source s = source) (subquery_select_expressions c) of
        Some s \<Rightarrow> Inr (sub_encrypted_column s)
      | None \<Rightarrow>
          (case source of
             Some (table, column) \<Rightarrow> encrypted_source_column Q c table column
           | None \<Rightarrow> Inr None))"

definition reject_encrypted_source :: "EncryptedColumn option \<Rightarrow> ustr \<Rightarrow> Error + unit" where
  "reject_encrypted_source source operation =
     (case source of
        Some e \<Rightarrow> Inl (refuse_encrypted e operation
          (lit ''randomized ciphertext cannot compare plaintext values; read the values and                  compare them after decryption''))
      | None \<Rightarrow> Inr ())"

definition ensure_encrypted_source_is_comparable :: "('v, 't) query_env \<Rightarrow> ('v, 't, 'd) Clauses \<Rightarrow> ustr \<Rightarrow> ustr
    \<Rightarrow> ustr \<Rightarrow> Error + unit" where
  "ensure_encrypted_source_is_comparable Q c table field operation =
     try_bind (encrypted_source_column Q c table field) (\<lambda>source. reject_encrypted_source source operation)"

definition rows_fixed_by_projection :: "('v, 't, 'd) Clauses \<Rightarrow> bool" where
  "rows_fixed_by_projection c \<longleftrightarrow> is_distinct c \<or> unions c \<noteq> []"

definition aggregate_source :: "('v, 't) query_env \<Rightarrow> ('v, 't, 'd) Clauses \<Rightarrow> ustr \<Rightarrow> (ustr \<times> ustr) option" where
  "aggregate_source Q c column =
     (let from_input = (case own_column_name (own Q) column of
            Some name \<Rightarrow> Some (table_name (own Q), name)
          | None \<Rightarrow> rsplit_once ch_dot column)
      in if rows_fixed_by_projection c
         then (case derived_output_name Q c column of
                 None \<Rightarrow> None
               | Some output \<Rightarrow>
                   (case find (\<lambda>(name, _). name = output) (projection_outputs Q c) of
                      Some (_, source) \<Rightarrow> source
                    | None \<Rightarrow> from_input))
         else from_input)"

definition ensure_encrypted_column_is_comparable :: "('v, 't) query_env \<Rightarrow> ('v, 't, 'd) Clauses \<Rightarrow> ustr \<Rightarrow> ustr
    \<Rightarrow> Error + unit" where
  "ensure_encrypted_column_is_comparable Q c column operation =
     (let output = (if rows_fixed_by_projection c then derived_output_name Q c column
                    else if aggregate_source Q c column = None then Some column else None);
          from_source = (case aggregate_source Q c column of
             Some (table, field) \<Rightarrow> ensure_encrypted_source_is_comparable Q c table field operation
           | None \<Rightarrow> Inr ())
      in case output of
           None \<Rightarrow> from_source
         | Some out \<Rightarrow>
             (case find (\<lambda>(name, _). name = out) (projection_outputs Q c) of
                Some (name, source) \<Rightarrow>
                  try_bind (projected_encrypted_column Q c name source) (\<lambda>e. reject_encrypted_source e operation)
              | None \<Rightarrow> from_source))"

definition ensure_encrypted_input_is_comparable :: "('v, 't) query_env \<Rightarrow> ('v, 't, 'd) Clauses \<Rightarrow> ustr \<Rightarrow> ustr
    \<Rightarrow> Error + unit" where
  "ensure_encrypted_input_is_comparable Q c reference operation =
     (let (table, column) = (case simple_column_reference (own Q) reference of Some p \<Rightarrow> p | None \<Rightarrow> ([], reference)) in
      if table \<noteq> [] then ensure_encrypted_source_is_comparable Q c table column operation
      else (case own_column_name (own Q) column of
         Some name \<Rightarrow> ensure_encrypted_source_is_comparable Q c (table_name (own Q)) name operation
       | None \<Rightarrow>
           (let inputs = filter (\<lambda>j. column \<in> set (joined_column_names Q c j)) (joins c) in
            if inputs \<noteq> [] then
              validate_each (\<lambda>j. ensure_encrypted_source_is_comparable Q c (join_qualifier j) column operation) inputs
            else (case find (\<lambda>(name, _). name = column) (projection_outputs Q c) of
               Some (name, source) \<Rightarrow>
                 try_bind (projected_encrypted_column Q c name source) (\<lambda>e. reject_encrypted_source e operation)
             | None \<Rightarrow> Inr ()))))"

definition ensure_distinct_projection_is_comparable :: "('v, 't) query_env \<Rightarrow> ('v, 't, 'd) Clauses \<Rightarrow> Error + unit" where
  "ensure_distinct_projection_is_comparable Q c =
     try_bind (if model_projection_count Q c > 0
               then validate_each (\<lambda>column. ensure_encrypted_column_is_comparable Q c column (lit ''DISTINCT''))
                      (encrypted_column_names Q)
               else Inr ())
       (\<lambda>_. validate_each (\<lambda>(output, source).
              try_bind (projected_encrypted_column Q c output source)
                (\<lambda>e. reject_encrypted_source e (lit ''DISTINCT''))) (projection_outputs Q c))"

end
