(* ===== verification/Query_Validation.thy ===== *)
theory Query_Validation
  imports Query_Projection
begin

text \<open>
  The checks a query passes before it is rendered: the validation half of \<open>src/src/query/builder.rs\<close>, up to
  \<open>ensure_query_is_valid\<close>. The connections of embedded queries and the compatibility of column types are
  parameters.
\<close>

record ('v, 't, 'd, 'k) validation_env =
  querying :: "('v, 't) query_env"
  types_compatible :: "'t \<Rightarrow> 't \<Rightarrow> bool"
  type_debug :: "'t \<Rightarrow> ustr"
  outer_connection :: "Error + 'k"
  connection_of :: "'d \<Rightarrow> Error + 'k"

abbreviation model_of :: "('v, 't, 'd, 'k) validation_env \<Rightarrow> model" where
  "model_of V \<equiv> own (querying V)"

abbreviation scripts :: "('v, 't, 'd, 'k) validation_env \<Rightarrow> unicode" where
  "scripts V \<equiv> letters (building (querying V))"

definition as_query_error :: "ustr + unit \<Rightarrow> Error + unit" where
  "as_query_error r = (case r of Inl reason \<Rightarrow> Inl (query reason) | Inr u \<Rightarrow> Inr u)"

subsection \<open>Column references\<close>

definition known_model_column_references :: "model \<Rightarrow> ustr \<times> ustr" where
  "known_model_column_references M =
     (if btree_set (field_names M) = btree_set (column_names M)
      then (lit ''known columns'', join (lit '', '') (btree_set (column_names M)))
      else (lit ''known fields/columns'', join (lit '', '') (btree_set (field_names M @ column_names M))))"

definition known_qualifiers :: "model \<Rightarrow> ('v, 't, 'd) Clauses \<Rightarrow> ustr list" where
  "known_qualifiers M c =
     btree_set (table_name M
       # (case schema_name M of Some schema \<Rightarrow> [schema @ [ch_dot] @ table_name M] | None \<Rightarrow> [])
       @ concat (map (\<lambda>j. join_qualifier j # (if join_alias j = None then [join_table j] else [])) (joins c)))"

definition validate_model_column_reference :: "model \<Rightarrow> ustr \<Rightarrow> ustr \<Rightarrow> ustr list \<Rightarrow> ustr + unit" where
  "validate_model_column_reference M kind val qualifiers =
     (case simple_column_reference M val of
        None \<Rightarrow> Inr ()
      | Some (table, column) \<Rightarrow>
          (let reference = (if table = [] then column else table @ [ch_dot] @ column) in
           try_bind (validate_identifier_reference kind reference) (\<lambda>_.
             if table = [] \<or> owns_table_reference M table then
               (if canonical_column_name M column \<noteq> None then Inr ()
                else (case known_model_column_references M of
                   (known_label, known_names) \<Rightarrow>
                     Inl (lit ''unknown '' @ kind @ [ch_space, ch_quote] @ reference @ [ch_quote] @ lit '' for model ''
                       @ [ch_quote] @ table_name M @ [ch_quote] @ lit ''; '' @ known_label @ lit '': '' @ known_names)))
             else if table \<in> set qualifiers then Inr ()
             else Inl (lit ''unknown '' @ kind @ lit '' qualifier '' @ [ch_quote] @ table @ [ch_quote] @ lit '' in ''
               @ [ch_quote] @ reference @ [ch_quote] @ lit '' for model '' @ [ch_quote] @ table_name M @ [ch_quote]
               @ lit ''; known table/alias qualifiers: '' @ join (lit '', '') qualifiers))))"

definition validate_order_or_group_value :: "unicode \<Rightarrow> model \<Rightarrow> ustr \<Rightarrow> ustr \<Rightarrow> bool \<Rightarrow> ustr list \<Rightarrow> ustr + unit" where
  "validate_order_or_group_value U M kind val allow_raw_and_direction qualifiers =
     (case (if allow_raw_and_direction then raw_order_by_expression val else None) of
        Some expression \<Rightarrow> validate_raw_sql_fragment U kind expression
      | None \<Rightarrow>
          (let trimmed = trim val;
               (reference, direction_is_valid) =
                 (case split_direction trimmed of
                    Some (reference, _) \<Rightarrow> (reference, allow_raw_and_direction)
                  | None \<Rightarrow> (trimmed, True))
           in if \<not> direction_is_valid \<or> simple_column_reference M reference = None
              then Inl (lit ''unsafe '' @ kind @ [ch_space, ch_quote] @ trimmed @ [ch_quote] @ lit '': ''
                @ (if allow_raw_and_direction
                   then lit ''expected a column or table.column reference, optionally followed by ASC or DESC; use order_by_raw() for trusted SQL expressions and never pass user input to it''
                   else lit ''expected a column or table.column reference; SQL expressions are not accepted here''))
              else validate_model_column_reference M kind reference qualifiers))"

definition validate_select_value :: "model \<Rightarrow> ustr \<Rightarrow> ustr list \<Rightarrow> ustr + unit" where
  "validate_select_value M val qualifiers =
     (let trimmed = trim val; (expression, alias) = split_alias trimmed;
          column = (if validate_identifier_reference (lit ''SELECT column'') expression \<noteq> Inr ()
             then Inl (lit ''unsafe SELECT column '' @ [ch_quote] @ trimmed @ [ch_quote]
               @ lit '': select() takes a column, table.column or `column AS alias`; use select_raw() for trusted SQL expressions and never pass user input to it'')
             else try_bind (validate_model_column_reference M (lit ''SELECT column'') expression qualifiers) (\<lambda>_.
                    case alias of Some a \<Rightarrow> validate_identifier (lit ''SELECT alias'') a | None \<Rightarrow> Inr ()))
      in if alias \<noteq> None then column
         else if expression = star then Inr ()
         else (case strip_suffix expression dot_star of
                 Some qualifier \<Rightarrow> validate_identifier (lit ''SELECT wildcard qualifier'') qualifier
               | None \<Rightarrow> column))"

definition validate_condition :: "unicode \<Rightarrow> model \<Rightarrow> 'v WhereCondition \<Rightarrow> ustr list \<Rightarrow> ustr + unit" where
  "validate_condition U M w qualifiers =
     try_bind (case (cond_operator w, cond_value w) of
         (Raw, RawExpr raw_sql) \<Rightarrow>
           validate_raw_sql_fragment U
             (if cond_column w = [] then lit ''WHERE raw SQL'' else lit ''WHERE raw column expression'') raw_sql
       | (Raw, RawTemplate sql values) \<Rightarrow>
           try_bind (validate_raw_sql_fragment U (lit ''WHERE raw SQL'') sql) (\<lambda>_.
             let n = count_template_placeholders U sql in
             if n = length values then Inr ()
             else Inl (lit ''WHERE raw SQL '' @ [ch_quote] @ sql @ [ch_quote] @ lit '' has '' @ show_nat n
               @ lit '' placeholders for '' @ show_nat (length values) @ lit '' values''))
       | _ \<Rightarrow> Inr ()) (\<lambda>_.
     try_bind (if cond_column w = [] then Inr ()
         else if validate_identifier_reference (lit ''WHERE column'') (cond_column w) \<noteq> Inr ()
         then Inl (lit ''unsafe WHERE column '' @ [ch_quote] @ cond_column w @ [ch_quote]
           @ lit '': expected a column or table.column reference; use where_raw() for trusted SQL expressions and never pass user input to it'')
         else validate_model_column_reference M (lit ''WHERE column'') (cond_column w) qualifiers) (\<lambda>_.
     case cond_value w of
       OtherColumn other \<Rightarrow>
         if validate_identifier_reference (lit ''WHERE column'') other \<noteq> Inr ()
         then Inl (lit ''unsafe WHERE comparison column '' @ [ch_quote] @ other @ [ch_quote]
           @ lit '': expected a column or table.column reference'')
         else validate_model_column_reference M (lit ''WHERE column'') other qualifiers
     | _ \<Rightarrow> Inr ()))"

definition validate_window_function :: "unicode \<Rightarrow> model \<Rightarrow> WindowFunction \<Rightarrow> ustr list \<Rightarrow> ustr + unit" where
  "validate_window_function U M w qualifiers =
     try_bind (validate_identifier (lit ''window alias'') (win_alias w)) (\<lambda>_.
     try_bind (validate_each (\<lambda>column. validate_model_column_reference M (lit ''window PARTITION BY column'') column qualifiers)
       (win_partition_by w)) (\<lambda>_.
     try_bind (validate_each (\<lambda>(column, _). validate_model_column_reference M (lit ''window ORDER BY column'') column qualifiers)
       (win_order_by w)) (\<lambda>_.
     try_bind (case window_column (win_function w) of
         Some column \<Rightarrow> validate_model_column_reference M (lit ''window function column'') column qualifiers
       | None \<Rightarrow> Inr ()) (\<lambda>_.
     case win_function w of
       Lag _ _ (Some d) \<Rightarrow> validate_raw_sql_fragment U (lit ''LAG/LEAD default expression'') d
     | Lead _ _ (Some d) \<Rightarrow> validate_raw_sql_fragment U (lit ''LAG/LEAD default expression'') d
     | CustomWindow expression \<Rightarrow> validate_raw_sql_fragment U (lit ''window function expression'') expression
     | _ \<Rightarrow> Inr ()))))"

subsection \<open>Distinct rows and compound selects\<close>

definition normalized_column_reference :: "model \<Rightarrow> ustr \<Rightarrow> ustr \<Rightarrow> ustr" where
  "normalized_column_reference M qualifier column =
     (let q = (if qualifier = [] then table_name M else qualifier)
      in q @ [ch_dot] @ (if q = table_name M then column_named M column else column))"

fun distinct_references :: "model \<Rightarrow> ustr list \<Rightarrow> ustr list option" where
  "distinct_references M [] = Some []"
| "distinct_references M (column # columns) =
     (case split_alias column of
        (expression, alias) \<Rightarrow>
          (case simple_column_reference M expression of
             None \<Rightarrow> None
           | Some (qualifier, name) \<Rightarrow>
               map_option (\<lambda>rest. (case alias of Some a \<Rightarrow> [a] | None \<Rightarrow> [])
                   @ normalized_column_reference M qualifier name # rest)
                 (distinct_references M columns)))"

definition distinct_projection_references :: "model \<Rightarrow> ('v, 't, 'd) Clauses \<Rightarrow> ustr list option" where
  "distinct_projection_references M c =
     (if raw_projection c \<noteq> [] \<or> subquery_select_expressions c \<noteq> [] then None
      else if selected c = [] then Some (map (\<lambda>column. table_name M @ [ch_dot] @ column) (column_names M))
      else distinct_references M (selected c))"

definition validate_distinct_order_by :: "model \<Rightarrow> ('v, 't, 'd) Clauses \<Rightarrow> ustr + unit" where
  "validate_distinct_order_by M c =
     (case distinct_projection_references M c of
        None \<Rightarrow> Inr ()
      | Some projection \<Rightarrow>
          validate_each (\<lambda>(column, _).
            if raw_order_by_expression column \<noteq> None then Inr ()
            else (case simple_column_reference M (order_reference column) of
                None \<Rightarrow> Inr ()
              | Some (qualifier, name) \<Rightarrow>
                  if normalized_column_reference M qualifier name \<in> set projection \<or> name \<in> set projection then Inr ()
                  else Inl (lit ''ORDER BY '' @ [ch_quote] @ trim column @ [ch_quote]
                    @ lit '' is not part of the distinct() projection of model '' @ [ch_quote] @ table_name M @ [ch_quote]
                    @ lit ''; a SELECT DISTINCT can only be ordered by expressions it selects, so add the column to select() or drop distinct()'')))
            (order_by c))"

definition projected_column_type :: "('v, 't) query_env \<Rightarrow> ('v, 't, 'd) Clauses \<Rightarrow> ustr \<Rightarrow> 't option" where
  "projected_column_type Q c output =
     (case find (\<lambda>s. sub_alias s = output) (subquery_select_expressions c) of
        Some s \<Rightarrow> sub_column_type s
      | None \<Rightarrow>
          (case find (\<lambda>(name, _). name = output) (projection_outputs Q c) of
             Some (_, Some (table, column)) \<Rightarrow> column_type (building Q) c (table @ [ch_dot] @ column)
           | _ \<Rightarrow> None))"

text \<open>One position of a compound select: its type and its encryption, and whether the position is known.\<close>

type_synonym 't position = "'t option \<times> EncryptedColumn option \<times> bool"

definition entry_position :: "('v, 't) query_env \<Rightarrow> ('v, 't, 'd) Clauses \<Rightarrow> ustr \<Rightarrow> Error + 't position" where
  "entry_position Q c entry =
     (case named_projection_output (own Q) entry of
        Some (name, Some (table, column)) \<Rightarrow>
          if is_safe_identifier_segment table \<and> is_safe_identifier_segment column
          then try_bind (projected_encrypted_column Q c name (Some (table, column))) (\<lambda>e.
                 Inr (column_type (building Q) c (table @ [ch_dot] @ column), e, True))
          else Inr (None, None, False)
      | _ \<Rightarrow> Inr (None, None, False))"

fun collect_each :: "('a \<Rightarrow> 'e + 'b) \<Rightarrow> 'a list \<Rightarrow> 'e + 'b list" where
  "collect_each f [] = Inr []"
| "collect_each f (x # xs) = try_bind (f x) (\<lambda>y. try_bind (collect_each f xs) (\<lambda>ys. Inr (y # ys)))"

definition compound_positions :: "('v, 't) query_env \<Rightarrow> ('v, 't, 'd) Clauses \<Rightarrow> Error + 't position list" where
  "compound_positions Q c =
     (let entries = selected c @ raw_projection c in
      try_bind (if entries = [] \<and> subquery_select_expressions c = []
                then collect_each (\<lambda>column. try_bind (own_encrypted_column Q column) (\<lambda>e.
                       Inr (own_type (building Q) column, e, True))) (column_names (own Q))
                else Inr []) (\<lambda>whole.
      try_bind (collect_each (entry_position Q c) entries) (\<lambda>named.
      try_bind (collect_each (\<lambda>w.
                  try_bind (projected_encrypted_column Q c (win_alias w)
                      (Option.bind (map_option snd (find (\<lambda>(name, _). name = win_alias w) (projection_outputs Q c))) (\<lambda>s. s)))
                    (\<lambda>e. Inr (projected_column_type Q c (win_alias w), e, True))) (window_functions c)) (\<lambda>windows.
      Inr (whole @ named @ map (\<lambda>s. (sub_column_type s, sub_encrypted_column s, True)) (subquery_select_expressions c)
           @ windows)))))"

definition compound_projection :: "('v, 't) query_env \<Rightarrow> ('v, 't, 'd) Clauses \<Rightarrow> Error + 't UnionProjection" where
  "compound_projection Q c =
     try_bind (compound_positions Q c) (\<lambda>positions.
     try_bind (if model_projection_count Q c > 0
               then try_bind (encrypted_field_columns Q) (\<lambda>pairs. Inr (pairs \<noteq> [])) else Inr False) (\<lambda>own_encrypted.
     try_bind (collect_each (\<lambda>(name, source). projected_encrypted_column Q c name source) (projection_outputs Q c)) (\<lambda>outs.
       Inr \<lparr>proj_columns = map (\<lambda>(_, e, _). e) positions, proj_types = map fst positions,
            proj_complete = list_all (\<lambda>(_, _, known). known) positions,
            proj_has_encrypted = list_ex (\<lambda>(_, e, _). e \<noteq> None) positions \<or> own_encrypted \<or> list_ex (\<lambda>e. e \<noteq> None) outs\<rparr>)))"

definition encryption_scope :: "EncryptedColumn option \<Rightarrow> (ustr \<times> ustr) option" where
  "encryption_scope e = map_option (\<lambda>e. (enc_table e, enc_column e)) e"

definition same_encryption :: "'t UnionProjection \<Rightarrow> 't UnionProjection \<Rightarrow> bool" where
  "same_encryption left right \<longleftrightarrow>
     proj_complete left \<and> proj_complete right
     \<and> map encryption_scope (proj_columns left) = map encryption_scope (proj_columns right)"

fun first_incompatible :: "('t \<Rightarrow> 't \<Rightarrow> bool) \<Rightarrow> nat \<Rightarrow> ('t option \<times> 't option) list \<Rightarrow> (nat \<times> 't \<times> 't) option" where
  "first_incompatible same i [] = None"
| "first_incompatible same i ((a, b) # ps) =
     (case (a, b) of
        (Some x, Some y) \<Rightarrow> if same x y then first_incompatible same (Suc i) ps else Some (i, x, y)
      | _ \<Rightarrow> first_incompatible same (Suc i) ps)"

definition check_union_arm :: "('v, 't, 'd, 'k) validation_env \<Rightarrow> 't UnionProjection \<Rightarrow> ('v, 't) UnionClause \<Rightarrow> Error + unit" where
  "check_union_arm V left u =
     (let right = union_projection u;
          encrypted = (proj_has_encrypted left \<or> (case right of Some r \<Rightarrow> proj_has_encrypted r | None \<Rightarrow> False))
      in if encrypted \<and> union_type u = UnionDistinct
         then Inl (query (lit ''UNION is not supported for encrypted projections: randomized ciphertext cannot deduplicate plaintext values; use compatible UNION ALL projections and compare after decryption''))
         else if encrypted \<and> \<not> (case right of Some r \<Rightarrow> same_encryption left r | None \<Rightarrow> False)
         then Inl (query (lit ''UNION ALL encrypted projections require the same encryption table and column at each output position; select explicit columns with matching scopes, or read incompatible queries separately''))
         else (case right of
             None \<Rightarrow> Inr ()
           | Some r \<Rightarrow>
               if proj_complete left \<and> proj_complete r \<and> length (proj_types left) = length (proj_types r)
               then (case first_incompatible (types_compatible V) 0 (zip (proj_types left) (proj_types r)) of
                   None \<Rightarrow> Inr ()
                 | Some (index, a, b) \<Rightarrow>
                     Inl (query (lit ''UNION output position '' @ show_nat (index + 1) @ lit '' has incompatible column types ''
                       @ type_debug V a @ lit '' and '' @ type_debug V b
                       @ lit ''; select matching types or read the queries separately'')))
               else Inr ()))"

definition ensure_union_projections_are_valid :: "('v, 't, 'd, 'k) validation_env \<Rightarrow> ('v, 't, 'd) Clauses \<Rightarrow> Error + unit" where
  "ensure_union_projections_are_valid V c =
     (if unions c = [] then Inr ()
      else if reads_table_wildcard c \<and> list_ex (\<lambda>u. \<not> union_raw u) (unions c)
      then Inl (query (lit ''a query of '' @ [ch_quote] @ table_name (model_of V) @ [ch_quote]
        @ lit '' with a raw union arm reads its rows as '' @ table_name (model_of V)
        @ lit ''.*, in the table'' @ [ch_quote] @ lit ''s column order, which a typed arm does not follow; use raw arms only, typed arms only, or select() explicit columns in every arm''))
      else try_bind (compound_projection (querying V) c) (\<lambda>left. validate_each (check_union_arm V left) (unions c)))"

subsection \<open>The whole query\<close>

definition ensure_operands_share_connection :: "('v, 't, 'd, 'k) validation_env \<Rightarrow> ('v, 't, 'd) Clauses \<Rightarrow> Error + unit" where
  "ensure_operands_share_connection V c =
     (if operand_databases c = [] then Inr ()
      else try_bind (outer_connection V) (\<lambda>outer.
        validate_each (\<lambda>d. try_bind (connection_of V d) (\<lambda>k.
          if k = outer then Inr ()
          else Inl (query (lit ''query operand is bound to a different database or transaction''))))
          (operand_databases c)))"

definition check_order_term :: "('v, 't, 'd, 'k) validation_env \<Rightarrow> ('v, 't, 'd) Clauses \<Rightarrow> ustr \<times> Order \<Rightarrow> Error + unit" where
  "check_order_term V c entry =
     (case entry of (column, _) \<Rightarrow>
        try_bind (if raw_order_by_expression column = None
                  then ensure_encrypted_input_is_comparable (querying V) c (order_reference column) (lit ''ORDER BY'')
                  else Inr ()) (\<lambda>_.
        as_query_error (validate_order_or_group_value (scripts V) (model_of V) (lit ''ORDER BY column'') column True
          (known_qualifiers (model_of V) c))))"

definition check_group_term :: "('v, 't, 'd, 'k) validation_env \<Rightarrow> ('v, 't, 'd) Clauses \<Rightarrow> ustr \<Rightarrow> Error + unit" where
  "check_group_term V c column =
     try_bind (ensure_encrypted_input_is_comparable (querying V) c column (lit ''GROUP BY'')) (\<lambda>_.
     as_query_error (validate_order_or_group_value (scripts V) (model_of V) (lit ''GROUP BY column'') column False
       (known_qualifiers (model_of V) c)))"

definition check_having_clause :: "unicode \<Rightarrow> ustr \<times> 'v list \<Rightarrow> Error + unit" where
  "check_having_clause U entry =
     (case entry of (template, bindings) \<Rightarrow>
        try_bind (as_query_error (validate_having_sql_fragment U (lit ''HAVING raw SQL'') template)) (\<lambda>_.
        let n = count_template_placeholders U template in
        if n = length bindings then Inr ()
        else Inl (query (lit ''HAVING clause '' @ [ch_quote] @ template @ [ch_quote] @ lit '' has '' @ show_nat n
          @ lit '' placeholder(s) but '' @ show_nat (length bindings) @ lit '' bound value(s)''))))"

definition window_comparable :: "('v, 't, 'd, 'k) validation_env \<Rightarrow> ('v, 't, 'd) Clauses \<Rightarrow> ustr \<Rightarrow> ustr \<Rightarrow> Error + unit" where
  "window_comparable V c operation column =
     (case column_source (model_of V) column of
        Some (table, field) \<Rightarrow> ensure_encrypted_source_is_comparable (querying V) c table field operation
      | None \<Rightarrow> Inr ())"

definition check_window :: "('v, 't, 'd, 'k) validation_env \<Rightarrow> ('v, 't, 'd) Clauses \<Rightarrow> WindowFunction \<Rightarrow> Error + unit" where
  "check_window V c w =
     try_bind (as_query_error (validate_window_function (scripts V) (model_of V) w (known_qualifiers (model_of V) c))) (\<lambda>_.
     try_bind (case win_function w of
         WindowMin column \<Rightarrow> window_comparable V c (lit ''window MIN/MAX'') column
       | WindowMax column \<Rightarrow> window_comparable V c (lit ''window MIN/MAX'') column
       | WindowSum column \<Rightarrow> window_comparable V c (lit ''window SUM/AVG'') column
       | WindowAvg column \<Rightarrow> window_comparable V c (lit ''window SUM/AVG'') column
       | _ \<Rightarrow> Inr ()) (\<lambda>_.
     try_bind (validate_each (window_comparable V c (lit ''window PARTITION BY'')) (win_partition_by w)) (\<lambda>_.
     validate_each (\<lambda>(column, _). window_comparable V c (lit ''window ORDER BY'') column) (win_order_by w))))"

definition validate_query_fragments :: "('v, 't, 'd, 'k) validation_env \<Rightarrow> ('v, 't, 'd) Clauses \<Rightarrow> Error + unit" where
  "validate_query_fragments V c =
     (let Q = querying V; U = scripts V; M = model_of V; qualifiers = known_qualifiers M c in
      try_bind (ensure_operands_share_connection V c) (\<lambda>_.
      try_bind (validate_each (\<lambda>w. as_query_error (validate_condition U M w qualifiers)) (all_conditions c)) (\<lambda>_.
      try_bind (validate_each (check_order_term V c) (order_by c)) (\<lambda>_.
      try_bind (validate_each (check_group_term V c) (group_by c)) (\<lambda>_.
      try_bind (validate_each (\<lambda>(column, operation). ensure_encrypted_input_is_comparable Q c column operation)
        (having_comparisons c)) (\<lambda>_.
      try_bind (validate_each (check_having_clause U) (having_clauses (building Q) c)) (\<lambda>_.
      try_bind (validate_each (\<lambda>column. as_query_error (validate_select_value M column qualifiers)) (selected c)) (\<lambda>_.
      try_bind (as_query_error (validate_projection_names Q c)) (\<lambda>_.
      try_bind (if is_distinct c
                then try_bind (ensure_distinct_projection_is_comparable Q c)
                       (\<lambda>_. as_query_error (validate_distinct_order_by M c))
                else Inr ()) (\<lambda>_.
      try_bind (validate_each (\<lambda>u. as_query_error (validate_union_clause U u)) (unions c)) (\<lambda>_.
      try_bind (ensure_union_projections_are_valid V c) (\<lambda>_.
      try_bind (validate_each (check_window V c) (window_functions c)) (\<lambda>_.
      validate_each (\<lambda>cte. as_query_error (validate_cte_clause U cte)) (ctes c))))))))))))))"

definition ensure_query_is_valid :: "('v, 't, 'd, 'k) validation_env \<Rightarrow> ('v, 't, 'd) Clauses \<Rightarrow> Error + unit" where
  "ensure_query_is_valid V c =
     (case invalid_query_reason c of
        Some reason \<Rightarrow> Inl (query reason)
      | None \<Rightarrow>
          (case invalid_page c of
             Some (field, message) \<Rightarrow> Inl (Validation field message)
           | None \<Rightarrow> validate_query_fragments V c))"

subsection \<open>What the column slots of an accepted query hold\<close>

text \<open>
  A reference the validator admits: a column of the model, bare or behind the model's own table, or a
  plain column name behind a qualifier of the query.
\<close>

definition allowed_reference :: "model \<Rightarrow> ustr list \<Rightarrow> ustr \<Rightarrow> bool" where
  "allowed_reference M qualifiers r \<longleftrightarrow>
     (case rsplit_once ch_dot r of
        None \<Rightarrow> is_safe_identifier_segment r \<and> canonical_column_name M r \<noteq> None
      | Some (table, column) \<Rightarrow>
          is_safe_identifier_segment column
          \<and> (if owns_table_reference M table then canonical_column_name M column \<noteq> None
             else table \<in> set qualifiers \<and> list_all is_safe_identifier_segment (split_on ch_dot table)))"

lemma as_query_error_ok [simp]: "as_query_error r = Inr () \<longleftrightarrow> r = Inr ()"
  by (simp add: as_query_error_def split: sum.split)

lemma reference_ok:
  "validate_identifier_reference kind v = Inr ()
     \<longleftrightarrow> length (split_on ch_dot v) \<le> 3 \<and> list_all is_safe_identifier_segment (split_on ch_dot v)"
  by (auto simp: validate_identifier_reference_def Let_def list_all_iff is_safe_identifier_segment_def split: list.splits)

lemma trim_idem [simp]: "trim (trim s) = trim s"
proof -
  define t u where "t = dropWhile is_whitespace s" and "u = rev (dropWhile is_whitespace (rev t))"
  have "t = u @ rev (takeWhile is_whitespace (rev t))"
    unfolding u_def by (metis rev_append rev_rev_ident takeWhile_dropWhile_id)
  then have "u \<noteq> [] \<Longrightarrow> hd u = hd t \<and> t \<noteq> []" by (metis hd_append2 append_is_Nil_conv)
  then have "u \<noteq> [] \<Longrightarrow> \<not> is_whitespace (hd u)" unfolding t_def by (metis hd_dropWhile)
  then have "dropWhile is_whitespace u = u" by (cases u) auto
  moreover have "trim s = u" by (simp add: trim_def trim_start_def u_def t_def)
  moreover have "dropWhile is_whitespace (rev u) = rev u" by (simp add: u_def dropWhile_idem)
  ultimately show ?thesis by (simp add: trim_def trim_start_def)
qed

lemma split_alias_trim [simp]: "split_alias (trim v) = split_alias v"
  by (simp add: split_alias_def)

lemma split_alias_none: "snd (split_alias v) = None \<Longrightarrow> fst (split_alias v) = trim v"
  by (auto simp: split_alias_def Let_def split: option.splits prod.splits if_splits)

lemma dotted_parts:
  "split_on d r = [c] \<Longrightarrow> r = c \<and> rsplit_once d r = None"
  "split_on d r = [t, c] \<Longrightarrow> r = t @ d # c \<and> rsplit_once d r = Some (t, c) \<and> d \<notin> set t \<and> d \<notin> set c"
  "split_on d r = [s, t, c] \<Longrightarrow> r = s @ d # t @ d # c \<and> rsplit_once d r = Some (s @ d # t, c)
     \<and> d \<notin> set s \<and> d \<notin> set t \<and> d \<notin> set c"
proof -
  assume r: "split_on d r = [c]"
  then show "r = c \<and> rsplit_once d r = None"
    using join_split_on [of d r] split_on_no_sep [of c d r] by (simp add: rsplit_once_none)
next
  assume r: "split_on d r = [t, c]"
  then show "r = t @ d # c \<and> rsplit_once d r = Some (t, c) \<and> d \<notin> set t \<and> d \<notin> set c"
    using join_split_on [of d r] split_on_no_sep [of _ d r] by (simp add: rsplit_once_Some)
next
  assume r: "split_on d r = [s, t, c]"
  then show "r = s @ d # t @ d # c \<and> rsplit_once d r = Some (s @ d # t, c)
     \<and> d \<notin> set s \<and> d \<notin> set t \<and> d \<notin> set c"
    using join_split_on [of d r] split_on_no_sep [of _ d r] by (simp add: rsplit_once_Some)
qed

lemma split_once_absent: "d \<notin> set s \<Longrightarrow> Errors.split_once d s = None"
  by (induction s) auto

lemma reference_parts_split:
  "identifier_reference_parts r = Some parts \<Longrightarrow> split_on ch_dot (trim r) = parts \<and> [] \<notin> set parts"
  by (auto simp: identifier_reference_parts_def Let_def list_ex_iff split: if_splits)

lemma allowed_by_validation:
  assumes ok: "validate_model_column_reference M kind v qualifiers = Inr ()"
    and "snd (split_alias v) = None" and ref: "simple_column_reference M v \<noteq> None"
    and M: "ch_dot \<notin> set (table_name M)" "table_name M \<noteq> []"
  shows "allowed_reference M qualifiers (trim v)"
proof -
  define r where "r = trim v"
  have r: "fst (split_alias v) = r" "trim r = r" using split_alias_none [OF assms(2)] by (simp_all add: r_def)
  obtain table column where tc: "simple_column_reference M v = Some (table, column)" using ref by auto
  obtain parts where parts: "identifier_reference_parts r = Some parts"
    using tc r by (auto simp: simple_column_reference_def Let_def split: option.splits)
  have split: "split_on ch_dot r = parts" "[] \<notin> set parts" using reference_parts_split [OF parts] r(2) by simp_all
  consider (one) c where "parts = [c]" | (two) t c where "parts = [t, c]" | (three) s t c where "parts = [s, t, c]"
    using tc parts r by (auto simp: simple_column_reference_def Let_def split: list.splits)
  then have "allowed_reference M qualifiers r"
  proof cases
    case one
    then have "table = []" "column = r" using tc parts r dotted_parts(1) [of ch_dot r] split
      by (auto simp: simple_column_reference_def Let_def)
    then show ?thesis
      using ok tc dotted_parts(1) [of ch_dot r] split one
      by (auto simp: validate_model_column_reference_def allowed_reference_def Let_def try_bind_Inr_iff reference_ok
          split: if_splits prod.splits)
  next
    case two
    note d = dotted_parts(2) [OF split(1) [unfolded two]]
    have "table = t" "column = c" using tc parts r two by (auto simp: simple_column_reference_def Let_def)
    then show ?thesis
      using ok tc d split two
      by (auto simp: validate_model_column_reference_def allowed_reference_def Let_def try_bind_Inr_iff reference_ok
          split_on_none split_on_append is_safe_identifier_segment_def split: if_splits prod.splits)
  next
    case three
    note d = dotted_parts(3) [OF split(1) [unfolded three]]
    have tab: "table = (if owns_table_reference M (s @ ch_dot # t) then table_name M else s @ ch_dot # t)" "column = c"
      using tc parts r three d by (auto simp: simple_column_reference_def Let_def)
    have own: "owns_table_reference M (table_name M)"
      using M by (simp add: owns_table_reference_def split_once_absent)
    show ?thesis
      using ok tc d split three tab own M
      by (auto simp: validate_model_column_reference_def allowed_reference_def Let_def try_bind_Inr_iff reference_ok
          split_on_none split_on_append is_safe_identifier_segment_def split: if_splits prod.splits)
  qed
  then show ?thesis by (simp add: r_def)
qed

lemma order_value_allowed:
  assumes "validate_order_or_group_value U M kind v raw qualifiers = Inr ()" and M: "ch_dot \<notin> set (table_name M)" "table_name M \<noteq> []"
    and "raw \<longrightarrow> raw_order_by_expression v = None"
    and "r = (case split_direction (trim v) of Some (r, _) \<Rightarrow> r | None \<Rightarrow> trim v)" "snd (split_alias r) = None"
  shows "allowed_reference M qualifiers (trim r)" and "\<not> raw \<Longrightarrow> r = trim v"
proof -
  have "validate_model_column_reference M kind r qualifiers = Inr () \<and> simple_column_reference M r \<noteq> None"
    and "\<not> raw \<Longrightarrow> r = trim v"
    using assms(1,4,5) by (auto simp: validate_order_or_group_value_def Let_def split: if_splits option.splits prod.splits)
  then show "allowed_reference M qualifiers (trim r)" "\<not> raw \<Longrightarrow> r = trim v"
    using allowed_by_validation [OF _ assms(6) _ M] by auto
qed

lemma safe_segment_chars:
  "is_safe_identifier_segment s \<Longrightarrow> \<forall>c \<in> set s. c = ch_underscore \<or> is_ascii_alphanumeric c"
  by (auto simp: is_safe_identifier_segment_def list_all_iff is_ascii_alphanumeric_def split: list.splits)

lemma safe_char_plain:
  "c = ch_underscore \<or> is_ascii_alphanumeric c \<Longrightarrow>
     \<not> is_whitespace c \<and> \<not> alias_space c \<and> c \<notin> {ch_dot, ch_lparen, ch_rparen, ch_star, ch_dquote, ch_backtick, ch_quote}"
  by (auto simp: ascii_defs is_whitespace_def alias_space_def)

text \<open>A text of safe segments and dots is trimmed already, and holds no alias.\<close>

definition dotted_name :: "ustr \<Rightarrow> bool" where
  "dotted_name r \<longleftrightarrow> r \<noteq> [] \<and> list_all is_safe_identifier_segment (split_on ch_dot r)"

lemma split_on_chars: "c \<in> set r \<Longrightarrow> c = d \<or> (\<exists>p \<in> set (split_on d r). c \<in> set p)"
proof (induction r)
  case (Cons a r)
  then show ?case by (cases "split_on d r") (auto split: if_splits)
qed simp

lemma dotted_name_chars:
  "dotted_name r \<Longrightarrow> \<forall>c \<in> set r. c = ch_dot \<or> c = ch_underscore \<or> is_ascii_alphanumeric c"
  using split_on_chars [of _ r ch_dot] safe_segment_chars by (fastforce simp: dotted_name_def list_all_iff)

lemma not_whitespace_trim: "\<forall>c \<in> set r. \<not> is_whitespace c \<Longrightarrow> trim r = r"
proof -
  assume r: "\<forall>c \<in> set r. \<not> is_whitespace c"
  then have "dropWhile is_whitespace r = r" "dropWhile is_whitespace (rev r) = rev r"
    by (metis dropWhile_eq_self_iff hd_in_set, metis dropWhile_eq_self_iff hd_in_set set_rev)
  then show ?thesis by (simp add: trim_def trim_start_def)
qed

lemma dotted_name_not_whitespace: "dotted_name r \<Longrightarrow> \<forall>c \<in> set r. \<not> is_whitespace c"
  using dotted_name_chars [of r] safe_char_plain by (fastforce simp: is_whitespace_def)

lemma dotted_name_trim: "dotted_name r \<Longrightarrow> trim r = r"
  by (rule not_whitespace_trim) (rule dotted_name_not_whitespace)

lemma alias_loop_plain:
  "\<forall>c \<in> set r. \<not> alias_space c \<and> c \<notin> {ch_lparen, ch_rparen, ch_dquote, ch_backtick, ch_quote}
     \<Longrightarrow> alias_loop None depth i last_as r = last_as"
  by (induction r arbitrary: i) auto

lemma dotted_name_alias: "dotted_name r \<Longrightarrow> split_alias r = (r, None)"
proof -
  assume r: "dotted_name r"
  have "\<forall>c \<in> set r. \<not> alias_space c \<and> c \<notin> {ch_lparen, ch_rparen, ch_dquote, ch_backtick, ch_quote}"
    using dotted_name_chars [OF r] safe_char_plain by (fastforce simp: alias_space_def)
  from alias_loop_plain [OF this] show ?thesis
    using dotted_name_trim [OF r] by (simp add: split_alias_def Let_def)
qed

lemma reference_dotted: "validate_identifier_reference kind r = Inr () \<Longrightarrow> dotted_name r"
  by (auto simp: reference_ok dotted_name_def is_safe_identifier_segment_def)

lemma dotted_reference_some:
  assumes r: "validate_identifier_reference kind r = Inr ()"
  shows "simple_column_reference M r \<noteq> None"
proof -
  have d: "dotted_name r" using reference_dotted [OF r] .
  have "identifier_reference_parts r = Some (split_on ch_dot r)"
    using d dotted_name_trim [OF d] dotted_name_chars [OF d]
    by (auto simp: identifier_reference_parts_def Let_def list_ex_iff starts_with_def ends_with_def suffix_def prefix_def
        dotted_name_def is_safe_identifier_segment_def list_all_iff ascii_defs split: list.splits)
  moreover have "length (split_on ch_dot r) \<in> {1, 2, 3}"
    using r by (auto simp: reference_ok le_Suc_eq numeral_3_eq_3)
  ultimately show ?thesis
    using dotted_name_alias [OF d] dotted_parts(3) [of ch_dot r]
    by (auto simp: simple_column_reference_def Let_def length_Suc_conv numeral_3_eq_3 numeral_2_eq_2)
qed

lemma where_column_allowed:
  assumes "validate_identifier_reference kind r = Inr ()" "validate_model_column_reference M kind' r qualifiers = Inr ()"
    and "ch_dot \<notin> set (table_name M)" "table_name M \<noteq> []"
  shows "allowed_reference M qualifiers r"
  using allowed_by_validation [OF assms(2) _ dotted_reference_some [OF assms(1)] assms(3,4)]
    dotted_name_alias dotted_name_trim reference_dotted [OF assms(1)] by simp

text \<open>The references in the column slots of a query: of its filters, and of its ORDER BY and GROUP BY terms.\<close>

definition filter_references :: "('v, 't, 'd) Clauses \<Rightarrow> ustr set" where
  "filter_references c =
     {cond_column w | w. w \<in> set (all_conditions c) \<and> cond_column w \<noteq> []}
     \<union> {other | w other. w \<in> set (all_conditions c) \<and> cond_value w = OtherColumn other}"

definition term_references :: "('v, 't, 'd) Clauses \<Rightarrow> ustr set" where
  "term_references c =
     {order_reference column | column direction. (column, direction) \<in> set (order_by c) \<and> raw_order_by_expression column = None}
     \<union> trim ` set (group_by c)"

lemma validated_references:
  assumes "validate_query_fragments V c = Inr ()" and M: "ch_dot \<notin> set (table_name (model_of V))" "table_name (model_of V) \<noteq> []"
  shows "r \<in> filter_references c \<Longrightarrow> allowed_reference (model_of V) (known_qualifiers (model_of V) c) r"
    and "\<lbrakk>r \<in> term_references c; snd (split_alias r) = None\<rbrakk>
      \<Longrightarrow> allowed_reference (model_of V) (known_qualifiers (model_of V) c) (trim r)"
proof -
  let ?M = "model_of V" and ?qs = "known_qualifiers (model_of V) c"
  have conditions: "\<forall>w \<in> set (all_conditions c). validate_condition (scripts V) ?M w ?qs = Inr ()"
    and orders: "\<forall>entry \<in> set (order_by c). check_order_term V c entry = Inr ()"
    and groups: "\<forall>column \<in> set (group_by c). check_group_term V c column = Inr ()"
    using assms(1) by (auto simp: validate_query_fragments_def Let_def try_bind_Inr_iff validate_each_ok list_all_iff)
  show "allowed_reference ?M ?qs r" if "r \<in> filter_references c"
    using that conditions M
    by (force simp: filter_references_def validate_condition_def try_bind_Inr_iff split: if_splits
        intro!: where_column_allowed)
  show "allowed_reference ?M ?qs (trim r)" if "r \<in> term_references c" "snd (split_alias r) = None"
    using that(1) unfolding term_references_def
  proof
    assume "r \<in> {order_reference column | column direction.
        (column, direction) \<in> set (order_by c) \<and> raw_order_by_expression column = None}"
    then obtain column where "validate_order_or_group_value (scripts V) ?M (lit ''ORDER BY column'') column True ?qs = Inr ()"
      and "raw_order_by_expression column = None" "r = order_reference column"
      using orders by (fastforce simp: check_order_term_def try_bind_Inr_iff)
    then show ?thesis using order_value_allowed(1) [OF _ M] that(2) by (metis order_reference_def)
  next
    assume "r \<in> trim ` set (group_by c)"
    then obtain column where v: "validate_order_or_group_value (scripts V) ?M (lit ''GROUP BY column'') column False ?qs = Inr ()"
      and r: "r = trim column" using groups by (fastforce simp: check_group_term_def try_bind_Inr_iff)
    have "split_direction (trim column) = None"
      using v by (auto simp: validate_order_or_group_value_def Let_def split: option.splits)
    then show ?thesis using order_value_allowed(1) [OF v M] that(2) r by simp
  qed
qed

end
