(* ===== verification/Query_Conditions.thy ===== *)
theory Query_Conditions
  imports Query_Mutations
begin

text \<open>
  From filters to the condition tree handed to the SQL engine: the operators of \<open>src/src/query/sql.rs\<close>,
  \<open>condition_spec\<close> and the representability checks of
  \<open>sql/condition_builders/sea_condition_helpers.rs\<close>, the tree of \<open>dispatch.rs\<close> and the NULL reading of
  lists in \<open>comparison_pattern_list.rs\<close>.
\<close>

subsection \<open>How a condition is rendered\<close>

datatype ComparisonOperator = CmpEq | CmpNotEq | CmpGt | CmpGte | CmpLt | CmpLte

fun comparison_of :: "Operator \<Rightarrow> ComparisonOperator option" where
  "comparison_of Eq = Some CmpEq"
| "comparison_of NotEq = Some CmpNotEq"
| "comparison_of Gt = Some CmpGt"
| "comparison_of Gte = Some CmpGte"
| "comparison_of Lt = Some CmpLt"
| "comparison_of Lte = Some CmpLte"
| "comparison_of _ = None"

datatype ListOperator = ListIn | ListNotIn

fun list_operator_of :: "Operator \<Rightarrow> ListOperator option" where
  "list_operator_of In = Some ListIn"
| "list_operator_of NotIn = Some ListNotIn"
| "list_operator_of _ = None"

datatype ArrayOperator = ArrContains | ArrContainedBy | ArrOverlaps

fun array_operator_of :: "Operator \<Rightarrow> ArrayOperator option" where
  "array_operator_of ArrayContains = Some ArrContains"
| "array_operator_of ArrayContainedBy = Some ArrContainedBy"
| "array_operator_of ArrayOverlaps = Some ArrOverlaps"
| "array_operator_of _ = None"

datatype JsonContainment = Contains | ContainedBy
datatype JsonExistence = KeyExistence | PathExistence

datatype 'v ConditionSpec =
    SpecRaw ustr "'v list" bool
  | SpecCompare ComparisonOperator Json
  | SpecCompareColumns ComparisonOperator ustr
  | SpecPattern bool bool Json
  | SpecList ListOperator "Json list" "bool option"
  | SpecNullCheck bool
  | SpecBetween Json Json bool
  | SpecJsonValue JsonContainment Json
  | SpecJsonExists JsonExistence bool ustr
  | SpecArray ArrayOperator "Json list"

definition condition_spec :: "'v WhereCondition \<Rightarrow> 'v ConditionSpec option" where
  "condition_spec w =
     (let op = cond_operator w in
      case cond_value w of
        RawExpr raw_sql \<Rightarrow> if op = Raw then Some (SpecRaw raw_sql [] False) else None
      | RawExprWithValues sql values \<Rightarrow> if op = Raw then Some (SpecRaw sql values False) else None
      | RawTemplate sql values \<Rightarrow> if op = Raw then Some (SpecRaw sql values True) else None
      | OtherColumn other \<Rightarrow> map_option (\<lambda>cmp. SpecCompareColumns cmp other) (comparison_of op)
      | NoValue \<Rightarrow>
          if op = Eq \<or> op = NotEq then Some (SpecNullCheck (op = NotEq))
          else if op = IsNull \<or> op = IsNotNull then Some (SpecNullCheck (op = IsNotNull))
          else None
      | Single v \<Rightarrow>
          if op = Like \<or> op = LikeEscaped \<or> op = NotLike then Some (SpecPattern (op = NotLike) (op = LikeEscaped) v)
          else if op = JsonContains then Some (SpecJsonValue Contains v)
          else if op = JsonContainedBy then Some (SpecJsonValue ContainedBy v)
          else (case v of
              JString target \<Rightarrow>
                if op = JsonKeyExists then Some (SpecJsonExists KeyExistence False target)
                else if op = JsonKeyNotExists then Some (SpecJsonExists KeyExistence True target)
                else if op = JsonPathExists then Some (SpecJsonExists PathExistence False target)
                else if op = JsonPathNotExists then Some (SpecJsonExists PathExistence True target)
                else map_option (\<lambda>cmp. SpecCompare cmp v) (comparison_of op)
            | _ \<Rightarrow> map_option (\<lambda>cmp. SpecCompare cmp v) (comparison_of op))
      | Range low high \<Rightarrow>
          if op = Between \<or> op = NotBetween then Some (SpecBetween low high (op = NotBetween)) else None
      | ValueList values \<Rightarrow>
          (case array_operator_of op of
             Some a \<Rightarrow> Some (SpecArray a values)
           | None \<Rightarrow> map_option (\<lambda>l. SpecList l values None) (list_operator_of op))
      | DocumentList values sql_null \<Rightarrow> map_option (\<lambda>l. SpecList l values (Some sql_null)) (list_operator_of op)
      | Invalid _ \<Rightarrow> None)"

subsection \<open>Conditions that cannot be rendered are refused\<close>

fun operator_debug :: "Operator \<Rightarrow> ustr" where
  "operator_debug Eq = lit ''Eq''"
| "operator_debug NotEq = lit ''NotEq''"
| "operator_debug Gt = lit ''Gt''"
| "operator_debug Gte = lit ''Gte''"
| "operator_debug Lt = lit ''Lt''"
| "operator_debug Lte = lit ''Lte''"
| "operator_debug Like = lit ''Like''"
| "operator_debug LikeEscaped = lit ''LikeEscaped''"
| "operator_debug NotLike = lit ''NotLike''"
| "operator_debug In = lit ''In''"
| "operator_debug NotIn = lit ''NotIn''"
| "operator_debug IsNull = lit ''IsNull''"
| "operator_debug IsNotNull = lit ''IsNotNull''"
| "operator_debug Between = lit ''Between''"
| "operator_debug NotBetween = lit ''NotBetween''"
| "operator_debug JsonContains = lit ''JsonContains''"
| "operator_debug JsonContainedBy = lit ''JsonContainedBy''"
| "operator_debug JsonKeyExists = lit ''JsonKeyExists''"
| "operator_debug JsonKeyNotExists = lit ''JsonKeyNotExists''"
| "operator_debug JsonPathExists = lit ''JsonPathExists''"
| "operator_debug JsonPathNotExists = lit ''JsonPathNotExists''"
| "operator_debug ArrayContains = lit ''ArrayContains''"
| "operator_debug ArrayContainedBy = lit ''ArrayContainedBy''"
| "operator_debug ArrayOverlaps = lit ''ArrayOverlaps''"
| "operator_debug Raw = lit ''Raw''"

definition has_null_bound :: "'v WhereCondition \<Rightarrow> bool" where
  "has_null_bound w =
     (case cond_value w of
        NoValue \<Rightarrow> cond_operator w \<in> {Gt, Gte, Lt, Lte}
      | Single v \<Rightarrow> cond_operator w \<in> {Gt, Gte, Lt, Lte} \<and> v = JNull
      | Range low high \<Rightarrow> cond_operator w \<in> {Between, NotBetween} \<and> (low = JNull \<or> high = JNull)
      | _ \<Rightarrow> False)"

definition condition_label :: "model \<Rightarrow> ustr \<Rightarrow> ustr" where
  "condition_label M column =
     lit ''WHERE condition on '' @ [ch_quote] @ column @ [ch_quote] @ lit '' for model ''
     @ [ch_quote] @ table_name M @ [ch_quote]"

definition ensure_condition_has_no_null_bound :: "model \<Rightarrow> 'v WhereCondition \<Rightarrow> Error + unit" where
  "ensure_condition_has_no_null_bound M w =
     (if \<not> has_null_bound w then Inr ()
      else Inl (query (condition_label M (cond_column w) @ lit '' compares against NULL with operator ''
        @ operator_debug (cond_operator w)
        @ lit ''; a NULL comparison is never true '' @ [8212] @ lit '' use where_null() or where_not_null() instead'')))"

definition ensure_condition_is_representable ::
    "('v ConditionValue \<Rightarrow> ustr) \<Rightarrow> model \<Rightarrow> 'v WhereCondition \<Rightarrow> Error + unit" where
  "ensure_condition_is_representable debug M w =
     (case cond_value w of
        Invalid reason \<Rightarrow> Inl (query (condition_label M (cond_column w) @ lit '': '' @ reason))
      | _ \<Rightarrow>
          try_bind (ensure_condition_has_no_null_bound M w) (\<lambda>_.
            if condition_spec w \<noteq> None then Inr ()
            else Inl (query (condition_label M (if cond_column w = [] then lit ''<raw>'' else cond_column w)
              @ lit '' pairs operator '' @ operator_debug (cond_operator w) @ lit '' with an incompatible value ''
              @ debug (cond_value w) @ lit '' and cannot be rendered as SQL''))))"

definition ensure_backend_can_test ::
    "(ustr \<Rightarrow> bool) \<Rightarrow> DatabaseType \<Rightarrow> model \<Rightarrow> ustr \<Rightarrow> 'v WhereCondition \<Rightarrow> Error + unit" where
  "ensure_backend_can_test is_path db_type M db_debug w =
     (case cond_value w of
        Single (JString t) \<Rightarrow>
          if db_type = SQLite \<and> cond_operator w = LikeEscaped \<and> ch_nul \<in> set t
          then Inl (query (lit ''SQLite literal text filters cannot represent a NUL character''))
          else if db_type \<noteq> Postgres \<and> cond_operator w \<in> {JsonPathExists, JsonPathNotExists} \<and> \<not> is_path t
          then Inl (query (condition_label M (cond_column w) @ lit '': '' @ [ch_quote] @ t @ [ch_quote]
                 @ lit '' is not a JSON path '' @ db_debug
                 @ lit '' can test; write `$` followed by `.key`, `.'' @ [ch_dquote] @ lit ''quoted key'' @ [ch_dquote]
                 @ lit ''` or `[index]` steps''))
          else Inr ()
      | _ \<Rightarrow> Inr ())"

definition ensure_conditions_are_representable ::
    "('v ConditionValue \<Rightarrow> ustr) \<Rightarrow> (ustr \<Rightarrow> bool) \<Rightarrow> DatabaseType \<Rightarrow> ustr \<Rightarrow> model
      \<Rightarrow> ('v, 't, 'd) Clauses \<Rightarrow> Error + unit" where
  "ensure_conditions_are_representable debug is_path db_type db_debug M c =
     validate_each (\<lambda>w. try_bind (ensure_condition_is_representable debug M w)
                          (\<lambda>_. ensure_backend_can_test is_path db_type M db_debug w))
       (all_conditions c)"

subsection \<open>The condition tree\<close>

text \<open>
  A leaf is a condition with its rendering, or the soft-delete test. \<open>CondAll\<close> and \<open>CondAny\<close> are the
  engine's conjunction and disjunction of what was added to them.
\<close>

datatype 'v leaf = LeafCondition "'v WhereCondition" "'v ConditionSpec" | DeletedIsNull | DeletedIsNotNull

datatype 'v condition = CondExpr "'v leaf" | CondAll "'v condition list" | CondAny "'v condition list"

definition build_condition_leaf :: "'v WhereCondition \<Rightarrow> 'v condition option" where
  "build_condition_leaf w = map_option (\<lambda>spec. CondExpr (LeafCondition w spec)) (condition_spec w)"

fun some_of :: "'a option \<Rightarrow> 'a list" where
  "some_of None = []"
| "some_of (Some a) = [a]"

fun build_or_group_condition :: "'v OrGroup \<Rightarrow> 'v condition" where
  "build_or_group_condition (OrGroup cs gs op) =
     (let parts = concat (map (\<lambda>w. some_of (build_condition_leaf w)) cs)
            @ concat (map (\<lambda>g. if group_is_empty g then [] else [build_or_group_condition g]) gs)
      in case op of And \<Rightarrow> CondAll parts | Or \<Rightarrow> CondAny parts)"

definition build_soft_delete_expression :: "model \<Rightarrow> ('v, 't, 'd) Clauses \<Rightarrow> 'v condition option" where
  "build_soft_delete_expression M c =
     (case query_scope_for M (include_trashed c) (only_trashed c) of
        Disabled \<Rightarrow> None
      | WithTrashed \<Rightarrow> None
      | ActiveOnly \<Rightarrow> Some (CondExpr DeletedIsNull)
      | OnlyTrashed \<Rightarrow> Some (CondExpr DeletedIsNotNull))"

definition build_sea_condition_for_db :: "model \<Rightarrow> ('v, 't, 'd) Clauses \<Rightarrow> 'v condition" where
  "build_sea_condition_for_db M c =
     CondAll (concat (map (\<lambda>w. some_of (build_condition_leaf w)) (conditions c))
       @ concat (map (\<lambda>g. if group_is_empty g then [] else [build_or_group_condition g]) (or_groups c))
       @ some_of (build_soft_delete_expression M c))"

text \<open>What the engine's tree keeps, given the truth of each leaf on a row.\<close>

fun condition_holds :: "('v leaf \<Rightarrow> bool) \<Rightarrow> 'v condition \<Rightarrow> bool" where
  "condition_holds t (CondExpr l) = t l"
| "condition_holds t (CondAll cs) = list_all (condition_holds t) cs"
| "condition_holds t (CondAny cs) = list_ex (condition_holds t) cs"

fun row_leaf :: "('v WhereCondition \<Rightarrow> bool) \<Rightarrow> bool \<Rightarrow> 'v leaf \<Rightarrow> bool" where
  "row_leaf h trashed (LeafCondition w spec) = h w"
| "row_leaf h trashed DeletedIsNull = (\<not> trashed)"
| "row_leaf h trashed DeletedIsNotNull = trashed"

lemma leaves_hold:
  assumes "list_all (\<lambda>w. condition_spec w \<noteq> None) cs"
  shows "list_all (condition_holds (row_leaf h tr)) (concat (map (\<lambda>w. some_of (build_condition_leaf w)) cs)) = list_all h cs"
    and "list_ex (condition_holds (row_leaf h tr)) (concat (map (\<lambda>w. some_of (build_condition_leaf w)) cs)) = list_ex h cs"
  using assms by (induction cs) (auto simp: build_condition_leaf_def)

lemma groups_hold:
  "list_all P (concat (map (\<lambda>g. if group_is_empty g then [] else [f g]) gs)) = list_all (\<lambda>g. group_is_empty g \<or> P (f g)) gs"
  "list_ex P (concat (map (\<lambda>g. if group_is_empty g then [] else [f g]) gs)) = list_ex (\<lambda>g. \<not> group_is_empty g \<and> P (f g)) gs"
  by (induction gs) auto

lemma group_tree_holds:
  "list_all (\<lambda>w. condition_spec w \<noteq> None) (collect_conditions g) \<Longrightarrow>
     condition_holds (row_leaf h tr) (build_or_group_condition g) = group_holds h g"
proof (induction g)
  case (OrGroup cs gs op)
  have specs: "list_all (\<lambda>w. condition_spec w \<noteq> None) cs"
    using OrGroup.prems by simp
  have nested: "g \<in> set gs \<Longrightarrow> condition_holds (row_leaf h tr) (build_or_group_condition g) = group_holds h g" for g
    using OrGroup by (auto simp: list_all_iff)
  then have "list_all (\<lambda>g. group_is_empty g \<or> condition_holds (row_leaf h tr) (build_or_group_condition g)) gs
      = list_all (\<lambda>g. group_is_empty g \<or> group_holds h g) gs"
    "list_ex (\<lambda>g. \<not> group_is_empty g \<and> condition_holds (row_leaf h tr) (build_or_group_condition g)) gs
      = list_ex (\<lambda>g. \<not> group_is_empty g \<and> group_holds h g) gs"
    by (auto simp: list_all_iff list_ex_iff)
  then show ?case
    by (cases op) (simp_all add: leaves_hold [OF specs] groups_hold)
qed

lemma representable_spec:
  "ensure_condition_is_representable debug M w = Inr () \<Longrightarrow> condition_spec w \<noteq> None"
  by (auto simp: ensure_condition_is_representable_def try_bind_Inr_iff split: ConditionValue.splits if_splits)

lemma condition_tree_holds:
  assumes "ensure_conditions_are_representable debug is_path db_type db_debug M c = Inr ()"
  shows "condition_holds (row_leaf h trashed) (build_sea_condition_for_db M c) \<longleftrightarrow> matches_row M c h trashed"
proof -
  have specs: "list_all (\<lambda>w. condition_spec w \<noteq> None) (all_conditions c)"
    using assms representable_spec
    by (fastforce simp: ensure_conditions_are_representable_def validate_each_ok list_all_iff try_bind_Inr_iff)
  then have own: "list_all (\<lambda>w. condition_spec w \<noteq> None) (conditions c)"
    by (simp add: all_conditions_def)
  have groups: "g \<in> set (or_groups c) \<Longrightarrow>
      condition_holds (row_leaf h trashed) (build_or_group_condition g) = group_holds h g" for g
    using specs by (intro group_tree_holds) (auto simp: all_conditions_def list_all_iff)
  have "list_all (condition_holds (row_leaf h trashed)) (some_of (build_soft_delete_expression M c))
      = scope_admits (query_scope_for M (include_trashed c) (only_trashed c)) trashed"
    by (simp add: build_soft_delete_expression_def split: SoftDeleteScope.split)
  moreover have "list_all (\<lambda>g. group_is_empty g \<or> condition_holds (row_leaf h trashed) (build_or_group_condition g)) (or_groups c)
      = list_all (\<lambda>g. group_is_empty g \<or> group_holds h g) (or_groups c)"
    using groups by (auto simp: list_all_iff)
  ultimately show ?thesis
    by (simp add: build_sea_condition_for_db_def matches_row_def filters_hold_def leaves_hold [OF own] groups_hold)
qed

text \<open>C8. The condition tree of an accepted query keeps exactly the rows the query matches: no condition is
  dropped on the way to SQL, groups keep their nesting, and the soft-delete scope is one more
  conjunct.\<close>

theorem condition_tree_exact:
  assumes "ensure_conditions_are_representable debug is_path db_type db_debug M c = Inr ()"
  shows "condition_holds (row_leaf h trashed) (build_sea_condition_for_db M c) \<longleftrightarrow> matches_row M c h trashed"
  using condition_tree_holds [OF assms] .

theorem condition_tree_exact_witness:
  "ensure_conditions_are_representable (\<lambda>_. []) (\<lambda>_. True) Postgres (lit ''Postgres'') demo_model demo_filtered = Inr ()
   \<and> (condition_holds (row_leaf (\<lambda>_. True) False) (build_sea_condition_for_db demo_model demo_filtered)
       \<longleftrightarrow> matches_row demo_model demo_filtered (\<lambda>_. True) False)"
proof -
  have "ensure_conditions_are_representable (\<lambda>_. []) (\<lambda>_. True) Postgres (lit ''Postgres'') demo_model demo_filtered = Inr ()"
    by code_simp
  then show ?thesis
    using condition_tree_exact [of "\<lambda>_. []" "\<lambda>_. True" Postgres "lit ''Postgres''" demo_model demo_filtered "\<lambda>_. True" False]
    by simp
qed

subsection \<open>NULL in a list\<close>

text \<open>The expressions a list filter is rendered to, over the filter's column.\<close>

datatype list_expr =
    EIsIn "Json list" | EIsNotIn "Json list" | EDocumentIs Json | EDocumentIsNot Json
  | EIsNull | EIsNotNull | EOr list_expr list_expr | EAnd list_expr list_expr

definition build_non_null_list_expression :: "bool \<Rightarrow> ListOperator \<Rightarrow> Json list \<Rightarrow> list_expr" where
  "build_non_null_list_expression holds_json op values =
     (let negated = (op = ListNotIn);
          documents = map (if negated then EDocumentIsNot else EDocumentIs) values
      in if holds_json \<and> documents \<noteq> []
         then foldl (if negated then EAnd else EOr) (hd documents) (tl documents)
         else (case op of ListIn \<Rightarrow> EIsIn values | ListNotIn \<Rightarrow> EIsNotIn values))"

definition build_list_expression :: "bool \<Rightarrow> ListOperator \<Rightarrow> Json list \<Rightarrow> bool option \<Rightarrow> list_expr" where
  "build_list_expression holds_json op all_values documents =
     (let (sql_null, values) =
            (case documents of
               Some sql_null \<Rightarrow>
                 if holds_json then (sql_null, all_values)
                 else (sql_null \<or> list_ex (\<lambda>v. v = JNull) all_values, filter (\<lambda>v. v \<noteq> JNull) all_values)
             | None \<Rightarrow> (list_ex (\<lambda>v. v = JNull) all_values, filter (\<lambda>v. v \<noteq> JNull) all_values));
          listed = build_non_null_list_expression holds_json op values
      in if \<not> sql_null then listed
         else (case op of
             ListIn \<Rightarrow> if values = [] then EIsNull else EOr listed EIsNull
           | ListNotIn \<Rightarrow> if values = [] then EIsNotNull else EAnd listed EIsNotNull))"

text \<open>
  SQL's three-valued reading, with \<open>None\<close> for unknown. The column holds \<open>None\<close> for NULL, or a value
  that \<open>same\<close> compares with a JSON operand. An empty \<open>IN\<close> is false and an empty \<open>NOT IN\<close> true, as the
  engine writes them.
\<close>

fun or3 :: "bool option \<Rightarrow> bool option \<Rightarrow> bool option" where
  "or3 a b = (if a = Some True \<or> b = Some True then Some True
              else if a = Some False \<and> b = Some False then Some False else None)"

fun and3 :: "bool option \<Rightarrow> bool option \<Rightarrow> bool option" where
  "and3 a b = (if a = Some False \<or> b = Some False then Some False
               else if a = Some True \<and> b = Some True then Some True else None)"

fun list_value :: "(Json \<Rightarrow> 'x \<Rightarrow> bool) \<Rightarrow> 'x option \<Rightarrow> list_expr \<Rightarrow> bool option" where
  "list_value same x (EIsIn vs) = (if vs = [] then Some False else map_option (\<lambda>y. list_ex (\<lambda>v. same v y) vs) x)"
| "list_value same x (EIsNotIn vs) = (if vs = [] then Some True else map_option (\<lambda>y. \<not> list_ex (\<lambda>v. same v y) vs) x)"
| "list_value same x (EDocumentIs v) = map_option (same v) x"
| "list_value same x (EDocumentIsNot v) = map_option (\<lambda>y. \<not> same v y) x"
| "list_value same x EIsNull = Some (x = None)"
| "list_value same x EIsNotNull = Some (x \<noteq> None)"
| "list_value same x (EOr a b) = or3 (list_value same x a) (list_value same x b)"
| "list_value same x (EAnd a b) = and3 (list_value same x a) (list_value same x b)"

lemma documents_or:
  "list_value same x (foldl EOr e (map EDocumentIs vs)) = Some True
     \<longleftrightarrow> list_value same x e = Some True \<or> (\<exists>y. x = Some y \<and> list_ex (\<lambda>v. same v y) vs)"
  by (induction vs arbitrary: e) (auto split: if_splits)

lemma documents_and:
  "list_value same x (foldl EAnd e (map EDocumentIsNot vs)) = Some True
     \<longleftrightarrow> list_value same x e = Some True \<and> (vs = [] \<or> (\<exists>y. x = Some y \<and> \<not> list_ex (\<lambda>v. same v y) vs))"
  by (induction vs arbitrary: e) (auto split: if_splits)

lemma non_null_list_in:
  "list_value same x (build_non_null_list_expression j ListIn vs) = Some True
     \<longleftrightarrow> (\<exists>y. x = Some y \<and> list_ex (\<lambda>v. same v y) vs)"
  using documents_or [of same x "EDocumentIs (hd vs)" "tl vs"]
  by (cases vs) (auto simp: build_non_null_list_expression_def Let_def)

lemma non_null_list_not_in:
  "list_value same x (build_non_null_list_expression j ListNotIn vs) = Some True
     \<longleftrightarrow> vs = [] \<or> (\<exists>y. x = Some y \<and> \<not> list_ex (\<lambda>v. same v y) vs)"
  using documents_and [of same x "EDocumentIsNot (hd vs)" "tl vs"]
  by (cases vs) (auto simp: build_non_null_list_expression_def Let_def)

text \<open>What the members of a list filter say about a column: a member that stands for SQL NULL matches a
  NULL column, any other one a value it equals. In a JSON column only the \<open>sql_null\<close> flag of a
  document list stands for NULL, a \<open>null\<close> member being the JSON \<open>null\<close> document.\<close>

definition null_listed :: "bool \<Rightarrow> Json list \<Rightarrow> bool option \<Rightarrow> bool" where
  "null_listed j vs documents =
     (case documents of
        Some sql_null \<Rightarrow> sql_null \<or> (\<not> j \<and> JNull \<in> set vs)
      | None \<Rightarrow> JNull \<in> set vs)"

definition members_listed :: "bool \<Rightarrow> Json list \<Rightarrow> bool option \<Rightarrow> Json list" where
  "members_listed j vs documents = (if j \<and> documents \<noteq> None then vs else filter (\<lambda>v. v \<noteq> JNull) vs)"

definition listed_in :: "(Json \<Rightarrow> 'x \<Rightarrow> bool) \<Rightarrow> bool \<Rightarrow> Json list \<Rightarrow> bool option \<Rightarrow> 'x option \<Rightarrow> bool" where
  "listed_in same j vs documents x =
     (case x of None \<Rightarrow> null_listed j vs documents | Some y \<Rightarrow> \<exists>v \<in> set (members_listed j vs documents). same v y)"

text \<open>A list filter reads NULL as \<open>where_eq\<close> does: \<open>where_in\<close> keeps exactly the rows whose column is
  listed, a NULL column when NULL is listed; \<open>where_not_in\<close> keeps exactly the rows with a value that
  is not listed, and every row when nothing is listed.\<close>

theorem list_filter_exact:
  "(list_value same x (build_list_expression j ListIn vs documents) = Some True
      \<longleftrightarrow> listed_in same j vs documents x)
   \<and> (list_value same x (build_list_expression j ListNotIn vs documents) = Some True
      \<longleftrightarrow> (x \<noteq> None \<and> \<not> listed_in same j vs documents x)
          \<or> (members_listed j vs documents = [] \<and> \<not> null_listed j vs documents))"
proof -
  define n where "n = null_listed j vs documents"
  define ms where "ms = members_listed j vs documents"
  have expr: "build_list_expression j op vs documents =
      (if \<not> n then build_non_null_list_expression j op ms
       else (case op of
           ListIn \<Rightarrow> if ms = [] then EIsNull else EOr (build_non_null_list_expression j op ms) EIsNull
         | ListNotIn \<Rightarrow> if ms = [] then EIsNotNull else EAnd (build_non_null_list_expression j op ms) EIsNotNull))" for op
    by (auto simp: build_list_expression_def n_def ms_def null_listed_def members_listed_def list_ex_iff
        split: option.splits ListOperator.splits)
  have "listed_in same j vs documents x = (case x of None \<Rightarrow> n | Some y \<Rightarrow> list_ex (\<lambda>v. same v y) ms)"
    by (auto simp: listed_in_def n_def ms_def list_ex_iff split: option.splits)
  then show ?thesis
    using non_null_list_in [of same x j ms] non_null_list_not_in [of same x j ms]
    by (auto simp: expr n_def [symmetric] ms_def [symmetric] split: option.splits)
qed

end
