(* ===== verification/Select_Rendering.thy ===== *)
theory Select_Rendering
  imports Query_Validation Query_Conditions
begin

text \<open>
  The statement of a query: \<open>src/src/query/sql/rendering.rs\<close>, \<open>src/src/query/sql/rendering/select.rs\<close>, the
  WHERE text of \<open>src/src/query/sql/condition_builders/dispatch.rs\<close> and the LIMIT and OFFSET of
  \<open>src/src/query/db_sql.rs\<close>.

  A rendering function returns the text and the values bound so far; the source keeps both in buffers it
  appends to. sea-query's rendering of \<open>SELECT 1\<close> with a condition is the parameter \<open>sea_build\<close>, the
  driver's integer value of an offset \<open>bind_offset\<close>.
\<close>

record ('v, 't) render_env =
  rendering :: "('v, 't) query_env"
  sea_build :: "DatabaseType \<Rightarrow> 'v condition \<Rightarrow> ustr \<times> 'v list"
  bind_offset :: "nat \<Rightarrow> 'v"

abbreviation render_model :: "('v, 't) render_env \<Rightarrow> model" where
  "render_model R \<equiv> own (rendering R)"

abbreviation render_builder :: "('v, 't) render_env \<Rightarrow> ('v, 't) builder_env" where
  "render_builder R \<equiv> building (rendering R)"

abbreviation render_letters :: "('v, 't) render_env \<Rightarrow> unicode" where
  "render_letters R \<equiv> letters (render_builder R)"

type_synonym 'v bound_sql = "ustr \<times> 'v list"

subsection \<open>Columns\<close>

definition canonical_model_identifier :: "('v, 't) builder_env \<Rightarrow> ('v, 't, 'd) Clauses \<Rightarrow> ustr \<Rightarrow> ustr" where
  "canonical_model_identifier E c identifier = model_identifier E identifier (joins c \<noteq> [])"

definition format_column_for_db :: "('v, 't) builder_env \<Rightarrow> ('v, 't, 'd) Clauses \<Rightarrow> DatabaseType \<Rightarrow> ustr \<Rightarrow> ustr" where
  "format_column_for_db E c db_type column =
     (let trimmed = trim column in
      if list_ex is_whitespace trimmed then trimmed
      else format_column_or_trusted_expression db_type (canonical_model_identifier E c trimmed))"

definition format_projection_column :: "('v, 't) builder_env \<Rightarrow> ('v, 't, 'd) Clauses \<Rightarrow> DatabaseType \<Rightarrow> ustr \<Rightarrow> ustr
    \<Rightarrow> ustr" where
  "format_projection_column E c db_type table identifier =
     (if ch_dot \<in> set identifier then format_column_for_db E c db_type identifier
      else quote_ident db_type table @ [ch_dot] @ quote_ident db_type (column_named (the_model E) identifier))"

definition format_select_column_for_db :: "('v, 't) builder_env \<Rightarrow> ('v, 't, 'd) Clauses \<Rightarrow> DatabaseType \<Rightarrow> ustr \<Rightarrow> ustr
    \<Rightarrow> ustr" where
  "format_select_column_for_db E c db_type table column =
     (let is_reference = (\<lambda>v. format_identifier_reference db_type v \<noteq> None) in
      case split_alias column of
        (identifier, None) \<Rightarrow>
          if is_reference identifier then format_projection_column E c db_type table identifier else trim column
      | (identifier, Some alias) \<Rightarrow>
          if is_reference identifier \<and> is_reference alias
          then format_projection_column E c db_type table identifier @ lit '' AS '' @ quote_ident db_type alias
          else trim column)"

subsection \<open>The select core\<close>

fun subqueries_sql :: "unicode \<Rightarrow> DatabaseType \<Rightarrow> 'v list \<Rightarrow> ('v, 't) SubquerySelect list \<Rightarrow> ustr list \<times> 'v list" where
  "subqueries_sql U db_type params [] = ([], params)"
| "subqueries_sql U db_type params (s # ss) =
     (case subqueries_sql U db_type (params @ sub_params s) ss of
        (texts, params') \<Rightarrow>
          (([ch_lparen] @ rebase_placeholders U db_type (sub_query_sql s) (length params) @ lit '') AS ''
             @ quote_ident db_type (sub_alias s)) # texts, params'))"

definition build_select_clause_sql :: "('v, 't) render_env \<Rightarrow> ('v, 't, 'd) Clauses \<Rightarrow> DatabaseType \<Rightarrow> 'v bound_sql" where
  "build_select_clause_sql R c db_type =
     (let E = render_builder R; M = render_model R; table = table_name M;
          (subs, params) = subqueries_sql (render_letters R) db_type [] (subquery_select_expressions c);
          chosen = map (format_select_column_for_db E c db_type table) (selected c) @ raw_projection c @ subs;
          expressions =
            (if chosen \<noteq> [] then chosen
             else if reads_table_wildcard c then [quote_ident db_type table @ dot_star]
             else [model_columns_sql M db_type (Some table)])
            @ map (\<lambda>w. window_to_sql db_type (map_columns (canonical_model_identifier E c) w)) (window_functions c)
      in ((if is_distinct c then lit ''SELECT DISTINCT'' else lit ''SELECT'') @ [ch_space]
            @ join (lit '', '') expressions @ [ch_space], params))"

definition join_sql :: "('v, 't) builder_env \<Rightarrow> ('v, 't, 'd) Clauses \<Rightarrow> DatabaseType \<Rightarrow> JoinClause \<Rightarrow> ustr" where
  "join_sql E c db_type j =
     join_as_sql (join_type j) @ [ch_space]
     @ format_column db_type (join_table j)
     @ (case join_alias j of Some alias \<Rightarrow> lit '' AS '' @ quote_ident db_type alias | None \<Rightarrow> [])
     @ lit '' ON '' @ format_column_for_db E c db_type (left_column j) @ lit '' = ''
     @ format_column_for_db E c db_type (right_column j) @ [ch_space]"

definition append_from_and_join_sql :: "('v, 't) builder_env \<Rightarrow> ('v, 't, 'd) Clauses \<Rightarrow> DatabaseType \<Rightarrow> ustr" where
  "append_from_and_join_sql E c db_type =
     push_quoted_table (the_model E) (lit ''FROM '') db_type @ [ch_space] @ concat (map (join_sql E c db_type) (joins c))"

fun having_sql :: "unicode \<Rightarrow> DatabaseType \<Rightarrow> 'v list \<Rightarrow> (ustr \<times> 'v list) list \<Rightarrow> ustr list \<times> 'v list" where
  "having_sql U db_type params [] = ([], params)"
| "having_sql U db_type params ((template, bindings) # hs) =
     (case having_sql U db_type (params @ bindings) hs of
        (texts, params') \<Rightarrow> (render_template U db_type template (length params + 1) # texts, params'))"

definition group_by_sql :: "('v, 't) builder_env \<Rightarrow> ('v, 't, 'd) Clauses \<Rightarrow> DatabaseType \<Rightarrow> ustr" where
  "group_by_sql E c db_type =
     (if group_by c = [] then []
      else lit ''GROUP BY '' @ join (lit '', '') (map (format_column_for_db E c db_type) (group_by c)) @ [ch_space])"

definition append_group_by_and_having_sql :: "('v, 't) render_env \<Rightarrow> ('v, 't, 'd) Clauses \<Rightarrow> DatabaseType \<Rightarrow> 'v list
    \<Rightarrow> 'v bound_sql" where
  "append_group_by_and_having_sql R c db_type params =
     (let groups = group_by_sql (render_builder R) c db_type in
      if having_conditions c = [] then (groups, params)
      else (case having_sql (render_letters R) db_type params (having_clauses (render_builder R) c) of
              (texts, params') \<Rightarrow> (groups @ lit ''HAVING '' @ join (lit '' AND '') texts @ [ch_space], params')))"

definition build_where_clause_with_condition_for_db :: "('v, 't) render_env \<Rightarrow> ('v, 't, 'd) Clauses \<Rightarrow> DatabaseType
    \<Rightarrow> 'v bound_sql" where
  "build_where_clause_with_condition_for_db R c db_type =
     (case build_sea_condition_for_db (render_model R) c of
        CondAll [] \<Rightarrow> ([], [])
      | tree \<Rightarrow>
          (case sea_build R db_type tree of (sql, values) \<Rightarrow>
             (case find_str (lit '' WHERE '') sql of
                Some start \<Rightarrow> (drop (start + 7) sql, values)
              | None \<Rightarrow> ([], []))))"

definition where_clause_sql :: "unicode \<Rightarrow> DatabaseType \<Rightarrow> ustr \<Rightarrow> nat \<Rightarrow> ustr" where
  "where_clause_sql U db_type where_sql n =
     (if where_sql = [] then [] else lit ''WHERE '' @ rebase_placeholders U db_type where_sql n @ [ch_space])"

definition into_trimmed :: "ustr \<Rightarrow> ustr" where
  "into_trimmed sql = trim_start (trim_end sql)"

definition build_base_select_sql_with_params_for_db :: "('v, 't) render_env \<Rightarrow> ('v, 't, 'd) Clauses \<Rightarrow> DatabaseType
    \<Rightarrow> 'v bound_sql" where
  "build_base_select_sql_with_params_for_db R c db_type =
     (let (select_sql, params) = build_select_clause_sql R c db_type;
          (where_sql, where_params) = build_where_clause_with_condition_for_db R c db_type;
          (tail_sql, params') = append_group_by_and_having_sql R c db_type (params @ where_params)
      in (into_trimmed (select_sql @ append_from_and_join_sql (render_builder R) c db_type
            @ where_clause_sql (render_letters R) db_type where_sql (length params) @ tail_sql), params'))"

subsection \<open>Ordering, limit and offset\<close>

definition append_limit_offset :: "('v, 't) render_env \<Rightarrow> DatabaseType \<Rightarrow> nat option \<Rightarrow> nat option \<Rightarrow> 'v list \<Rightarrow> 'v bound_sql" where
  "append_limit_offset R db_type lim_val off_val params =
     (let limit_sql = (case (lim_val, off_val) of
            (Some n, _) \<Rightarrow> lit '' LIMIT '' @ show_nat n
          | (None, Some _) \<Rightarrow>
              (case db_type of Postgres \<Rightarrow> [] | SQLite \<Rightarrow> lit '' LIMIT -1'' | _ \<Rightarrow> lit '' LIMIT '' @ show_nat u64_max)
          | (None, None) \<Rightarrow> [])
      in case off_val of
           None \<Rightarrow> (limit_sql, params)
         | Some n \<Rightarrow>
             if n \<le> i64_max
             then (limit_sql @ lit '' OFFSET '' @ placeholder db_type (length params + 1), params @ [bind_offset R n])
             else (limit_sql @ lit '' OFFSET '' @ show_nat n, params))"

definition format_order_by_for_db :: "('v, 't) query_env \<Rightarrow> ('v, 't, 'd) Clauses \<Rightarrow> DatabaseType \<Rightarrow> ustr \<Rightarrow> Order \<Rightarrow> ustr" where
  "format_order_by_for_db Q c db_type column direction =
     (case raw_order_by_expression column of
        Some expression \<Rightarrow> expression @ [ch_space] @ order_as_str direction
      | None \<Rightarrow>
          (let trimmed = trim column;
               (reference, dir) = (case split_direction trimmed of Some p \<Rightarrow> p | None \<Rightarrow> (trimmed, direction))
           in if unions c \<noteq> [] \<and> list_all is_safe_identifier_segment (split_on ch_dot reference)
              then quote_ident db_type
                     (case derived_output_name Q c reference of
                        Some output \<Rightarrow> output
                      | None \<Rightarrow> snd (canonical_column_parts (own Q) reference))
                   @ [ch_space] @ order_as_str dir
              else format_column_for_db (building Q) c db_type reference @ [ch_space] @ order_as_str dir))"

definition order_by_sql :: "('v, 't) query_env \<Rightarrow> ('v, 't, 'd) Clauses \<Rightarrow> DatabaseType \<Rightarrow> ustr" where
  "order_by_sql Q c db_type =
     (if order_by c = [] then []
      else lit '' ORDER BY ''
        @ join (lit '', '') (map (\<lambda>(column, direction). format_order_by_for_db Q c db_type column direction) (order_by c)))"

definition append_order_limit_offset_sql :: "('v, 't) render_env \<Rightarrow> ('v, 't, 'd) Clauses \<Rightarrow> DatabaseType \<Rightarrow> 'v list
    \<Rightarrow> 'v bound_sql" where
  "append_order_limit_offset_sql R c db_type params =
     (case append_limit_offset R db_type (limit_value c) (offset_value c) params of
        (text, params') \<Rightarrow> (order_by_sql (rendering R) c db_type @ text, params'))"

subsection \<open>The whole statement\<close>

definition cte_keyword :: "('v, 't, 'd) Clauses \<Rightarrow> ustr" where
  "cte_keyword c = (if list_ex cte_recursive (ctes c) then lit ''WITH RECURSIVE '' else lit ''WITH '')"

fun wraps_compound_operand :: "DatabaseType \<Rightarrow> bool" where
  "wraps_compound_operand SQLite = False"
| "wraps_compound_operand _ = True"

fun cte_parts :: "unicode \<Rightarrow> DatabaseType \<Rightarrow> 'v list \<Rightarrow> 'v CTE list \<Rightarrow> ustr list \<times> 'v list" where
  "cte_parts U db_type params [] = ([], params)"
| "cte_parts U db_type params (cte # rest) =
     (case cte_parts U db_type (params @ cte_params cte) rest of
        (texts, params') \<Rightarrow>
          (cte_to_sql_with_body db_type cte (rebase_placeholders U db_type (cte_query_sql cte) (length params)) # texts,
           params'))"

definition append_cte_sql :: "('v, 't) render_env \<Rightarrow> ('v, 't, 'd) Clauses \<Rightarrow> DatabaseType \<Rightarrow> 'v bound_sql" where
  "append_cte_sql R c db_type =
     (if ctes c = [] then ([], [])
      else (case cte_parts (render_letters R) db_type [] (ctes c) of
              (texts, params) \<Rightarrow> (cte_keyword c @ join (lit '', '') texts @ [ch_space], params)))"

fun union_parts :: "unicode \<Rightarrow> DatabaseType \<Rightarrow> 'v list \<Rightarrow> ('v, 't) UnionClause list \<Rightarrow> 'v bound_sql" where
  "union_parts U db_type params [] = ([], params)"
| "union_parts U db_type params (u # us) =
     (let operand_sql = rebase_placeholders U db_type (union_query_sql u) (length params) in
      case union_parts U db_type (params @ union_params u) us of
        (text, params') \<Rightarrow>
          ([ch_space] @ union_as_sql (union_type u)
             @ (if wraps_compound_operand db_type then lit '' ('' @ operand_sql @ [ch_rparen] else [ch_space] @ operand_sql)
             @ text, params'))"

definition build_select_sql_with_params_for_db :: "('v, 't) render_env \<Rightarrow> ('v, 't, 'd) Clauses \<Rightarrow> DatabaseType
    \<Rightarrow> 'v bound_sql" where
  "build_select_sql_with_params_for_db R c db_type =
     (let U = render_letters R;
          (base_sql, base_params) = build_base_select_sql_with_params_for_db R c db_type;
          (cte_sql, params) = append_cte_sql R c db_type;
          (union_sql, params') = union_parts U db_type (params @ base_params) (unions c);
          (tail_sql, params'') = append_order_limit_offset_sql R c db_type params'
      in (into_trimmed (cte_sql @ rebase_placeholders U db_type base_sql (length params) @ union_sql @ tail_sql
            @ (if lock_for_update c \<and> db_type \<noteq> SQLite then lit '' FOR UPDATE'' else [])), params''))"

definition build_compound_operand_sql_for_db :: "('v, 't) render_env \<Rightarrow> ('v, 't, 'd) Clauses \<Rightarrow> DatabaseType
    \<Rightarrow> 'v bound_sql" where
  "build_compound_operand_sql_for_db R c db_type =
     (if unions c \<noteq> [] \<or> ctes c \<noteq> []
      then (case build_select_sql_with_params_for_db R c db_type of
              (sql, params) \<Rightarrow> (select_from_derived db_type star sql (lit ''tideorm_union_operand''), params))
      else (case build_base_select_sql_with_params_for_db R c db_type of
              (sql, params) \<Rightarrow>
                if order_by c = [] \<and> limit_value c = None \<and> offset_value c = None then (sql, params)
                else (case append_order_limit_offset_sql R c db_type params of
                        (tail_sql, params') \<Rightarrow>
                          (if wraps_compound_operand db_type then sql @ tail_sql
                           else select_from_derived db_type star (sql @ tail_sql) (lit ''tideorm_union_operand''), params'))))"

subsection \<open>Counting and existence\<close>

definition build_plain_select_sql :: "('v, 't) render_env \<Rightarrow> ('v, 't, 'd) Clauses \<Rightarrow> DatabaseType \<Rightarrow> ustr \<Rightarrow> 'v bound_sql" where
  "build_plain_select_sql R c db_type projection =
     (case build_where_clause_with_condition_for_db R c db_type of
        (where_sql, params) \<Rightarrow>
          (trim_end (lit ''SELECT '' @ projection @ [ch_space] @ append_from_and_join_sql (render_builder R) c db_type
             @ (if where_sql = [] then [] else lit ''WHERE '' @ where_sql)), params))"

definition count_query :: "('v, 't, 'd) Clauses \<Rightarrow> ('v, 't, 'd) Clauses" where
  "count_query c =
     (let bare = c\<lparr>order_by := [], limit_value := None, offset_value := None\<rparr>
      in if group_by c \<noteq> [] \<and> \<not> has_explicit_projection c
         then bare\<lparr>select_columns := None, raw_select_expressions := [lit ''1'']\<rparr> else bare)"

definition build_count_sql_with_params_for_db :: "('v, 't) render_env \<Rightarrow> ('v, 't, 'd) Clauses \<Rightarrow> DatabaseType
    \<Rightarrow> 'v bound_sql" where
  "build_count_sql_with_params_for_db R c db_type =
     (let q = count_query c in
      if unions q = [] \<and> ctes q = [] \<and> group_by q = [] \<and> having_conditions q = []
         \<and> raw_select_expressions q = [] \<and> \<not> lock_for_update q
      then build_plain_select_sql R q db_type (lit ''COUNT(*) AS count'')
      else (case build_select_sql_with_params_for_db R q db_type of
              (inner_sql, params) \<Rightarrow>
                (select_from_derived db_type (lit ''COUNT(*) AS count'') inner_sql (lit ''tideorm_count_subquery''), params)))"

definition exists_query :: "('v, 't, 'd) Clauses \<Rightarrow> ('v, 't, 'd) Clauses" where
  "exists_query c =
     (let bare = c\<lparr>order_by := [], limit_value := None, offset_value := None\<rparr>
      in if unions c = [] \<and> \<not> (raw_projection c \<noteq> [] \<or> (having_conditions c \<noteq> [] \<and> has_explicit_projection c))
         then bare\<lparr>select_columns := None, raw_select_expressions := [lit ''1''],
                subquery_select_expressions := [], window_functions := []\<rparr>
         else bare)"

definition build_exists_sql_with_params_for_db :: "('v, 't) render_env \<Rightarrow> ('v, 't, 'd) Clauses \<Rightarrow> DatabaseType
    \<Rightarrow> 'v bound_sql" where
  "build_exists_sql_with_params_for_db R c db_type =
     (let q = exists_query c in
      if unions q = [] \<and> ctes q = [] \<and> \<not> lock_for_update q
      then (case build_base_select_sql_with_params_for_db R q db_type of
              (inner_sql, params) \<Rightarrow>
                (lit ''SELECT EXISTS('' @ inner_sql @ lit '' LIMIT 1) AS '' @ quote_ident db_type (lit ''exists_result''), params))
      else (case build_select_sql_with_params_for_db R q db_type of
              (inner_sql, params) \<Rightarrow>
                (select_from_derived db_type (lit ''1'') inner_sql (lit ''tideorm_exists_subquery'') @ lit '' LIMIT 1'', params)))"

subsection \<open>Column slots render as quoted identifiers\<close>

definition plain_names :: "('v, 't) builder_env \<Rightarrow> bool" where
  "plain_names E \<longleftrightarrow>
     is_safe_identifier_segment (table_name (the_model E)) \<and> is_safe_identifier_segment (own_table_name E)
     \<and> (\<forall>schema. schema_name (the_model E) = Some schema \<longrightarrow> is_safe_identifier_segment schema)
     \<and> list_all is_safe_identifier_segment (column_names (the_model E))"

lemma safe_no_dot: "is_safe_identifier_segment s \<Longrightarrow> ch_dot \<notin> set s \<and> s \<noteq> []"
  using safe_segment_chars [of s] safe_char_plain by (fastforce simp: is_safe_identifier_segment_def)

lemma dotted_single: "is_safe_identifier_segment s \<Longrightarrow> dotted_name s"
  using safe_no_dot [of s] by (simp add: dotted_name_def split_on_none)

lemma split_on_split: "split_on d (t @ d # s) = split_on d t @ split_on d s"
  by (induction t) (auto split: list.split)

lemma dotted_pair: "\<lbrakk>list_all is_safe_identifier_segment (split_on ch_dot t); is_safe_identifier_segment s\<rbrakk> \<Longrightarrow> dotted_name (t @ ch_dot # s)"
  using safe_no_dot [of s] by (simp add: dotted_name_def split_on_split split_on_none)

lemma split_once_Some: "Errors.split_once d s = Some (a, b) \<Longrightarrow> s = a @ d # b \<and> d \<notin> set a"
  by (induction s arbitrary: a b) (auto split: if_splits)

lemma owned_dotted:
  assumes "plain_names E" "owns_table_reference (the_model E) t"
  shows "list_all is_safe_identifier_segment (split_on ch_dot t)"
  using assms safe_no_dot
  by (auto simp: owns_table_reference_def plain_names_def split_on_append split_on_none
      dest!: split_once_Some split: option.splits)

lemma allowed_dotted:
  assumes "plain_names E" "allowed_reference (the_model E) qualifiers r"
  shows "dotted_name r"
  using assms owned_dotted [OF assms(1)]
  by (auto simp: allowed_reference_def dotted_single rsplit_once_Some intro!: dotted_pair split: option.splits if_splits)

lemma dotted_parts_some:
  assumes "dotted_name r"
  shows "identifier_reference_parts r = Some (split_on ch_dot r)"
  using assms dotted_name_trim [OF assms] dotted_name_chars [OF assms]
  by (auto simp: identifier_reference_parts_def Let_def list_ex_iff starts_with_def ends_with_def suffix_def prefix_def
      dotted_name_def is_safe_identifier_segment_def list_all_iff ascii_defs split: list.splits)

lemma identifier_dotted:
  assumes plain: "plain_names E" and r: "allowed_reference (the_model E) qualifiers r"
  shows "dotted_name (model_identifier E r qualify)"
proof -
  let ?M = "the_model E"
  have column: "is_safe_identifier_segment (column_named ?M n)" if "canonical_column_name ?M n \<noteq> None" for n
    using that canonical_column_is_column [of ?M n] plain
    by (auto simp: column_named_def plain_names_def list_all_iff split: option.splits)
  have table: "list_all is_safe_identifier_segment (split_on ch_dot (own_table_name E))"
    using plain safe_no_dot by (simp add: plain_names_def split_on_none)
  show ?thesis
    using r column table
    by (auto simp: allowed_reference_def model_identifier_def canonical_column_parts_def Let_def dotted_single
        intro!: dotted_pair split: option.splits if_splits)
qed

lemma format_allowed:
  assumes plain: "plain_names E" and r: "allowed_reference (the_model E) qualifiers r"
  obtains parts where "parts \<noteq> []" "list_all is_safe_identifier_segment parts"
    "format_column_for_db E c db r = join [ch_dot] (map (quote_ident db) parts)"
proof
  let ?t = "model_identifier E r (joins c \<noteq> [])"
  have r': "dotted_name r" using allowed_dotted [OF plain r] .
  have t: "dotted_name ?t" using identifier_dotted [OF plain r] .
  show "split_on ch_dot ?t \<noteq> []" by simp
  show "list_all is_safe_identifier_segment (split_on ch_dot ?t)" using t by (simp add: dotted_name_def)
  have "\<not> list_ex is_whitespace r" using dotted_name_not_whitespace [OF r'] by (simp add: list_ex_iff)
  then show "format_column_for_db E c db r = join [ch_dot] (map (quote_ident db) (split_on ch_dot ?t))"
    using dotted_name_trim [OF r'] dotted_name_trim [OF t] dotted_parts_some [OF t]
    by (simp add: format_column_for_db_def canonical_model_identifier_def format_column_or_trusted_expression_def
        format_identifier_reference_def format_parts_join Let_def)
qed

text \<open>A text that is read back as quoted identifiers separated by dots.\<close>

definition quoted_reference :: "unicode \<Rightarrow> bool \<Rightarrow> ustr \<Rightarrow> bool" where
  "quoted_reference U sqlite name \<longleftrightarrow>
     (\<exists>parts. parts \<noteq> [] \<and> map (\<lambda>t. (tok_kind t, unquoted t)) (scan U name sqlite)
        = intersperse (KSymbol, Some [ch_dot]) (map (\<lambda>p. (KIdentifier, Some p)) parts))"

lemma quoted_parts: "parts \<noteq> [] \<Longrightarrow> quoted_reference U sqlite (join [ch_dot] (map (quote_ident db) parts))"
  using scan_from_quoted_parts [of parts U sqlite "[]" 0 db] by (auto simp: quoted_reference_def scan_def)

lemma quoted_single: "quoted_reference U sqlite (quote_ident db name)"
  using quoted_parts [of "[name]" U sqlite db] by simp

lemma validated_term_quoted:
  assumes valid: "validate_query_fragments V c = Inr ()" and plain: "plain_names (building (querying V))"
    and slot: "r \<in> term_references c" "snd (split_alias r) = None"
  shows "quoted_reference U sqlite (format_column_for_db (building (querying V)) c db r)"
proof -
  let ?E = "building (querying V)"
  have M: "ch_dot \<notin> set (table_name (model_of V))" "table_name (model_of V) \<noteq> []"
    using plain safe_no_dot by (auto simp: plain_names_def)
  from format_allowed [OF plain validated_references(2) [OF valid M slot]] obtain parts where
    "parts \<noteq> []" "format_column_for_db ?E c db (trim r) = join [ch_dot] (map (quote_ident db) parts)" .
  moreover have "format_column_for_db ?E c db r = format_column_for_db ?E c db (trim r)" by (simp add: format_column_for_db_def)
  ultimately show ?thesis using quoted_parts by simp
qed

lemma order_term_quoted:
  assumes valid: "validate_query_fragments V c = Inr ()" and plain: "plain_names (building (querying V))"
    and slot: "(column, direction) \<in> set (order_by c)" "raw_order_by_expression column = None"
      "snd (split_alias (order_reference column)) = None"
  shows "\<exists>name dir. format_order_by_for_db (querying V) c db column direction = name @ [ch_space] @ order_as_str dir
    \<and> quoted_reference U sqlite name"
proof -
  define dir where "dir = (case split_direction (trim column) of Some (_, d) \<Rightarrow> d | None \<Rightarrow> direction)"
  have "order_reference column \<in> term_references c" using slot by (auto simp: term_references_def)
  note quoted = validated_term_quoted [OF valid plain this slot(3), of U sqlite db]
  let ?name = "if unions c \<noteq> [] \<and> list_all is_safe_identifier_segment (split_on ch_dot (order_reference column))
       then quote_ident db (case derived_output_name (querying V) c (order_reference column) of
           Some output \<Rightarrow> output | None \<Rightarrow> snd (canonical_column_parts (model_of V) (order_reference column)))
       else format_column_for_db (building (querying V)) c db (order_reference column)"
  have "format_order_by_for_db (querying V) c db column direction = ?name @ [ch_space] @ order_as_str dir"
    using slot(2) by (auto simp: format_order_by_for_db_def order_reference_def dir_def Let_def split: option.split prod.split)
  moreover have "quoted_reference U sqlite ?name" using quoted quoted_single by simp
  ultimately show ?thesis by blast
qed

text \<open>C10. The ORDER BY and GROUP BY clauses of an accepted query, on a model whose declared table, schema and
  column names are plain identifiers. Every term that is not a raw expression and carries no alias is
  written as quoted identifiers separated by dots, followed in ORDER BY by ASC or DESC and nothing
  else, so no text of a caller reaches the clause unquoted through it; with unions too, where the
  term names an output column.\<close>

theorem validated_columns_quoted:
  assumes valid: "validate_query_fragments V c = Inr ()" and plain: "plain_names (building (querying V))"
  shows "(\<exists>terms. order_by_sql (querying V) c db = (if terms = [] then [] else lit '' ORDER BY '' @ join (lit '', '') terms)
      \<and> list_all2 (\<lambda>(column, direction) t.
          raw_order_by_expression column = None \<and> snd (split_alias (order_reference column)) = None
          \<longrightarrow> (\<exists>name dir. t = name @ [ch_space] @ order_as_str dir \<and> quoted_reference U sqlite name)) (order_by c) terms)
   \<and> (\<exists>terms. group_by_sql (building (querying V)) c db
        = (if terms = [] then [] else lit ''GROUP BY '' @ join (lit '', '') terms @ [ch_space])
      \<and> list_all2 (\<lambda>column t. snd (split_alias column) = None \<longrightarrow> quoted_reference U sqlite t) (group_by c) terms)"
proof (intro conjI exI)
  let ?order = "map (\<lambda>(column, direction). format_order_by_for_db (querying V) c db column direction) (order_by c)"
  show "order_by_sql (querying V) c db = (if ?order = [] then [] else lit '' ORDER BY '' @ join (lit '', '') ?order)"
    by (simp add: order_by_sql_def)
  show "list_all2 (\<lambda>(column, direction) t.
      raw_order_by_expression column = None \<and> snd (split_alias (order_reference column)) = None
      \<longrightarrow> (\<exists>name dir. t = name @ [ch_space] @ order_as_str dir \<and> quoted_reference U sqlite name)) (order_by c) ?order"
    using order_term_quoted [OF valid plain]
    by (auto simp: list_all2_conv_all_nth split: prod.split) (metis nth_mem)
  let ?group = "map (format_column_for_db (building (querying V)) c db) (group_by c)"
  show "group_by_sql (building (querying V)) c db
      = (if ?group = [] then [] else lit ''GROUP BY '' @ join (lit '', '') ?group @ [ch_space])"
    by (simp add: group_by_sql_def)
  have "quoted_reference U sqlite (format_column_for_db (building (querying V)) c db column)"
    if "column \<in> set (group_by c)" "snd (split_alias column) = None" for column
  proof -
    have "trim column \<in> term_references c" "snd (split_alias (trim column)) = None"
      using that by (auto simp: term_references_def)
    from validated_term_quoted [OF valid plain this] show ?thesis by (simp add: format_column_for_db_def)
  qed
  then show "list_all2 (\<lambda>column t. snd (split_alias column) = None \<longrightarrow> quoted_reference U sqlite t) (group_by c) ?group"
    by (simp add: list_all2_conv_all_nth)
qed

subsection \<open>An accepted query\<close>

definition demo_validation_env :: "(unit, unit, unit, unit) validation_env" where
  "demo_validation_env = \<lparr>querying = \<lparr>building = demo_builder_env, encrypted_fields = [], encrypted_column_names = [],
       registrations = []\<rparr>, types_compatible = (\<lambda>_ _. True), type_debug = (\<lambda>_. []),
     outer_connection = Inr (), connection_of = (\<lambda>_. Inr ())\<rparr>"

definition demo_ordered :: "(unit, unit, unit) Clauses" where
  "demo_ordered = push_order_by demo_model (plain_column (lit ''posts.id'')) Desc demo_filtered"

theorem validated_columns_quoted_witness:
  "validate_query_fragments demo_validation_env demo_ordered = Inr ()
   \<and> (\<exists>terms. order_by_sql (querying demo_validation_env) demo_ordered Postgres
        = (if terms = [] then [] else lit '' ORDER BY '' @ join (lit '', '') terms)
      \<and> length terms = 1 \<and> (\<forall>t \<in> set terms. \<exists>name dir. t = name @ [ch_space] @ order_as_str dir \<and> quoted_reference ascii_only False name))"
proof -
  have valid: "validate_query_fragments demo_validation_env demo_ordered = Inr ()" by code_simp
  have names: "is_safe_identifier_segment (lit ''posts'')" "list_all is_safe_identifier_segment [lit ''id'', lit ''title'']" by code_simp+
  have "plain_names (building (querying demo_validation_env))"
    using names by (simp add: demo_validation_env_def plain_names_def demo_builder_env_def demo_model_def)
  from validated_columns_quoted [OF valid this, of Postgres ascii_only False] obtain terms where terms:
    "order_by_sql (querying demo_validation_env) demo_ordered Postgres = (if terms = [] then [] else lit '' ORDER BY '' @ join (lit '', '') terms)"
    "list_all2 (\<lambda>(column, direction) t.
      raw_order_by_expression column = None \<and> snd (split_alias (order_reference column)) = None
      \<longrightarrow> (\<exists>name dir. t = name @ [ch_space] @ order_as_str dir \<and> quoted_reference ascii_only False name)) (order_by demo_ordered) terms"
    by blast
  have "order_by demo_ordered = [(lit ''posts.id'', Desc)]" "raw_order_by_expression (lit ''posts.id'') = None"
    "snd (split_alias (order_reference (lit ''posts.id''))) = None" by code_simp+
  with terms(2) have "length terms = 1
      \<and> (\<forall>t \<in> set terms. \<exists>name dir. t = name @ [ch_space] @ order_as_str dir \<and> quoted_reference ascii_only False name)"
    by (fastforce simp: list_all2_Cons1)
  with valid terms(1) show ?thesis by blast
qed

subsection \<open>An alias in ORDER BY\<close>

text \<open>One step of the scan, which reads the same text whatever it has found so far.\<close>

lemma alias_loop_step:
  assumes "s \<noteq> []"
  obtains q' d' k found s' where "length s' < length s"
    "\<And>i l. alias_loop q d i l s = alias_loop q' d' (i + k) (if found then Some (i, i + 4) else l) s'"
proof (cases s)
  case (Cons b bs)
  show ?thesis
  proof (cases q)
    case (Some p)
    consider "b = p" "bs \<noteq> []" "hd bs = p" | "b = p" "bs = [] \<or> hd bs \<noteq> p" | "b \<noteq> p" by blast
    then show ?thesis
    proof cases
      case 1
      then show ?thesis using that [of "tl bs" "Some p" d 2 False] Cons Some by (cases bs) auto
    next
      case 2
      then show ?thesis using that [of bs None d 1 False] Cons Some by (cases bs) auto
    next
      case 3
      then show ?thesis using that [of bs "Some p" d 1 False] Cons Some by auto
    qed
  next
    case None
    let ?quote = "b = ch_quote \<or> b = ch_dquote \<or> b = ch_backtick"
    let ?as = "\<lambda>a s sp. (a = 97 \<or> a = 65) \<and> (s = 115 \<or> s = 83) \<and> alias_space sp"
    consider ?quote | "\<not> ?quote" "b = ch_lparen" | "\<not> ?quote" "b = ch_rparen"
      | a s sp rest where "\<not> ?quote" "b \<noteq> ch_lparen" "b \<noteq> ch_rparen" "alias_space b \<and> d = 0" "bs = a # s # sp # rest" "?as a s sp"
      | "\<not> ?quote" "b \<noteq> ch_lparen" "b \<noteq> ch_rparen"
        "\<not> (alias_space b \<and> d = 0 \<and> (\<exists>a s sp rest. bs = a # s # sp # rest \<and> ?as a s sp))" by blast
    then show ?thesis
    proof cases
      case 1
      then show ?thesis using that [of bs "Some b" d 1 False] Cons None by simp
    next
      case 2
      then show ?thesis using that [of bs None "d + 1" 1 False] Cons None by simp
    next
      case 3
      then show ?thesis using that [of bs None "d - 1" 1 False] Cons None by simp
    next
      case 4
      then show ?thesis using that [of rest None d 4 True] Cons None by simp
    next
      case 5
      have "alias_loop None d i l (b # bs) = alias_loop None d (i + 1) l bs" for i l
      proof (cases "alias_space b \<and> d = 0")
        case True
        with 5 have "(case bs of a # s # sp # rest \<Rightarrow> if ?as a s sp then X rest else Y | _ \<Rightarrow> Y) = Y"
          for X and Y :: "(nat \<times> nat) option" by (auto split: list.split)
        then show ?thesis using 5 True by simp
      next
        case False
        then have "(alias_space b \<and> d = 0) = False" by simp
        then show ?thesis using 5 by (simp only: alias_loop.simps) simp
      qed
      then show ?thesis using that [of bs None d 1 False] Cons None by simp
    qed
  qed
qed (use assms in simp)

lemma alias_loop_kept: "alias_loop q d i (Some x) s \<noteq> None"
proof (induction "length s" arbitrary: q d i x s rule: less_induct)
  case less
  show ?case
  proof (cases "s = []")
    case False
    then obtain q' d' k found s' where "length s' < length s"
      "\<And>i l. alias_loop q d i l s = alias_loop q' d' (i + k) (if found then Some (i, i + 4) else l) s'"
      by (rule alias_loop_step [of s q d]) blast
    then show ?thesis using less by (cases found) auto
  qed simp
qed

lemma alias_loop_found: "alias_loop q d i None s = None \<Longrightarrow> alias_loop q d j (Some x) s = Some x"
proof (induction "length s" arbitrary: q d i j s rule: less_induct)
  case less
  show ?case
  proof (cases "s = []")
    case False
    then obtain q' d' k found s' where step: "length s' < length s"
      "\<And>i l. alias_loop q d i l s = alias_loop q' d' (i + k) (if found then Some (i, i + 4) else l) s'"
      by (rule alias_loop_step [of s q d]) blast
    with less.prems have "\<not> found" using alias_loop_kept by (cases found) auto
    with step less show ?thesis by simp
  qed simp
qed

lemma alias_loop_skip:
  "\<forall>c \<in> set r. \<not> alias_space c \<and> c \<notin> {ch_lparen, ch_rparen, ch_dquote, ch_backtick, ch_quote}
     \<Longrightarrow> alias_loop None depth i last_as (r @ s) = alias_loop None depth (i + length r) last_as s"
  by (induction r arbitrary: i) auto

lemma trim_fixed: "\<lbrakk>s \<noteq> []; \<not> is_whitespace (hd s); \<not> is_whitespace (last s)\<rbrakk> \<Longrightarrow> trim s = s"
proof -
  assume s: "s \<noteq> []" "\<not> is_whitespace (hd s)" "\<not> is_whitespace (last s)"
  then have "dropWhile is_whitespace s = s" "dropWhile is_whitespace (rev s) = rev s"
    by (simp_all add: dropWhile_eq_self_iff hd_rev)
  then show ?thesis by (simp add: trim_def trim_start_def)
qed

lemma aliased_term:
  assumes col: "dotted_name col" and a: "a \<noteq> []" "\<not> is_whitespace (hd a)" "\<not> is_whitespace (last a)"
    and last: "alias_loop None 0 0 None a = None"
  shows "trim (col @ lit '' AS '' @ a) = col @ lit '' AS '' @ a"
    and "split_alias (col @ lit '' AS '' @ a) = (col, Some a)"
proof -
  let ?r = "col @ lit '' AS '' @ a"
  have plain: "\<forall>c \<in> set col. \<not> alias_space c \<and> c \<notin> {ch_lparen, ch_rparen, ch_dquote, ch_backtick, ch_quote}"
    using dotted_name_chars [OF col] safe_char_plain by (fastforce simp: alias_space_def)
  have "col \<noteq> []" using col by (simp add: dotted_name_def)
  then have "hd ?r = hd col" "last ?r = last a" "\<not> is_whitespace (hd col)"
    using a(1) dotted_name_not_whitespace [OF col] by simp_all
  then show t: "trim ?r = ?r" using trim_fixed [of ?r] a \<open>col \<noteq> []\<close> by simp
  have "alias_loop None 0 0 None ?r = alias_loop None 0 (length col) None (lit '' AS '' @ a)"
    using alias_loop_skip [OF plain, of 0 0 None] by simp
  also have "\<dots> = alias_loop None 0 (length col + 4) (Some (length col, length col + 4)) a"
    by (simp add: lit_def alias_space_def)
  also have "\<dots> = Some (length col, length col + 4)" using alias_loop_found [OF last] .
  finally have "alias_loop None 0 0 None ?r = Some (length col, length col + 4)" .
  moreover have "trim (take (length col) ?r) = col" "trim (drop (length col + 4) ?r) = a"
    using dotted_name_trim [OF col] trim_fixed [OF a] by (simp_all add: lit_def)
  ultimately show "split_alias ?r = (col, Some a)"
    using t a(1) \<open>col \<noteq> []\<close> by (simp add: split_alias_def)
qed

lemma split_direction_dotted: "dotted_name col \<Longrightarrow> split_direction col = None"
proof -
  assume col: "dotted_name col"
  have "dropWhile (\<lambda>c. \<not> is_whitespace c) (rev col) = []"
    using dotted_name_not_whitespace [OF col] by (simp add: dropWhile_eq_Nil_conv)
  then show ?thesis using dotted_name_trim [OF col] by (simp add: split_direction_def)
qed

lemma not_raw: "dotted_name col \<Longrightarrow> raw_order_by_expression (col @ s) = None"
  using dotted_name_chars [of col]
  by (cases col) (auto simp: raw_order_by_expression_def strip_prefix_def RAW_ORDER_BY_MARKER_def dotted_name_def ascii_defs)

text \<open>C38. The checks of an ORDER BY term look at the column in front of an alias and at nothing behind it,
  and the rendering writes the whole term as it stands. For every column reference, every text \<open>a\<close>
  that can stand as its alias (without white space around it, without an \<open>AS\<close> of its own outside
  quotes and parentheses, and not ending in a direction), the term with the alias passes exactly when
  the column alone does, in any query, and is written verbatim.\<close>

theorem order_alias_unchecked:
  assumes col: "dotted_name col" and a: "a \<noteq> []" "\<not> is_whitespace (hd a)" "\<not> is_whitespace (last a)"
    and own_alias: "alias_loop None 0 0 None a = None" and direction: "split_direction (col @ lit '' AS '' @ a) = None"
  shows "(check_order_term V c (col @ lit '' AS '' @ a, dir) = Inr () \<longleftrightarrow> check_order_term V c (col, dir) = Inr ())
    \<and> format_order_by_for_db Q c db (col @ lit '' AS '' @ a) dir = col @ lit '' AS '' @ a @ [ch_space] @ order_as_str dir"
proof
  let ?r = "col @ lit '' AS '' @ a"
  note r = aliased_term [OF col a own_alias]
  have reference: "simple_column_reference M ?r = simple_column_reference M col" for M
    using r(2) dotted_name_alias [OF col] by (simp add: simple_column_reference_def)
  have model_reference: "validate_model_column_reference M kind ?r qs = validate_model_column_reference M kind col qs" for M kind qs
    by (simp add: validate_model_column_reference_def reference)
  have raw: "raw_order_by_expression ?r = None" "raw_order_by_expression col = None"
    using not_raw [OF col, of "lit '' AS '' @ a"] not_raw [OF col, of "[]"] by simp_all
  have order: "order_reference ?r = ?r" "order_reference col = col"
    using r(1) direction dotted_name_trim [OF col] split_direction_dotted [OF col] by (simp_all add: order_reference_def)
  have valid: "validate_order_or_group_value U M kind ?r True qs = Inr () \<longleftrightarrow> validate_order_or_group_value U M kind col True qs = Inr ()"
    for U M kind qs
    using raw r(1) direction dotted_name_trim [OF col] split_direction_dotted [OF col]
    by (simp add: validate_order_or_group_value_def Let_def reference model_reference)
  show "check_order_term V c (?r, dir) = Inr () \<longleftrightarrow> check_order_term V c (col, dir) = Inr ()"
  proof (cases "simple_column_reference (model_of V) col")
    case None
    then have "validate_order_or_group_value U (model_of V) kind col True qs \<noteq> Inr ()" for U kind qs
      using raw split_direction_dotted [OF col] dotted_name_trim [OF col] by (simp add: validate_order_or_group_value_def)
    then show ?thesis using valid by (simp add: check_order_term_def try_bind_Inr_iff)
  next
    case (Some p)
    then have "ensure_encrypted_input_is_comparable (querying V) c ?r (lit ''ORDER BY'')
        = ensure_encrypted_input_is_comparable (querying V) c col (lit ''ORDER BY'')"
      by (simp add: ensure_encrypted_input_is_comparable_def reference)
    then show ?thesis using valid by (simp add: check_order_term_def try_bind_Inr_iff raw order)
  qed
  have space: "32 \<in> set ?r" by (simp add: lit_def)
  then have "list_ex is_whitespace ?r" by (auto simp: list_ex_iff is_whitespace_def intro!: bexI [of _ 32])
  moreover have "\<not> list_all is_safe_identifier_segment (split_on ch_dot ?r)"
    using space split_on_chars [of 32 ?r ch_dot] safe_segment_chars
    by (fastforce simp: list_all_iff ascii_defs)
  ultimately show "format_order_by_for_db Q c db ?r dir = col @ lit '' AS '' @ a @ [ch_space] @ order_as_str dir"
    using raw r(1) direction by (simp add: format_order_by_for_db_def format_column_for_db_def)
qed

theorem order_alias_unchecked_witness:
  "check_order_term demo_validation_env (default_clauses :: (unit, unit, unit) Clauses) (lit ''id AS (SELECT 1)'', Asc) = Inr ()
   \<and> format_order_by_for_db (querying demo_validation_env) (default_clauses :: (unit, unit, unit) Clauses) Postgres (lit ''id AS (SELECT 1)'') Asc
     = lit ''id AS (SELECT 1) ASC''"
proof -
  have "dotted_name (lit ''id'')" "lit ''(SELECT 1)'' \<noteq> []" "\<not> is_whitespace (hd (lit ''(SELECT 1)''))"
    "\<not> is_whitespace (last (lit ''(SELECT 1)''))" "alias_loop None 0 0 None (lit ''(SELECT 1)'') = None"
    "split_direction (lit ''id'' @ lit '' AS '' @ lit ''(SELECT 1)'') = None" by code_simp+
  note verbatim = order_alias_unchecked [OF this, where dir = Asc and V = demo_validation_env and db = Postgres
      and Q = "querying demo_validation_env" and c = "default_clauses :: (unit, unit, unit) Clauses"]
  have "check_order_term demo_validation_env (default_clauses :: (unit, unit, unit) Clauses) (lit ''id'', Asc) = Inr ()" by code_simp
  with verbatim show ?thesis by (simp add: lit_def)
qed

end
