(* ===== verification/Bulk_Mutations.thy ===== *)
theory Bulk_Mutations
  imports Select_Rendering
begin

text \<open>
  The bulk terminals of a query, \<open>delete\<close>, \<open>delete_all\<close>, \<open>soft_delete\<close>, \<open>restore\<close> and \<open>force_delete\<close> of
  \<open>src/src/query/sql/execution.rs\<close>, each up to the statement it sends and the values it binds.

  The engine's rendering of a condition tree is the parameter \<open>mut_sea\<close>, the clock's literal
  \<open>timestamp\<close>, the columns that hold JSON \<open>json_column\<close>, and Rust's \<open>Debug\<close> text of a value and of the
  backend \<open>value_debug\<close> and \<open>backend_debug\<close>. What a database does with a statement is the record
  \<open>table_reading\<close>: a \<open>DELETE\<close> removes the rows its \<open>WHERE\<close> keeps, an \<open>UPDATE\<close> sets the column in them.
\<close>

record ('v, 't, 'd, 'k) mutation_env =
  mut_checks :: "('v, 't, 'd, 'k) validation_env"
  mut_sea :: "DatabaseType \<Rightarrow> 'v condition \<Rightarrow> ustr \<times> 'v list"
  mut_offset :: "nat \<Rightarrow> 'v"
  mut_backend :: DatabaseType
  json_column :: "ustr \<Rightarrow> bool"
  value_debug :: "'v ConditionValue \<Rightarrow> ustr"
  backend_debug :: ustr
  is_json_path :: "ustr \<Rightarrow> bool"
  timestamp :: ustr

abbreviation mut_model :: "('v, 't, 'd, 'k) mutation_env \<Rightarrow> model" where
  "mut_model E \<equiv> model_of (mut_checks E)"

definition mut_rendering :: "('v, 't, 'd, 'k) mutation_env \<Rightarrow> ('v, 't) render_env" where
  "mut_rendering E = \<lparr>rendering = querying (mut_checks E), sea_build = mut_sea E, bind_offset = mut_offset E\<rparr>"

definition rendered_where :: "('v, 't, 'd, 'k) mutation_env \<Rightarrow> ('v, 't, 'd) Clauses \<Rightarrow> ustr \<times> 'v list" where
  "rendered_where E c = build_where_clause_with_condition_for_db (mut_rendering E) c (mut_backend E)"

definition ensure_query_is_executable :: "('v, 't, 'd, 'k) mutation_env \<Rightarrow> ('v, 't, 'd) Clauses \<Rightarrow> Error + unit" where
  "ensure_query_is_executable E c =
     try_bind (ensure_query_is_valid (mut_checks E) c) (\<lambda>_.
       ensure_conditions_are_representable (value_debug E) (is_json_path E) (mut_backend E) (backend_debug E) (mut_model E) c)"

subsection \<open>The terminals\<close>

definition deleted_at_update_sql :: "model \<Rightarrow> DatabaseType \<Rightarrow> ustr \<Rightarrow> ustr \<Rightarrow> ustr" where
  "deleted_at_update_sql M db_type v where_sql =
     lit ''UPDATE '' @ quote_table M db_type @ lit '' SET '' @ quote_ident db_type (deleted_at_column M)
     @ lit '' = '' @ v @ lit '' WHERE '' @ where_sql"

definition build_delete_sql :: "('v, 't, 'd, 'k) mutation_env \<Rightarrow> ustr \<Rightarrow> ('v, 't, 'd) Clauses \<Rightarrow> Error + 'v bound_sql" where
  "build_delete_sql E operation c =
     (case rendered_where E c of (where_sql, params) \<Rightarrow>
        try_bind (ensure_rendered_filter_is_restrictive operation where_sql) (\<lambda>_.
          Inr (lit ''DELETE FROM '' @ quote_table (mut_model E) (mut_backend E) @ lit '' WHERE '' @ where_sql, params)))"

definition build_soft_delete_sql :: "('v, 't, 'd, 'k) mutation_env \<Rightarrow> ('v, 't, 'd) Clauses \<Rightarrow> Error + 'v bound_sql" where
  "build_soft_delete_sql E c =
     (case rendered_where E c of (where_sql, params) \<Rightarrow>
        try_bind (ensure_rendered_filter_is_restrictive (lit ''soft_delete'') where_sql) (\<lambda>_.
          Inr (deleted_at_update_sql (mut_model E) (mut_backend E) (timestamp E) where_sql, params)))"

definition soft_delete :: "('v, 't, 'd, 'k) mutation_env \<Rightarrow> ('v, 't, 'd) Clauses \<Rightarrow> Error + 'v bound_sql" where
  "soft_delete E c =
     try_bind (ensure_query_is_executable E c) (\<lambda>_.
     try_bind (ensure_mutation_query_is_safe (lit ''soft_delete'') c) (\<lambda>_.
     if \<not> soft_delete_enabled (mut_model E)
     then Inl (query (lit ''soft_delete() can only be used on models with soft delete enabled''))
     else try_bind (ensure_mutation_has_explicit_filters (json_column E) (lit ''soft_delete'') c) (\<lambda>_.
          try_bind (ensure_not_only_trashed (mut_model E) (lit ''soft_delete'') c) (\<lambda>_.
          build_soft_delete_sql E (live_rows_only c)))))"

definition delete_rows :: "('v, 't, 'd, 'k) mutation_env \<Rightarrow> ('v, 't, 'd) Clauses \<Rightarrow> Error + 'v bound_sql" where
  "delete_rows E c =
     (if soft_delete_enabled (mut_model E)
      then try_bind (ensure_not_only_trashed (mut_model E) (lit ''delete'') c) (\<lambda>_. soft_delete E c)
      else try_bind (ensure_query_is_executable E c) (\<lambda>_.
           try_bind (ensure_mutation_query_is_safe (lit ''delete'') c) (\<lambda>_.
           try_bind (ensure_mutation_has_explicit_filters (json_column E) (lit ''delete'') c) (\<lambda>_.
           build_delete_sql E (lit ''delete'') c))))"

definition delete_all :: "('v, 't, 'd, 'k) mutation_env \<Rightarrow> ('v, 't, 'd) Clauses \<Rightarrow> Error + 'v bound_sql" where
  "delete_all E c =
     try_bind (ensure_query_is_executable E c) (\<lambda>_.
     try_bind (ensure_mutation_query_is_safe (lit ''delete_all'') c) (\<lambda>_.
     try_bind (ensure_mutation_has_no_explicit_filters (json_column E) (lit ''delete_all'') c) (\<lambda>_.
     if soft_delete_enabled (mut_model E)
     then try_bind (ensure_not_only_trashed (mut_model E) (lit ''delete_all'') c) (\<lambda>_.
          (case rendered_where E (live_rows_only c) of (scope_sql, params) \<Rightarrow>
             Inr (deleted_at_update_sql (mut_model E) (mut_backend E) (timestamp E) scope_sql, params)))
     else (case rendered_where E c of (scope_sql, params) \<Rightarrow>
            Inr (lit ''DELETE FROM '' @ quote_table (mut_model E) (mut_backend E)
              @ (if scope_sql = [] then [] else lit '' WHERE '' @ scope_sql), params)))))"

definition restore :: "('v, 't, 'd, 'k) mutation_env \<Rightarrow> ('v, 't, 'd) Clauses \<Rightarrow> Error + 'v bound_sql" where
  "restore E c =
     try_bind (ensure_query_is_executable E c) (\<lambda>_.
     try_bind (ensure_mutation_query_is_safe (lit ''restore'') c) (\<lambda>_.
     if \<not> soft_delete_enabled (mut_model E)
     then Inl (query (lit ''restore() can only be used on models with soft delete enabled''))
     else try_bind (ensure_trash_mutation_has_filters (mut_model E) (json_column E) (lit ''restore'') c) (\<lambda>_.
          (case rendered_where E (c\<lparr>only_trashed := True, include_trashed := False\<rparr>) of (where_sql, params) \<Rightarrow>
             try_bind (ensure_rendered_filter_is_restrictive (lit ''restore'') where_sql) (\<lambda>_.
               Inr (deleted_at_update_sql (mut_model E) (mut_backend E) (lit ''NULL'') where_sql, params))))))"

definition force_delete :: "('v, 't, 'd, 'k) mutation_env \<Rightarrow> ('v, 't, 'd) Clauses \<Rightarrow> Error + 'v bound_sql" where
  "force_delete E c =
     try_bind (ensure_query_is_executable E c) (\<lambda>_.
     try_bind (ensure_mutation_query_is_safe (lit ''force_delete'') c) (\<lambda>_.
     try_bind (ensure_trash_mutation_has_filters (mut_model E) (json_column E) (lit ''force_delete'') c) (\<lambda>_.
     build_delete_sql E (lit ''force_delete'') (if only_trashed c then c else c\<lparr>include_trashed := True\<rparr>))))"

subsection \<open>What a statement does to a table\<close>

text \<open>
  A table as the database reads it: the truth of each condition on a row, whether the row is in the
  trash, the rows a \<open>WHERE\<close> text with its bound values keeps, a row with its \<open>deleted_at\<close> set, and
  the table after a statement.
\<close>

record ('r, 'v) table_reading =
  row_truth :: "'r \<Rightarrow> 'v WhereCondition \<Rightarrow> bool"
  row_trashed :: "'r \<Rightarrow> bool"
  where_keeps :: "ustr \<Rightarrow> 'v list \<Rightarrow> 'r \<Rightarrow> bool"
  set_deleted_at :: "ustr \<Rightarrow> 'r \<Rightarrow> 'r"
  run_sql :: "ustr \<Rightarrow> 'v list \<Rightarrow> 'r list \<Rightarrow> 'r list"

text \<open>The query under a soft-delete scope, and what the code relies on of the engine that writes its
  condition tree: \<open>SELECT 1 WHERE\<close> and a text the database reads as the tree.\<close>

definition scoped :: "bool \<Rightarrow> bool \<Rightarrow> ('v, 't, 'd) Clauses \<Rightarrow> ('v, 't, 'd) Clauses" where
  "scoped include only c = c\<lparr>include_trashed := include, only_trashed := only\<rparr>"

definition engine_renders :: "('r, 'v) table_reading \<Rightarrow> ('v, 't, 'd, 'k) mutation_env \<Rightarrow> ('v, 't, 'd) Clauses \<Rightarrow> bool" where
  "engine_renders T E c \<longleftrightarrow>
     (\<forall>include only. let tree = build_sea_condition_for_db (mut_model E) (scoped include only c) in
        tree \<noteq> CondAll [] \<longrightarrow>
        (\<exists>w ps. w \<noteq> [] \<and> mut_sea E (mut_backend E) tree = (lit ''SELECT 1 WHERE '' @ w, ps)
          \<and> (\<forall>r. where_keeps T w ps r \<longleftrightarrow> condition_holds (row_leaf (row_truth T r) (row_trashed T r)) tree)))"

text \<open>SQL's reading of the statements over a \<open>WHERE\<close> text the engine wrote.\<close>

definition runs_statements :: "('r, 'v) table_reading \<Rightarrow> ('v, 't, 'd, 'k) mutation_env \<Rightarrow> bool" where
  "runs_statements T E \<longleftrightarrow>
     (\<forall>w ps rows. (\<exists>tree. mut_sea E (mut_backend E) tree = (lit ''SELECT 1 WHERE '' @ w, ps)) \<longrightarrow>
        run_sql T (lit ''DELETE FROM '' @ quote_table (mut_model E) (mut_backend E) @ lit '' WHERE '' @ w) ps rows
          = filter (\<lambda>r. \<not> where_keeps T w ps r) rows
        \<and> (\<forall>v \<in> {timestamp E, lit ''NULL''}.
             run_sql T (deleted_at_update_sql (mut_model E) (mut_backend E) v w) ps rows
               = map (\<lambda>r. if where_keeps T w ps r then set_deleted_at T v r else r) rows))
     \<and> (\<forall>rows. run_sql T (lit ''DELETE FROM '' @ quote_table (mut_model E) (mut_backend E)) [] rows = [])"

lemma scoped_forms:
  "live_rows_only c = scoped False False c"
  "c\<lparr>only_trashed := True, include_trashed := False\<rparr> = scoped False True c"
  "c\<lparr>include_trashed := True\<rparr> = scoped True (only_trashed c) c"
  "c = scoped (include_trashed c) (only_trashed c) c"
  by (simp_all add: scoped_def live_rows_only_def)

lemma matches_scoped:
  "matches_row M (scoped include only c) h trashed \<longleftrightarrow> filters_hold h c \<and> scope_admits (query_scope_for M include only) trashed"
  by (simp add: matches_row_def scoped_def)

lemma executable_representable:
  assumes "ensure_query_is_executable E c = Inr ()"
  shows "ensure_conditions_are_representable (value_debug E) (is_json_path E) (mut_backend E) (backend_debug E) (mut_model E)
    (scoped include only c) = Inr ()"
  using assms
  by (simp add: ensure_query_is_executable_def try_bind_Inr_iff ensure_conditions_are_representable_def scoped_def all_conditions_def)

lemma find_where: "find_str (lit '' WHERE '') (lit ''SELECT 1 WHERE '' @ w) = Some 8"
  by (simp add: lit_def)

text \<open>The text of a query's filters under a scope, and the rows it keeps.\<close>

lemma where_text:
  assumes engine: "engine_renders T E c" and ok: "ensure_query_is_executable E c = Inr ()"
    and w: "rendered_where E (scoped include only c) = (w, ps)"
  shows "w = [] \<Longrightarrow> ps = [] \<and> (\<forall>h trashed. matches_row (mut_model E) (scoped include only c) h trashed)"
    and "w \<noteq> [] \<Longrightarrow> (\<exists>tree. mut_sea E (mut_backend E) tree = (lit ''SELECT 1 WHERE '' @ w, ps))
      \<and> (where_keeps T w ps r \<longleftrightarrow> matches_row (mut_model E) (scoped include only c) (row_truth T r) (row_trashed T r))"
proof -
  define tree where "tree = build_sea_condition_for_db (mut_model E) (scoped include only c)"
  have holds: "condition_holds (row_leaf h trashed) tree
      \<longleftrightarrow> matches_row (mut_model E) (scoped include only c) h trashed" for h trashed
    unfolding tree_def by (rule condition_tree_holds [OF executable_representable [OF ok]])
  have eq: "rendered_where E (scoped include only c) = (if tree = CondAll [] then ([], [])
      else case mut_sea E (mut_backend E) tree of (sql, values) \<Rightarrow>
        (case find_str (lit '' WHERE '') sql of Some start \<Rightarrow> (drop (start + 7) sql, values) | None \<Rightarrow> ([], [])))"
    by (simp add: rendered_where_def build_where_clause_with_condition_for_db_def mut_rendering_def tree_def
        split: condition.split list.split)
  have "(w = [] \<longrightarrow> ps = [] \<and> tree = CondAll []) \<and> (w \<noteq> [] \<longrightarrow>
      (\<exists>tree. mut_sea E (mut_backend E) tree = (lit ''SELECT 1 WHERE '' @ w, ps))
      \<and> (\<forall>r. where_keeps T w ps r \<longleftrightarrow> condition_holds (row_leaf (row_truth T r) (row_trashed T r)) tree))"
  proof (cases "tree = CondAll []")
    case False
    with engine obtain w' ps' where w': "w' \<noteq> []" "mut_sea E (mut_backend E) tree = (lit ''SELECT 1 WHERE '' @ w', ps')"
      and keeps: "\<forall>r. where_keeps T w' ps' r \<longleftrightarrow> condition_holds (row_leaf (row_truth T r) (row_trashed T r)) tree"
      unfolding engine_renders_def tree_def Let_def by blast
    have "drop 15 (lit ''SELECT 1 WHERE '' @ w') = w'" by (simp add: lit_def)
    with False w' w have "w = w'" "ps = ps'" by (simp_all add: eq find_where)
    with w' keeps show ?thesis by blast
  qed (use w in \<open>simp add: eq\<close>)
  then show "w = [] \<Longrightarrow> ps = [] \<and> (\<forall>h trashed. matches_row (mut_model E) (scoped include only c) h trashed)"
    and "w \<noteq> [] \<Longrightarrow> (\<exists>tree. mut_sea E (mut_backend E) tree = (lit ''SELECT 1 WHERE '' @ w, ps))
      \<and> (where_keeps T w ps r \<longleftrightarrow> matches_row (mut_model E) (scoped include only c) (row_truth T r) (row_trashed T r))"
    using holds by auto
qed

lemma restrictive_text: "ensure_rendered_filter_is_restrictive operation w = Inr () \<Longrightarrow> w \<noteq> []"
  by (auto simp: ensure_rendered_filter_is_restrictive_def is_unrestricted_where_body_def)

abbreviation row_matches :: "('r, 'v) table_reading \<Rightarrow> ('v, 't, 'd, 'k) mutation_env \<Rightarrow> ('v, 't, 'd) Clauses \<Rightarrow> 'r \<Rightarrow> bool" where
  "row_matches T E q r \<equiv> matches_row (mut_model E) q (row_truth T r) (row_trashed T r)"

lemma statement_effects:
  assumes "runs_statements T E" "engine_renders T E c" "ensure_query_is_executable E c = Inr ()"
    "rendered_where E (scoped include only c) = (w, ps)" "w \<noteq> []"
  shows "run_sql T (lit ''DELETE FROM '' @ quote_table (mut_model E) (mut_backend E) @ lit '' WHERE '' @ w) ps rows
      = filter (\<lambda>r. \<not> row_matches T E (scoped include only c) r) rows"
    and "v \<in> {timestamp E, lit ''NULL''} \<Longrightarrow> run_sql T (deleted_at_update_sql (mut_model E) (mut_backend E) v w) ps rows
      = map (\<lambda>r. if row_matches T E (scoped include only c) r then set_deleted_at T v r else r) rows"
proof -
  note kept = where_text(2) [OF assms(2-5)]
  from kept have "\<exists>tree. mut_sea E (mut_backend E) tree = (lit ''SELECT 1 WHERE '' @ w, ps)" by blast
  with assms(1) have "run_sql T (lit ''DELETE FROM '' @ quote_table (mut_model E) (mut_backend E) @ lit '' WHERE '' @ w) ps rows
        = filter (\<lambda>r. \<not> where_keeps T w ps r) rows"
    "v \<in> {timestamp E, lit ''NULL''} \<Longrightarrow> run_sql T (deleted_at_update_sql (mut_model E) (mut_backend E) v w) ps rows
        = map (\<lambda>r. if where_keeps T w ps r then set_deleted_at T v r else r) rows"
    unfolding runs_statements_def by blast+
  moreover have "where_keeps T w ps r \<longleftrightarrow> row_matches T E (scoped include only c) r" for r using kept by blast
  ultimately show "run_sql T (lit ''DELETE FROM '' @ quote_table (mut_model E) (mut_backend E) @ lit '' WHERE '' @ w) ps rows
      = filter (\<lambda>r. \<not> row_matches T E (scoped include only c) r) rows"
    and "v \<in> {timestamp E, lit ''NULL''} \<Longrightarrow> run_sql T (deleted_at_update_sql (mut_model E) (mut_backend E) v w) ps rows
      = map (\<lambda>r. if row_matches T E (scoped include only c) r then set_deleted_at T v r else r) rows" by simp_all
qed

text \<open>What each terminal was rendered from, once it is accepted.\<close>

lemma soft_delete_accepted:
  assumes "soft_delete E c = Inr (sql, params)"
  shows "\<exists>w. ensure_query_is_executable E c = Inr () \<and> soft_delete_enabled (mut_model E)
    \<and> has_explicit_mutation_filters (json_column E) c
    \<and> rendered_where E (scoped False False c) = (w, params) \<and> w \<noteq> []
    \<and> sql = deleted_at_update_sql (mut_model E) (mut_backend E) (timestamp E) w"
  using assms
  by (auto simp: soft_delete_def build_soft_delete_sql_def try_bind_Inr_iff guards_passed scoped_forms(1)
      dest: restrictive_text split: if_splits prod.splits)

lemma delete_accepted:
  assumes "build_delete_sql E operation (scoped include only c) = Inr (sql, params)"
  shows "\<exists>w. rendered_where E (scoped include only c) = (w, params) \<and> w \<noteq> []
    \<and> sql = lit ''DELETE FROM '' @ quote_table (mut_model E) (mut_backend E) @ lit '' WHERE '' @ w"
  using assms by (auto simp: build_delete_sql_def try_bind_Inr_iff dest: restrictive_text split: prod.splits)

lemma restore_accepted:
  assumes "restore E c = Inr (sql, params)"
  shows "\<exists>w. ensure_query_is_executable E c = Inr () \<and> soft_delete_enabled (mut_model E)
    \<and> (only_trashed c \<or> has_explicit_mutation_filters (json_column E) c)
    \<and> rendered_where E (scoped False True c) = (w, params) \<and> w \<noteq> []
    \<and> sql = deleted_at_update_sql (mut_model E) (mut_backend E) (lit ''NULL'') w"
  using assms
  by (auto simp: restore_def try_bind_Inr_iff guards_passed scoped_forms(2)
      dest: restrictive_text split: if_splits prod.splits)

lemma soft_delete_effect:
  assumes "runs_statements T E" "engine_renders T E c" "soft_delete E c = Inr (sql, params)"
  shows "run_sql T sql params rows
    = map (\<lambda>r. if filters_hold (row_truth T r) c \<and> \<not> row_trashed T r then set_deleted_at T (timestamp E) r else r) rows"
proof -
  from soft_delete_accepted [OF assms(3)] obtain w where acc: "ensure_query_is_executable E c = Inr ()"
    "soft_delete_enabled (mut_model E)" "rendered_where E (scoped False False c) = (w, params)" "w \<noteq> []"
    "sql = deleted_at_update_sql (mut_model E) (mut_backend E) (timestamp E) w" by blast
  show ?thesis
    using statement_effects(2) [OF assms(1,2) acc(1,3,4), of "timestamp E" rows] acc(2,5)
    by (simp add: matches_scoped query_scope_for_def)
qed

lemma restore_effect:
  assumes "runs_statements T E" "engine_renders T E c" "restore E c = Inr (sql, params)"
  shows "run_sql T sql params rows
    = map (\<lambda>r. if filters_hold (row_truth T r) c \<and> row_trashed T r then set_deleted_at T (lit ''NULL'') r else r) rows"
proof -
  from restore_accepted [OF assms(3)] obtain w where acc: "ensure_query_is_executable E c = Inr ()"
    "soft_delete_enabled (mut_model E)" "rendered_where E (scoped False True c) = (w, params)" "w \<noteq> []"
    "sql = deleted_at_update_sql (mut_model E) (mut_backend E) (lit ''NULL'') w" by blast
  show ?thesis
    using statement_effects(2) [OF assms(1,2) acc(1,3,4), of "lit ''NULL''" rows] acc(2,5)
    by (simp add: matches_scoped query_scope_for_def)
qed

lemma delete_effect:
  assumes "runs_statements T E" "engine_renders T E c" "ensure_query_is_executable E c = Inr ()"
    "build_delete_sql E operation (scoped include only c) = Inr (sql, params)"
  shows "run_sql T sql params rows = filter (\<lambda>r. \<not> (filters_hold (row_truth T r) c
    \<and> scope_admits (query_scope_for (mut_model E) include only) (row_trashed T r))) rows"
proof -
  from delete_accepted [OF assms(4)] obtain w where acc: "rendered_where E (scoped include only c) = (w, params)" "w \<noteq> []"
    "sql = lit ''DELETE FROM '' @ quote_table (mut_model E) (mut_backend E) @ lit '' WHERE '' @ w" by blast
  show ?thesis
    using statement_effects(1) [OF assms(1-3) acc(1,2), of rows] acc(3) by (simp add: matches_scoped)
qed

lemma delete_rows_effect:
  assumes "runs_statements T E" "engine_renders T E c" "delete_rows E c = Inr (sql, params)"
  shows "run_sql T sql params rows =
    (if soft_delete_enabled (mut_model E)
     then map (\<lambda>r. if filters_hold (row_truth T r) c \<and> \<not> row_trashed T r then set_deleted_at T (timestamp E) r else r) rows
     else filter (\<lambda>r. \<not> filters_hold (row_truth T r) c) rows)"
proof (cases "soft_delete_enabled (mut_model E)")
  case True
  then have "soft_delete E c = Inr (sql, params)" using assms(3) by (auto simp: delete_rows_def try_bind_Inr_iff)
  with soft_delete_effect [OF assms(1,2)] True show ?thesis by simp
next
  case False
  then have "ensure_query_is_executable E c = Inr ()"
    "build_delete_sql E (lit ''delete'') (scoped (include_trashed c) (only_trashed c) c) = Inr (sql, params)"
    using assms(3) by (auto simp: delete_rows_def try_bind_Inr_iff simp flip: scoped_forms(4))
  from delete_effect [OF assms(1,2) this] False show ?thesis by (simp add: query_scope_for_def)
qed

lemma force_delete_effect:
  assumes "runs_statements T E" "engine_renders T E c" "force_delete E c = Inr (sql, params)"
  shows "run_sql T sql params rows
    = filter (\<lambda>r. \<not> (filters_hold (row_truth T r) c \<and> (only_trashed c \<longrightarrow> row_trashed T r))) rows"
proof -
  have ok: "ensure_query_is_executable E c = Inr ()" and trash: "only_trashed c \<longrightarrow> soft_delete_enabled (mut_model E)"
    and sql: "build_delete_sql E (lit ''force_delete'')
      (scoped (if only_trashed c then include_trashed c else True) (only_trashed c) c) = Inr (sql, params)"
    using assms(3) scoped_forms(3,4) [of c]
    by (auto simp: force_delete_def try_bind_Inr_iff guards_passed split: if_splits)
  from delete_effect [OF assms(1,2) ok sql] trash show ?thesis
    by (cases "only_trashed c") (simp_all add: query_scope_for_def)
qed

lemma delete_all_effect:
  assumes "runs_statements T E" "engine_renders T E c" "delete_all E c = Inr (sql, params)"
  shows "run_sql T sql params rows =
    (if soft_delete_enabled (mut_model E)
     then map (\<lambda>r. if filters_hold (row_truth T r) c \<and> \<not> row_trashed T r then set_deleted_at T (timestamp E) r else r) rows
     else filter (\<lambda>r. \<not> filters_hold (row_truth T r) c) rows)"
proof -
  have ok: "ensure_query_is_executable E c = Inr ()" using assms(3) by (auto simp: delete_all_def try_bind_Inr_iff)
  show ?thesis
  proof (cases "soft_delete_enabled (mut_model E)")
    case True
    with assms(3) obtain w where w: "rendered_where E (scoped False False c) = (w, params)"
      "sql = deleted_at_update_sql (mut_model E) (mut_backend E) (timestamp E) w"
      by (auto simp: delete_all_def try_bind_Inr_iff scoped_forms(1) split: prod.splits)
    have "w \<noteq> []"
      using where_text(1) [OF assms(2) ok w(1)] True by (auto simp: matches_scoped query_scope_for_def)
    from statement_effects(2) [OF assms(1,2) ok w(1) this, of "timestamp E" rows] w(2) True show ?thesis
      by (simp add: matches_scoped query_scope_for_def)
  next
    case False
    with assms(3) obtain w where w: "rendered_where E (scoped (include_trashed c) (only_trashed c) c) = (w, params)"
      "sql = lit ''DELETE FROM '' @ quote_table (mut_model E) (mut_backend E) @ (if w = [] then [] else lit '' WHERE '' @ w)"
      by (auto simp: delete_all_def try_bind_Inr_iff simp flip: scoped_forms(4) split: prod.splits)
    show ?thesis
    proof (cases "w = []")
      case True
      then have "params = []" "filters_hold h c" for h
        using where_text(1) [OF assms(2) ok w(1)] by (auto simp: matches_scoped)
      with True w(2) False assms(1) show ?thesis by (simp add: runs_statements_def)
    next
      case nonempty: False
      from statement_effects(1) [OF assms(1,2) ok w(1) nonempty, of rows] nonempty w(2) False show ?thesis
        by (simp add: matches_scoped query_scope_for_def)
    qed
  qed
qed

text \<open>C4. What the statements of \<open>delete\<close>, \<open>soft_delete\<close>, \<open>restore\<close>, \<open>force_delete\<close> and \<open>delete_all\<close> do to the
  table, on a database that runs \<open>DELETE\<close> and \<open>UPDATE\<close> as SQL has it. On a model with soft delete,
  \<open>delete\<close>, \<open>soft_delete\<close> and \<open>delete_all\<close> remove no row and stamp exactly the live rows that pass the
  query's filters; \<open>restore\<close> clears the stamp of exactly the trashed rows that pass them;
  \<open>force_delete\<close> removes exactly the rows that pass them, and only trashed ones when the query asked
  for those. On a model without soft delete \<open>delete\<close> and \<open>delete_all\<close> remove exactly the rows that
  pass. All but \<open>delete_all\<close> need a filter that can exclude a row, or \<open>only_trashed()\<close> for
  \<open>restore\<close> and \<open>force_delete\<close>; \<open>delete_all\<close> takes none.\<close>

theorem mutation_scopes:
  assumes "runs_statements T E" and "engine_renders T E c"
  shows "(soft_delete E c = Inr (sql, params) \<longrightarrow>
       run_sql T sql params rows = map (\<lambda>r. if filters_hold (row_truth T r) c \<and> \<not> row_trashed T r
         then set_deleted_at T (timestamp E) r else r) rows
       \<and> has_explicit_mutation_filters (json_column E) c)
   \<and> (delete_rows E c = Inr (sql, params) \<longrightarrow>
       run_sql T sql params rows =
         (if soft_delete_enabled (mut_model E)
          then map (\<lambda>r. if filters_hold (row_truth T r) c \<and> \<not> row_trashed T r then set_deleted_at T (timestamp E) r else r) rows
          else filter (\<lambda>r. \<not> filters_hold (row_truth T r) c) rows)
       \<and> has_explicit_mutation_filters (json_column E) c)
   \<and> (restore E c = Inr (sql, params) \<longrightarrow>
       run_sql T sql params rows = map (\<lambda>r. if filters_hold (row_truth T r) c \<and> row_trashed T r
         then set_deleted_at T (lit ''NULL'') r else r) rows
       \<and> (only_trashed c \<or> has_explicit_mutation_filters (json_column E) c))
   \<and> (force_delete E c = Inr (sql, params) \<longrightarrow>
       run_sql T sql params rows
         = filter (\<lambda>r. \<not> (filters_hold (row_truth T r) c \<and> (only_trashed c \<longrightarrow> row_trashed T r))) rows
       \<and> (only_trashed c \<or> has_explicit_mutation_filters (json_column E) c))
   \<and> (delete_all E c = Inr (sql, params) \<longrightarrow>
       run_sql T sql params rows =
         (if soft_delete_enabled (mut_model E)
          then map (\<lambda>r. if filters_hold (row_truth T r) c \<and> \<not> row_trashed T r then set_deleted_at T (timestamp E) r else r) rows
          else filter (\<lambda>r. \<not> filters_hold (row_truth T r) c) rows)
       \<and> \<not> has_explicit_mutation_filters (json_column E) c)"
proof (intro conjI impI)
  show "has_explicit_mutation_filters (json_column E) c" if "soft_delete E c = Inr (sql, params)"
    using soft_delete_accepted [OF that] by blast
  then show "has_explicit_mutation_filters (json_column E) c" if "delete_rows E c = Inr (sql, params)"
    using that by (auto simp: delete_rows_def try_bind_Inr_iff guards_passed split: if_splits)
  show "only_trashed c \<or> has_explicit_mutation_filters (json_column E) c" if "restore E c = Inr (sql, params)"
    using restore_accepted [OF that] by blast
  show "only_trashed c \<or> has_explicit_mutation_filters (json_column E) c" if "force_delete E c = Inr (sql, params)"
    using that by (auto simp: force_delete_def try_bind_Inr_iff guards_passed split: if_splits)
  show "\<not> has_explicit_mutation_filters (json_column E) c" if "delete_all E c = Inr (sql, params)"
    using that by (auto simp: delete_all_def try_bind_Inr_iff guards_passed)
qed (rule soft_delete_effect [OF assms] delete_rows_effect [OF assms] restore_effect [OF assms]
    force_delete_effect [OF assms] delete_all_effect [OF assms], assumption)+

subsection \<open>A table of posts\<close>

text \<open>An instance: rows with a title and a stamp, and a database that reads the three texts the engine
  writes for a filter on the title.\<close>

definition demo_sea :: "DatabaseType \<Rightarrow> unit condition \<Rightarrow> ustr \<times> unit list" where
  "demo_sea db tree = (lit ''SELECT 1 WHERE title = $1'' @
     (case tree of
        CondAll parts \<Rightarrow>
          if CondExpr DeletedIsNull \<in> set parts then lit '' AND deleted_at IS NULL''
          else if CondExpr DeletedIsNotNull \<in> set parts then lit '' AND deleted_at IS NOT NULL'' else []
      | _ \<Rightarrow> []), [()])"

definition demo_keeps :: "ustr \<Rightarrow> unit list \<Rightarrow> ustr \<times> ustr option \<Rightarrow> bool" where
  "demo_keeps w ps r \<longleftrightarrow> fst r = lit ''x''
     \<and> (w = lit ''title = $1 AND deleted_at IS NULL'' \<longrightarrow> snd r = None)
     \<and> (w = lit ''title = $1 AND deleted_at IS NOT NULL'' \<longrightarrow> snd r \<noteq> None)"

definition demo_mutation_env :: "(unit, unit, unit, unit) mutation_env" where
  "demo_mutation_env = \<lparr>mut_checks = demo_validation_env, mut_sea = demo_sea, mut_offset = (\<lambda>_. ()), mut_backend = Postgres,
     json_column = (\<lambda>_. False), value_debug = (\<lambda>_. []), backend_debug = lit ''Postgres'', is_json_path = (\<lambda>_. True),
     timestamp = lit ''CURRENT_TIMESTAMP''\<rparr>"

definition stamped :: "ustr \<Rightarrow> ustr \<times> ustr option \<Rightarrow> ustr \<times> ustr option" where
  "stamped v r = (fst r, if v = lit ''NULL'' then None else Some v)"

definition demo_run :: "ustr \<Rightarrow> unit list \<Rightarrow> (ustr \<times> ustr option) list \<Rightarrow> (ustr \<times> ustr option) list" where
  "demo_run sql ps rows =
     (case strip_prefix (lit ''DELETE FROM '' @ quote_table demo_model Postgres @ lit '' WHERE '') sql of
        Some w \<Rightarrow> filter (\<lambda>r. \<not> demo_keeps w ps r) rows
      | None \<Rightarrow>
          (case strip_prefix (deleted_at_update_sql demo_model Postgres (lit ''CURRENT_TIMESTAMP'') []) sql of
             Some w \<Rightarrow> map (\<lambda>r. if demo_keeps w ps r then stamped (lit ''CURRENT_TIMESTAMP'') r else r) rows
           | None \<Rightarrow>
               (case strip_prefix (deleted_at_update_sql demo_model Postgres (lit ''NULL'') []) sql of
                  Some w \<Rightarrow> map (\<lambda>r. if demo_keeps w ps r then stamped (lit ''NULL'') r else r) rows
                | None \<Rightarrow> if sql = lit ''DELETE FROM '' @ quote_table demo_model Postgres then [] else rows)))"

definition demo_table :: "(ustr \<times> ustr option, unit) table_reading" where
  "demo_table = \<lparr>row_truth = (\<lambda>r w. fst r = lit ''x''), row_trashed = (\<lambda>r. snd r \<noteq> None), where_keeps = demo_keeps,
     set_deleted_at = stamped, run_sql = demo_run\<rparr>"

lemma update_text: "deleted_at_update_sql M db v w = deleted_at_update_sql M db v [] @ w"
  by (simp add: deleted_at_update_sql_def)

lemma demo_quoted: "quote_table demo_model Postgres = lit ''\"posts\"''" "quote_ident Postgres (deleted_at_column demo_model) = lit ''\"deleted_at\"''"
  by code_simp+

lemma demo_runs: "runs_statements demo_table demo_mutation_env"
  by (simp add: runs_statements_def demo_table_def demo_mutation_env_def demo_validation_env_def demo_builder_env_def
      demo_run_def strip_prefix_def deleted_at_update_sql_def demo_quoted lit_def)

lemma demo_tree:
  "build_sea_condition_for_db demo_model (scoped include only demo_filtered) =
     CondAll (CondExpr (LeafCondition demo_filter (SpecCompare CmpEq (JString (lit ''x''))))
       # (if only then [CondExpr DeletedIsNotNull] else if include then [] else [CondExpr DeletedIsNull]))"
  by (simp add: build_sea_condition_for_db_def build_soft_delete_expression_def query_scope_for_def scoped_def
      demo_filtered_def push_condition_def default_clauses_def build_condition_leaf_def condition_spec_def demo_filter_def
      demo_model_def Let_def)

lemma demo_renders: "engine_renders demo_table demo_mutation_env demo_filtered"
proof -
  have model: "mut_model demo_mutation_env = demo_model"
    by (simp add: demo_mutation_env_def demo_validation_env_def demo_builder_env_def)
  show ?thesis
    unfolding engine_renders_def model demo_tree Let_def
    by (auto simp: demo_mutation_env_def demo_sea_def demo_table_def demo_keeps_def lit_def)
qed

theorem mutation_scopes_witness:
  "\<exists>sql params. delete_rows demo_mutation_env demo_filtered = Inr (sql, params)
     \<and> run_sql demo_table sql params [(lit ''x'', None), (lit ''y'', None), (lit ''x'', Some (lit ''long ago''))]
       = [(lit ''x'', Some (lit ''CURRENT_TIMESTAMP'')), (lit ''y'', None), (lit ''x'', Some (lit ''long ago''))]"
proof -
  have "case delete_rows demo_mutation_env demo_filtered of Inr _ \<Rightarrow> True | Inl _ \<Rightarrow> False" by code_simp
  then obtain sql params where run: "delete_rows demo_mutation_env demo_filtered = Inr (sql, params)"
    by (auto split: sum.splits)
  have "filters_hold (row_truth demo_table r) demo_filtered \<longleftrightarrow> fst r = lit ''x''" for r
    by (simp add: filters_hold_def demo_filtered_def push_condition_def default_clauses_def demo_table_def)
  moreover have "soft_delete_enabled (mut_model demo_mutation_env)"
    by (simp add: demo_mutation_env_def demo_validation_env_def demo_builder_env_def demo_model_def)
  moreover have "row_trashed demo_table r \<longleftrightarrow> snd r \<noteq> None" "set_deleted_at demo_table = stamped"
    "timestamp demo_mutation_env = lit ''CURRENT_TIMESTAMP''" for r
    by (simp_all add: demo_table_def demo_mutation_env_def)
  ultimately show ?thesis
    using run mutation_scopes [OF demo_runs demo_renders, of sql params
        "[(lit ''x'', None), (lit ''y'', None), (lit ''x'', Some (lit ''long ago''))]"]
    by (auto simp: stamped_def lit_def)
qed

end
