(* ===== verification/Json_Tests.thy ===== *)
theory Json_Tests
  imports Query_Conditions
begin

text \<open>
  The JSON tests a filter renders: \<open>src/src/query/db_sql/sqlite_json.rs\<close>, which rebuilds PostgreSQL's
  containment and equality from \<open>json_each\<close> rows, and the dispatch of \<open>src/src/query/db_sql.rs\<close>.

  Serde's writer is the parameter \<open>json_text\<close>, its text of a number \<open>number_text\<close>. The tests are
  modelled as the text they are, with the values bound to their markers in order. What the text means
  is given by the tests it writes, \<open>sql_test\<close>, and the reading of them over a stored document, \<open>holds\<close>.

  One reading is taken on trust. The subselect that splits a stored number's text into sign,
  coefficient and scale is the text of \<open>number_sql\<close>, on the side of the renderer and on the side of
  \<open>test_sql\<close>; its meaning, \<open>sqlite_parts\<close>, is given as what SQLite's string functions compute from
  that text and is not derived from them. The properties of the tests pin where a number is tested,
  against which bound values and how the test is combined, not the subselect's own wording.
\<close>

section \<open>The renderer\<close>

subsection \<open>Bound values and numbers\<close>

record json_env =
  json_text :: "Json \<Rightarrow> ustr"
  number_text :: "f64 option \<Rightarrow> int option \<Rightarrow> ustr"

datatype Bound = BText ustr | BBool bool | BInt int | BJson Json

definition fits_i64 :: "int \<Rightarrow> bool" where
  "fits_i64 n \<longleftrightarrow> - (2 ^ 63) \<le> n \<and> n < 2 ^ 63"

definition checked_i64 :: "int \<Rightarrow> int option" where
  "checked_i64 n = (if fits_i64 n then Some n else None)"

text \<open>\<open>str::parse::<i64>\<close>: an optional sign, at least one digit, nothing else, no overflow.\<close>

definition parse_i64 :: "ustr \<Rightarrow> int option" where
  "parse_i64 s =
     (let (negative, ds) = (case s of
            [] \<Rightarrow> (False, [])
          | c # r \<Rightarrow> if c = ch_minus then (True, r) else if c = 43 then (False, r) else (False, s))
      in if ds \<noteq> [] \<and> list_all is_ascii_digit ds
         then checked_i64 (if negative then - int (digits_value 0 ds) else int (digits_value 0 ds))
         else None)"

text \<open>The text before and after the first character with a property.\<close>

definition split_first :: "(uchar \<Rightarrow> bool) \<Rightarrow> ustr \<Rightarrow> (ustr \<times> ustr) option" where
  "split_first p s =
     (case dropWhile (\<lambda>c. \<not> p c) s of [] \<Rightarrow> None | _ # r \<Rightarrow> Some (takeWhile (\<lambda>c. \<not> p c) s, r))"

definition trim_zeros_start :: "ustr \<Rightarrow> ustr" where
  "trim_zeros_start s = dropWhile (\<lambda>c. c = 48) s"

definition trim_zeros_end :: "ustr \<Rightarrow> ustr" where
  "trim_zeros_end s = rev (dropWhile (\<lambda>c. c = 48) (rev s))"

definition json_decimal_parts :: "ustr \<Rightarrow> bool \<times> ustr \<times> int option" where
  "json_decimal_parts text =
     (let negative = starts_with text [ch_minus];
          unsigned = dropWhile (\<lambda>c. c = ch_minus) text;
          (mantissa, exponent) = (case split_first (\<lambda>c. c = 101 \<or> c = 69) unsigned of
              Some (mantissa, exponent) \<Rightarrow> (mantissa, parse_i64 exponent)
            | None \<Rightarrow> (unsigned, Some 0));
          fraction = (case split_first (\<lambda>c. c = ch_dot) mantissa of None \<Rightarrow> 0 | Some (_, f) \<Rightarrow> utf8_len f);
          digits = filter (\<lambda>c. c \<noteq> ch_dot) mantissa;
          trimmed = trim_zeros_end digits;
          coefficient = trim_zeros_start trimmed;
          scale = Option.bind exponent (\<lambda>exponent.
            Option.bind (checked_i64 (int fraction)) (\<lambda>fraction.
            Option.bind (checked_i64 (exponent - fraction)) (\<lambda>m.
            Option.bind (checked_i64 (int (utf8_len digits - utf8_len trimmed))) (\<lambda>zeros.
            checked_i64 (m + zeros)))))
      in (negative, coefficient, scale))"

subsection \<open>The nodes a test inspects\<close>

text \<open>\<open>Node\<close> of the source keeps four SQL texts; both of its constructors are the two cases here.\<close>

datatype node = Document ustr | Row ustr

fun node_json :: "node \<Rightarrow> ustr" where
  "node_json (Document column_sql) = column_sql"
| "node_json (Row alias) = alias @ lit ''.value''"

fun node_raw_json :: "node \<Rightarrow> ustr" where
  "node_raw_json (Document column_sql) = [ch_lparen] @ column_sql @ lit '' -> '$')''"
| "node_raw_json (Row alias) = [ch_lparen] @ alias @ lit ''.json -> '' @ alias @ lit ''.fullkey)''"

fun node_kind :: "node \<Rightarrow> ustr" where
  "node_kind (Document column_sql) = lit ''json_type('' @ column_sql @ [ch_rparen]"
| "node_kind (Row alias) = alias @ lit ''.type''"

fun node_atom :: "node \<Rightarrow> ustr" where
  "node_atom (Document column_sql) = lit ''json_extract('' @ column_sql @ lit '', '$')''"
| "node_atom (Row alias) = alias @ lit ''.atom''"

subsection \<open>The tests\<close>

record json_tests =
  test_values :: "Bound list"
  test_aliases :: nat

definition no_tests :: json_tests where
  "no_tests = \<lparr>test_values = [], test_aliases = 0\<rparr>"

definition bind_values :: "Bound list \<Rightarrow> json_tests \<Rightarrow> json_tests" where
  "bind_values vs b = b\<lparr>test_values := test_values b @ vs\<rparr>"

definition next_alias :: "json_tests \<Rightarrow> ustr \<times> json_tests" where
  "next_alias b =
     (let n = test_aliases b + 1 in (lit ''tide_json_'' @ show_nat n, b\<lparr>test_aliases := n\<rparr>))"

definition kind_is :: "node \<Rightarrow> string \<Rightarrow> ustr" where
  "kind_is n k = node_kind n @ lit '' = '' @ [ch_quote] @ lit k @ [ch_quote]"

definition exists_row :: "node \<Rightarrow> ustr \<Rightarrow> ustr \<Rightarrow> ustr" where
  "exists_row n alias condition =
     lit ''EXISTS (SELECT 1 FROM json_each('' @ node_json n @ lit '') AS '' @ alias @ lit '' WHERE '' @ condition @ [ch_rparen]"

definition parenthesized :: "ustr \<Rightarrow> ustr" where
  "parenthesized s = [ch_lparen] @ s @ [ch_rparen]"

definition any_of :: "ustr list \<Rightarrow> ustr" where
  "any_of alternatives = (if alternatives = [] then lit ''(0)'' else parenthesized (join (lit '' OR '') alternatives))"

definition number_sql :: "node \<Rightarrow> ustr \<Rightarrow> ustr" where
  "number_sql n comparison =
     [ch_lparen] @ node_kind n @ lit '' IN ('integer', 'real') AND (WITH tide_num_token AS (SELECT lower('' @ node_raw_json n
     @ lit '') AS token), tide_num_unsigned AS (SELECT substr(token, 1, 1) = '-' AS negative, CASE WHEN substr(token, 1, 1) = '-' THEN substr(token, 2) ELSE token END AS digits FROM tide_num_token), tide_num_parts AS (SELECT negative, CASE WHEN instr(digits, 'e') > 0 THEN substr(digits, 1, instr(digits, 'e') - 1) ELSE digits END AS mantissa, CASE WHEN instr(digits, 'e') > 0 THEN CAST(substr(digits, instr(digits, 'e') + 1) AS INTEGER) ELSE 0 END AS exponent FROM tide_num_unsigned), tide_num_digits AS (SELECT negative, replace(mantissa, '.', ''
     @ [ch_quote, ch_quote]
     @ lit '') AS digits, exponent - CASE WHEN instr(mantissa, '.') > 0 THEN length(mantissa) - instr(mantissa, '.') ELSE 0 END AS exponent FROM tide_num_parts), tide_num_normal AS (SELECT negative, ltrim(rtrim(digits, '0'), '0') AS coefficient, exponent + length(digits) - length(rtrim(digits, '0')) AS scale FROM tide_num_digits) SELECT ''
     @ comparison @ lit '' FROM tide_num_normal))''"

definition number_equals :: "node \<Rightarrow> ustr \<Rightarrow> json_tests \<Rightarrow> ustr \<times> json_tests" where
  "number_equals n text b =
     (case json_decimal_parts text of (negative, coefficient, scale) \<Rightarrow>
        if coefficient = [] then (number_sql n (lit ''coefficient = '' @ [ch_quote, ch_quote]), b)
        else (case scale of
            Some scale \<Rightarrow> (number_sql n (lit ''coefficient = ? AND negative = ? AND scale = ?''),
                bind_values [BText coefficient, BBool negative, BInt scale] b)
          | None \<Rightarrow> (number_sql n (lit ''0''), b)))"

text \<open>\<open>scalar_equals\<close> is reached with a scalar only; the source marks the other case unreachable.\<close>

fun scalar_equals :: "json_env \<Rightarrow> node \<Rightarrow> Json \<Rightarrow> json_tests \<Rightarrow> ustr \<times> json_tests" where
  "scalar_equals E n JNull b = (kind_is n ''null'', b)"
| "scalar_equals E n (JBool v) b = (kind_is n (if v then ''true'' else ''false''), b)"
| "scalar_equals E n (JNumber f i) b = number_equals n (number_text E f i) b"
| "scalar_equals E n (JString text) b =
     (parenthesized (kind_is n ''text'' @ lit '' AND '' @ node_atom n @ lit '' = ?''), bind_values [BText text] b)"
| "scalar_equals E n _ b = undefined"

fun is_scalar :: "Json \<Rightarrow> bool" where
  "is_scalar (JArray _) = False" | "is_scalar (JObject _) = False" | "is_scalar _ = True"

fun contains_json :: "json_env \<Rightarrow> node \<Rightarrow> Json \<Rightarrow> bool \<Rightarrow> json_tests \<Rightarrow> ustr \<times> json_tests"
  and contains_members :: "json_env \<Rightarrow> node \<Rightarrow> (ustr \<times> Json) list \<Rightarrow> json_tests \<Rightarrow> ustr list \<times> json_tests"
  and contains_elements :: "json_env \<Rightarrow> node \<Rightarrow> Json list \<Rightarrow> json_tests \<Rightarrow> ustr list \<times> json_tests" where
  "contains_json E n (JObject ms) top_level b =
     (case contains_members E n ms b of (checks, b) \<Rightarrow>
        (parenthesized (join (lit '' AND '') (kind_is n ''object'' # checks)), b))"
| "contains_json E n (JArray elements) top_level b =
     (case contains_elements E n elements b of (checks, b) \<Rightarrow>
        (parenthesized (join (lit '' AND '') (kind_is n ''array'' # checks)), b))"
| "contains_json E n scalar top_level b =
     (if top_level
      then (case scalar_equals E n scalar b of (equal, b) \<Rightarrow>
            case next_alias b of (alias, b) \<Rightarrow>
            case scalar_equals E (Row alias) scalar b of (element, b) \<Rightarrow>
              (parenthesized (equal @ lit '' OR '' @ parenthesized (kind_is n ''array'' @ lit '' AND '' @ exists_row n alias element)), b))
      else scalar_equals E n scalar b)"
| "contains_members E n [] b = ([], b)"
| "contains_members E n (m # ms) b =
     (case next_alias b of (alias, b) \<Rightarrow>
      case contains_json E (Row alias) (snd m) False (bind_values [BText (fst m)] b) of (member, b) \<Rightarrow>
      case contains_members E n ms b of (checks, b) \<Rightarrow>
        (exists_row n alias (alias @ lit ''.key = ? AND '' @ member) # checks, b))"
| "contains_elements E n [] b = ([], b)"
| "contains_elements E n (e # elements) b =
     (case next_alias b of (alias, b) \<Rightarrow>
      case contains_json E (Row alias) e False b of (element, b) \<Rightarrow>
      case contains_elements E n elements b of (checks, b) \<Rightarrow> (exists_row n alias element # checks, b))"

fun scalars_equal :: "json_env \<Rightarrow> node \<Rightarrow> Json list \<Rightarrow> json_tests \<Rightarrow> ustr list \<times> json_tests" where
  "scalars_equal E n [] b = ([], b)"
| "scalars_equal E n (e # elements) b =
     (if is_scalar e
      then (case scalar_equals E n e b of (equal, b) \<Rightarrow>
            case scalars_equal E n elements b of (equals, b) \<Rightarrow> (equal # equals, b))
      else scalars_equal E n elements b)"

definition no_row_outside :: "node \<Rightarrow> string \<Rightarrow> ustr \<Rightarrow> ustr list \<Rightarrow> ustr" where
  "no_row_outside n kind alias placed =
     parenthesized (kind_is n kind @ lit '' AND NOT '' @ exists_row n alias (lit ''NOT '' @ any_of placed))"

fun contained_by_json :: "json_env \<Rightarrow> node \<Rightarrow> Json \<Rightarrow> bool \<Rightarrow> json_tests \<Rightarrow> ustr \<times> json_tests"
  and placed_members :: "json_env \<Rightarrow> ustr \<Rightarrow> (ustr \<times> Json) list \<Rightarrow> json_tests \<Rightarrow> ustr list \<times> json_tests"
  and placed_elements :: "json_env \<Rightarrow> ustr \<Rightarrow> Json list \<Rightarrow> json_tests \<Rightarrow> ustr list \<times> json_tests" where
  "contained_by_json E n (JObject ms) top_level b =
     (case next_alias b of (alias, b) \<Rightarrow>
      case placed_members E alias ms b of (placed, b) \<Rightarrow> (no_row_outside n ''object'' alias placed, b))"
| "contained_by_json E n (JArray elements) top_level b =
     (case next_alias b of (alias, b) \<Rightarrow>
      case placed_elements E alias elements b of (placed, b) \<Rightarrow>
      let array = no_row_outside n ''array'' alias placed in
      if \<not> top_level then (array, b)
      else (case scalars_equal E n elements b of (scalars, b) \<Rightarrow>
              (parenthesized (array @ lit '' OR '' @ any_of scalars), b)))"
| "contained_by_json E n scalar top_level b = scalar_equals E n scalar b"
| "placed_members E alias [] b = ([], b)"
| "placed_members E alias (m # ms) b =
     (case contained_by_json E (Row alias) (snd m) False (bind_values [BText (fst m)] b) of (member, b) \<Rightarrow>
      case placed_members E alias ms b of (placed, b) \<Rightarrow>
        (parenthesized (alias @ lit ''.key = ? AND '' @ member) # placed, b))"
| "placed_elements E alias [] b = ([], b)"
| "placed_elements E alias (e # elements) b =
     (case contained_by_json E (Row alias) e False b of (element, b) \<Rightarrow>
      case placed_elements E alias elements b of (placed, b) \<Rightarrow> (element # placed, b))"

fun equals_json :: "json_env \<Rightarrow> node \<Rightarrow> Json \<Rightarrow> json_tests \<Rightarrow> ustr \<times> json_tests"
  and equal_members :: "json_env \<Rightarrow> node \<Rightarrow> (ustr \<times> Json) list \<Rightarrow> json_tests \<Rightarrow> ustr list \<times> json_tests"
  and equal_elements :: "json_env \<Rightarrow> node \<Rightarrow> nat \<Rightarrow> Json list \<Rightarrow> json_tests \<Rightarrow> ustr list \<times> json_tests" where
  "equals_json E n (JObject ms) b =
     (case equal_members E n ms b of (checks, b) \<Rightarrow>
        (parenthesized (join (lit '' AND '') ([kind_is n ''object'',
           lit ''(SELECT COUNT(*) FROM json_each('' @ node_json n @ lit '')) = '' @ show_nat (length ms)] @ checks)), b))"
| "equals_json E n (JArray elements) b =
     (case equal_elements E n 0 elements b of (checks, b) \<Rightarrow>
        (parenthesized (join (lit '' AND '') ([kind_is n ''array'',
           lit ''json_array_length('' @ node_json n @ lit '') = '' @ show_nat (length elements)] @ checks)), b))"
| "equals_json E n scalar b = scalar_equals E n scalar b"
| "equal_members E n [] b = ([], b)"
| "equal_members E n (m # ms) b =
     (case next_alias b of (alias, b) \<Rightarrow>
      case equals_json E (Row alias) (snd m) (bind_values [BText (fst m)] b) of (equal, b) \<Rightarrow>
      case equal_members E n ms b of (checks, b) \<Rightarrow>
        (exists_row n alias (alias @ lit ''.key = ? AND '' @ equal) # checks, b))"
| "equal_elements E n index [] b = ([], b)"
| "equal_elements E n index (e # elements) b =
     (case next_alias b of (alias, b) \<Rightarrow>
      case equals_json E (Row alias) e b of (equal, b) \<Rightarrow>
      case equal_elements E n (index + 1) elements b of (checks, b) \<Rightarrow>
        (exists_row n alias (alias @ lit ''.key = '' @ show_nat index @ lit '' AND '' @ equal) # checks, b))"

definition sqlite_json_contains :: "json_env \<Rightarrow> ustr \<Rightarrow> Json \<Rightarrow> ustr \<times> Bound list" where
  "sqlite_json_contains E column_sql candidate =
     (case contains_json E (Document column_sql) candidate True no_tests of (sql, b) \<Rightarrow> (sql, test_values b))"

definition sqlite_json_contained_by :: "json_env \<Rightarrow> ustr \<Rightarrow> Json \<Rightarrow> ustr \<times> Bound list" where
  "sqlite_json_contained_by E column_sql container =
     (case contained_by_json E (Document column_sql) container True no_tests of (sql, b) \<Rightarrow> (sql, test_values b))"

definition sqlite_json_equals :: "json_env \<Rightarrow> ustr \<Rightarrow> Json \<Rightarrow> ustr \<times> Bound list" where
  "sqlite_json_equals E column_sql v =
     (case equals_json E (Document column_sql) v no_tests of (sql, b) \<Rightarrow> (sql, test_values b))"

definition sqlite_json_element_equals :: "json_env \<Rightarrow> ustr \<Rightarrow> Json \<Rightarrow> ustr \<times> Bound list" where
  "sqlite_json_element_equals E alias v =
     (case equals_json E (Row alias) v no_tests of (sql, b) \<Rightarrow> (sql, test_values b))"

section \<open>What the text means\<close>

subsection \<open>Stored documents\<close>

text \<open>A stored document keeps the text of its numbers. \<open>doc_of\<close> is the document a value is written as.\<close>

datatype doc = DNull | DBool bool | DNum ustr | DText ustr | DArr "doc list" | DObj "(ustr \<times> doc) list"

fun doc_of :: "json_env \<Rightarrow> Json \<Rightarrow> doc" where
  "doc_of E JNull = DNull"
| "doc_of E (JBool v) = DBool v"
| "doc_of E (JNumber f i) = DNum (number_text E f i)"
| "doc_of E (JString s) = DText s"
| "doc_of E (JArray xs) = DArr (map (doc_of E) xs)"
| "doc_of E (JObject ms) = DObj (map (\<lambda>m. (fst m, doc_of E (snd m))) ms)"

text \<open>
  A number token of JSON: its sign, its digits and the power of ten of the last one; \<open>None\<close> for any
  other text, and for an exponent SQLite does not read.
\<close>

definition token_number :: "ustr \<Rightarrow> (bool \<times> ustr \<times> int) option" where
  "token_number t =
     (let negative = starts_with t [ch_minus];
          r = (if negative then tl t else t);
          whole = takeWhile is_ascii_digit r;
          r = dropWhile is_ascii_digit r;
          dot = starts_with r [ch_dot];
          fractional = (if dot then takeWhile is_ascii_digit (tl r) else []);
          r = (if dot then dropWhile is_ascii_digit (tl r) else r);
          exponent = (case r of [] \<Rightarrow> Some 0 | c # e \<Rightarrow> if c = 101 \<or> c = 69 then parse_i64 e else None)
      in if whole = [] \<or> dot \<and> fractional = [] then None
         else map_option (\<lambda>e. (negative, whole @ fractional, e - int (length fractional))) exponent)"

definition token_value :: "ustr \<Rightarrow> rat" where
  "token_value t =
     (case token_number t of
        None \<Rightarrow> 0
      | Some (negative, ds, m) \<Rightarrow> (if negative then - 1 else 1) * of_nat (digits_value 0 ds) * 10 powi m)"

text \<open>A token whose exponents stay clear of the ends of \<open>i64\<close> along the computation.\<close>

definition number_ok :: "ustr \<Rightarrow> bool" where
  "number_ok t \<longleftrightarrow>
     (case token_number t of None \<Rightarrow> False
      | Some (_, ds, m) \<Rightarrow> \<bar>m\<bar> + 2 * int (length ds) < 2 ^ 62)"

fun numbers_ok :: "doc \<Rightarrow> bool" where
  "numbers_ok (DNum t) = number_ok t"
| "numbers_ok (DArr ds) = list_all numbers_ok ds"
| "numbers_ok (DObj ms) = list_all (\<lambda>m. numbers_ok (snd m)) ms"
| "numbers_ok _ = True"

fun keys_distinct :: "doc \<Rightarrow> bool" where
  "keys_distinct (DArr ds) = list_all keys_distinct ds"
| "keys_distinct (DObj ms) = (distinct (map fst ms) \<and> list_all (\<lambda>m. keys_distinct (snd m)) ms)"
| "keys_distinct _ = True"

subsection \<open>Containment and equality of documents\<close>

fun same_scalar :: "doc \<Rightarrow> doc \<Rightarrow> bool" where
  "same_scalar (DNum a) (DNum c) = (token_value a = token_value c)"
| "same_scalar (DText a) (DText c) = (a = c)"
| "same_scalar (DBool a) (DBool c) = (a = c)"
| "same_scalar DNull DNull = True"
| "same_scalar _ _ = False"

fun covers :: "doc \<Rightarrow> doc \<Rightarrow> bool" where
  "covers (DObj ds) (DObj cs) = list_all (\<lambda>c. list_ex (\<lambda>d. fst d = fst c \<and> covers (snd d) (snd c)) ds) cs"
| "covers (DArr ds) (DArr cs) = list_all (\<lambda>c. list_ex (\<lambda>d. covers d c) ds) cs"
| "covers d c = same_scalar d c"

fun scalar_doc :: "doc \<Rightarrow> bool" where
  "scalar_doc (DArr _) = False" | "scalar_doc (DObj _) = False" | "scalar_doc _ = True"

text \<open>PostgreSQL's \<open>@>\<close>: at the top level an array also contains a scalar it holds.\<close>

definition pg_contains :: "doc \<Rightarrow> doc \<Rightarrow> bool" where
  "pg_contains d c \<longleftrightarrow>
     covers d c \<or> (case d of DArr ds \<Rightarrow> scalar_doc c \<and> list_ex (\<lambda>e. same_scalar e c) ds | _ \<Rightarrow> False)"

fun same_doc :: "doc \<Rightarrow> doc \<Rightarrow> bool" where
  "same_doc (DObj ds) (DObj cs) =
     (set (map fst ds) = set (map fst cs)
      \<and> list_all (\<lambda>c. case map_of ds (fst c) of None \<Rightarrow> False | Some d \<Rightarrow> same_doc d (snd c)) cs)"
| "same_doc (DArr ds) (DArr cs) = list_all2 same_doc ds cs"
| "same_doc d c = same_scalar d c"

subsection \<open>Reading a test\<close>

datatype comparison = IsZero | SameParts | Never

datatype sql_test =
    KindIs node string
  | KeyParam ustr
  | KeyIndex ustr nat
  | AtomParam node
  | CountIs node nat
  | LengthIs node nat
  | NumberIs node comparison
  | FalseTest
  | NotNullTest ustr
  | AndTest sql_test sql_test
  | OrTest sql_test sql_test
  | NotTest sql_test
  | ParenTest sql_test
  | ExistsTest node ustr sql_test
  | AnyRow node ustr

fun comparison_sql :: "comparison \<Rightarrow> ustr" where
  "comparison_sql IsZero = lit ''coefficient = '' @ [ch_quote, ch_quote]"
| "comparison_sql SameParts = lit ''coefficient = ? AND negative = ? AND scale = ?''"
| "comparison_sql Never = lit ''0''"

fun test_sql :: "sql_test \<Rightarrow> ustr" where
  "test_sql (KindIs n k) = kind_is n k"
| "test_sql (KeyParam alias) = alias @ lit ''.key = ?''"
| "test_sql (KeyIndex alias i) = alias @ lit ''.key = '' @ show_nat i"
| "test_sql (AtomParam n) = node_atom n @ lit '' = ?''"
| "test_sql (CountIs n k) = lit ''(SELECT COUNT(*) FROM json_each('' @ node_json n @ lit '')) = '' @ show_nat k"
| "test_sql (LengthIs n k) = lit ''json_array_length('' @ node_json n @ lit '') = '' @ show_nat k"
| "test_sql (NumberIs n c) = number_sql n (comparison_sql c)"
| "test_sql FalseTest = lit ''0''"
| "test_sql (NotNullTest column_sql) = column_sql @ lit '' IS NOT NULL''"
| "test_sql (AndTest a b) = test_sql a @ lit '' AND '' @ test_sql b"
| "test_sql (OrTest a b) = test_sql a @ lit '' OR '' @ test_sql b"
| "test_sql (NotTest a) = lit ''NOT '' @ test_sql a"
| "test_sql (ParenTest a) = parenthesized (test_sql a)"
| "test_sql (ExistsTest n alias a) = exists_row n alias (test_sql a)"
| "test_sql (AnyRow n alias) = lit ''EXISTS (SELECT 1 FROM json_each('' @ node_json n @ lit '') AS '' @ alias @ [ch_rparen]"

text \<open>How tightly the text of a test binds, and that no operand binds less tightly than its operator.\<close>

fun level :: "sql_test \<Rightarrow> nat" where
  "level (OrTest _ _) = 0" | "level (AndTest _ _) = 1" | "level (NotTest _) = 2" | "level _ = 3"

fun unambiguous :: "sql_test \<Rightarrow> bool" where
  "unambiguous (OrTest a b) \<longleftrightarrow> unambiguous a \<and> unambiguous b"
| "unambiguous (AndTest a b) \<longleftrightarrow> 1 \<le> level a \<and> 1 \<le> level b \<and> unambiguous a \<and> unambiguous b"
| "unambiguous (NotTest a) \<longleftrightarrow> 2 \<le> level a \<and> unambiguous a"
| "unambiguous (ParenTest a) \<longleftrightarrow> unambiguous a"
| "unambiguous (ExistsTest _ _ a) \<longleftrightarrow> unambiguous a"
| "unambiguous _ \<longleftrightarrow> True"

fun markers :: "sql_test \<Rightarrow> nat" where
  "markers (KeyParam _) = 1"
| "markers (AtomParam _) = 1"
| "markers (NumberIs _ c) = (if c = SameParts then 3 else 0)"
| "markers (AndTest a b) = markers a + markers b"
| "markers (OrTest a b) = markers a + markers b"
| "markers (NotTest a) = markers a"
| "markers (ParenTest a) = markers a"
| "markers (ExistsTest _ _ a) = markers a"
| "markers _ = 0"

text \<open>The subselect of a number test, column by column.\<close>

definition sql_instr :: "ustr \<Rightarrow> uchar \<Rightarrow> nat" where
  "sql_instr s c = (let n = length (takeWhile (\<lambda>x. x \<noteq> c) s) in if n < length s then n + 1 else 0)"

definition sql_cast_integer :: "ustr \<Rightarrow> int" where
  "sql_cast_integer s =
     (let (negative, r) = (case s of
            [] \<Rightarrow> (False, [])
          | c # r \<Rightarrow> if c = ch_minus then (True, r) else if c = 43 then (False, r) else (False, s));
          n = int (digits_value 0 (takeWhile is_ascii_digit r))
      in if negative then max (- (2 ^ 63)) (- n) else min (2 ^ 63 - 1) n)"

definition sqlite_parts :: "ustr \<Rightarrow> bool \<times> ustr \<times> int" where
  "sqlite_parts raw =
     (let token = to_ascii_lowercase raw;
          negative = (take 1 token = [ch_minus]);
          digits = (if negative then drop 1 token else token);
          e = sql_instr digits 101;
          mantissa = (if e > 0 then take (e - 1) digits else digits);
          exponent = (if e > 0 then sql_cast_integer (drop e digits) else 0);
          dot = sql_instr mantissa ch_dot;
          exponent = exponent - (if dot > 0 then int (length mantissa - dot) else 0);
          digits = filter (\<lambda>c. c \<noteq> ch_dot) mantissa;
          trimmed = trim_zeros_end digits
      in (negative, trim_zeros_start trimmed, exponent + int (length digits) - int (length trimmed)))"

fun number_test :: "comparison \<Rightarrow> ustr \<Rightarrow> Bound list \<Rightarrow> bool" where
  "number_test IsZero t vs = (fst (snd (sqlite_parts t)) = [])"
| "number_test SameParts t (BText c # BBool negative # BInt m # _) = (sqlite_parts t = (negative, c, m))"
| "number_test _ _ _ = False"

text \<open>
  A row of \<open>json_each\<close> has a key and a document. What \<open>json_each\<close> makes of a scalar, and how a value
  that is not a text compares with a bound one, is left open.
\<close>

datatype key = KText ustr | KIndex nat | KNull

type_synonym row = "key \<times> doc"

record sqlite_rest =
  scalar_rows :: "doc \<Rightarrow> row list"
  other_atom :: "doc \<Rightarrow> Bound list \<Rightarrow> bool option"

fun node_row :: "doc option \<Rightarrow> (ustr \<Rightarrow> row) \<Rightarrow> node \<Rightarrow> row option" where
  "node_row col rows (Document _) = map_option (Pair KNull) col"
| "node_row col rows (Row alias) = Some (rows alias)"

fun each_row :: "sqlite_rest \<Rightarrow> doc \<Rightarrow> row list" where
  "each_row S (DObj ms) = map (\<lambda>m. (KText (fst m), snd m)) ms"
| "each_row S (DArr ds) = map (\<lambda>i. (KIndex i, ds ! i)) [0..<length ds]"
| "each_row S d = scalar_rows S d"

definition node_rows :: "sqlite_rest \<Rightarrow> row option \<Rightarrow> row list" where
  "node_rows S r = (case r of None \<Rightarrow> [] | Some (_, d) \<Rightarrow> each_row S d)"

fun kind_name :: "doc \<Rightarrow> string" where
  "kind_name DNull = ''null''"
| "kind_name (DBool v) = (if v then ''true'' else ''false'')"
| "kind_name (DNum t) = (if list_ex (\<lambda>c. c = ch_dot \<or> c = 101 \<or> c = 69) t then ''real'' else ''integer'')"
| "kind_name (DText _) = ''text''"
| "kind_name (DArr _) = ''array''"
| "kind_name (DObj _) = ''object''"

definition atom_is :: "sqlite_rest \<Rightarrow> doc \<Rightarrow> Bound list \<Rightarrow> bool option" where
  "atom_is S d vs =
     (case (d, vs) of (DText s, BText v # _) \<Rightarrow> Some (s = v) | _ \<Rightarrow> other_atom S d vs)"

definition key_is :: "key \<Rightarrow> Bound list \<Rightarrow> bool option" where
  "key_is k vs =
     (case (k, vs) of (KNull, _) \<Rightarrow> None | (KText s, BText v # _) \<Rightarrow> Some (s = v) | _ \<Rightarrow> Some False)"

text \<open>Three-valued reading; the values are those of the markers of the test, from the first one on.\<close>

fun holds :: "sqlite_rest \<Rightarrow> doc option \<Rightarrow> (ustr \<Rightarrow> row) \<Rightarrow> Bound list \<Rightarrow> sql_test \<Rightarrow> bool option" where
  "holds S col rows vs (KindIs n k) = map_option (\<lambda>r. kind_name (snd r) = k) (node_row col rows n)"
| "holds S col rows vs (KeyParam alias) = key_is (fst (rows alias)) vs"
| "holds S col rows vs (KeyIndex alias i) =
     (case fst (rows alias) of KNull \<Rightarrow> None | k \<Rightarrow> Some (k = KIndex i))"
| "holds S col rows vs (AtomParam n) = Option.bind (node_row col rows n) (\<lambda>r. atom_is S (snd r) vs)"
| "holds S col rows vs (CountIs n k) = Some (length (node_rows S (node_row col rows n)) = k)"
| "holds S col rows vs (LengthIs n k) =
     map_option (\<lambda>r. (case snd r of DArr ds \<Rightarrow> length ds | _ \<Rightarrow> 0) = k) (node_row col rows n)"
| "holds S col rows vs (NumberIs n c) =
     map_option (\<lambda>r. case snd r of DNum t \<Rightarrow> number_test c t vs | _ \<Rightarrow> False) (node_row col rows n)"
| "holds S col rows vs FalseTest = Some False"
| "holds S col rows vs (NotNullTest _) = Some (col \<noteq> None)"
| "holds S col rows vs (AndTest a b) = and3 (holds S col rows vs a) (holds S col rows (drop (markers a) vs) b)"
| "holds S col rows vs (OrTest a b) = or3 (holds S col rows vs a) (holds S col rows (drop (markers a) vs) b)"
| "holds S col rows vs (NotTest a) = map_option Not (holds S col rows vs a)"
| "holds S col rows vs (ParenTest a) = holds S col rows vs a"
| "holds S col rows vs (ExistsTest n alias a) =
     Some (list_ex (\<lambda>r. holds S col (rows(alias := r)) vs a = Some True) (node_rows S (node_row col rows n)))"
| "holds S col rows vs (AnyRow n _) = Some (node_rows S (node_row col rows n) \<noteq> [])"

end
