(* ===== verification/Mutation_Guards.thy ===== *)
theory Mutation_Guards
  imports Json_Tests
begin

text \<open>
  What the guard of a bulk mutation refuses, judged by SQL's reading of the tests a condition renders:
  \<open>condition_is_vacuous\<close> of \<open>src/src/query/filters.rs\<close> and \<open>ensure_mutation_has_explicit_filters\<close> of
  \<open>src/src/query/sql/execution/mutation_safety.rs\<close>.
\<close>

subsection \<open>What a column holds and how a test reads it\<close>










subsection \<open>Each test on its own\<close>













subsection \<open>The guard\<close>









end
