(* ===== verification/Json_Numbers.thy ===== *)
theory Json_Numbers
  imports Json_Tests
begin

text \<open>
  Numbers of JSON documents: the parts \<open>decimal_parts\<close> takes of a candidate and those the generated SQL takes of
  a stored number are the same normal form, so the comparison of the parts is that of the values.
\<close>

section \<open>Numbers\<close>

lemma digit_char: "is_ascii_digit c \<Longrightarrow> c \<noteq> 45 \<and> c \<noteq> 46 \<and> c \<noteq> 43 \<and> c \<noteq> 101 \<and> c \<noteq> 69 \<and> to_ascii_lower c = c \<and> len_utf8 c = 1"
  by (auto simp: ascii_defs to_ascii_lower_def len_utf8_def)

lemma digits_facts:
  assumes "list_all is_ascii_digit ds"
  shows "45 \<notin> set ds" "46 \<notin> set ds" "101 \<notin> set ds" "69 \<notin> set ds" "map to_ascii_lower ds = ds" "utf8_len ds = length ds"
    "filter (\<lambda>c. c \<noteq> 46) ds = ds"
  using assms by (induction ds) (auto dest!: digit_char simp: utf8_len_def)

definition exponent_text :: "ustr \<Rightarrow> int \<Rightarrow> bool" where
  "exponent_text ex e \<longleftrightarrow> ex = [] \<and> e = 0 \<or> (\<exists>c r. ex = c # r \<and> (c = 101 \<or> c = 69) \<and> parse_i64 r = Some e)"

lemma token_split:
  assumes "token_number t = Some (neg, ds, m)"
  obtains whole fr ex e where "t = (if neg then [45] else []) @ whole @ (if fr = [] then [] else 46 # fr) @ ex"
    "whole \<noteq> []" "list_all is_ascii_digit whole" "list_all is_ascii_digit fr" "ds = whole @ fr" "m = e - int (length fr)"
    "exponent_text ex e"
proof -
  define r where "r = (if neg then tl t else t)"
  define whole where "whole = takeWhile is_ascii_digit r"
  define r1 where "r1 = dropWhile is_ascii_digit r"
  define dot where "dot = starts_with r1 [46]"
  define fr where "fr = (if dot then takeWhile is_ascii_digit (tl r1) else [])"
  define ex where "ex = (if dot then dropWhile is_ascii_digit (tl r1) else r1)"
  define e where "e = (case ex of [] \<Rightarrow> Some 0 | c # e \<Rightarrow> if c = 101 \<or> c = 69 then parse_i64 e else None)"
  have neg: "neg = starts_with t [45]" and rest: "whole \<noteq> []" "dot \<longrightarrow> fr \<noteq> []" "ds = whole @ fr"
    and e: "\<exists>x. e = Some x \<and> m = x - int (length fr)"
    using assms by (auto simp: token_number_def Let_def r_def whole_def r1_def dot_def fr_def ex_def e_def split: if_splits)
  from e obtain x where x: "e = Some x" "m = x - int (length fr)" by blast
  have "t = (if neg then [45] else []) @ r" using neg by (cases t) (auto simp: r_def starts_with_def)
  moreover have "r = whole @ r1" by (simp add: whole_def r1_def)
  moreover have "r1 = (if fr = [] then [] else 46 # fr) @ ex"
    using rest by (cases r1) (auto simp: dot_def fr_def ex_def starts_with_def)
  moreover have "exponent_text ex x"
    using x(1) by (auto simp: e_def exponent_text_def split: list.splits if_splits)
  moreover have "list_all is_ascii_digit whole" "list_all is_ascii_digit fr"
    by (auto simp: whole_def fr_def list_all_iff dest: set_takeWhileD)
  ultimately show ?thesis using that rest x by auto
qed

lemma parse_i64_text:
  assumes "parse_i64 r = Some e"
  shows "map to_ascii_lower r = r" "sql_cast_integer r = e"
proof -
  obtain neg ds where s: "(case r of [] \<Rightarrow> (False, [])
      | c # s \<Rightarrow> if c = ch_minus then (True, s) else if c = 43 then (False, s) else (False, r)) = (neg, ds)" by fastforce
  have ds: "list_all is_ascii_digit ds" "ds \<noteq> []" and e: "fits_i64 e" "e = (if neg then - int (digits_value 0 ds) else int (digits_value 0 ds))"
    using assms s by (auto simp: parse_i64_def checked_i64_def split: if_splits)
  have r: "r = ds \<or> r = 45 # ds \<or> r = 43 # ds" using s ds by (auto split: list.splits if_splits)
  then show "map to_ascii_lower r = r" using digits_facts(5) [OF ds(1)] by (auto simp: to_ascii_lower_def ascii_defs)
  have all: "takeWhile is_ascii_digit ds = ds" using ds by (simp add: takeWhile_eq_all_conv list_all_iff)
  show "sql_cast_integer r = e"
    unfolding sql_cast_integer_def Let_def s using e by (auto simp: all fits_i64_def)
qed

definition normal_parts :: "bool \<times> ustr \<times> int \<Rightarrow> bool \<times> ustr \<times> int" where
  "normal_parts p = (case p of (negative, ds, m) \<Rightarrow>
     (negative, trim_zeros_start (trim_zeros_end ds), m + int (length ds) - int (length (trim_zeros_end ds))))"

lemma trim_end_length: "length (trim_zeros_end ds) \<le> length ds"
  by (simp add: trim_zeros_end_def length_dropWhile_le [of _ "rev ds", simplified])

lemma trim_end_digits: "list_all is_ascii_digit ds \<Longrightarrow> list_all is_ascii_digit (trim_zeros_end ds)"
  unfolding trim_zeros_end_def list_all_iff using set_dropWhileD by fastforce

lemma split_first_append:
  "\<forall>c \<in> set a. \<not> p c \<Longrightarrow> split_first p (a @ x) = (case split_first p x of None \<Rightarrow> None | Some (l, r) \<Rightarrow> Some (a @ l, r))"
proof -
  assume a: "\<forall>c \<in> set a. \<not> p c"
  then have "dropWhile (\<lambda>c. \<not> p c) (a @ x) = dropWhile (\<lambda>c. \<not> p c) x"
    "takeWhile (\<lambda>c. \<not> p c) (a @ x) = a @ takeWhile (\<lambda>c. \<not> p c) x" by (induction a) auto
  then show ?thesis unfolding split_first_def
    by (cases "dropWhile (\<lambda>c. \<not> p c) x") (simp_all del: dropWhile_eq_Nil_conv)
qed

lemma split_first_Nil [simp]: "split_first p [] = None" by (simp add: split_first_def)

lemma split_first_hit: "p c \<Longrightarrow> split_first p (c # r) = Some ([], r)" by (simp add: split_first_def)

lemma instr_append: "c \<notin> set a \<Longrightarrow> sql_instr (a @ x) c = (if sql_instr x c = 0 then 0 else length a + sql_instr x c)"
proof -
  assume "c \<notin> set a"
  then have "takeWhile (\<lambda>y. y \<noteq> c) (a @ x) = a @ takeWhile (\<lambda>y. y \<noteq> c) x" by (induction a) auto
  then show ?thesis by (simp add: sql_instr_def Let_def)
qed

lemma instr_hit: "sql_instr (c # r) c = 1" by (simp add: sql_instr_def)
lemma instr_Nil: "sql_instr [] c = 0" by (simp add: sql_instr_def)

lemma json_decimal_parts_normal:
  assumes t: "token_number t = Some (neg, ds, m)" and bound: "\<bar>m\<bar> + 2 * int (length ds) < 2 ^ 62"
  shows "json_decimal_parts t = (case normal_parts (neg, ds, m) of (n, c, s) \<Rightarrow> (n, c, Some s))"
proof -
  from token_split [OF t] obtain whole fr ex e where
    s: "t = (if neg then [45] else []) @ whole @ (if fr = [] then [] else 46 # fr) @ ex" "whole \<noteq> []"
    "list_all is_ascii_digit whole" "list_all is_ascii_digit fr" "ds = whole @ fr" "m = e - int (length fr)" "exponent_text ex e" .
  let ?fp = "if fr = [] then [] else 46 # fr"
  from s(2,3) have hd: "whole = hd whole # tl whole" "hd whole \<noteq> 45" by (auto dest: digit_char simp: neq_Nil_conv)
  have neg: "starts_with t [45] = neg" using s(1) hd by (cases whole) (auto simp: starts_with_def)
  have uns: "dropWhile (\<lambda>c. c = 45) t = whole @ ?fp @ ex" using s(1) hd by (cases whole) auto
  have no_e: "\<forall>c \<in> set (whole @ ?fp). \<not> (c = 101 \<or> c = 69)" using digits_facts [OF s(3)] digits_facts [OF s(4)] by auto
  have "(case split_first (\<lambda>c. c = 101 \<or> c = 69) (whole @ ?fp @ ex) of
      Some (mantissa, exponent) \<Rightarrow> (mantissa, parse_i64 exponent) | None \<Rightarrow> (whole @ ?fp @ ex, Some 0)) = (whole @ ?fp, Some e)"
    using s(7) split_first_append [OF no_e, of ex] by (auto simp: exponent_text_def split_first_hit)
  moreover have "(case split_first (\<lambda>c. c = 46) (whole @ ?fp) of None \<Rightarrow> 0 | Some (_, f) \<Rightarrow> utf8_len f) = length fr"
  proof -
    have "\<forall>c \<in> set whole. \<not> c = 46" using digits_facts(2) [OF s(3)] by metis
    from split_first_append [OF this, of ?fp] show ?thesis
      using digits_facts(6) [OF s(4)] by (auto simp: split_first_hit)
  qed
  moreover have "filter (\<lambda>c. c \<noteq> 46) (whole @ ?fp) = ds"
    using digits_facts [OF s(3)] digits_facts [OF s(4)] s(5) by auto
  moreover have ds: "list_all is_ascii_digit ds" using s by simp
  moreover have "utf8_len ds = length ds" "utf8_len (trim_zeros_end ds) = length (trim_zeros_end ds)"
    using digits_facts(6) ds trim_end_digits by blast+
  moreover have "int (length fr) \<le> int (length ds)" "int (length (trim_zeros_end ds)) \<le> int (length ds)"
    using s(5) trim_end_length [of ds] by auto
  ultimately show ?thesis
    using bound s(6) by (auto simp: json_decimal_parts_def neg uns normal_parts_def checked_i64_def fits_i64_def Let_def of_nat_diff)
qed

lemma sqlite_parts_normal:
  assumes t: "token_number t = Some (neg, ds, m)"
  shows "sqlite_parts t = normal_parts (neg, ds, m)"
proof -
  from token_split [OF t] obtain whole fr ex e where
    s: "t = (if neg then [45] else []) @ whole @ (if fr = [] then [] else 46 # fr) @ ex" "whole \<noteq> []"
    "list_all is_ascii_digit whole" "list_all is_ascii_digit fr" "ds = whole @ fr" "m = e - int (length fr)" "exponent_text ex e" .
  let ?fp = "if fr = [] then [] else 46 # fr"
  define ex' where "ex' = map to_ascii_lower ex"
  note w = digits_facts [OF s(3)] and f = digits_facts [OF s(4)]
  have hd: "whole = hd whole # tl whole" "hd whole \<noteq> 45" using s(2,3) by (auto dest: digit_char simp: neq_Nil_conv)
  have fp: "map to_ascii_lower ?fp = ?fp" using f by (auto simp: to_ascii_lower_def ascii_defs)
  have tok: "to_ascii_lowercase t = (if neg then [45] else []) @ whole @ ?fp @ ex'"
    using s(1) w fp by (simp add: to_ascii_lowercase_def ex'_def to_ascii_lower_def ascii_defs)
  have neg: "(take 1 (to_ascii_lowercase t) = [45]) = neg" using tok hd by (cases whole) auto
  have dig: "(if neg then drop 1 (to_ascii_lowercase t) else to_ascii_lowercase t) = (whole @ ?fp) @ ex'" using tok by auto
  have no_e: "101 \<notin> set (whole @ ?fp)" using w f by auto
  have ex: "ex' = [] \<and> e = 0 \<or> (\<exists>r. ex' = 101 # r \<and> sql_cast_integer r = e)"
    using s(7) parse_i64_text by (auto simp: ex'_def exponent_text_def to_ascii_lower_def ascii_defs)
  define p where "p = sql_instr ((whole @ ?fp) @ ex') 101"
  have p: "p = (if ex' = [] then 0 else length (whole @ ?fp) + 1)"
    using ex instr_append [OF no_e, of ex'] by (auto simp: p_def instr_hit instr_Nil)
  have man: "(if p > 0 then take (p - 1) ((whole @ ?fp) @ ex') else (whole @ ?fp) @ ex') = whole @ ?fp"
    using p by auto
  have expo: "(if p > 0 then sql_cast_integer (drop p ((whole @ ?fp) @ ex')) else 0) = e"
    using p ex by (auto simp: drop_Cons')
  have dot: "(if sql_instr (whole @ ?fp) 46 > 0 then int (length (whole @ ?fp) - sql_instr (whole @ ?fp) 46) else 0) = int (length fr)"
    using instr_append [of 46 whole ?fp] w by (auto simp: instr_hit instr_Nil)
  have fil: "filter (\<lambda>c. c \<noteq> 46) (whole @ ?fp) = ds" using w f s(5) by auto
  show ?thesis
    unfolding sqlite_parts_def Let_def neg dig p_def [symmetric] man expo dot fil normal_parts_def using s(6) by simp
qed

definition parts_number :: "bool \<times> ustr \<times> int \<Rightarrow> rat" where
  "parts_number p = (case p of (negative, ds, m) \<Rightarrow> (if negative then - 1 else 1) * of_nat (digits_value 0 ds) * 10 powi m)"

lemma digits_value_snoc: "digits_value 0 (ds @ [c]) = 10 * digits_value 0 ds + (c - 48)"
  by (simp add: digits_value_append)

lemma trim_end_zeros: "ds = trim_zeros_end ds @ replicate (length ds - length (trim_zeros_end ds)) 48"
proof (induction ds rule: rev_induct)
  case (snoc c ds)
  show ?case
  proof (cases "c = 48")
    case True
    have "length (trim_zeros_end ds) \<le> length ds" by (rule trim_end_length)
    then have n: "Suc (length ds) - length (trim_zeros_end ds) = Suc (length ds - length (trim_zeros_end ds))" by simp
    have "trim_zeros_end (ds @ [c]) = trim_zeros_end ds" using True by (simp add: trim_zeros_end_def)
    then show ?thesis using snoc True n by (simp add: replicate_append_same [symmetric])
  qed (simp add: trim_zeros_end_def)
qed (simp add: trim_zeros_end_def)

lemma digits_value_zeros: "digits_value 0 (ds @ replicate k 48) = digits_value 0 ds * 10 ^ k"
proof (induction k)
  case (Suc k)
  have "ds @ replicate (Suc k) 48 = (ds @ replicate k 48) @ [48]" by (simp add: replicate_append_same)
  then show ?case using Suc by (simp add: digits_value_snoc del: append_assoc)
qed simp

lemma normal_parts_number: "parts_number (normal_parts p) = parts_number p"
proof (cases p)
  case (fields neg ds m)
  define k where "k = length ds - length (trim_zeros_end ds)"
  have "digits_value 0 ds = digits_value 0 (trim_zeros_end ds) * 10 ^ k"
    using trim_end_zeros [of ds] digits_value_zeros [of "trim_zeros_end ds" k] by (simp add: k_def)
  moreover have "int (length ds) - int (length (trim_zeros_end ds)) = int k"
    using trim_end_length [of ds] by (simp add: k_def of_nat_diff)
  then have "m + int (length ds) - int (length (trim_zeros_end ds)) = m + int k" by simp
  note scale = this
  moreover have "(10 :: rat) powi (m + int k) = 10 powi m * 10 ^ k" by (simp add: power_int_add)
  ultimately show ?thesis
    using fields drop_zeros_value [of "trim_zeros_end ds"]
    unfolding fields normal_parts_def prod.case scale by (simp add: parts_number_def trim_zeros_start_def)
qed

lemma digits_value_0: "list_all is_ascii_digit ds \<Longrightarrow> hd ds \<noteq> 48 \<Longrightarrow> digits_value 0 ds = 0 \<Longrightarrow> ds = []"
proof (induction ds rule: rev_induct)
  case (snoc c ds)
  then have "digits_value 0 ds = 0" "c = 48" by (auto simp: digits_value_snoc is_ascii_digit_def)
  then show ?case using snoc by (cases ds) auto
qed simp

lemma digits_value_inject:
  assumes "list_all is_ascii_digit a" "list_all is_ascii_digit b" "hd a \<noteq> 48" "hd b \<noteq> 48" "a \<noteq> []" "b \<noteq> []"
    "digits_value 0 a = digits_value 0 b"
  shows "a = b"
  using assms
proof (induction a arbitrary: b rule: rev_induct)
  case (snoc c a)
  from snoc.prems obtain b' d where b: "b = b' @ [d]" by (cases b rule: rev_cases) auto
  have cd: "48 \<le> c" "c - 48 < 10" "48 \<le> d" "d - 48 < 10"
    using snoc.prems b by (auto simp: is_ascii_digit_def)
  have eq: "10 * digits_value 0 a + (c - 48) = 10 * digits_value 0 b' + (d - 48)"
    using snoc.prems by (simp add: b digits_value_snoc)
  then have "(10 * digits_value 0 a + (c - 48)) mod 10 = (10 * digits_value 0 b' + (d - 48)) mod 10" by simp
  then have "c - 48 = d - 48" using cd by (metis mod_mult_self4 mod_less)
  then have same: "c = d" "digits_value 0 a = digits_value 0 b'" using cd eq by auto
  show ?case
  proof (cases "a = [] \<or> b' = []")
    case True
    then have "a = [] \<and> b' = []"
      using same snoc.prems b digits_value_0 [of a] digits_value_0 [of b'] by (auto simp: hd_append split: if_splits)
    then show ?thesis using b same by simp
  next
    case False
    then have "a = b'" using snoc.IH [of b'] snoc.prems b same by (auto simp: hd_append)
    then show ?thesis using b same by simp
  qed
qed simp

definition coefficient_ok :: "ustr \<Rightarrow> bool" where
  "coefficient_ok c \<longleftrightarrow> list_all is_ascii_digit c \<and> (c \<noteq> [] \<longrightarrow> hd c \<noteq> 48 \<and> last c \<noteq> 48)"

lemma normal_coefficient:
  assumes "list_all is_ascii_digit ds" shows "coefficient_ok (trim_zeros_start (trim_zeros_end ds))"
proof -
  let ?c = "trim_zeros_start (trim_zeros_end ds)"
  have digits: "list_all is_ascii_digit ?c"
    using trim_end_digits [OF assms] unfolding trim_zeros_start_def list_all_iff using set_dropWhileD by fastforce
  have last: "x \<noteq> [] \<Longrightarrow> last (dropWhile P x) = last x \<or> dropWhile P x = []" for P and x :: ustr
    by (induction x) auto
  have "?c \<noteq> [] \<Longrightarrow> last ?c = last (trim_zeros_end ds)"
    using last [of "trim_zeros_end ds" "\<lambda>c. c = 48"] unfolding trim_zeros_start_def
    by (cases "trim_zeros_end ds = []") auto
  moreover have "trim_zeros_end ds \<noteq> [] \<Longrightarrow> last (trim_zeros_end ds) \<noteq> 48"
    using hd_dropWhile [of "\<lambda>c. c = 48" "rev ds"] by (simp add: trim_zeros_end_def last_rev)
  moreover have "?c \<noteq> [] \<Longrightarrow> trim_zeros_end ds \<noteq> []" by (auto simp: trim_zeros_start_def)
  moreover have "?c \<noteq> [] \<Longrightarrow> hd ?c \<noteq> 48" 
    using hd_dropWhile [of "\<lambda>c. c = 48" "trim_zeros_end ds"] by (simp add: trim_zeros_start_def)
  ultimately show ?thesis using digits by (auto simp: coefficient_ok_def)
qed

lemma coefficient_pos: "coefficient_ok c \<Longrightarrow> c \<noteq> [] \<Longrightarrow> digits_value 0 c > 0"
  using digits_value_0 [of c] by (auto simp: coefficient_ok_def)

lemma coefficient_odd: 
  assumes "coefficient_ok c" "c \<noteq> []" shows "\<not> 10 dvd digits_value 0 c"
proof -
  obtain c' d where c: "c = c' @ [d]" using assms(2) by (cases c rule: rev_cases) auto
  then have "0 < d - 48" "d - 48 < 10" using assms(1) by (auto simp: coefficient_ok_def is_ascii_digit_def)
  moreover have "(10 * digits_value 0 c' + (d - 48)) mod 10 = (d - 48) mod 10" by (rule mod_mult_self4)
  ultimately show ?thesis unfolding c digits_value_snoc dvd_eq_mod_eq_0 by simp
qed

lemma scale_unique:
  assumes "coefficient_ok c" "c \<noteq> []" "coefficient_ok c'" "c' \<noteq> []"
    and eq: "(of_nat (digits_value 0 c) :: rat) * 10 powi m = of_nat (digits_value 0 c') * 10 powi m'"
  shows "m' \<le> m"
proof (rule ccontr)
  assume "\<not> m' \<le> m"
  then obtain k where m': "m' = m + int (Suc k)" by (metis add_diff_cancel_left' le_add_diff_inverse less_imp_Suc_add linorder_not_le nat_less_iff of_nat_Suc int_nat_eq zless_iff_Suc_zadd)
  have "(10 :: rat) powi m' = 10 powi m * 10 ^ Suc k" unfolding m' by (simp add: power_int_add power_int_of_nat del: power_Suc of_nat_Suc)
  then have "(of_nat (digits_value 0 c) :: rat) = of_nat (digits_value 0 c') * 10 ^ Suc k" using eq by simp
  then have "(of_nat (digits_value 0 c) :: rat) = of_nat (digits_value 0 c' * 10 ^ Suc k)" by simp
  then have "digits_value 0 c = digits_value 0 c' * 10 ^ Suc k" using of_nat_eq_iff by blast
  then have "10 dvd digits_value 0 c" by simp
  then show False using coefficient_odd assms by blast
qed

lemma parts_unique:
  assumes c: "coefficient_ok c" and c': "coefficient_ok c'" and ne: "c' \<noteq> []"
  shows "parts_number (n, c, m) = parts_number (n', c', m') \<longleftrightarrow> (n, c, m) = (n', c', m')"
proof
  assume eq: "parts_number (n, c, m) = parts_number (n', c', m')"
  have pos': "(of_nat (digits_value 0 c') :: rat) * 10 powi m' > 0" using coefficient_pos [OF c' ne] by simp
  then have "parts_number (n, c, m) \<noteq> 0" using eq coefficient_pos [OF c' ne] by (cases n') (auto simp: parts_number_def)
  then have cne: "c \<noteq> []" by (auto simp: parts_number_def)
  have pos: "(of_nat (digits_value 0 c) :: rat) * 10 powi m > 0" using coefficient_pos [OF c cne] by simp
  have "n = n'" and same: "(of_nat (digits_value 0 c) :: rat) * 10 powi m = of_nat (digits_value 0 c') * 10 powi m'"
    using eq pos pos' by (cases n; cases n'; simp add: parts_number_def; linarith)+
  moreover have "m = m'" using scale_unique [OF c cne c' ne same] scale_unique [OF c' ne c cne same [symmetric]] by simp
  moreover have "c = c'"
    using same \<open>m = m'\<close> digits_value_inject [of c c'] c c' ne cne by (auto simp: coefficient_ok_def)
  ultimately show "(n, c, m) = (n', c', m')" by simp
qed simp

lemma number_test_exact:
  assumes a: "number_ok a" and b: "number_ok b"
  shows "case json_decimal_parts b of (negative, c, s) \<Rightarrow>
      (c = [] \<longrightarrow> number_test IsZero a vs = (token_value a = token_value b))
      \<and> (c \<noteq> [] \<longrightarrow> (\<exists>m. s = Some m \<and> number_test SameParts a ([BText c, BBool negative, BInt m] @ vs) = (token_value a = token_value b)))"
proof -
  from a obtain na da ma where ta: "token_number a = Some (na, da, ma)" "\<bar>ma\<bar> + 2 * int (length da) < 2 ^ 62"
    by (auto simp: number_ok_def split: option.splits)
  from b obtain nb db mb where tb: "token_number b = Some (nb, db, mb)" "\<bar>mb\<bar> + 2 * int (length db) < 2 ^ 62"
    by (auto simp: number_ok_def split: option.splits)
  have da: "list_all is_ascii_digit da" and db: "list_all is_ascii_digit db"
    using token_split [OF ta(1)] token_split [OF tb(1)] list_all_append by metis+
  obtain n c s where p: "normal_parts (na, da, ma) = (n, c, s)" by (metis prod_cases3)
  obtain n' c' s' where p': "normal_parts (nb, db, mb) = (n', c', s')" by (metis prod_cases3)
  have ok: "coefficient_ok c" "coefficient_ok c'"
    using p p' normal_coefficient [OF da] normal_coefficient [OF db] by (auto simp: normal_parts_def)
  have va: "token_value a = parts_number (n, c, s)" and vb: "token_value b = parts_number (n', c', s')"
    using normal_parts_number [of "(na, da, ma)"] normal_parts_number [of "(nb, db, mb)"]
    by (simp_all add: p p' token_value_def ta tb parts_number_def)
  have zero: "parts_number (n, c, s) = 0 \<longleftrightarrow> c = []"
    using coefficient_pos [OF ok(1)] by (cases "c = []") (auto simp: parts_number_def)
  have z': "c' = [] \<Longrightarrow> parts_number (n', c', s') = 0" by (simp add: parts_number_def)
  show ?thesis
    using zero z' parts_unique [OF ok, of n s n' s']
    by (auto simp: json_decimal_parts_normal [OF tb] p' sqlite_parts_normal [OF ta(1)] p va vb)
qed

end
