(* ===== verification/Json_Containment.thy ===== *)
theory Json_Containment
  imports Json_Numbers
begin

text \<open>
  What the JSON tests of SQLite decide. A text is followed through the renderer together with the test it
  writes and the values it binds (\<open>decides\<close>); containment, its converse and equality come out of one
  induction each.
\<close>

section \<open>Tests and what they decide\<close>

fun children :: "doc \<Rightarrow> row list" where
  "children (DObj ms) = map (\<lambda>m. (KText (fst m), snd m)) ms"
| "children (DArr ds) = map (\<lambda>i. (KIndex i, ds ! i)) [0..<length ds]"
| "children _ = []"

text \<open>
  The text \<open>sql\<close>, written while the values grew from those of \<open>b\<close> to those of \<open>b'\<close>, is a test that holds of
  a node exactly when \<open>spec\<close> does, for the rows \<open>D\<close> admits; with \<open>guarded\<close>, it is not true of a NULL.
\<close>

definition decides :: "(doc \<Rightarrow> bool) \<Rightarrow> bool \<Rightarrow> nat \<Rightarrow> node \<Rightarrow> ustr \<Rightarrow> json_tests \<Rightarrow> json_tests \<Rightarrow> (row \<Rightarrow> bool) \<Rightarrow> (row \<Rightarrow> bool) \<Rightarrow> bool" where
  "decides K guarded l n sql b b' D spec \<longleftrightarrow>
     (\<exists>t ps. sql = test_sql t \<and> unambiguous t \<and> l \<le> level t \<and> test_values b' = test_values b @ ps \<and> markers t = length ps
        \<and> (\<forall>S col rows rest.
             (\<forall>r. node_row col rows n = Some r \<longrightarrow> K (snd r) \<longrightarrow> D r \<longrightarrow> holds S col rows (ps @ rest) t = Some (spec r))
             \<and> (guarded \<longrightarrow> node_row col rows n = None \<longrightarrow> holds S col rows (ps @ rest) t \<noteq> Some True)))"

abbreviation anywhere :: "row \<Rightarrow> bool" where "anywhere \<equiv> \<lambda>_. True"

lemma decides_weaken:
  assumes "decides K g l n s b b' D p" "\<And>r. K (snd r) \<Longrightarrow> D' r \<Longrightarrow> D r" "\<And>r. K (snd r) \<Longrightarrow> D' r \<Longrightarrow> p r = p' r" "l' \<le> l" "g' \<Longrightarrow> g"
  shows "decides K g' l' n s b b' D' p'"
proof -
  from assms(1) obtain t ps where t: "s = test_sql t" "unambiguous t" "l \<le> level t" "test_values b' = test_values b @ ps" "markers t = length ps"
    and h: "\<And>S col rows rest r. node_row col rows n = Some r \<Longrightarrow> K (snd r) \<Longrightarrow> D r \<Longrightarrow> holds S col rows (ps @ rest) t = Some (p r)"
    "\<And>S col rows rest. g \<Longrightarrow> node_row col rows n = None \<Longrightarrow> holds S col rows (ps @ rest) t \<noteq> Some True"
    unfolding decides_def by blast
  then show ?thesis
    unfolding decides_def using assms(2-5) by (intro exI [of _ t] exI [of _ ps] conjI allI impI) auto
qed

lemma decides_kind: "decides K True 3 n (kind_is n k) b b anywhere (\<lambda>r. kind_name (snd r) = k)"
  unfolding decides_def by (rule exI [of _ "KindIs n k"], rule exI [of _ "[]"]) simp

lemma decides_paren: "decides K g l n s b b' D p \<Longrightarrow> decides K g 3 n (parenthesized s) b b' D p"
proof -
  assume "decides K g l n s b b' D p"
  then obtain t ps where "s = test_sql t" "unambiguous t" "test_values b' = test_values b @ ps" "markers t = length ps"
    "\<forall>S col rows rest.
       (\<forall>r. node_row col rows n = Some r \<longrightarrow> K (snd r) \<longrightarrow> D r \<longrightarrow> holds S col rows (ps @ rest) t = Some (p r))
       \<and> (g \<longrightarrow> node_row col rows n = None \<longrightarrow> holds S col rows (ps @ rest) t \<noteq> Some True)"
    unfolding decides_def by blast
  then show ?thesis unfolding decides_def by (intro exI [of _ "ParenTest t"] exI [of _ ps]) simp
qed

lemma decides_and:
  assumes "decides K g 1 n s b b1 D p" and "decides K False 1 n s' b1 b2 (\<lambda>r. D r \<and> p r) q"
  shows "decides K g 1 n (s @ lit '' AND '' @ s') b b2 D (\<lambda>r. p r \<and> q r)"
proof -
  from assms(1) obtain t ps where t: "s = test_sql t" "unambiguous t" "1 \<le> level t" "test_values b1 = test_values b @ ps"
    "markers t = length ps"
    and h: "\<And>S col rows rest r. node_row col rows n = Some r \<Longrightarrow> K (snd r) \<Longrightarrow> D r \<Longrightarrow> holds S col rows (ps @ rest) t = Some (p r)"
    "\<And>S col rows rest. g \<Longrightarrow> node_row col rows n = None \<Longrightarrow> holds S col rows (ps @ rest) t \<noteq> Some True"
    unfolding decides_def by blast
  from assms(2) obtain t' ps' where t': "s' = test_sql t'" "unambiguous t'" "1 \<le> level t'" "test_values b2 = test_values b1 @ ps'"
    "markers t' = length ps'"
    and h': "\<And>S col rows rest r. node_row col rows n = Some r \<Longrightarrow> K (snd r) \<Longrightarrow> D r \<Longrightarrow> p r \<Longrightarrow> holds S col rows (ps' @ rest) t' = Some (q r)"
    unfolding decides_def by blast
  have "holds S col rows ((ps @ ps') @ rest) (AndTest t t') = Some (p r \<and> q r)"
    if "node_row col rows n = Some r" "K (snd r)" "D r" for S col rows rest r
    using h(1) [OF that, where S = S and rest = "ps' @ rest"] h' [OF that, where S = S and rest = rest] t(5) by auto
  moreover have "holds S col rows ((ps @ ps') @ rest) (AndTest t t') \<noteq> Some True"
    if "g" "node_row col rows n = None" for S col rows rest
    using h(2) [OF that, where S = S and rest = "ps' @ rest"] by (auto split: if_splits)
  ultimately show ?thesis
    unfolding decides_def using t t' by (intro exI [of _ "AndTest t t'"] exI [of _ "ps @ ps'"]) simp
qed

lemma decides_or:
  assumes "decides K g l n s b b1 D p" and "decides K g l' n s' b1 b2 D q"
  shows "decides K g 0 n (s @ lit '' OR '' @ s') b b2 D (\<lambda>r. p r \<or> q r)"
proof -
  from assms(1) obtain t ps where t: "s = test_sql t" "unambiguous t" "test_values b1 = test_values b @ ps" "markers t = length ps"
    and h: "\<And>S col rows rest r. node_row col rows n = Some r \<Longrightarrow> K (snd r) \<Longrightarrow> D r \<Longrightarrow> holds S col rows (ps @ rest) t = Some (p r)"
    "\<And>S col rows rest. g \<Longrightarrow> node_row col rows n = None \<Longrightarrow> holds S col rows (ps @ rest) t \<noteq> Some True"
    unfolding decides_def by blast
  from assms(2) obtain t' ps' where t': "s' = test_sql t'" "unambiguous t'" "test_values b2 = test_values b1 @ ps'" "markers t' = length ps'"
    and h': "\<And>S col rows rest r. node_row col rows n = Some r \<Longrightarrow> K (snd r) \<Longrightarrow> D r \<Longrightarrow> holds S col rows (ps' @ rest) t' = Some (q r)"
    "\<And>S col rows rest. g \<Longrightarrow> node_row col rows n = None \<Longrightarrow> holds S col rows (ps' @ rest) t' \<noteq> Some True"
    unfolding decides_def by blast
  have "holds S col rows ((ps @ ps') @ rest) (OrTest t t') = Some (p r \<or> q r)"
    if "node_row col rows n = Some r" "K (snd r)" "D r" for S col rows rest r
    using h(1) [OF that, where S = S and rest = "ps' @ rest"] h'(1) [OF that, where S = S and rest = rest] t(4) by auto
  moreover have "holds S col rows ((ps @ ps') @ rest) (OrTest t t') \<noteq> Some True"
    if "g" "node_row col rows n = None" for S col rows rest
    using h(2) [OF that, where S = S and rest = "ps' @ rest"] h'(2) [OF that, where S = S and rest = rest] t(4)
    by (auto split: if_splits)
  ultimately show ?thesis
    unfolding decides_def using t t' by (intro exI [of _ "OrTest t t'"] exI [of _ "ps @ ps'"]) simp
qed

lemma each_children: "\<not> scalar_doc d \<Longrightarrow> each_row S d = children d"
  by (cases d) simp_all

locale json_documents =
  fixes K :: "doc \<Rightarrow> bool"
  assumes K_num: "K (DNum t) \<Longrightarrow> number_ok t"
    and K_child: "K d \<Longrightarrow> x \<in> set (children d) \<Longrightarrow> K (snd x)"
begin

lemma exists_decides:
  assumes "decides K g l (Row a) s b b' D p" and D': "\<And>r x. D' r \<Longrightarrow> \<not> scalar_doc (snd r) \<and> (x \<in> set (children (snd r)) \<longrightarrow> D x)"
  shows "decides K True 3 n (exists_row n a s) b b' D' (\<lambda>r. list_ex p (children (snd r)))"
proof -
  from assms(1) obtain t ps where t: "s = test_sql t" "unambiguous t" "test_values b' = test_values b @ ps" "markers t = length ps"
    and h: "\<And>S col rows rest r. node_row col rows (Row a) = Some r \<Longrightarrow> K (snd r) \<Longrightarrow> D r \<Longrightarrow> holds S col rows (ps @ rest) t = Some (p r)"
    unfolding decides_def by blast
  have "holds S col rows (ps @ rest) (ExistsTest n a t) = Some (list_ex p (children (snd r)))"
    if r: "node_row col rows n = Some r" "K (snd r)" "D' r" for S col rows rest r
  proof -
    have "node_rows S (Some r) = children (snd r)" using D' [OF r(3)] each_children by (cases r) (auto simp: node_rows_def)
    moreover have "holds S col (rows(a := x)) (ps @ rest) t = Some (p x)" if "x \<in> set (children (snd r))" for x
      using that D' [OF r(3)] K_child [OF r(2)] by (intro h) auto
    ultimately show ?thesis using r by (simp add: list_ex_iff)
  qed
  then show ?thesis
    unfolding decides_def using t by (intro exI [of _ "ExistsTest n a t"] exI [of _ ps]) (simp add: node_rows_def)
qed

lemma not_exists_decides:
  assumes "decides K g l (Row a) s b b' D p" "2 \<le> l" "k = ''object'' \<or> k = ''array''"
    and D: "\<And>d x. kind_name d = k \<Longrightarrow> x \<in> set (children d) \<Longrightarrow> D x"
  shows "decides K False 2 n (lit ''NOT '' @ exists_row n a (lit ''NOT '' @ s)) b b' (\<lambda>r. kind_name (snd r) = k) (\<lambda>r. list_all p (children (snd r)))"
proof -
  from assms(1) obtain t ps where t: "s = test_sql t" "unambiguous t" "l \<le> level t" "test_values b' = test_values b @ ps" "markers t = length ps"
    and h: "\<And>S col rows rest r. node_row col rows (Row a) = Some r \<Longrightarrow> K (snd r) \<Longrightarrow> D r \<Longrightarrow> holds S col rows (ps @ rest) t = Some (p r)"
    unfolding decides_def by blast
  let ?t = "NotTest (ExistsTest n a (NotTest t))"
  have "holds S col rows (ps @ rest) ?t = Some (list_all p (children (snd r)))"
    if r: "node_row col rows n = Some r" "K (snd r)" "kind_name (snd r) = k" for S col rows rest r
  proof -
    have "\<not> scalar_doc (snd r)" using r(3) assms(3) by (cases "snd r") (auto split: if_splits)
    then have "node_rows S (Some r) = children (snd r)" using each_children by (cases r) (auto simp: node_rows_def)
    moreover have "holds S col (rows(a := x)) (ps @ rest) t = Some (p x)" if "x \<in> set (children (snd r))" for x
      using that D [OF r(3)] K_child [OF r(2)] by (intro h) auto
    ultimately show ?thesis using r by (auto simp: list_ex_iff list_all_iff)
  qed
  then show ?thesis unfolding decides_def using t assms(2) by (intro exI [of _ ?t] exI [of _ ps]) auto
qed

lemma no_row_decides:
  assumes "decides K g l (Row a) (any_of s) b b' D p" "2 \<le> l" "k = ''object'' \<or> k = ''array''"
    and D: "\<And>d x. kind_name d = k \<Longrightarrow> x \<in> set (children d) \<Longrightarrow> D x"
  shows "decides K True 3 n (no_row_outside n k a s) b b' anywhere (\<lambda>r. kind_name (snd r) = k \<and> list_all p (children (snd r)))"
proof -
  have "decides K False 1 n (lit ''NOT '' @ exists_row n a (lit ''NOT '' @ any_of s)) b b' (\<lambda>r. True \<and> kind_name (snd r) = k) (\<lambda>r. list_all p (children (snd r)))"
    by (rule decides_weaken [OF not_exists_decides [OF assms]]) auto
  from decides_paren [OF decides_and [OF decides_weaken [OF decides_kind] this]] show ?thesis
    by (simp add: no_row_outside_def lit_def)
qed

lemma key_decides: "decides K False 3 (Row a) (a @ lit ''.key = ?'') b (bind_values [BText k] b) (\<lambda>r. \<exists>s. fst r = KText s) (\<lambda>r. fst r = KText k)"
  unfolding decides_def
  by (rule exI [of _ "KeyParam a"], rule exI [of _ "[BText k]"]) (auto simp: bind_values_def key_is_def)

lemma index_decides: "decides K False 3 (Row a) (a @ lit ''.key = '' @ show_nat i) b b (\<lambda>r. \<exists>j. fst r = KIndex j) (\<lambda>r. fst r = KIndex i)"
  unfolding decides_def by (rule exI [of _ "KeyIndex a i"], rule exI [of _ "[]"]) auto

lemma number_decides:
  assumes ok: "number_ok t" and eq: "number_equals n t b = (s, b')"
  shows "decides K True 3 n s b b' anywhere (\<lambda>r. same_scalar (snd r) (DNum t))"
proof -
  obtain neg c sc where parts: "json_decimal_parts t = (neg, c, sc)" by (metis prod_cases3)
  define cmp where "cmp = (if c = [] then IsZero else SameParts)"
  define ps where "ps = (if c = [] then [] else [BText c, BBool neg, BInt (the sc)])"
  obtain u where "number_ok u" using ok by blast
  have sc: "c \<noteq> [] \<Longrightarrow> sc = Some (the sc)" using number_test_exact [OF ok ok, of "[]"] by (auto simp: parts)
  have s: "s = number_sql n (comparison_sql cmp)" "b' = bind_values ps b \<or> b' = b \<and> ps = []"
    using eq sc by (auto simp: number_equals_def parts cmp_def ps_def split: if_splits option.splits)
  have "number_test cmp a (ps @ rest) = (token_value a = token_value t)" if "number_ok a" for a rest
    using number_test_exact [OF that ok, of rest] sc by (auto simp: parts cmp_def ps_def split: if_splits)
  then have "(case d of DNum a \<Rightarrow> number_test cmp a (ps @ rest) | _ \<Rightarrow> False) = same_scalar d (DNum t)" if "K d" for d rest
    using that K_num by (cases d) auto
  note reads = this
  have m: "(if cmp = SameParts then 3 else 0) = length ps" by (simp add: cmp_def ps_def)
  have "test_values b' = test_values b @ ps" using s(2) by (auto simp: bind_values_def)
  then show ?thesis
    unfolding decides_def using s(1) m by (intro exI [of _ "NumberIs n cmp"] exI [of _ ps]) (simp add: reads)
qed

lemma text_decides:
  "decides K True 3 n (parenthesized (kind_is n ''text'' @ lit '' AND '' @ node_atom n @ lit '' = ?'')) b (bind_values [BText x] b) anywhere
     (\<lambda>r. same_scalar (snd r) (DText x))"
proof -
  have "kind_name d = ''text'' \<longleftrightarrow> (\<exists>s. d = DText s)" for d by (cases d) auto
  then show ?thesis
    unfolding decides_def
    by (intro exI [of _ "ParenTest (AndTest (KindIs n ''text'') (AtomParam n))"] exI [of _ "[BText x]"])
      (auto simp: bind_values_def atom_is_def split: doc.splits)
qed

lemma scalar_decides:
  assumes "is_scalar j" "numbers_ok (doc_of E j)" "scalar_equals E n j b = (s, b')"
  shows "decides K True 3 n s b b' anywhere (\<lambda>r. same_scalar (snd r) (doc_of E j))"
proof (cases j)
  case JNull
  have "kind_name d = ''null'' \<longleftrightarrow> same_scalar d DNull" for d by (cases d) auto
  then show ?thesis using JNull assms by (auto intro!: decides_weaken [OF decides_kind])
next
  case (JBool v)
  have kinds: "kind_name d = ''true'' \<longleftrightarrow> same_scalar d (DBool True)" "kind_name d = ''false'' \<longleftrightarrow> same_scalar d (DBool False)" for d
    by (cases d; auto)+
  have "s = kind_is n (if v then ''true'' else ''false'')" "b' = b" using assms JBool by auto
  then show ?thesis by (auto intro!: decides_weaken [OF decides_kind] simp: kinds JBool)
next
  case (JNumber f i)
  then show ?thesis using assms number_decides by simp
next
  case (JString x)
  then show ?thesis using assms text_decides by auto
qed (use assms in auto)

end

subsection \<open>Containers and their rows\<close>

lemma kind_object: "kind_name d = ''object'' \<longleftrightarrow> (\<exists>ms. d = DObj ms)"
  by (cases d) auto

lemma kind_array: "kind_name d = ''array'' \<longleftrightarrow> (\<exists>ds. d = DArr ds)"
  by (cases d) auto

lemma rows_of_array: "list_ex (\<lambda>x. P (snd x)) (children (DArr ds)) = list_ex P ds"
  "list_all (\<lambda>x. P (snd x)) (children (DArr ds)) = list_all P ds"
proof -
  have ds: "ds = map snd (children (DArr ds))" by (simp add: comp_def map_nth)
  show "list_ex (\<lambda>x. P (snd x)) (children (DArr ds)) = list_ex P ds"
    by (subst (2) ds) (simp add: list_ex_iff)
  show "list_all (\<lambda>x. P (snd x)) (children (DArr ds)) = list_all P ds"
    by (subst (2) ds) (simp add: list_all_iff)
qed

lemma rows_of_object: "list_ex (\<lambda>x. fst x = KText k \<and> P (snd x)) (children (DObj ms)) = list_ex (\<lambda>m. fst m = k \<and> P (snd m)) ms"
  by (auto simp: list_ex_iff)

lemma same_scalar_sym: "same_scalar a b = same_scalar b a"
  by (cases "(a, b)" rule: same_scalar.cases) auto

lemma covers_scalar: "scalar_doc c \<Longrightarrow> covers d c = same_scalar d c" "scalar_doc d \<Longrightarrow> covers d c = same_scalar d c"
  by (cases d; cases c; simp)+

lemma covers_object:
  "covers d (DObj cs) \<longleftrightarrow> kind_name d = ''object'' \<and> list_all (\<lambda>m. list_ex (\<lambda>x. fst x = KText (fst m) \<and> covers (snd x) (snd m)) (children d)) cs"
proof (cases "kind_name d = ''object''")
  case True
  then obtain ds where d: "d = DObj ds" by (auto simp: kind_object)
  have "list_ex (\<lambda>x. fst x = KText (fst m) \<and> covers (snd x) (snd m)) (children d) = list_ex (\<lambda>d. fst d = fst m \<and> covers (snd d) (snd m)) ds" for m :: "ustr \<times> doc"
    unfolding d by (rule rows_of_object)
  then show ?thesis using True by (simp add: d)
qed (cases d; simp)

lemma covers_array:
  "covers d (DArr cs) \<longleftrightarrow> kind_name d = ''array'' \<and> list_all (\<lambda>c. list_ex (\<lambda>x. covers (snd x) c) (children d)) cs"
proof (cases "kind_name d = ''array''")
  case True
  then obtain ds where d: "d = DArr ds" by (auto simp: kind_array)
  have "list_ex (\<lambda>x. covers (snd x) c) (children d) = list_ex (\<lambda>d. covers d c) ds" for c
    unfolding d by (rule rows_of_array)
  then show ?thesis using True by (simp add: d)
qed (cases d; simp)

lemma covered_object:
  "covers (DObj cs) d \<longleftrightarrow> kind_name d = ''object'' \<and> list_all (\<lambda>x. list_ex (\<lambda>m. fst x = KText (fst m) \<and> covers (snd m) (snd x)) cs) (children d)"
proof (cases "kind_name d = ''object''")
  case True
  then obtain ds where d: "d = DObj ds" by (auto simp: kind_object)
  have "list_all (\<lambda>x. list_ex (\<lambda>m. fst x = KText (fst m) \<and> covers (snd m) (snd x)) cs) (children d)
    = list_all (\<lambda>c. list_ex (\<lambda>e. fst e = fst c \<and> covers (snd e) (snd c)) cs) ds"
    unfolding d by (auto simp: list_all_iff list_ex_iff) (metis fst_conv snd_conv)+
  then show ?thesis using True by (simp add: d)
qed (cases d; simp)

lemma covered_array:
  "covers (DArr cs) d \<longleftrightarrow> kind_name d = ''array'' \<and> list_all (\<lambda>x. list_ex (\<lambda>c. covers c (snd x)) cs) (children d)"
proof (cases "kind_name d = ''array''")
  case True
  then obtain ds where d: "d = DArr ds" by (auto simp: kind_array)
  show ?thesis using True rows_of_array(2) [of "\<lambda>x. list_ex (\<lambda>c. covers c x) cs" ds] by (simp add: d del: children.simps)
qed (cases d; simp)

lemma object_rows: "kind_name (snd (r :: row)) = ''object'' \<Longrightarrow> \<not> scalar_doc (snd r) \<and> (x \<in> set (children (snd r)) \<longrightarrow> (\<exists>s. fst x = KText s))"
  by (auto simp: kind_object)

lemma array_rows: "kind_name (snd (r :: row)) = ''array'' \<Longrightarrow> \<not> scalar_doc (snd r) \<and> (x \<in> set (children (snd r)) \<longrightarrow> (\<exists>i. fst x = KIndex i))"
  by (auto simp: kind_array)

lemma scalar_doc_of: "scalar_doc (doc_of E j) = is_scalar j"
  by (cases j) auto

lemma join_more: "join sep (s # c # cs) = join sep ((s @ sep @ c) # cs)"
  by (cases cs) auto

text \<open>A list of texts, each of them a test written after the one before.\<close>

fun decides_each :: "(doc \<Rightarrow> bool) \<Rightarrow> bool \<Rightarrow> nat \<Rightarrow> node \<Rightarrow> ustr list \<Rightarrow> json_tests \<Rightarrow> json_tests \<Rightarrow> (row \<Rightarrow> bool) \<Rightarrow> (row \<Rightarrow> bool) list \<Rightarrow> bool" where
  "decides_each K g l n [] b b' D ps \<longleftrightarrow> test_values b = test_values b' \<and> ps = []"
| "decides_each K g l n (c # cs) b b' D ps \<longleftrightarrow>
     (\<exists>b1 p ps'. ps = p # ps' \<and> decides K g l n c b b1 D p \<and> decides_each K g l n cs b1 b' D ps')"

lemma decides_values: "decides K g l n s b b1 D p \<Longrightarrow> test_values b1 = test_values b2 \<Longrightarrow> decides K g l n s b b2 D p"
  by (simp add: decides_def)

lemma join_or_decides:
  assumes "decides_each K g l n cs b b' D ps" "decides K g 0 n s b0 b D p"
  shows "decides K g 0 n (join (lit '' OR '') (s # cs)) b0 b' D (\<lambda>r. p r \<or> list_ex (\<lambda>q. q r) ps)"
  using assms
proof (induction cs arbitrary: s b p ps)
  case Nil
  then show ?case using decides_values by fastforce
next
  case (Cons c cs)
  then obtain b1 q ps' where q: "ps = q # ps'" "decides K g l n c b b1 D q" "decides_each K g l n cs b1 b' D ps'" by auto
  from Cons.IH [OF q(3) decides_or [OF Cons.prems(2) q(2)]] show ?case unfolding join_more q(1)
    by (rule decides_weaken) auto
qed

lemma any_of_decides:
  assumes "decides_each K g l n cs b b' D ps"
  shows "decides K g 3 n (any_of cs) b b' D (\<lambda>r. list_ex (\<lambda>q. q r) ps)"
proof (cases cs)
  case Nil
  then show ?thesis
    using assms unfolding decides_def
    by (intro exI [of _ "ParenTest FalseTest"] exI [of _ "[]"]) (simp add: any_of_def parenthesized_def lit_def)
next
  case (Cons c cs')
  then obtain b1 q ps' where q: "ps = q # ps'" "decides K g l n c b b1 D q" "decides_each K g l n cs' b1 b' D ps'"
    using assms by auto
  from decides_paren [OF join_or_decides [OF q(3) decides_weaken [OF q(2)]]] show ?thesis
    by (simp add: Cons any_of_def q(1))
qed

lemma join_and_decides:
  assumes "decides_each K g l n cs b b' D ps" "decides K g' 1 n s b0 b D' p" "1 \<le> l" "\<And>r. D' r \<Longrightarrow> p r \<Longrightarrow> D r"
  shows "decides K g' 1 n (join (lit '' AND '') (s # cs)) b0 b' D' (\<lambda>r. p r \<and> list_all (\<lambda>q. q r) ps)"
  using assms
proof (induction cs arbitrary: s b p ps)
  case Nil
  then show ?case using decides_values by fastforce
next
  case (Cons c cs)
  then obtain b1 q ps' where q: "ps = q # ps'" "decides K g l n c b b1 D q" "decides_each K g l n cs b1 b' D ps'" by auto
  have "decides K g' 1 n (s @ lit '' AND '' @ c) b0 b1 D' (\<lambda>r. p r \<and> q r)"
    using decides_and [OF Cons.prems(2) decides_weaken [OF q(2), where D' = "\<lambda>r. D' r \<and> p r" and g' = False]] Cons.prems(3,4) by simp
  from Cons.IH [OF q(3) this] Cons.prems(3,4) show ?case unfolding join_more q(1) by (auto elim!: decides_weaken)
qed

lemma decides_alias: "next_alias b = (a, b1) \<Longrightarrow> decides K g l n s b1 b2 D p \<Longrightarrow> decides K g l n s b b2 D p"
  by (auto simp: next_alias_def decides_def Let_def)

lemma kind_decides: "decides K True 1 n (kind_is n k) b b anywhere (\<lambda>r. kind_name (snd r) = k)"
  by (rule decides_weaken [OF decides_kind]) auto

lemma container_decides:
  assumes "decides_each K g l n cs b b' (\<lambda>r. kind_name (snd r) = k) ps" "1 \<le> l"
  shows "decides K True 3 n (parenthesized (join (lit '' AND '') (kind_is n k # cs))) b b' anywhere
    (\<lambda>r. kind_name (snd r) = k \<and> list_all (\<lambda>q. q r) ps)"
  by (rule decides_paren, rule join_and_decides [OF assms(1) kind_decides assms(2)])

lemma pg_contains_container: "\<not> scalar_doc c \<Longrightarrow> pg_contains d c = covers d c"
  by (cases d) (auto simp: pg_contains_def)

context json_documents
begin

lemma decides_rest:
  assumes "decides K True 1 n s b b1 anywhere p" "decides K g' 1 n s' b1 b2 D q" "\<And>r. p r \<Longrightarrow> D r"
  shows "decides K True 1 n (s @ lit '' AND '' @ s') b b2 anywhere (\<lambda>r. p r \<and> q r)"
  using decides_and [OF assms(1) decides_weaken [OF assms(2), where D' = "\<lambda>r. True \<and> p r" and g' = False]] assms(3) by simp

lemma key_and_decides:
  assumes "decides K g 3 (Row a) s (bind_values [BText k] b) b' anywhere p"
  shows "decides K False 1 (Row a) (a @ lit ''.key = ? AND '' @ s) b b' (\<lambda>r. \<exists>s. fst r = KText s) (\<lambda>r. fst r = KText k \<and> p r)"
proof -
  have "decides K False 1 (Row a) ((a @ lit ''.key = ?'') @ lit '' AND '' @ s) b b' (\<lambda>r. \<exists>s. fst r = KText s) (\<lambda>r. fst r = KText k \<and> p r)"
    by (rule decides_and [OF decides_weaken [OF key_decides] decides_weaken [OF assms]]) auto
  then show ?thesis by (simp add: lit_def)
qed

lemma key_exists_decides:
  assumes "decides K g 3 (Row a) s (bind_values [BText k] b) b' anywhere p"
  shows "decides K True 3 n (exists_row n a (a @ lit ''.key = ? AND '' @ s)) b b' (\<lambda>r. kind_name (snd r) = ''object'')
     (\<lambda>r. list_ex (\<lambda>x. fst x = KText k \<and> p x) (children (snd r)))"
  by (rule exists_decides [OF key_and_decides [OF assms]]) (use object_rows in blast)

lemma element_exists_decides:
  assumes "decides K g l (Row a) s b b' anywhere p"
  shows "decides K True 3 n (exists_row n a s) b b' (\<lambda>r. kind_name (snd r) = ''array'') (\<lambda>r. list_ex p (children (snd r)))"
  by (rule exists_decides [OF assms]) (use array_rows in blast)

lemma scalar_contains_decides:
  assumes j: "is_scalar j" "numbers_ok (doc_of E j)" and eq: "contains_json E n j deep b = (s, b')"
  shows "decides K True 3 n s b b' anywhere (\<lambda>r. if deep then pg_contains (snd r) (doc_of E j) else covers (snd r) (doc_of E j))"
proof (cases deep)
  case True
  obtain s1 b1 where s1: "scalar_equals E n j b = (s1, b1)" by fastforce
  obtain a b2 where a: "next_alias b1 = (a, b2)" by fastforce
  obtain s2 b3 where s2: "scalar_equals E (Row a) j b2 = (s2, b3)" by fastforce
  have s: "s = parenthesized (s1 @ lit '' OR '' @ parenthesized (kind_is n ''array'' @ lit '' AND '' @ exists_row n a s2))" "b' = b3"
    using eq True j s1 a s2 by (cases j; auto)+
  have "decides K True 1 n (kind_is n ''array'') b1 b1 anywhere (\<lambda>r. kind_name (snd r) = ''array'')"
    by (rule decides_weaken [OF decides_kind]) auto
  moreover have "decides K True 1 n (exists_row n a s2) b1 b3 (\<lambda>r. kind_name (snd r) = ''array'') (\<lambda>r. list_ex (\<lambda>x. same_scalar (snd x) (doc_of E j)) (children (snd r)))"
    by (rule decides_alias [OF a]) (rule decides_weaken [OF element_exists_decides [OF scalar_decides [OF j s2]]], auto)
  ultimately have "decides K True 1 n (kind_is n ''array'' @ lit '' AND '' @ exists_row n a s2) b1 b3 anywhere
      (\<lambda>r. kind_name (snd r) = ''array'' \<and> list_ex (\<lambda>x. same_scalar (snd x) (doc_of E j)) (children (snd r)))"
    by (rule decides_rest) simp
  from decides_paren [OF decides_or [OF scalar_decides [OF j s1] decides_paren [OF this]]] show ?thesis
    unfolding s using True j rows_of_array(1) [of "\<lambda>x. same_scalar x (doc_of E j)"]
    by (elim decides_weaken) (auto simp: pg_contains_def covers_scalar scalar_doc_of kind_array split: doc.splits)
next
  case False
  then have "scalar_equals E n j b = (s, b')" using eq j by (cases j) auto
  from scalar_decides [OF j this] show ?thesis
    using j False by (simp add: covers_scalar scalar_doc_of)
qed

lemma contains_decides:
  "numbers_ok (doc_of E j) \<longrightarrow> (\<forall>s b'. contains_json E n j deep b = (s, b') \<longrightarrow>
     decides K True 3 n s b b' anywhere (\<lambda>r. if deep then pg_contains (snd r) (doc_of E j) else covers (snd r) (doc_of E j)))"
  "list_all (\<lambda>m. numbers_ok (doc_of E (snd m))) ms \<longrightarrow> (\<forall>cs b'. contains_members E n ms b = (cs, b') \<longrightarrow>
     decides_each K True 3 n cs b b' (\<lambda>r. kind_name (snd r) = ''object'')
       (map (\<lambda>m r. list_ex (\<lambda>x. fst x = KText (fst m) \<and> covers (snd x) (doc_of E (snd m))) (children (snd r))) ms))"
  "list_all (\<lambda>e. numbers_ok (doc_of E e)) es \<longrightarrow> (\<forall>cs b'. contains_elements E n es b = (cs, b') \<longrightarrow>
     decides_each K True 3 n cs b b' (\<lambda>r. kind_name (snd r) = ''array'')
       (map (\<lambda>e r. list_ex (\<lambda>x. covers (snd x) (doc_of E e)) (children (snd r))) es))"
proof (induction E n j deep b and E n ms b and E n es b rule: contains_json_contains_members_contains_elements.induct, goal_cases)
  case (1 E n ms deep b)
  show ?case
  proof (intro impI allI)
    fix s b' assume ok: "numbers_ok (doc_of E (JObject ms))" and eq: "contains_json E n (JObject ms) deep b = (s, b')"
    then obtain cs where cs: "contains_members E n ms b = (cs, b')" "s = parenthesized (join (lit '' AND '') (kind_is n ''object'' # cs))"
      by (auto split: prod.splits)
    from 1 ok cs(1) have "decides_each K True 3 n cs b b' (\<lambda>r. kind_name (snd r) = ''object'')
       (map (\<lambda>m r. list_ex (\<lambda>x. fst x = KText (fst m) \<and> covers (snd x) (doc_of E (snd m))) (children (snd r))) ms)"
      by (simp add: list.pred_map comp_def)
    from container_decides [OF this]
    show "decides K True 3 n s b b' anywhere (\<lambda>r. if deep then pg_contains (snd r) (doc_of E (JObject ms)) else covers (snd r) (doc_of E (JObject ms)))"
      unfolding cs(2) by (auto elim!: decides_weaken simp: covers_object pg_contains_container list.pred_map comp_def)
  qed
next
  case (2 E n es deep b)
  show ?case
  proof (intro impI allI)
    fix s b' assume ok: "numbers_ok (doc_of E (JArray es))" and eq: "contains_json E n (JArray es) deep b = (s, b')"
    then obtain cs where cs: "contains_elements E n es b = (cs, b')" "s = parenthesized (join (lit '' AND '') (kind_is n ''array'' # cs))"
      by (auto split: prod.splits)
    from 2 ok cs(1) have "decides_each K True 3 n cs b b' (\<lambda>r. kind_name (snd r) = ''array'')
       (map (\<lambda>e r. list_ex (\<lambda>x. covers (snd x) (doc_of E e)) (children (snd r))) es)"
      by (simp add: list.pred_map comp_def)
    from container_decides [OF this]
    show "decides K True 3 n s b b' anywhere (\<lambda>r. if deep then pg_contains (snd r) (doc_of E (JArray es)) else covers (snd r) (doc_of E (JArray es)))"
      unfolding cs(2) by (auto elim!: decides_weaken simp: covers_array pg_contains_container list.pred_map comp_def)
  qed
next
  case (3 E n deep b) then show ?case using scalar_contains_decides [of JNull E n deep b] by auto
next
  case (4 E n v deep b) then show ?case using scalar_contains_decides [of "JBool v" E n deep b] by auto
next
  case (5 E n f i deep b) then show ?case using scalar_contains_decides [of "JNumber f i" E n deep b] by auto
next
  case (6 E n x deep b) then show ?case using scalar_contains_decides [of "JString x" E n deep b] by auto
next
  case (8 E n m ms b)
  show ?case
  proof (intro impI allI)
    fix cs b' assume ok: "list_all (\<lambda>m. numbers_ok (doc_of E (snd m))) (m # ms)" and eq: "contains_members E n (m # ms) b = (cs, b')"
    obtain a b1 where a: "next_alias b = (a, b1)" by fastforce
    obtain s b2 where s: "contains_json E (Row a) (snd m) False (bind_values [BText (fst m)] b1) = (s, b2)" by fastforce
    obtain cs' where cs: "contains_members E n ms b2 = (cs', b')" "cs = exists_row n a (a @ lit ''.key = ? AND '' @ s) # cs'"
      using eq a s by (auto split: prod.splits)
    have "decides K True 3 (Row a) s (bind_values [BText (fst m)] b1) b2 anywhere (\<lambda>r. covers (snd r) (doc_of E (snd m)))"
      using 8(1) [OF a [symmetric]] ok s by simp
    from decides_alias [OF a key_exists_decides [OF this]] 8(2) [OF a [symmetric] s [symmetric]] ok cs(1)
    show "decides_each K True 3 n cs b b' (\<lambda>r. kind_name (snd r) = ''object'')
       (map (\<lambda>m r. list_ex (\<lambda>x. fst x = KText (fst m) \<and> covers (snd x) (doc_of E (snd m))) (children (snd r))) (m # ms))"
      unfolding cs(2) by auto
  qed
next
  case (10 E n e es b)
  show ?case
  proof (intro impI allI)
    fix cs b' assume ok: "list_all (\<lambda>e. numbers_ok (doc_of E e)) (e # es)" and eq: "contains_elements E n (e # es) b = (cs, b')"
    obtain a b1 where a: "next_alias b = (a, b1)" by fastforce
    obtain s b2 where s: "contains_json E (Row a) e False b1 = (s, b2)" by fastforce
    obtain cs' where cs: "contains_elements E n es b2 = (cs', b')" "cs = exists_row n a s # cs'"
      using eq a s by (auto split: prod.splits)
    have "decides K True 3 (Row a) s b1 b2 anywhere (\<lambda>r. covers (snd r) (doc_of E e))"
      using 10(1) [OF a [symmetric]] ok s by simp
    from decides_alias [OF a element_exists_decides [OF this]] 10(2) [OF a [symmetric] s [symmetric]] ok cs(1)
    show "decides_each K True 3 n cs b b' (\<lambda>r. kind_name (snd r) = ''array'')
       (map (\<lambda>e r. list_ex (\<lambda>x. covers (snd x) (doc_of E e)) (children (snd r))) (e # es))"
      unfolding cs(2) by auto
  qed
qed auto

end

lemma decides_unguarded: "decides K g l n s b b' D p \<Longrightarrow> decides K False l n s b b' D p"
  by (erule decides_weaken) auto

lemma object_keys: "kind_name d = ''object'' \<Longrightarrow> x \<in> set (children d) \<Longrightarrow> \<exists>s. fst x = KText s"
  by (auto simp: kind_object)

context json_documents
begin

lemma scalars_decides:
  "list_all (\<lambda>e. numbers_ok (doc_of E e)) es \<Longrightarrow> scalars_equal E n es b = (cs, b') \<Longrightarrow>
   decides_each K True 3 n cs b b' anywhere (map (\<lambda>e r. same_scalar (snd r) (doc_of E e)) (filter is_scalar es))"
proof (induction es arbitrary: b cs)
  case (Cons e es)
  show ?case
  proof (cases "is_scalar e")
    case True
    obtain s b1 where s: "scalar_equals E n e b = (s, b1)" by fastforce
    obtain cs' where cs: "scalars_equal E n es b1 = (cs', b')" "cs = s # cs'" using Cons.prems True s by (auto split: prod.splits)
    show ?thesis using scalar_decides [OF True _ s] Cons.IH [OF _ cs(1)] Cons.prems True by (auto simp: cs(2))
  qed (use Cons in auto)
qed simp

lemma contained_by_decides:
  "numbers_ok (doc_of E j) \<longrightarrow> (\<forall>s b'. contained_by_json E n j deep b = (s, b') \<longrightarrow>
     decides K True 3 n s b b' anywhere (\<lambda>r. if deep then pg_contains (doc_of E j) (snd r) else covers (doc_of E j) (snd r)))"
  "list_all (\<lambda>m. numbers_ok (doc_of E (snd m))) ms \<longrightarrow> (\<forall>cs b'. placed_members E a ms b = (cs, b') \<longrightarrow>
     decides_each K False 3 (Row a) cs b b' (\<lambda>r. \<exists>s. fst r = KText s)
       (map (\<lambda>m r. fst r = KText (fst m) \<and> covers (doc_of E (snd m)) (snd r)) ms))"
  "list_all (\<lambda>e. numbers_ok (doc_of E e)) es \<longrightarrow> (\<forall>cs b'. placed_elements E a es b = (cs, b') \<longrightarrow>
     decides_each K True 3 (Row a) cs b b' anywhere (map (\<lambda>e r. covers (doc_of E e) (snd r)) es))"
proof (induction E n j deep b and E a ms b and E a es b rule: contained_by_json_placed_members_placed_elements.induct, goal_cases)
  case (1 E n ms deep b)
  show ?case
  proof (intro impI allI)
    fix s b' assume ok: "numbers_ok (doc_of E (JObject ms))" and eq: "contained_by_json E n (JObject ms) deep b = (s, b')"
    obtain a b1 where a: "next_alias b = (a, b1)" by fastforce
    obtain cs where cs: "placed_members E a ms b1 = (cs, b')" "s = no_row_outside n ''object'' a cs"
      using eq a by (auto split: prod.splits)
    from 1 [OF a [symmetric]] ok cs(1) have "decides_each K False 3 (Row a) cs b1 b' (\<lambda>r. \<exists>s. fst r = KText s)
       (map (\<lambda>m r. fst r = KText (fst m) \<and> covers (doc_of E (snd m)) (snd r)) ms)"
      by (simp add: list.pred_map comp_def)
    have "decides K True 3 n (no_row_outside n ''object'' a cs) b1 b' anywhere (\<lambda>r. kind_name (snd r) = ''object''
        \<and> list_all (\<lambda>r. list_ex (\<lambda>q. q r) (map (\<lambda>m r. fst r = KText (fst m) \<and> covers (doc_of E (snd m)) (snd r)) ms)) (children (snd r)))"
      by (rule no_row_decides [OF any_of_decides [OF \<open>decides_each K False 3 (Row a) cs b1 b' _ _\<close>]]) (use object_keys in auto)
    from decides_alias [OF a this] show "decides K True 3 n s b b' anywhere (\<lambda>r. if deep then pg_contains (doc_of E (JObject ms)) (snd r) else covers (doc_of E (JObject ms)) (snd r))"
      unfolding cs(2) by (auto elim!: decides_weaken simp: covered_object pg_contains_def list_ex_iff)
  qed
next
  case (2 E n es deep b)
  show ?case
  proof (intro impI allI)
    fix s b' assume ok: "numbers_ok (doc_of E (JArray es))" and eq: "contained_by_json E n (JArray es) deep b = (s, b')"
    then have oks: "list_all (\<lambda>e. numbers_ok (doc_of E e)) es" by (simp add: list.pred_map comp_def)
    obtain a b1 where a: "next_alias b = (a, b1)" by fastforce
    obtain cs b2 where cs: "placed_elements E a es b1 = (cs, b2)" by fastforce
    from 2 [OF a [symmetric]] oks cs(1) have "decides_each K True 3 (Row a) cs b1 b2 anywhere (map (\<lambda>e r. covers (doc_of E e) (snd r)) es)"
      by simp
    from decides_alias [OF a no_row_decides [OF any_of_decides [OF this], where k = "''array''" and n = n]]
    have array: "decides K True 3 n (no_row_outside n ''array'' a cs) b b2 anywhere (\<lambda>r. covers (doc_of E (JArray es)) (snd r))"
      by (auto elim!: decides_weaken simp: covered_array list_ex_iff)
    show "decides K True 3 n s b b' anywhere (\<lambda>r. if deep then pg_contains (doc_of E (JArray es)) (snd r) else covers (doc_of E (JArray es)) (snd r))"
    proof (cases deep)
      case False
      then show ?thesis using eq a cs array by auto
    next
      case True
      obtain scs where scs: "scalars_equal E n es b2 = (scs, b')"
        "s = parenthesized (no_row_outside n ''array'' a cs @ lit '' OR '' @ any_of scs)"
        using eq a cs True by (auto split: prod.splits)
      have "pg_contains (DArr (map (doc_of E) es)) d = (covers (DArr (map (doc_of E) es)) d \<or> (\<exists>e \<in> set es. is_scalar e \<and> same_scalar d (doc_of E e)))" for d
      proof -
        have "scalar_doc d \<and> same_scalar (doc_of E e) d \<longleftrightarrow> is_scalar e \<and> same_scalar d (doc_of E e)" for e
          by (cases d; cases "doc_of E e"; cases e) auto
        then show ?thesis by (auto simp: pg_contains_def list_ex_iff)
      qed
      note pg = this
      show ?thesis
        unfolding scs(2) by (rule decides_weaken [OF decides_paren [OF decides_or [OF array any_of_decides [OF scalars_decides [OF oks scs(1)]]]]])
          (use True in \<open>auto simp: pg list_ex_iff\<close>)
    qed
  qed
next
  case (3 E n deep b) then show ?case using scalar_decides [of JNull E n b] by (auto simp: pg_contains_def covers_scalar same_scalar_sym [of DNull])
next
  case (4 E n v deep b) then show ?case using scalar_decides [of "JBool v" E n b] by (auto simp: pg_contains_def covers_scalar same_scalar_sym [of "DBool _"])
next
  case (5 E n f i deep b) then show ?case using scalar_decides [of "JNumber f i" E n b] by (auto simp: pg_contains_def covers_scalar same_scalar_sym [of "DNum _"])
next
  case (6 E n x deep b) then show ?case using scalar_decides [of "JString x" E n b] by (auto simp: pg_contains_def covers_scalar same_scalar_sym [of "DText _"])
next
  case (8 E a m ms b)
  show ?case
  proof (intro impI allI)
    fix cs b' assume ok: "list_all (\<lambda>m. numbers_ok (doc_of E (snd m))) (m # ms)" and eq: "placed_members E a (m # ms) b = (cs, b')"
    obtain s b2 where s: "contained_by_json E (Row a) (snd m) False (bind_values [BText (fst m)] b) = (s, b2)" by fastforce
    obtain cs' where cs: "placed_members E a ms b2 = (cs', b')" "cs = parenthesized (a @ lit ''.key = ? AND '' @ s) # cs'"
      using eq s by (auto split: prod.splits)
    have "decides K True 3 (Row a) s (bind_values [BText (fst m)] b) b2 anywhere (\<lambda>r. covers (doc_of E (snd m)) (snd r))"
      using 8(1) ok s by simp
    from decides_paren [OF key_and_decides [OF this]]
    show "decides_each K False 3 (Row a) cs b b' (\<lambda>r. \<exists>s. fst r = KText s)
       (map (\<lambda>m r. fst r = KText (fst m) \<and> covers (doc_of E (snd m)) (snd r)) (m # ms))"
      unfolding cs(2) using 8(2) [OF s [symmetric]] ok cs(1) by auto
  qed
next
  case (10 E a e es b)
  show ?case
  proof (intro impI allI)
    fix cs b' assume ok: "list_all (\<lambda>e. numbers_ok (doc_of E e)) (e # es)" and eq: "placed_elements E a (e # es) b = (cs, b')"
    obtain s b2 where s: "contained_by_json E (Row a) e False b = (s, b2)" by fastforce
    obtain cs' where cs: "placed_elements E a es b2 = (cs', b')" "cs = s # cs'"
      using eq s by (auto split: prod.splits)
    from 10(1) 10(2) [OF s [symmetric]] ok cs(1) s show "decides_each K True 3 (Row a) cs b b' anywhere (map (\<lambda>e r. covers (doc_of E e) (snd r)) (e # es))"
      unfolding cs(2) by auto
  qed
qed auto

end

subsection \<open>Equality\<close>

lemma same_doc_scalar: "scalar_doc c \<Longrightarrow> same_doc d c = same_scalar d c"
  by (cases d; cases c; simp)

lemma same_doc_object:
  assumes "distinct (map fst cs)" "keys_distinct d"
  shows "same_doc d (DObj cs) \<longleftrightarrow> kind_name d = ''object'' \<and> length (children d) = length cs
    \<and> list_all (\<lambda>m. list_ex (\<lambda>x. fst x = KText (fst m) \<and> same_doc (snd x) (snd m)) (children d)) cs"
proof (cases "kind_name d = ''object''")
  case True
  then obtain ds where d: "d = DObj ds" by (auto simp: kind_object)
  with assms have dist: "distinct (map fst ds)" by simp
  have ex: "list_ex (\<lambda>x. fst x = KText (fst m) \<and> same_doc (snd x) (snd m)) (children d)
      \<longleftrightarrow> (case map_of ds (fst m) of None \<Rightarrow> False | Some v \<Rightarrow> same_doc v (snd m))" for m :: "ustr \<times> doc"
  proof -
    have "list_ex (\<lambda>x. fst x = KText (fst m) \<and> same_doc (snd x) (snd m)) (children d) \<longleftrightarrow> (\<exists>v. (fst m, v) \<in> set ds \<and> same_doc v (snd m))"
      by (auto simp: d list_ex_iff) (metis fst_conv snd_conv)
    then show ?thesis unfolding map_of_eq_Some_iff [OF dist, symmetric] by (auto split: option.splits)
  qed
  have "set (map fst ds) = set (map fst cs) \<longleftrightarrow> length ds = length cs" if "list_all (\<lambda>m. map_of ds (fst m) \<noteq> None) cs"
  proof -
    have sub: "set (map fst cs) \<subseteq> set (map fst ds)" using that by (auto simp: list_all_iff map_of_eq_None_iff)
    have card: "card (set (map fst ds)) = length ds" "card (set (map fst cs)) = length cs"
      using dist assms(1) by (metis distinct_card length_map)+
    show ?thesis
    proof
      assume "length ds = length cs"
      then show "set (map fst ds) = set (map fst cs)" using card_subset_eq [OF _ sub] card by simp
    next
      assume "set (map fst ds) = set (map fst cs)"
      then show "length ds = length cs" using card by simp
    qed
  qed
  moreover have "list_all (\<lambda>c. case map_of ds (fst c) of None \<Rightarrow> False | Some v \<Rightarrow> same_doc v (snd c)) cs \<Longrightarrow> list_all (\<lambda>m. map_of ds (fst m) \<noteq> None) cs"
    by (auto simp: list_all_iff split: option.splits)
  ultimately have "same_doc d (DObj cs) \<longleftrightarrow> length ds = length cs
     \<and> list_all (\<lambda>c. case map_of ds (fst c) of None \<Rightarrow> False | Some v \<Rightarrow> same_doc v (snd c)) cs" unfolding d same_doc.simps by blast
  then show ?thesis using True ex by (simp add: d)
qed (cases d; simp)

lemma same_doc_array:
  "same_doc d (DArr cs) \<longleftrightarrow> kind_name d = ''array'' \<and> length (children d) = length cs
    \<and> list_all (\<lambda>i. list_ex (\<lambda>x. fst x = KIndex i \<and> same_doc (snd x) (cs ! i)) (children d)) [0..<length cs]"
proof (cases "kind_name d = ''array''")
  case True
  then obtain ds where d: "d = DArr ds" by (auto simp: kind_array)
  have "list_ex (\<lambda>x. fst x = KIndex i \<and> same_doc (snd x) (cs ! i)) (children d) \<longleftrightarrow> i < length ds \<and> same_doc (ds ! i) (cs ! i)" for i
    by (auto simp: d list_ex_iff)
  then show ?thesis using True by (auto simp: d list_all2_conv_all_nth list_all_iff)
qed (cases d; simp)

locale json_distinct_documents = json_documents +
  assumes K_distinct: "K d \<Longrightarrow> keys_distinct d"
begin

lemma count_decides: "decides K False 3 n (lit ''(SELECT COUNT(*) FROM json_each('' @ node_json n @ lit '')) = '' @ show_nat k) b b
    (\<lambda>r. kind_name (snd r) = ''object'') (\<lambda>r. length (children (snd r)) = k)"
  unfolding decides_def
  by (rule exI [of _ "CountIs n k"], rule exI [of _ "[]"]) (auto simp: node_rows_def kind_object)

lemma length_decides: "decides K False 3 n (lit ''json_array_length('' @ node_json n @ lit '') = '' @ show_nat k) b b
    (\<lambda>r. kind_name (snd r) = ''array'') (\<lambda>r. length (children (snd r)) = k)"
  unfolding decides_def
  by (rule exI [of _ "LengthIs n k"], rule exI [of _ "[]"]) (auto simp: kind_array)

lemma index_exists_decides:
  assumes "decides K g 3 (Row a) s b b' anywhere p"
  shows "decides K True 3 n (exists_row n a (a @ lit ''.key = '' @ show_nat i @ lit '' AND '' @ s)) b b' (\<lambda>r. kind_name (snd r) = ''array'')
     (\<lambda>r. list_ex (\<lambda>x. fst x = KIndex i \<and> p x) (children (snd r)))"
proof -
  have "decides K False 1 (Row a) ((a @ lit ''.key = '' @ show_nat i) @ lit '' AND '' @ s) b b' (\<lambda>r. \<exists>j. fst r = KIndex j) (\<lambda>r. fst r = KIndex i \<and> p r)"
    by (rule decides_and [OF decides_weaken [OF index_decides] decides_weaken [OF assms]]) auto
  from exists_decides [OF this, where D' = "\<lambda>r. kind_name (snd r) = ''array''"] show ?thesis
    using array_rows by simp
qed

lemma equals_decides:
  "numbers_ok (doc_of E j) \<and> keys_distinct (doc_of E j) \<longrightarrow> (\<forall>s b'. equals_json E n j b = (s, b') \<longrightarrow>
     decides K True 3 n s b b' anywhere (\<lambda>r. same_doc (snd r) (doc_of E j)))"
  "list_all (\<lambda>m. numbers_ok (doc_of E (snd m)) \<and> keys_distinct (doc_of E (snd m))) ms \<longrightarrow> (\<forall>cs b'. equal_members E n ms b = (cs, b') \<longrightarrow>
     decides_each K False 3 n cs b b' (\<lambda>r. kind_name (snd r) = ''object'')
       (map (\<lambda>m r. list_ex (\<lambda>x. fst x = KText (fst m) \<and> same_doc (snd x) (doc_of E (snd m))) (children (snd r))) ms))"
  "list_all (\<lambda>e. numbers_ok (doc_of E e) \<and> keys_distinct (doc_of E e)) es \<longrightarrow> (\<forall>cs b'. equal_elements E n i es b = (cs, b') \<longrightarrow>
     decides_each K False 3 n cs b b' (\<lambda>r. kind_name (snd r) = ''array'')
       (map (\<lambda>k r. list_ex (\<lambda>x. fst x = KIndex (i + k) \<and> same_doc (snd x) (doc_of E (es ! k))) (children (snd r))) [0..<length es]))"
proof (induction E n j b and E n ms b and E n i es b rule: equals_json_equal_members_equal_elements.induct, goal_cases)
  case (1 E n ms b)
  show ?case
  proof (intro impI allI)
    fix s b' assume ok: "numbers_ok (doc_of E (JObject ms)) \<and> keys_distinct (doc_of E (JObject ms))" and eq: "equals_json E n (JObject ms) b = (s, b')"
    let ?count = "lit ''(SELECT COUNT(*) FROM json_each('' @ node_json n @ lit '')) = '' @ show_nat (length ms)"
    obtain cs where cs: "equal_members E n ms b = (cs, b')" "s = parenthesized (join (lit '' AND '') (kind_is n ''object'' # ?count # cs))"
      using eq by (auto split: prod.splits)
    from 1 ok cs(1) have each: "decides_each K False 3 n (?count # cs) b b' (\<lambda>r. kind_name (snd r) = ''object'')
       ((\<lambda>r. length (children (snd r)) = length ms) # map (\<lambda>m r. list_ex (\<lambda>x. fst x = KText (fst m) \<and> same_doc (snd x) (doc_of E (snd m))) (children (snd r))) ms)"
      using count_decides [of n "length ms" b] unfolding decides_each.simps by (auto simp: list.pred_map comp_def list_all_iff)
    have dist: "distinct (map fst (map (\<lambda>m. (fst m, doc_of E (snd m))) ms))" using ok by (simp add: comp_def)
    show "decides K True 3 n s b b' anywhere (\<lambda>r. same_doc (snd r) (doc_of E (JObject ms)))"
      unfolding cs(2) by (rule decides_weaken [OF container_decides [OF each]])
        (use K_distinct same_doc_object [OF dist] in \<open>auto simp: list.pred_map comp_def\<close>)
  qed
next
  case (2 E n es b)
  show ?case
  proof (intro impI allI)
    fix s b' assume ok: "numbers_ok (doc_of E (JArray es)) \<and> keys_distinct (doc_of E (JArray es))" and eq: "equals_json E n (JArray es) b = (s, b')"
    let ?count = "lit ''json_array_length('' @ node_json n @ lit '') = '' @ show_nat (length es)"
    obtain cs where cs: "equal_elements E n 0 es b = (cs, b')" "s = parenthesized (join (lit '' AND '') (kind_is n ''array'' # ?count # cs))"
      using eq by (auto split: prod.splits)
    from 2 ok cs(1) have each: "decides_each K False 3 n (?count # cs) b b' (\<lambda>r. kind_name (snd r) = ''array'')
       ((\<lambda>r. length (children (snd r)) = length es) # map (\<lambda>k r. list_ex (\<lambda>x. fst x = KIndex k \<and> same_doc (snd x) (doc_of E (es ! k))) (children (snd r))) [0..<length es])"
      using length_decides [of n "length es" b] unfolding decides_each.simps by (auto simp: list.pred_map comp_def list_all_iff)
    show "decides K True 3 n s b b' anywhere (\<lambda>r. same_doc (snd r) (doc_of E (JArray es)))"
      unfolding cs(2) by (rule decides_weaken [OF container_decides [OF each]])
        (auto simp: same_doc_array list_all_iff)
  qed
next
  case (3 E n b) then show ?case using scalar_decides [of JNull E n b] by (auto simp: same_doc_scalar)
next
  case (4 E n v b) then show ?case using scalar_decides [of "JBool v" E n b] by (auto simp: same_doc_scalar)
next
  case (5 E n f k b) then show ?case using scalar_decides [of "JNumber f k" E n b] by (auto simp: same_doc_scalar)
next
  case (6 E n x b) then show ?case using scalar_decides [of "JString x" E n b] by (auto simp: same_doc_scalar)
next
  case (8 E n m ms b)
  show ?case
  proof (intro impI allI)
    fix cs b' assume ok: "list_all (\<lambda>m. numbers_ok (doc_of E (snd m)) \<and> keys_distinct (doc_of E (snd m))) (m # ms)" and eq: "equal_members E n (m # ms) b = (cs, b')"
    obtain a b1 where a: "next_alias b = (a, b1)" by fastforce
    obtain s b2 where s: "equals_json E (Row a) (snd m) (bind_values [BText (fst m)] b1) = (s, b2)" by fastforce
    obtain cs' where cs: "equal_members E n ms b2 = (cs', b')" "cs = exists_row n a (a @ lit ''.key = ? AND '' @ s) # cs'"
      using eq a s by (auto split: prod.splits)
    have "decides K True 3 (Row a) s (bind_values [BText (fst m)] b1) b2 anywhere (\<lambda>r. same_doc (snd r) (doc_of E (snd m)))"
      using 8(1) [OF a [symmetric]] ok s by simp
    from decides_unguarded [OF decides_alias [OF a key_exists_decides [OF this]]] 8(2) [OF a [symmetric] s [symmetric]] ok cs(1)
    show "decides_each K False 3 n cs b b' (\<lambda>r. kind_name (snd r) = ''object'')
       (map (\<lambda>m r. list_ex (\<lambda>x. fst x = KText (fst m) \<and> same_doc (snd x) (doc_of E (snd m))) (children (snd r))) (m # ms))"
      unfolding cs(2) by auto
  qed
next
  case (10 E n i e es b)
  show ?case
  proof (intro impI allI)
    fix cs b' assume ok: "list_all (\<lambda>e. numbers_ok (doc_of E e) \<and> keys_distinct (doc_of E e)) (e # es)" and eq: "equal_elements E n i (e # es) b = (cs, b')"
    obtain a b1 where a: "next_alias b = (a, b1)" by fastforce
    obtain s b2 where s: "equals_json E (Row a) e b1 = (s, b2)" by fastforce
    obtain cs' where cs: "equal_elements E n (i + 1) es b2 = (cs', b')" "cs = exists_row n a (a @ lit ''.key = '' @ show_nat i @ lit '' AND '' @ s) # cs'"
      using eq a s by (auto split: prod.splits)
    have "decides K True 3 (Row a) s b1 b2 anywhere (\<lambda>r. same_doc (snd r) (doc_of E e))"
      using 10(1) [OF a [symmetric]] ok s by simp
    from decides_unguarded [OF decides_alias [OF a index_exists_decides [OF this]]]
    have first: "decides K False 3 n (exists_row n a (a @ lit ''.key = '' @ show_nat i @ lit '' AND '' @ s)) b b2 (\<lambda>r. kind_name (snd r) = ''array'')
        (\<lambda>r. list_ex (\<lambda>x. fst x = KIndex i \<and> same_doc (snd x) (doc_of E e)) (children (snd r)))" .
    have "[0..<length (e # es)] = 0 # map Suc [0..<length es]" by (simp add: map_Suc_upt upt_conv_Cons del: upt_Suc)
    then show "decides_each K False 3 n cs b b' (\<lambda>r. kind_name (snd r) = ''array'')
       (map (\<lambda>k r. list_ex (\<lambda>x. fst x = KIndex (i + k) \<and> same_doc (snd x) (doc_of E ((e # es) ! k))) (children (snd r))) [0..<length (e # es)])"
      unfolding cs(2) using 10(2) [OF a [symmetric] s [symmetric]] ok cs(1) first by (auto simp: comp_def)
  qed
qed auto

end

section \<open>The tests of SQLite\<close>

text \<open>
  A rendered test with its bound values decides a predicate of the stored document: the text is a test
  without ambiguity, with one marker for every value, that holds of a document exactly when the predicate
  does, and is not true of a NULL column.
\<close>

definition sql_decides :: "(doc \<Rightarrow> bool) \<Rightarrow> ustr \<times> Bound list \<Rightarrow> (doc \<Rightarrow> bool) \<Rightarrow> bool" where
  "sql_decides K bound P \<longleftrightarrow>
     (\<exists>t. test_sql t = fst bound \<and> unambiguous t \<and> markers t = length (snd bound)
        \<and> (\<forall>S d rows. K d \<longrightarrow> holds S (Some d) rows (snd bound) t = Some (P d))
        \<and> (\<forall>S rows. holds S None rows (snd bound) t \<noteq> Some True))"

lemma decides_sql:
  assumes "decides K True l (Document col) sql no_tests b anywhere (\<lambda>r. P (snd r))"
  shows "sql_decides K (sql, test_values b) P"
proof -
  from assms obtain t ps where t: "sql = test_sql t" "unambiguous t" "test_values b = ps" "markers t = length ps"
    and h: "\<And>S c rows rest r. node_row c rows (Document col) = Some r \<Longrightarrow> K (snd r) \<Longrightarrow> holds S c rows (ps @ rest) t = Some (P (snd r))"
    "\<And>S c rows rest. node_row c rows (Document col) = None \<Longrightarrow> holds S c rows (ps @ rest) t \<noteq> Some True"
    unfolding decides_def no_tests_def by auto
  have "holds S (Some d) rows ps t = Some (P d)" if "K d" for S d rows
    using h(1) [of "Some d" rows "(KNull, d)" S "[]"] that by simp
  moreover have "holds S None rows ps t \<noteq> Some True" for S rows using h(2) [of None rows S "[]"] by simp
  ultimately show ?thesis unfolding sql_decides_def using t by auto
qed

interpretation readable: json_documents numbers_ok
proof
  show "numbers_ok (snd x)" if "numbers_ok d" "x \<in> set (children d)" for d x
    using that by (cases d) (auto simp: list_all_iff)
qed simp

interpretation canonical: json_distinct_documents "\<lambda>d. numbers_ok d \<and> keys_distinct d"
proof
  show "numbers_ok (snd x) \<and> keys_distinct (snd x)" if "numbers_ok d \<and> keys_distinct d" "x \<in> set (children d)" for d x
    using that by (cases d) (auto simp: list_all_iff)
qed simp_all

text \<open>C9. On SQLite a JSON containment filter keeps exactly the rows PostgreSQL's \<open>@>\<close> and \<open><@\<close> keep, however
  deeply the value nests: the rendered text, read with its values in the order they are bound, holds of
  every stored document exactly when the document contains the value, or the value the document, with
  numbers compared by value; and a NULL column is never kept.\<close>

theorem sqlite_containment_exact:
  assumes "numbers_ok (doc_of E v)"
  shows "sql_decides numbers_ok (sqlite_json_contains E col v) (\<lambda>d. pg_contains d (doc_of E v))
    \<and> sql_decides numbers_ok (sqlite_json_contained_by E col v) (\<lambda>d. pg_contains (doc_of E v) d)"
proof
  obtain s b where s: "contains_json E (Document col) v True no_tests = (s, b)" by fastforce
  from decides_sql [where P = "\<lambda>d. pg_contains d (doc_of E v)"] readable.contains_decides(1) [of E v "Document col" True no_tests] assms s
  show "sql_decides numbers_ok (sqlite_json_contains E col v) (\<lambda>d. pg_contains d (doc_of E v))"
    by (simp add: sqlite_json_contains_def)
  obtain s b where s: "contained_by_json E (Document col) v True no_tests = (s, b)" by fastforce
  from decides_sql [where P = "\<lambda>d. pg_contains (doc_of E v) d"] readable.contained_by_decides(1) [of E v "Document col" True no_tests] assms s
  show "sql_decides numbers_ok (sqlite_json_contained_by E col v) (\<lambda>d. pg_contains (doc_of E v) d)"
    by (simp add: sqlite_json_contained_by_def)
qed

lemma sqlite_equals_decides:
  assumes "numbers_ok (doc_of E v)" "keys_distinct (doc_of E v)"
  shows "sql_decides (\<lambda>d. numbers_ok d \<and> keys_distinct d) (sqlite_json_equals E col v) (\<lambda>d. same_doc d (doc_of E v))"
proof -
  obtain s b where s: "equals_json E (Document col) v no_tests = (s, b)" by fastforce
  from decides_sql [where P = "\<lambda>d. same_doc d (doc_of E v)"] canonical.equals_decides(1) [of E v "Document col" no_tests] assms s
  show ?thesis by (simp add: sqlite_json_equals_def)
qed

definition demo_json_env :: json_env where
  "demo_json_env = \<lparr>json_text = (\<lambda>_. []), number_text = (\<lambda>_ i. case i of Some n \<Rightarrow> show_nat (nat n) @ lit ''.50e1'' | None \<Rightarrow> lit ''0'')\<rparr>"

definition demo_json :: Json where
  "demo_json = JObject [(lit ''tags'', JArray [JString (lit ''a''), JNumber None (Some 3)]), (lit ''on'', JBool True)]"

theorem sqlite_containment_exact_witness:
  "numbers_ok (doc_of demo_json_env demo_json)
   \<and> sql_decides numbers_ok (sqlite_json_contains demo_json_env (lit ''data'') demo_json) (\<lambda>d. pg_contains d (doc_of demo_json_env demo_json))
   \<and> sql_decides numbers_ok (sqlite_json_contained_by demo_json_env (lit ''data'') demo_json) (\<lambda>d. pg_contains (doc_of demo_json_env demo_json) d)"
proof -
  have "numbers_ok (doc_of demo_json_env demo_json)" by code_simp
  then show ?thesis using sqlite_containment_exact by blast
qed

end
