(* ===== verification/Json_Paths.thy ===== *)
theory Json_Paths
  imports Json_Containment
begin

text \<open>
  JSON paths and the JSON tests of the other backends: \<open>src/src/query/db_sql.rs\<close> (the path parser and
  printer, \<open>json_equals_bound\<close>, \<open>json_containment_bound\<close>, \<open>json_exists_bound\<close>) and
  \<open>src/src/query/db_sql/mysql_json.rs\<close>. Reading a JSON string is the parameter \<open>from_json_string\<close> next to
  serde's writer.
\<close>

section \<open>Paths\<close>

record path_env = json_env +
  from_json_string :: "ustr \<Rightarrow> ustr option"

datatype JsonPathStep = Member ustr | Element "64 word"

text \<open>The loop of \<open>parse_quoted_json_path_segment\<close>: the JSON text read so far, and what is left.\<close>

fun quoted_segment :: "uchar \<Rightarrow> ustr \<Rightarrow> ustr \<Rightarrow> (ustr \<times> ustr) option" where
  "quoted_segment quote json [] = None"
| "quoted_segment quote json (c # r) =
     (if c = quote then Some (json @ [ch_dquote], r)
      else if c = ch_backslash
      then (case r of
          [] \<Rightarrow> None
        | escaped # r \<Rightarrow>
            if quote = ch_quote \<and> escaped = ch_quote then quoted_segment quote (json @ [ch_quote]) r
            else quoted_segment quote (json @ [ch_backslash, escaped]) r)
      else if c = ch_dquote then quoted_segment quote (json @ [ch_backslash, c]) r
      else quoted_segment quote (json @ [c]) r)"

definition parse_quoted_json_path_segment :: "'x path_env_scheme \<Rightarrow> ustr \<Rightarrow> (ustr \<times> ustr) option" where
  "parse_quoted_json_path_segment E s =
     (case s of
        [] \<Rightarrow> None
      | quote # r \<Rightarrow>
          Option.bind (quoted_segment quote [ch_dquote] r) (\<lambda>(json, r). map_option (\<lambda>k. (k, r)) (from_json_string E json)))"

lemma quoted_segment_shorter: "quoted_segment q j s = Some (t, r) \<Longrightarrow> length r < length s"
  by (induction q j s rule: quoted_segment.induct) (auto split: if_splits list.splits)

lemma parse_quoted_shorter: "parse_quoted_json_path_segment E s = Some (k, r) \<Longrightarrow> length r < length s"
  by (fastforce simp: parse_quoted_json_path_segment_def bind_eq_Some_conv dest: quoted_segment_shorter split: list.splits)

definition parse_u64 :: "ustr \<Rightarrow> 64 word option" where
  "parse_u64 digits =
     (if digits \<noteq> [] \<and> list_all is_ascii_digit digits \<and> digits_value 0 digits < 2 ^ 64
      then Some (word_of_nat (digits_value 0 digits)) else None)"

definition segment_char :: "uchar \<Rightarrow> bool" where
  "segment_char c \<longleftrightarrow> c \<noteq> ch_dot \<and> c \<noteq> ch_lbracket"

text \<open>The loop over the steps, by the text that is left.\<close>

function parse_json_steps :: "'x path_env_scheme \<Rightarrow> ustr \<Rightarrow> JsonPathStep list option" where
  "parse_json_steps E [] = Some []"
| "parse_json_steps E (c # r) =
     (if c = ch_dot
      then (case r of
          [] \<Rightarrow> None
        | q # _ \<Rightarrow>
            if q = ch_dquote \<or> q = ch_quote
            then Option.bind (parse_quoted_json_path_segment E r)
                   (\<lambda>p. map_option (Cons (Member (fst p))) (parse_json_steps E (snd p)))
            else (let segment = takeWhile segment_char r
                  in if \<not> is_safe_identifier_segment segment then None
                     else map_option (Cons (Member segment)) (parse_json_steps E (dropWhile segment_char r))))
      else if c = ch_lbracket
      then Option.bind
             (case r of
                [] \<Rightarrow> None
              | q # _ \<Rightarrow>
                  if q = ch_dquote \<or> q = ch_quote
                  then map_option (map_prod Member id) (parse_quoted_json_path_segment E r)
                  else if is_ascii_digit q
                  then map_option (\<lambda>n. (Element n, dropWhile is_ascii_digit r)) (parse_u64 (takeWhile is_ascii_digit r))
                  else None)
             (\<lambda>p. case snd p of
                [] \<Rightarrow> None
              | d # s \<Rightarrow> if d = ch_rbracket then map_option (Cons (fst p)) (parse_json_steps E s) else None)
      else None)"
  by pat_completeness auto
termination
proof (relation "measure (\<lambda>(E, s). length s)", goal_cases)
  case (2 E c r q r' p)
  then show ?case using parse_quoted_shorter [of E r "fst p" "snd p"] by auto
next
  case (3 E c r q r' segment)
  then show ?case using length_dropWhile_le [of segment_char r] by auto
next
  case (4 E c r p d s)
  then show ?case
    using parse_quoted_shorter [of E r] length_dropWhile_le [of is_ascii_digit r]
    by (fastforce split: list.splits if_splits)
qed simp

definition parse_json_path :: "'x path_env_scheme \<Rightarrow> ustr \<Rightarrow> JsonPathStep list option" where
  "parse_json_path E path =
     (case path of [] \<Rightarrow> None | c # r \<Rightarrow> if c = ch_dollar then parse_json_steps E r else None)"

definition json_member_path :: "'x json_env_scheme \<Rightarrow> ustr \<Rightarrow> ustr \<Rightarrow> ustr" where
  "json_member_path E path key = path @ [ch_dot] @ json_text E (JString key)"

definition push_step :: "'x json_env_scheme \<Rightarrow> ustr \<Rightarrow> JsonPathStep \<Rightarrow> ustr" where
  "push_step E path step =
     (case step of
        Member key \<Rightarrow> json_member_path E path key
      | Element index \<Rightarrow> path @ [ch_lbracket] @ show_nat (unat index) @ [ch_rbracket])"

definition json_path_text :: "'x json_env_scheme \<Rightarrow> JsonPathStep list \<Rightarrow> ustr" where
  "json_path_text E steps = foldl (push_step E) [ch_dollar] steps"

definition postgres_json_path_array :: "JsonPathStep list \<Rightarrow> ustr" where
  "postgres_json_path_array steps =
     [123] @ join [ch_comma] (map (\<lambda>step.
        [ch_dquote]
        @ replace [ch_dquote] [ch_backslash, ch_dquote] (replace [ch_backslash] [ch_backslash, ch_backslash]
            (case step of Member key \<Rightarrow> key | Element index \<Rightarrow> show_nat (unat index)))
        @ [ch_dquote]) steps) @ [125]"

section \<open>MySQL and MariaDB\<close>

datatype Kind_of_value = ObjectKind | ArrayKind | NotArray | NotObject | ArrayOrAbsent

definition sql_name :: "string \<Rightarrow> ustr" where
  "sql_name s = [ch_quote] @ lit s @ [ch_quote]"

definition guard_sql :: "ustr \<Rightarrow> Kind_of_value \<Rightarrow> ustr" where
  "guard_sql column_sql kind =
     (let value_type = lit ''JSON_TYPE(JSON_EXTRACT('' @ column_sql @ lit '', ?))'' in
      case kind of
        ObjectKind \<Rightarrow> value_type @ lit '' = '' @ sql_name ''OBJECT''
      | ArrayKind \<Rightarrow> value_type @ lit '' = '' @ sql_name ''ARRAY''
      | NotArray \<Rightarrow> value_type @ lit '' <> '' @ sql_name ''ARRAY''
      | NotObject \<Rightarrow> value_type @ lit '' <> '' @ sql_name ''OBJECT''
      | ArrayOrAbsent \<Rightarrow> lit ''COALESCE('' @ value_type @ lit '', '' @ sql_name ''ARRAY'' @ lit '') = '' @ sql_name ''ARRAY'')"

text \<open>The guards of the source are pushed onto a list in this order.\<close>

fun contains_guards :: "'x json_env_scheme \<Rightarrow> Json \<Rightarrow> ustr \<Rightarrow> (ustr \<times> Kind_of_value) list" where
  "contains_guards E (JObject ms) path =
     concat (map (\<lambda>m. contains_guards E (snd m) (json_member_path E path (fst m))) ms) @ [(path, ObjectKind)]"
| "contains_guards E (JArray _) path = []"
| "contains_guards E scalar path = (if path = [ch_dollar] then [] else [(path, NotArray)])"

fun contained_by_guards :: "'x json_env_scheme \<Rightarrow> Json \<Rightarrow> ustr \<Rightarrow> (ustr \<times> Kind_of_value) list" where
  "contained_by_guards E (JObject ms) path =
     concat (map (\<lambda>m. contained_by_guards E (snd m) (json_member_path E path (fst m))) ms)"
| "contained_by_guards E (JArray _) path = [(path, if path = [ch_dollar] then NotObject else ArrayOrAbsent)]"
| "contained_by_guards E scalar path = []"

definition json_scalar_parameter :: "'x json_env_scheme \<Rightarrow> Json \<Rightarrow> Bound" where
  "json_scalar_parameter E v = BText (json_text E v)"

definition render_guarded :: "'x json_env_scheme \<Rightarrow> ustr \<Rightarrow> ustr \<Rightarrow> Json \<Rightarrow> (ustr \<times> Kind_of_value) list \<Rightarrow> ustr \<times> Bound list" where
  "render_guarded E containment column_sql document guards =
     (containment @ concat (map (\<lambda>g. lit '' AND '' @ guard_sql column_sql (snd g)) guards),
      json_scalar_parameter E document # map (\<lambda>g. BText (fst g)) guards)"

definition mysql_json_contains :: "'x json_env_scheme \<Rightarrow> ustr \<Rightarrow> Json \<Rightarrow> ustr \<times> Bound list" where
  "mysql_json_contains E column_sql candidate =
     render_guarded E (lit ''JSON_CONTAINS('' @ column_sql @ lit '', ?)'') column_sql candidate (contains_guards E candidate [ch_dollar])"

definition mysql_json_contained_by :: "'x json_env_scheme \<Rightarrow> ustr \<Rightarrow> Json \<Rightarrow> ustr \<times> Bound list" where
  "mysql_json_contained_by E column_sql target =
     render_guarded E (lit ''JSON_CONTAINS(?, '' @ column_sql @ [ch_rparen]) column_sql target (contained_by_guards E target [ch_dollar])"

section \<open>The tests of every backend\<close>

definition unknown_when_null :: "ustr \<Rightarrow> ustr \<Rightarrow> ustr" where
  "unknown_when_null column_sql test = lit ''CASE WHEN '' @ column_sql @ lit '' IS NOT NULL THEN '' @ test @ lit '' END''"

definition postgres_jsonb :: "ustr \<Rightarrow> ustr" where
  "postgres_jsonb column_sql = [ch_lparen] @ column_sql @ lit '')::jsonb''"

abbreviation json_of :: "'x json_env_scheme \<Rightarrow> json_env" where
  "json_of E \<equiv> \<lparr>json_text = json_text E, number_text = number_text E\<rparr>"

fun json_equals_bound :: "'x json_env_scheme \<Rightarrow> DatabaseType \<Rightarrow> ustr \<Rightarrow> Json \<Rightarrow> bool \<Rightarrow> ustr \<times> Bound list" where
  "json_equals_bound E Postgres column_sql v negated =
     (postgres_jsonb column_sql @ lit '' '' @ (if negated then lit ''<>'' else lit ''='') @ lit '' $1'', [BJson v])"
| "json_equals_bound E MySQL column_sql v negated =
     (column_sql @ lit '' '' @ (if negated then lit ''<>'' else lit ''='') @ lit '' CAST(? AS JSON)'', [json_scalar_parameter E v])"
| "json_equals_bound E MariaDB column_sql v negated =
     ((if negated then lit ''NOT '' else []) @ [ch_lparen]
      @ unknown_when_null column_sql (lit ''JSON_EQUALS('' @ column_sql @ lit '', ?)'') @ [ch_rparen], [json_scalar_parameter E v])"
| "json_equals_bound E SQLite column_sql v negated =
     (case sqlite_json_equals (json_of E) column_sql v of (equal, values) \<Rightarrow>
        (if negated then [ch_lparen] @ column_sql @ lit '' IS NOT NULL AND NOT '' @ equal @ [ch_rparen] else equal, values))"

fun json_containment_bound :: "'x json_env_scheme \<Rightarrow> DatabaseType \<Rightarrow> ustr \<Rightarrow> Json \<Rightarrow> JsonContainment \<Rightarrow> ustr \<times> Bound list" where
  "json_containment_bound E Postgres column_sql v containment =
     (postgres_jsonb column_sql @ lit '' '' @ (if containment = Contains then lit ''@>'' else lit ''<@'') @ lit '' $1'', [BJson v])"
| "json_containment_bound E SQLite column_sql v containment =
     (if containment = Contains then sqlite_json_contains (json_of E) column_sql v else sqlite_json_contained_by (json_of E) column_sql v)"
| "json_containment_bound E _ column_sql v containment =
     (if containment = Contains then mysql_json_contains E column_sql v else mysql_json_contained_by E column_sql v)"

fun is_element :: "JsonPathStep \<Rightarrow> bool" where
  "is_element (Element _) = True" | "is_element (Member _) = False"

text \<open>The parents of the indexed steps of a path, in order.\<close>

definition element_parents :: "JsonPathStep list \<Rightarrow> JsonPathStep list list" where
  "element_parents steps = map (\<lambda>i. take i steps) (filter (\<lambda>i. is_element (steps ! i)) [0..<length steps])"

definition json_exists_bound :: "'x path_env_scheme \<Rightarrow> DatabaseType \<Rightarrow> ustr \<Rightarrow> JsonExistence \<Rightarrow> ustr \<Rightarrow> bool
    \<Rightarrow> (ustr \<times> Bound list) option" where
  "json_exists_bound E db_type column_sql existence target negated =
     (let steps = (case existence of KeyExistence \<Rightarrow> Some [Member target] | PathExistence \<Rightarrow> parse_json_path E target);
          jsonb = postgres_jsonb column_sql
      in map_option (\<lambda>(sql, bound). (if negated then lit ''NOT ('' @ sql @ [ch_rparen] else sql, map BText bound))
        (case db_type of
           Postgres \<Rightarrow> Some (case existence of
               KeyExistence \<Rightarrow> (unknown_when_null column_sql
                   (lit ''(jsonb_typeof('' @ jsonb @ lit '') = '' @ sql_name ''object'' @ lit '' AND '' @ jsonb @ lit '' ? $1)''), [target])
             | PathExistence \<Rightarrow> (case steps of
                   Some steps \<Rightarrow> (unknown_when_null column_sql (lit ''COALESCE('' @ jsonb @ lit '' @? ($1::jsonpath), FALSE)''),
                       [lit ''strict '' @ json_path_text E steps])
                 | None \<Rightarrow> (jsonb @ lit '' @? ($1::jsonpath)'', [target])))
         | SQLite \<Rightarrow> map_option (\<lambda>steps.
               (unknown_when_null column_sql (lit ''json_type('' @ column_sql @ lit '', ?) IS NOT NULL''), [json_path_text E steps])) steps
         | _ \<Rightarrow> map_option (\<lambda>steps.
               (lit ''JSON_CONTAINS_PATH('' @ column_sql @ lit '', 'one', ?)''
                  @ concat (map (\<lambda>_. lit '' AND '' @ guard_sql column_sql ArrayKind) (element_parents steps)),
                json_path_text E steps # map (json_path_text E) (element_parents steps))) steps))"

section \<open>Reading back a path\<close>

text \<open>
  What the JSON grammar says of a string: its text is quoted, a quote inside is escaped, and reading the
  text gives the string back.
\<close>

fun escaped_text :: "ustr \<Rightarrow> bool" where
  "escaped_text [] \<longleftrightarrow> True"
| "escaped_text (c # r) \<longleftrightarrow>
     (if c = ch_backslash then (case r of [] \<Rightarrow> False | _ # r \<Rightarrow> escaped_text r) else c \<noteq> ch_dquote \<and> escaped_text r)"

definition json_string_law :: "'x path_env_scheme \<Rightarrow> bool" where
  "json_string_law E \<longleftrightarrow>
     (\<forall>k. \<exists>body. json_text E (JString k) = [ch_dquote] @ body @ [ch_dquote] \<and> escaped_text body
        \<and> from_json_string E ([ch_dquote] @ body @ [ch_dquote]) = Some k)"

lemma quoted_segment_escaped:
  "escaped_text body \<Longrightarrow> quoted_segment ch_dquote json (body @ ch_dquote # r) = Some (json @ body @ [ch_dquote], r)"
proof (induction body arbitrary: json rule: escaped_text.induct)
  case (2 c s)
  then show ?case by (cases "c = ch_backslash"; cases s) (auto split: if_splits)
qed simp

lemma parse_quoted_law:
  assumes "json_string_law E"
  shows "parse_quoted_json_path_segment E (json_text E (JString k) @ r) = Some (k, r)"
proof -
  from assms obtain body where "json_text E (JString k) = [ch_dquote] @ body @ [ch_dquote]" "escaped_text body"
    "from_json_string E ([ch_dquote] @ body @ [ch_dquote]) = Some k" unfolding json_string_law_def by blast
  then show ?thesis using quoted_segment_escaped [of body "[ch_dquote]" r] by (simp add: parse_quoted_json_path_segment_def)
qed

lemma json_text_quoted: "json_string_law E \<Longrightarrow> \<exists>s. json_text E (JString k) = ch_dquote # s"
  unfolding json_string_law_def by (metis append_Cons append_Nil)

lemma parse_u64_show: "parse_u64 (show_nat (unat (w :: 64 word))) = Some w"
proof -
  have "unat w < 2 ^ 64" using unsigned_less [of w] by simp
  then show ?thesis by (simp add: parse_u64_def digits_value_show_nat show_nat_digits)
qed

lemma show_nat_prefix:
  assumes "\<not> is_ascii_digit c"
  shows "takeWhile is_ascii_digit (show_nat n @ c # r) = show_nat n" "dropWhile is_ascii_digit (show_nat n @ c # r) = c # r"
  using show_nat_digits [of n] assms by (simp_all add: list_all_iff)

lemma parse_step:
  assumes law: "json_string_law E"
  shows "parse_json_steps E (push_step E [] s @ r) = map_option (Cons s) (parse_json_steps E r)"
proof (cases s)
  case (Member k)
  obtain q where "json_text E (JString k) = ch_dquote # q" using json_text_quoted [OF law] by blast
  then show ?thesis using parse_quoted_law [OF law, of k r] by (simp add: Member push_step_def json_member_path_def)
next
  case (Element i)
  obtain d ds where d: "show_nat (unat i) = d # ds" "is_ascii_digit d"
    using show_nat_digits [of "unat i"] show_nat_nonempty [of "unat i"] by (cases "show_nat (unat i)") auto
  have "\<not> is_ascii_digit ch_rbracket" by (simp add: ascii_defs)
  note pre = show_nat_prefix [OF this, of "unat i" r]
  show ?thesis
    using pre d parse_u64_show [of i] by (simp add: Element push_step_def ascii_defs)
qed

lemma push_step_prefix: "push_step E path s = path @ push_step E [] s"
  by (cases s) (simp_all add: push_step_def json_member_path_def)

lemma foldl_push_step: "foldl (push_step E) path steps = path @ concat (map (push_step E []) steps)"
proof (induction steps arbitrary: path)
  case (Cons s steps)
  then show ?case using push_step_prefix [of E path s] by simp
qed simp

lemma parse_json_path_text: "json_string_law E \<Longrightarrow> parse_json_path E (json_path_text E steps) = Some steps"
proof -
  assume law: "json_string_law E"
  have "parse_json_steps E (concat (map (push_step E []) steps)) = Some steps"
    by (induction steps) (simp_all add: parse_step [OF law])
  then show ?thesis by (simp add: parse_json_path_def json_path_text_def foldl_push_step)
qed

section \<open>Strict paths and PostgreSQL's containment on MySQL\<close>

text \<open>What a path finds, read strictly: a member of an object only, an element of an array only.\<close>

fun value_at :: "doc \<Rightarrow> JsonPathStep list \<Rightarrow> doc option" where
  "value_at d [] = Some d"
| "value_at (DObj ms) (Member k # steps) = Option.bind (map_of ms k) (\<lambda>v. value_at v steps)"
| "value_at (DArr ds) (Element i # steps) = (if unat i < length ds then value_at (ds ! unat i) steps else None)"
| "value_at _ _ = None"

text \<open>What MySQL and MariaDB find: the first element of a value that is no array is the value itself.\<close>

fun mysql_value_at :: "doc \<Rightarrow> JsonPathStep list \<Rightarrow> doc option" where
  "mysql_value_at d [] = Some d"
| "mysql_value_at (DObj ms) (Member k # steps) = Option.bind (map_of ms k) (\<lambda>v. mysql_value_at v steps)"
| "mysql_value_at d (Member k # steps) = None"
| "mysql_value_at (DArr ds) (Element i # steps) = (if unat i < length ds then mysql_value_at (ds ! unat i) steps else None)"
| "mysql_value_at d (Element i # steps) = (if i = 0 then mysql_value_at d steps else None)"

definition is_array :: "doc \<Rightarrow> bool" where "is_array d \<longleftrightarrow> (\<exists>ds. d = DArr ds)"
definition is_object :: "doc \<Rightarrow> bool" where "is_object d \<longleftrightarrow> (\<exists>ms. d = DObj ms)"

text \<open>The guards, as SQL reads them: a comparison with a missing value is not true.\<close>

fun guard_holds :: "Kind_of_value \<Rightarrow> doc option \<Rightarrow> bool" where
  "guard_holds ObjectKind v = (\<exists>d. v = Some d \<and> is_object d)"
| "guard_holds ArrayKind v = (\<exists>d. v = Some d \<and> is_array d)"
| "guard_holds NotArray v = (\<exists>d. v = Some d \<and> \<not> is_array d)"
| "guard_holds NotObject v = (\<exists>d. v = Some d \<and> \<not> is_object d)"
| "guard_holds ArrayOrAbsent v = (\<forall>d. v = Some d \<longrightarrow> is_array d)"

text \<open>
  MySQL's \<open>JSON_CONTAINS\<close>: an array also contains what one of its elements contains. Scalars are
  compared by \<open>same_scalar\<close>, numbers by their decimal value, as in containment itself: MySQL keeps a
  number that is not an integer as a DOUBLE, so the comparison of two such numbers that agree only
  after rounding is outside this reading.
\<close>

fun mysql_contains :: "doc \<Rightarrow> doc \<Rightarrow> bool" where
  "mysql_contains (DArr ds) (DArr cs) = list_all (\<lambda>c. list_ex (\<lambda>d. mysql_contains d c) ds) cs"
| "mysql_contains (DArr ds) c = list_ex (\<lambda>d. mysql_contains d c) ds"
| "mysql_contains (DObj ds) (DObj cs) = list_all (\<lambda>c. list_ex (\<lambda>d. fst d = fst c \<and> mysql_contains (snd d) (snd c)) ds) cs"
| "mysql_contains d c = same_scalar d c"

fun arrays_hold :: "(doc \<Rightarrow> bool) \<Rightarrow> doc \<Rightarrow> bool" where
  "arrays_hold P (DArr ds) = (list_all P ds \<and> list_all (arrays_hold P) ds)"
| "arrays_hold P (DObj ms) = list_all (\<lambda>m. arrays_hold P (snd m)) ms"
| "arrays_hold P _ = True"

definition mysql_test :: "'x path_env_scheme \<Rightarrow> (ustr \<times> Kind_of_value) list \<Rightarrow> doc \<Rightarrow> bool" where
  "mysql_test E guards d \<longleftrightarrow>
     list_all (\<lambda>g. guard_holds (snd g) (Option.bind (parse_json_path E (fst g)) (mysql_value_at d))) guards"

text \<open>The members on a path of member steps are found alike.\<close>

lemma mysql_value_at_members: "list_all (\<lambda>s. \<not> is_element s) steps \<Longrightarrow> mysql_value_at d steps = value_at d steps"
  by (induction d steps rule: mysql_value_at.induct) (auto split: bind_splits)

lemma value_at_append: "value_at d (a @ b) = Option.bind (value_at d a) (\<lambda>v. value_at v b)"
  by (induction d a rule: value_at.induct) (auto split: bind_splits)

lemma mysql_scalar: "\<not> is_array d \<Longrightarrow> scalar_doc c \<Longrightarrow> mysql_contains d c = covers d c"
  by (cases d; cases c) (auto simp: is_array_def)

lemma mysql_array_content:
  assumes "arrays_hold (\<lambda>e. \<not> is_array e) (DArr ds)" "scalar_doc c"
  shows "list_ex (\<lambda>d. mysql_contains d c) ds = list_ex (\<lambda>d. covers d c) ds"
  using assms mysql_scalar by (auto simp: list_ex_iff list_all_iff)

lemma mysql_array:
  assumes "arrays_hold (\<lambda>e. \<not> is_array e) d" "list_all scalar_doc cs"
  shows "mysql_contains d (DArr cs) = covers d (DArr cs)"
proof (cases d)
  case (DArr ds)
  then show ?thesis using mysql_array_content [of ds] assms by (auto simp: list_all_iff)
qed (use assms in auto)

lemma json_member_text: "json_member_path E (json_path_text E steps) k = json_path_text E (steps @ [Member k])"
  by (simp add: json_path_text_def push_step_def)

lemma path_top: "json_path_text E steps = [ch_dollar] \<longleftrightarrow> steps = []"
proof (cases steps)
  case (Cons s r)
  have "push_step E [] s \<noteq> []" by (cases s) (auto simp: push_step_def json_member_path_def)
  then show ?thesis unfolding json_path_text_def foldl_push_step using Cons by simp
qed (simp add: json_path_text_def)

lemma guard_at:
  assumes "json_string_law E" "list_all (\<lambda>s. \<not> is_element s) steps"
  shows "mysql_test E [(json_path_text E steps, kind)] d = guard_holds kind (value_at d steps)"
  using parse_json_path_text [OF assms(1)] mysql_value_at_members [OF assms(2)] by (simp add: mysql_test_def)

lemma mysql_test_concat: "mysql_test E (concat (map f xs)) d \<longleftrightarrow> (\<forall>x \<in> set xs. mysql_test E (f x) d)"
  by (auto simp: mysql_test_def list_all_iff)

lemma mysql_test_append: "mysql_test E (a @ b) d \<longleftrightarrow> mysql_test E a d \<and> mysql_test E b d"
  by (simp add: mysql_test_def)

lemma object_member: "distinct (map fst ms) \<Longrightarrow> (\<exists>m \<in> set ms. fst m = k \<and> P (snd m)) \<longleftrightarrow> (\<exists>v. map_of ms k = Some v \<and> P v)"
  by (force simp: map_of_eq_Some_iff)

lemma scalar_guarded:
  assumes law: "json_string_law E" and at: "value_at d steps = Some v" "list_all (\<lambda>s. \<not> is_element s) steps"
    and c: "is_scalar c" "steps \<noteq> []"
  shows "(mysql_contains v (doc_of (json_of E) c) \<and> mysql_test E (contains_guards E c (json_path_text E steps)) d) = covers v (doc_of (json_of E) c)"
proof -
  have sc: "scalar_doc (doc_of (json_of E) c)" using c(1) scalar_doc_of by blast
  have "contains_guards E c (json_path_text E steps) = [(json_path_text E steps, NotArray)]"
    using c by (cases c) (simp_all add: path_top)
  then have "mysql_test E (contains_guards E c (json_path_text E steps)) d = (\<not> is_array v)"
    using guard_at [OF law at(2), of NotArray d] at(1) by simp
  moreover have "is_array v \<Longrightarrow> \<not> covers v (doc_of (json_of E) c)"
    using sc by (cases "doc_of (json_of E) c") (auto simp: is_array_def)
  ultimately show ?thesis using mysql_scalar [OF _ sc] by blast
qed

lemma contains_guarded:
  assumes law: "json_string_law E"
  shows "value_at d steps = Some v \<Longrightarrow> list_all (\<lambda>s. \<not> is_element s) steps \<Longrightarrow> keys_distinct v
     \<Longrightarrow> arrays_hold (\<lambda>e. \<not> is_array e) v \<Longrightarrow> arrays_hold scalar_doc (doc_of (json_of E) c) \<Longrightarrow> (is_scalar c \<longrightarrow> steps \<noteq> [])
     \<Longrightarrow> (mysql_contains v (doc_of (json_of E) c) \<and> mysql_test E (contains_guards E c (json_path_text E steps)) d) = covers v (doc_of (json_of E) c)"
proof (induction c arbitrary: steps v)
  case (JObject ms)
  let ?D = "doc_of (json_of E)"
  show ?case
  proof (cases "is_object v")
    case False
    then have "\<not> covers v (?D (JObject ms))" by (cases v) (auto simp: is_object_def)
    moreover have "\<not> mysql_test E [(json_path_text E steps, ObjectKind)] d"
      using guard_at [OF law JObject.prems(2)] JObject.prems(1) False by simp
    ultimately show ?thesis by (simp add: mysql_test_append)
  next
    case True
    then obtain vs where v: "v = DObj vs" by (auto simp: is_object_def)
    have own: "mysql_test E [(json_path_text E steps, ObjectKind)] d"
      using guard_at [OF law JObject.prems(2)] JObject.prems(1) True by simp
    have dist: "distinct (map fst vs)" using JObject.prems(3) v by simp
    note found = object_member [OF dist, where P = "\<lambda>e. mysql_contains e (?D c)" for c]
      object_member [OF dist, where P = "\<lambda>e. covers e (?D c)" for c]
    have member: "(\<exists>e \<in> set vs. fst e = fst m \<and> mysql_contains (snd e) (?D (snd m))) \<and> mysql_test E (contains_guards E (snd m) (json_member_path E (json_path_text E steps) (fst m))) d
        \<longleftrightarrow> (\<exists>e \<in> set vs. fst e = fst m \<and> covers (snd e) (?D (snd m)))" if m: "m \<in> set ms" for m
    proof (cases "map_of vs (fst m)")
      case None
      then show ?thesis unfolding found by simp
    next
      case (Some e)
      then have e: "(fst m, e) \<in> set vs" by (rule map_of_SomeD)
      have at: "value_at d (steps @ [Member (fst m)]) = Some e"
        using JObject.prems(1) v Some by (simp add: value_at_append)
      have "(mysql_contains e (?D (snd m)) \<and> mysql_test E (contains_guards E (snd m) (json_path_text E (steps @ [Member (fst m)]))) d) = covers e (?D (snd m))"
        using JObject.prems v e m by (intro JObject.IH [OF m _ at]) (auto simp: list_all_iff snds.intros)
      then show ?thesis unfolding found using Some by (auto simp: json_member_text)
    qed
    have "mysql_contains v (?D (JObject ms)) \<longleftrightarrow> (\<forall>m \<in> set ms. \<exists>e \<in> set vs. fst e = fst m \<and> mysql_contains (snd e) (?D (snd m)))"
      "covers v (?D (JObject ms)) \<longleftrightarrow> (\<forall>m \<in> set ms. \<exists>e \<in> set vs. fst e = fst m \<and> covers (snd e) (?D (snd m)))"
      by (simp_all add: v list_all_iff list_ex_iff)
    moreover have "mysql_test E (contains_guards E (JObject ms) (json_path_text E steps)) d
        \<longleftrightarrow> (\<forall>m \<in> set ms. mysql_test E (contains_guards E (snd m) (json_member_path E (json_path_text E steps) (fst m))) d)"
      using own by (simp add: mysql_test_append mysql_test_concat)
    ultimately show ?thesis using member by blast
  qed
next
  case (JArray es)
  then show ?case using mysql_array [of v "map (doc_of (json_of E)) es"] by (simp add: mysql_test_def)
qed (rule scalar_guarded [OF law], (simp_all)[4])+


lemma absent_member:
  assumes law: "json_string_law E"
  shows "value_at d steps = None \<Longrightarrow> list_all (\<lambda>s. \<not> is_element s) steps \<Longrightarrow> mysql_test E (contained_by_guards E c (json_path_text E steps)) d"
proof (induction c arbitrary: steps)
  case (JObject ms)
  have "mysql_test E (contained_by_guards E (snd m) (json_path_text E (steps @ [Member (fst m)]))) d" if "m \<in> set ms" for m
    using that JObject.prems by (intro JObject.IH [OF that]) (auto simp: value_at_append snds.intros)
  then show ?case by (simp add: mysql_test_concat json_member_text)
next
  case (JArray es)
  then have "steps \<noteq> []" by auto
  then show ?case using guard_at [OF law JArray.prems(2), of ArrayOrAbsent d] JArray.prems(1) by (simp add: path_top)
qed (simp_all add: mysql_test_def)

lemma contained_by_guarded:
  assumes law: "json_string_law E"
  shows "value_at d steps = Some v \<Longrightarrow> list_all (\<lambda>s. \<not> is_element s) steps \<Longrightarrow> keys_distinct v \<Longrightarrow> keys_distinct (doc_of (json_of E) c)
     \<Longrightarrow> arrays_hold scalar_doc v \<Longrightarrow> arrays_hold (\<lambda>e. \<not> is_array e) (doc_of (json_of E) c) \<Longrightarrow> (is_array (doc_of (json_of E) c) \<longrightarrow> steps \<noteq> [])
     \<Longrightarrow> (mysql_contains (doc_of (json_of E) c) v \<and> mysql_test E (contained_by_guards E c (json_path_text E steps)) d) = covers (doc_of (json_of E) c) v"
proof (induction c arbitrary: steps v)
  case (JObject ms)
  let ?D = "doc_of (json_of E)"
  let ?T = "\<lambda>m. mysql_test E (contained_by_guards E (snd m) (json_path_text E (steps @ [Member (fst m)]))) d"
  show ?case
  proof (cases "is_object v")
    case False
    then show ?thesis by (cases v) (auto simp: is_object_def)
  next
    case True
    then obtain vs where v: "v = DObj vs" by (auto simp: is_object_def)
    have dist: "distinct (map fst vs)" "distinct (map fst ms)" using JObject.prems(3,4) v by (simp_all add: comp_def)
    have at: "value_at d (steps @ [Member k]) = map_of vs k" for k
      using JObject.prems(1) v by (cases "map_of vs k") (simp_all add: value_at_append)
    have ih: "(mysql_contains (?D (snd m)) (snd x) \<and> ?T m) = covers (?D (snd m)) (snd x)" if "m \<in> set ms" "x \<in> set vs" "fst m = fst x" for m x
    proof -
      have "map_of vs (fst m) = Some (snd x)" using that dist(1) by (simp add: map_of_eq_Some_iff)
      then show ?thesis
        using JObject.prems v that at by (intro JObject.IH [OF that(1)]) (auto simp: list_all_iff snds.intros)
    qed
    have guards: "?T m" if m: "m \<in> set ms" and covered: "\<forall>x \<in> set vs. \<exists>m \<in> set ms. fst m = fst x \<and> covers (?D (snd m)) (snd x)" for m
    proof (cases "map_of vs (fst m)")
      case None
      then show ?thesis using absent_member [OF law] at JObject.prems(2) by simp
    next
      case (Some e)
      then have e: "(fst m, e) \<in> set vs" by (rule map_of_SomeD)
      then obtain m' where m': "m' \<in> set ms" "fst m' = fst m" "covers (?D (snd m')) e" using covered by fastforce
      then have "m' = m" using m dist(2) by (metis eq_key_imp_eq_value prod.collapse)
      then show ?thesis using ih [OF m e] m' by simp
    qed
    have "mysql_contains (?D (JObject ms)) v \<longleftrightarrow> (\<forall>x \<in> set vs. \<exists>m \<in> set ms. fst m = fst x \<and> mysql_contains (?D (snd m)) (snd x))"
      "covers (?D (JObject ms)) v \<longleftrightarrow> (\<forall>x \<in> set vs. \<exists>m \<in> set ms. fst m = fst x \<and> covers (?D (snd m)) (snd x))"
      by (simp_all add: v list_all_iff list_ex_iff)
    moreover have "mysql_test E (contained_by_guards E (JObject ms) (json_path_text E steps)) d \<longleftrightarrow> (\<forall>m \<in> set ms. ?T m)"
      by (simp add: mysql_test_concat json_member_text)
    ultimately show ?thesis using ih guards by metis
  qed
next
  case (JArray es)
  let ?D = "doc_of (json_of E)"
  have top: "steps \<noteq> []" using JArray.prems by (simp add: is_array_def)
  have guard: "mysql_test E (contained_by_guards E (JArray es) (json_path_text E steps)) d = is_array v"
    using guard_at [OF law JArray.prems(2), of ArrayOrAbsent d] JArray.prems(1) top by (simp add: path_top)
  show ?case
  proof (cases v)
    case (DArr vs)
    then show ?thesis using guard JArray.prems mysql_array [of "DArr (map ?D es)" vs] by (simp add: is_array_def)
  qed (use guard in \<open>auto simp: is_array_def\<close>)
qed (auto simp: mysql_test_def is_array_def covers_scalar split: doc.splits)

text \<open>C14. On MySQL and MariaDB a JSON containment filter keeps exactly the rows PostgreSQL's \<open>@>\<close> and \<open><@\<close> keep, as
  far as paths can tell: where no array sits in an array of the container and the arrays of the other
  side hold scalars, \<open>JSON_CONTAINS\<close> together with the guards on the bound paths is PostgreSQL's containment.\<close>

theorem mysql_containment_exact:
  assumes law: "json_string_law E" and dist: "keys_distinct d" "keys_distinct (doc_of (json_of E) v)"
  shows "(arrays_hold (\<lambda>e. \<not> is_array e) d \<and> arrays_hold scalar_doc (doc_of (json_of E) v) \<longrightarrow>
      (mysql_contains d (doc_of (json_of E) v) \<and> mysql_test E (contains_guards E v [ch_dollar]) d) = pg_contains d (doc_of (json_of E) v))
    \<and> (arrays_hold scalar_doc d \<and> arrays_hold (\<lambda>e. \<not> is_array e) (doc_of (json_of E) v) \<longrightarrow>
      (mysql_contains (doc_of (json_of E) v) d \<and> mysql_test E (contained_by_guards E v [ch_dollar]) d) = pg_contains (doc_of (json_of E) v) d)"
proof (intro conjI impI; elim conjE)
  let ?D = "doc_of (json_of E)"
  have top: "json_path_text E [] = [ch_dollar]" by (simp add: json_path_text_def)
  assume d: "arrays_hold (\<lambda>e. \<not> is_array e) d" and v: "arrays_hold scalar_doc (?D v)"
  show "(mysql_contains d (?D v) \<and> mysql_test E (contains_guards E v [ch_dollar]) d) = pg_contains d (?D v)"
  proof (cases "is_scalar v")
    case False
    then show ?thesis
      using contains_guarded [OF law, of d "[]" d v] dist d v pg_contains_container [of "?D v" d] scalar_doc_of [of "json_of E" v] by (simp add: top)
  next
    case True
    have "contains_guards E v [ch_dollar] = []" using True by (cases v) auto
    moreover have "mysql_contains d (?D v) = pg_contains d (?D v)"
    proof (cases d)
      case (DArr ds)
      have sc: "scalar_doc (?D v)" using True scalar_doc_of by blast
      have "mysql_contains d (?D v) = list_ex (\<lambda>e. mysql_contains e (?D v)) ds" using sc DArr by (cases "?D v") auto
      also have "\<dots> = list_ex (\<lambda>e. same_scalar e (?D v)) ds" using mysql_array_content [of ds "?D v"] d DArr sc covers_scalar(1) [OF sc] by simp
      also have "\<dots> = pg_contains d (?D v)"
        using sc DArr covers_scalar(1) [OF sc, of d] by (cases "?D v") (auto simp: pg_contains_def)
      finally show ?thesis .
    qed (use True mysql_scalar [of d "?D v"] scalar_doc_of [of "json_of E" v] in \<open>auto simp: pg_contains_def is_array_def\<close>)
    ultimately show ?thesis by (simp add: mysql_test_def)
  qed
next
  let ?D = "doc_of (json_of E)"
  have top: "json_path_text E [] = [ch_dollar]" by (simp add: json_path_text_def)
  assume d: "arrays_hold scalar_doc d" and v: "arrays_hold (\<lambda>e. \<not> is_array e) (?D v)"
  show "(mysql_contains (?D v) d \<and> mysql_test E (contained_by_guards E v [ch_dollar]) d) = pg_contains (?D v) d"
  proof (cases "is_array (?D v)")
    case False
    then show ?thesis
      using contained_by_guarded [OF law, of d "[]" d v] dist d v by (cases "?D v") (auto simp: top pg_contains_def is_array_def)
  next
    case True
    then obtain es where es: "v = JArray es" by (cases v) (auto simp: is_array_def)
    let ?cs = "map ?D es"
    have guard: "mysql_test E (contained_by_guards E v [ch_dollar]) d = (\<not> is_object d)"
      using guard_at [OF law, of "[]" NotObject d] by (simp add: es top)
    show ?thesis
    proof (cases "scalar_doc d")
      case True
      have "mysql_contains (DArr ?cs) d = list_ex (\<lambda>e. mysql_contains e d) ?cs" using True by (cases d) auto
      also have "\<dots> = list_ex (\<lambda>e. same_scalar e d) ?cs"
        using mysql_array_content [of ?cs d] v True covers_scalar(1) [OF True] by (simp add: es)
      also have "\<dots> = pg_contains (DArr ?cs) d"
        using True covers_scalar(1) [OF True, of "DArr ?cs"] by (cases d) (auto simp: pg_contains_def)
      finally show ?thesis using guard True by (cases d) (auto simp: es is_object_def)
    next
      case False
      then show ?thesis
        using guard mysql_array [of "DArr ?cs"] d v by (cases d) (auto simp: es is_object_def pg_contains_def)
    qed
  qed
qed

lemma element_parents_Cons:
  "element_parents (s # steps) = (if is_element s then [[]] else []) @ map (Cons s) (element_parents steps)"
proof -
  have "[0..<length (s # steps)] = 0 # map Suc [0..<length steps]" by (simp add: map_Suc_upt upt_conv_Cons del: upt_Suc)
  then show ?thesis by (simp add: element_parents_def filter_map comp_def)
qed

text \<open>A JSON path test is strict on MySQL and MariaDB too: \<open>JSON_CONTAINS_PATH\<close> with a check, for every
  indexed step, that its parent is an array, finds a value exactly when the path read strictly does,
  although these backends read the first element of any value as the value itself.\<close>

theorem mysql_path_strict:
  "(mysql_value_at d steps \<noteq> None \<and> list_all (\<lambda>p. guard_holds ArrayKind (mysql_value_at d p)) (element_parents steps))
     \<longleftrightarrow> value_at d steps \<noteq> None"
proof (induction steps arbitrary: d)
  case (Cons s steps)
  show ?case
  proof (cases s)
    case (Member k)
    then show ?thesis
      using Cons.IH by (cases d) (auto simp: element_parents_Cons list.pred_map comp_def split: bind_splits)
  next
    case (Element i)
    then show ?thesis
      using Cons.IH by (cases d) (auto simp: element_parents_Cons list.pred_map comp_def is_array_def)
  qed
qed (simp add: element_parents_def)

text \<open>C39. The path a JSON test binds is the path the caller wrote: printing the steps with every key quoted, and
  reading the text again, gives the same steps, whatever characters the keys hold, for every serializer
  whose strings follow the JSON grammar.\<close>

theorem json_path_roundtrip:
  assumes "json_string_law E"
  shows "parse_json_path E (json_path_text E steps) = Some steps"
  by (rule parse_json_path_text [OF assms])

section \<open>A concrete serializer\<close>

definition escape_char :: "uchar \<Rightarrow> ustr" where
  "escape_char c = (if c = ch_dquote \<or> c = ch_backslash then [ch_backslash, c] else [c])"

fun unescape :: "ustr \<Rightarrow> ustr" where
  "unescape (c # r) = (if c = ch_backslash then (case r of [] \<Rightarrow> [] | e # r \<Rightarrow> e # unescape r) else c # unescape r)"
| "unescape [] = []"

definition demo_path_env :: path_env where
  "demo_path_env = \<lparr>json_text = (\<lambda>j. case j of JString k \<Rightarrow> [ch_dquote] @ concat (map escape_char k) @ [ch_dquote] | _ \<Rightarrow> []),
     number_text = (\<lambda>_ _. lit ''1''), from_json_string = (\<lambda>s. Some (unescape (butlast (tl s))))\<rparr>"

lemma escape_text: "escaped_text (concat (map escape_char k)) \<and> unescape (concat (map escape_char k)) = k"
  by (induction k) (auto simp: escape_char_def)

lemma demo_path_law: "json_string_law demo_path_env"
  unfolding json_string_law_def by (simp add: demo_path_env_def escape_text)

definition demo_steps :: "JsonPathStep list" where
  "demo_steps = [Member (lit ''a.b [c]''), Element 7, Member [ch_dquote, ch_backslash]]"

theorem json_path_roundtrip_witness:
  "json_string_law demo_path_env \<and> parse_json_path demo_path_env (json_path_text demo_path_env demo_steps) = Some demo_steps"
  using demo_path_law json_path_roundtrip by blast

definition demo_target :: Json where
  "demo_target = JObject [(lit ''a'', JArray [JString (lit ''x'')]), (lit ''b'', JNull)]"

theorem mysql_containment_exact_witness:
  "json_string_law demo_path_env \<and> keys_distinct (DArr [DNull]) \<and> keys_distinct (doc_of (json_of demo_path_env) demo_target)
   \<and> (arrays_hold (\<lambda>e. \<not> is_array e) (DArr [DNull]) \<and> arrays_hold scalar_doc (doc_of (json_of demo_path_env) demo_target))
   \<and> (mysql_contains (DArr [DNull]) (doc_of (json_of demo_path_env) demo_target)
      \<and> mysql_test demo_path_env (contains_guards demo_path_env demo_target [ch_dollar]) (DArr [DNull]))
     = pg_contains (DArr [DNull]) (doc_of (json_of demo_path_env) demo_target)
   \<and> (arrays_hold scalar_doc (DArr [DNull]) \<and> arrays_hold (\<lambda>e. \<not> is_array e) (doc_of (json_of demo_path_env) demo_target))
   \<and> (mysql_contains (doc_of (json_of demo_path_env) demo_target) (DArr [DNull])
      \<and> mysql_test demo_path_env (contained_by_guards demo_path_env demo_target [ch_dollar]) (DArr [DNull]))
     = pg_contains (doc_of (json_of demo_path_env) demo_target) (DArr [DNull])"
proof -
  have d: "keys_distinct (doc_of (json_of demo_path_env) demo_target)" "arrays_hold scalar_doc (doc_of (json_of demo_path_env) demo_target)"
    "arrays_hold (\<lambda>e. \<not> is_array e) (doc_of (json_of demo_path_env) demo_target)"
    by (simp_all add: demo_target_def is_array_def lit_def)
  have n: "arrays_hold (\<lambda>e. \<not> is_array e) (DArr [DNull])" "arrays_hold scalar_doc (DArr [DNull])" by (simp_all add: is_array_def)
  have "keys_distinct (DArr [DNull])" by simp
  from mysql_containment_exact [OF demo_path_law this d(1)] this d n demo_path_law show ?thesis by blast
qed

end
