(* ===== verification/Json_Arrays.thy ===== *)
theory Json_Arrays
  imports Json_Paths
begin

text \<open>
  Array filters: \<open>src/src/query/db_sql/arrays.rs\<close> and the array expressions of
  \<open>src/src/query/sql/condition_builders/range_json_array.rs\<close>. The bound element of a PostgreSQL array and
  whether a column holds an array of documents are parameters, since they depend on the column types
  of the database library.
\<close>

record array_env = path_env +
  json_elements :: "ustr \<Rightarrow> bool"
  array_element :: "ustr \<Rightarrow> Json \<Rightarrow> Bound"

definition MATCH_NOTHING :: ustr where
  "MATCH_NOTHING = lit ''0 = 1''"

definition joined :: "ustr list \<Rightarrow> ustr \<Rightarrow> ustr \<Rightarrow> ustr" where
  "joined checks combine none = (if checks = [] then none else parenthesized (join combine checks))"

definition all_elements :: "ustr \<Rightarrow> ustr list \<Rightarrow> ustr" where
  "all_elements column checks = joined checks (lit '' AND '') (column @ lit '' IS NOT NULL'')"

definition any_element :: "ustr list \<Rightarrow> ustr" where
  "any_element checks = joined checks (lit '' OR '') MATCH_NOTHING"

definition postgres_element_checks :: "ustr \<Rightarrow> ustr list \<Rightarrow> ustr list" where
  "postgres_element_checks column operands = map (\<lambda>operand. operand @ lit '' = ANY('' @ column @ [ch_rparen]) operands"

definition postgres_array_contains :: "ustr \<Rightarrow> ustr list \<Rightarrow> ustr" where
  "postgres_array_contains column operands = all_elements column (postgres_element_checks column operands)"

definition postgres_array_overlaps :: "ustr \<Rightarrow> ustr list \<Rightarrow> ustr" where
  "postgres_array_overlaps column operands = any_element (postgres_element_checks column operands)"

definition array_contained_by :: "ustr \<Rightarrow> ustr \<Rightarrow> ustr option \<Rightarrow> ustr" where
  "array_contained_by column source offending =
     parenthesized (column @ lit '' IS NOT NULL AND NOT EXISTS (SELECT 1 FROM '' @ source
       @ (case offending of None \<Rightarrow> [] | Some clause \<Rightarrow> lit '' WHERE '' @ clause) @ [ch_rparen])"

definition postgres_array_contained_by :: "ustr \<Rightarrow> ustr list \<Rightarrow> bool \<Rightarrow> ustr" where
  "postgres_array_contained_by column operands null_allowed =
     (let alias = lit ''tideorm_array_element'';
          element = alias @ lit ''.element'';
          offending = (case (operands = [], null_allowed) of
              (True, False) \<Rightarrow> None
            | (True, True) \<Rightarrow> Some (element @ lit '' IS NOT NULL'')
            | (False, False) \<Rightarrow> Some (element @ lit '' IS NULL OR '' @ element @ lit '' NOT IN ('' @ join (lit '', '') operands @ [ch_rparen])
            | (False, True) \<Rightarrow> Some (element @ lit '' NOT IN ('' @ join (lit '', '') operands @ [ch_rparen]))
      in array_contained_by column (lit ''unnest('' @ column @ lit '') AS '' @ alias @ lit ''(element)'') offending)"

definition split_nulls :: "Json list \<Rightarrow> Json list \<times> bool" where
  "split_nulls values = (let listed = filter (\<lambda>v. v \<noteq> JNull) values in (listed, length listed < length values))"

definition build_postgres_array_expression :: "'x array_env_scheme \<Rightarrow> ustr \<Rightarrow> ArrayOperator \<Rightarrow> ustr \<Rightarrow> Json list \<Rightarrow> ustr \<times> Bound list" where
  "build_postgres_array_expression E column_sql operator column values =
     (let (listed, null_allowed) =
            (if operator = ArrContainedBy \<and> \<not> json_elements E column then split_nulls values else (values, False));
          operands = placeholders Postgres (length listed)
      in ((case operator of
             ArrContains \<Rightarrow> postgres_array_contains column_sql operands
           | ArrContainedBy \<Rightarrow> postgres_array_contained_by column_sql operands null_allowed
           | ArrOverlaps \<Rightarrow> postgres_array_overlaps column_sql operands),
          map (array_element E column) listed))"

definition SQLITE_ELEMENT :: ustr where
  "SQLITE_ELEMENT = lit ''tideorm_element''"

definition sqlite_element_checks :: "'x json_env_scheme \<Rightarrow> Json list \<Rightarrow> ustr list \<times> Bound list" where
  "sqlite_element_checks E values =
     (map (\<lambda>v. fst (sqlite_json_element_equals (json_of E) SQLITE_ELEMENT v)) values,
      concat (map (\<lambda>v. snd (sqlite_json_element_equals (json_of E) SQLITE_ELEMENT v)) values))"

definition sqlite_array_sql :: "ustr \<Rightarrow> ArrayOperator \<Rightarrow> ustr list \<Rightarrow> ustr" where
  "sqlite_array_sql column_sql operator checks =
     (let elements = lit ''json_each('' @ column_sql @ lit '') AS '' @ SQLITE_ELEMENT;
          has_element = (\<lambda>equal. lit ''EXISTS (SELECT 1 FROM '' @ elements @ lit '' WHERE '' @ equal @ [ch_rparen])
      in case operator of
           ArrContains \<Rightarrow> all_elements column_sql (map has_element checks)
         | ArrOverlaps \<Rightarrow> any_element (map has_element checks)
         | ArrContainedBy \<Rightarrow> array_contained_by column_sql elements
             (if checks = [] then None else Some (lit ''NOT ('' @ join (lit '' OR '') checks @ [ch_rparen])))"

definition build_array_expression :: "'x array_env_scheme \<Rightarrow> DatabaseType \<Rightarrow> ustr \<Rightarrow> ArrayOperator \<Rightarrow> ustr \<Rightarrow> Json list \<Rightarrow> ustr \<times> Bound list" where
  "build_array_expression E db_type column_sql operator column values =
     (if values = [] \<and> operator = ArrOverlaps then (MATCH_NOTHING, [])
      else (case db_type of
          Postgres \<Rightarrow> build_postgres_array_expression E column_sql operator column values
        | SQLite \<Rightarrow>
            (case sqlite_element_checks E values of (checks, bound) \<Rightarrow>
               (lit ''(json_type('' @ column_sql @ lit '') = '' @ sql_name ''array'' @ lit '' AND ('' @ sqlite_array_sql column_sql operator checks @ lit ''))'', bound))
        | _ \<Rightarrow>
            (case (case operator of
                     ArrContains \<Rightarrow> json_containment_bound E db_type column_sql (JArray values) Contains
                   | ArrContainedBy \<Rightarrow> json_containment_bound E db_type column_sql (JArray values) ContainedBy
                   | ArrOverlaps \<Rightarrow> (any_element (replicate (length values) (lit ''JSON_CONTAINS('' @ column_sql @ lit '', ?)'')),
                       map (json_scalar_parameter E) values)) of
               (sql, bound) \<Rightarrow> (lit ''(JSON_TYPE('' @ column_sql @ lit '') = '' @ sql_name ''ARRAY'' @ lit '' AND ('' @ sql @ lit ''))'', bound))))"

section \<open>What the array tests of SQLite decide\<close>

definition array_holds :: "ArrayOperator \<Rightarrow> doc list \<Rightarrow> doc list \<Rightarrow> bool" where
  "array_holds operator elements listed =
     (case operator of
        ArrContains \<Rightarrow> list_all (\<lambda>v. list_ex (\<lambda>e. same_doc e v) elements) listed
      | ArrOverlaps \<Rightarrow> list_ex (\<lambda>v. list_ex (\<lambda>e. same_doc e v) elements) listed
      | ArrContainedBy \<Rightarrow> list_all (\<lambda>e. list_ex (\<lambda>v. same_doc e v) listed) elements)"

abbreviation canonical_doc :: "doc \<Rightarrow> bool" where
  "canonical_doc \<equiv> \<lambda>d. numbers_ok d \<and> keys_distinct d"

text \<open>The checks of the values, one after the other, on a row of \<open>json_each\<close>.\<close>

lemma element_checks_decide:
  assumes "list_all (\<lambda>v. canonical_doc (doc_of (json_of E) v)) values"
  shows "\<exists>b'. test_values b' = test_values b @ snd (sqlite_element_checks E values)
    \<and> decides_each canonical_doc True 3 (Row SQLITE_ELEMENT) (fst (sqlite_element_checks E values)) b b' anywhere
        (map (\<lambda>v r. same_doc (snd r) (doc_of (json_of E) v)) values)"
  using assms
proof (induction "values" arbitrary: b)
  case (Cons v vs)
  obtain s b1 where s: "equals_json (json_of E) (Row SQLITE_ELEMENT) v no_tests = (s, b1)" by fastforce
  have "decides canonical_doc True 3 (Row SQLITE_ELEMENT) s no_tests b1 anywhere (\<lambda>r. same_doc (snd r) (doc_of (json_of E) v))"
    using canonical.equals_decides(1) [of "json_of E" v "Row SQLITE_ELEMENT" no_tests] s Cons.prems by simp
  then have "decides canonical_doc True 3 (Row SQLITE_ELEMENT) s b (bind_values (test_values b1) b) anywhere (\<lambda>r. same_doc (snd r) (doc_of (json_of E) v))"
    unfolding decides_def by (simp add: no_tests_def bind_values_def)
  moreover obtain b' where "test_values b' = test_values (bind_values (test_values b1) b) @ snd (sqlite_element_checks E vs)"
    "decides_each canonical_doc True 3 (Row SQLITE_ELEMENT) (fst (sqlite_element_checks E vs)) (bind_values (test_values b1) b) b' anywhere
        (map (\<lambda>v r. same_doc (snd r) (doc_of (json_of E) v)) vs)"
    using Cons.IH [of "bind_values (test_values b1) b"] Cons.prems by auto
  ultimately show ?case
    by (intro exI [of _ b']) (auto simp: sqlite_element_checks_def sqlite_json_element_equals_def s bind_values_def)
qed (auto simp: sqlite_element_checks_def)


lemma has_element_decides:
  assumes "decides_each canonical_doc True 3 (Row a) cs b b' anywhere ps"
  shows "decides_each canonical_doc True 3 n (map (exists_row n a) cs) b b' (\<lambda>r. kind_name (snd r) = ''array'')
     (map (\<lambda>p r. list_ex p (children (snd r))) ps)"
  using assms
proof (induction cs arbitrary: b ps)
  case (Cons c cs)
  then show ?case by (auto dest!: canonical.element_exists_decides) blast
qed simp

lemma not_null_decides: "decides K False 3 (Document col) (col @ lit '' IS NOT NULL'') b b D (\<lambda>_. True)"
  unfolding decides_def by (rule exI [of _ "NotNullTest col"], rule exI [of _ "[]"]) auto

lemma no_row_at_all: "decides K False 2 n (lit ''NOT EXISTS (SELECT 1 FROM json_each('' @ node_json n @ lit '') AS '' @ a @ [ch_rparen]) b b
    (\<lambda>r. kind_name (snd r) = ''array'') (\<lambda>r. children (snd r) = [])"
  unfolding decides_def
  by (rule exI [of _ "NotTest (AnyRow n a)"], rule exI [of _ "[]"]) (auto simp: node_rows_def kind_array lit_def)

lemma array_sql_decides:
  assumes ok: "list_all (\<lambda>v. canonical_doc (doc_of (json_of E) v)) values" and nonempty: "values \<noteq> [] \<or> operator \<noteq> ArrOverlaps"
  shows "\<exists>b'. test_values b' = snd (sqlite_element_checks E values)
    \<and> decides canonical_doc False 3 (Document col) (parenthesized (sqlite_array_sql col operator (fst (sqlite_element_checks E values)))) no_tests b'
        (\<lambda>r. kind_name (snd r) = ''array'') (\<lambda>r. array_holds operator (map snd (children (snd r))) (map (doc_of (json_of E)) values))"
proof -
  let ?A = "\<lambda>r :: row. kind_name (snd r) = ''array''" and ?n = "Document col" and ?a = SQLITE_ELEMENT
  let ?ps = "map (\<lambda>v r. same_doc (snd r) (doc_of (json_of E) v)) values"
  obtain cs where cs: "fst (sqlite_element_checks E values) = cs" by blast
  obtain b' where b': "test_values b' = snd (sqlite_element_checks E values)" "decides_each canonical_doc True 3 (Row ?a) cs no_tests b' anywhere ?ps"
    using element_checks_decide [OF ok, of no_tests] by (auto simp: cs no_tests_def)
  have empty: "cs = [] \<longleftrightarrow> values = []" using cs by (auto simp: sqlite_element_checks_def)
  have same: "values = [] \<Longrightarrow> test_values no_tests = test_values b'" using b' by (simp add: sqlite_element_checks_def no_tests_def)
  have each: "decides_each canonical_doc True 3 ?n (map (exists_row ?n ?a) cs) no_tests b' ?A (map (\<lambda>p r. list_ex p (children (snd r))) ?ps)"
    by (rule has_element_decides [OF b'(2)])
  have spelled: "(\<lambda>equal. lit ''EXISTS (SELECT 1 FROM '' @ (lit ''json_each('' @ col @ lit '') AS '' @ ?a) @ lit '' WHERE '' @ equal @ [ch_rparen]) = exists_row ?n ?a"
    by (simp add: exists_row_def lit_def fun_eq_iff)
  have "decides canonical_doc False 0 ?n (sqlite_array_sql col operator cs) no_tests b' ?A
      (\<lambda>r. array_holds operator (map snd (children (snd r))) (map (doc_of (json_of E)) values))"
  proof (cases operator)
    case ArrContains
    show ?thesis
    proof (cases cs)
      case Nil
      then show ?thesis
        using decides_values [OF decides_weaken [OF not_null_decides]] same empty
        by (simp add: sqlite_array_sql_def ArrContains all_elements_def joined_def array_holds_def)
    next
      case (Cons c cs')
      obtain v vs where v: "values = v # vs" using empty Cons by (cases "values") auto
      from each Cons v obtain b1 where c: "decides canonical_doc True 3 ?n (exists_row ?n ?a c) no_tests b1 ?A (\<lambda>r. list_ex (\<lambda>r. same_doc (snd r) (doc_of (json_of E) v)) (children (snd r)))"
        "decides_each canonical_doc True 3 ?n (map (exists_row ?n ?a) cs') b1 b' ?A (map (\<lambda>p r. list_ex p (children (snd r))) (map (\<lambda>v r. same_doc (snd r) (doc_of (json_of E) v)) vs))"
        by auto
      have "decides canonical_doc False 1 ?n (join (lit '' AND '') (exists_row ?n ?a c # map (exists_row ?n ?a) cs')) no_tests b' ?A
         (\<lambda>r. list_ex (\<lambda>r. same_doc (snd r) (doc_of (json_of E) v)) (children (snd r)) \<and> list_all (\<lambda>q. q r) (map (\<lambda>p r. list_ex p (children (snd r))) (map (\<lambda>v r. same_doc (snd r) (doc_of (json_of E) v)) vs)))"
        by (rule join_and_decides [OF c(2) decides_weaken [OF c(1)]]) auto
      from decides_weaken [OF decides_paren [OF this], where l' = 0] show ?thesis
        unfolding sqlite_array_sql_def Let_def ArrContains ArrayOperator.case spelled Cons all_elements_def joined_def
        by (auto simp: array_holds_def v list_ex_iff list_all_iff elim!: decides_weaken)
    qed
  next
    case ArrOverlaps
    then obtain c cs' where cons: "cs = c # cs'" using nonempty empty by (cases cs) auto
    have "any_element (map (exists_row ?n ?a) cs) = any_of (map (exists_row ?n ?a) cs)"
      by (simp add: cons any_element_def joined_def any_of_def)
    then show ?thesis
      using any_of_decides [OF each]
      unfolding sqlite_array_sql_def Let_def ArrOverlaps ArrayOperator.case spelled
      by (auto simp: array_holds_def list_ex_iff elim!: decides_weaken)
  next
    case ArrContainedBy
    show ?thesis
    proof (cases cs)
      case Nil
      have "decides canonical_doc False 1 ?n ((col @ lit '' IS NOT NULL'') @ lit '' AND '' @ lit ''NOT EXISTS (SELECT 1 FROM json_each('' @ node_json ?n @ lit '') AS '' @ ?a @ [ch_rparen])
          no_tests b' ?A (\<lambda>r. True \<and> children (snd r) = [])"
        by (rule decides_values [OF decides_and [OF decides_weaken [OF not_null_decides] decides_weaken [OF no_row_at_all]]]) (use same empty Nil in auto)
      from decides_weaken [OF decides_paren [OF this], where l' = 0] show ?thesis
        using Nil empty
        by (simp add: sqlite_array_sql_def Let_def ArrContainedBy array_contained_by_def array_holds_def lit_def parenthesized_def list_all_iff)
    next
      case (Cons c cs')
      then have any: "lit ''NOT '' @ any_of cs = lit ''NOT ('' @ join (lit '' OR '') cs @ [ch_rparen]" by (simp add: any_of_def parenthesized_def lit_def)
      have "decides canonical_doc False 1 ?n ((col @ lit '' IS NOT NULL'') @ lit '' AND '' @ lit ''NOT '' @ exists_row ?n ?a (lit ''NOT '' @ any_of cs))
          no_tests b' ?A (\<lambda>r. True \<and> list_all (\<lambda>r. list_ex (\<lambda>q. q r) ?ps) (children (snd r)))"
        by (rule decides_and [OF decides_weaken [OF not_null_decides] decides_weaken [OF canonical.not_exists_decides [OF any_of_decides [OF b'(2)], where k = "''array''"]]]) auto
      from decides_weaken [OF decides_paren [OF this], where l' = 0] show ?thesis
        using Cons unfolding any
        by (simp add: sqlite_array_sql_def Let_def ArrContainedBy array_contained_by_def array_holds_def exists_row_def lit_def parenthesized_def)
          (auto simp: list_all_iff list_ex_iff elim!: decides_weaken)
    qed
  qed
  from decides_paren [OF this] show ?thesis using b'(1) cs by blast
qed

text \<open>C13. On SQLite the text of an array filter, read with the values it binds, tests the JSON array the
  column holds with elements compared as JSON values, \<open>null\<close> equal to \<open>null\<close>: \<open>array_contains\<close> keeps
  exactly the rows whose array has every listed value, \<open>array_overlaps\<close> of a non-empty list those
  with one of them, \<open>array_contained_by\<close> those with no other element. A NULL column, an object and a
  scalar are kept by none of them.\<close>

theorem sqlite_array_exact:
  assumes ok: "list_all (\<lambda>v. canonical_doc (doc_of (json_of E) v)) values" and nonempty: "values \<noteq> [] \<or> operator \<noteq> ArrOverlaps"
  shows "sql_decides canonical_doc (build_array_expression E SQLite col operator column values)
     (\<lambda>d. \<exists>es. d = DArr es \<and> array_holds operator es (map (doc_of (json_of E)) values))"
proof -
  let ?checks = "sqlite_element_checks E values"
  let ?inner = "parenthesized (sqlite_array_sql col operator (fst ?checks))"
  from array_sql_decides [OF assms, of col] obtain b' where b': "test_values b' = snd ?checks"
    "decides canonical_doc False 3 (Document col) ?inner no_tests b' (\<lambda>r. kind_name (snd r) = ''array'')
       (\<lambda>r. array_holds operator (map snd (children (snd r))) (map (doc_of (json_of E)) values))" by blast
  have children: "map snd (children (DArr es)) = es" for es by (simp add: comp_def map_nth)
  have "decides canonical_doc True 1 (Document col) (kind_is (Document col) ''array'' @ lit '' AND '' @ ?inner) no_tests b' anywhere
      (\<lambda>r. kind_name (snd r) = ''array'' \<and> array_holds operator (map snd (children (snd r))) (map (doc_of (json_of E)) values))"
    by (rule decides_and [OF kind_decides decides_weaken [OF b'(2)]]) auto
  note both = decides_paren [OF this]
  have "decides canonical_doc True 3 (Document col) (parenthesized (kind_is (Document col) ''array'' @ lit '' AND '' @ ?inner)) no_tests b' anywhere
      (\<lambda>r. \<exists>es. snd r = DArr es \<and> array_holds operator es (map (doc_of (json_of E)) values))"
    by (rule decides_weaken [OF both]) (auto simp: kind_array children simp del: children.simps)
  from decides_sql [OF this] show ?thesis
    using nonempty b'(1)
    by (cases ?checks) (auto simp: build_array_expression_def kind_is_def sql_name_def parenthesized_def lit_def)
qed

text \<open>C40. On SQLite a JSON equality filter compares documents by value, in any key order and number spelling, and
  its negation is the negation on every document; neither is true of a NULL column.\<close>

theorem sqlite_equals_exact:
  assumes ok: "canonical_doc (doc_of (json_of E) v)"
  shows "sql_decides canonical_doc (json_equals_bound E SQLite col v False) (\<lambda>d. same_doc d (doc_of (json_of E) v))
    \<and> sql_decides canonical_doc (json_equals_bound E SQLite col v True) (\<lambda>d. \<not> same_doc d (doc_of (json_of E) v))"
proof -
  from sqlite_equals_decides [of "json_of E" v col] ok
  have eq: "sql_decides canonical_doc (sqlite_json_equals (json_of E) col v) (\<lambda>d. same_doc d (doc_of (json_of E) v))" by simp
  obtain sql vs where s: "sqlite_json_equals (json_of E) col v = (sql, vs)" by fastforce
  obtain t where t: "test_sql t = sql" "unambiguous t" "3 \<le> level t" "markers t = length vs"
    and h: "\<And>S d rows. canonical_doc d \<Longrightarrow> holds S (Some d) rows vs t = Some (same_doc d (doc_of (json_of E) v))"
  proof -
    obtain b where b: "equals_json (json_of E) (Document col) v no_tests = (sql, b)" "vs = test_values b"
      using s by (auto simp: sqlite_json_equals_def split: prod.splits)
    with canonical.equals_decides(1) [of "json_of E" v "Document col" no_tests] ok
    have "decides canonical_doc True 3 (Document col) sql no_tests b anywhere (\<lambda>r. same_doc (snd r) (doc_of (json_of E) v))" by simp
    then obtain t where t: "sql = test_sql t" "unambiguous t" "3 \<le> level t" "markers t = length vs"
      and "\<And>S c rows rest r. node_row c rows (Document col) = Some r \<Longrightarrow> canonical_doc (snd r) \<Longrightarrow> holds S c rows (vs @ rest) t = Some (same_doc (snd r) (doc_of (json_of E) v))"
      unfolding decides_def no_tests_def b(2) by auto
    from this(5) [of "Some _" _ "(KNull, _)" _ "[]"] have "holds S (Some d) rows vs t = Some (same_doc d (doc_of (json_of E) v))" if "canonical_doc d" for S d rows
      using that by simp
    then show ?thesis using that t by metis
  qed
  let ?t = "ParenTest (AndTest (NotNullTest col) (NotTest t))"
  have "sql_decides canonical_doc (json_equals_bound E SQLite col v True) (\<lambda>d. \<not> same_doc d (doc_of (json_of E) v))"
    unfolding sql_decides_def
    using t h by (intro exI [of _ ?t]) (auto simp: s parenthesized_def lit_def)
  then show ?thesis using eq s by simp
qed

definition demo_array_env :: array_env where
  "demo_array_env = \<lparr>json_text = (\<lambda>_. []), number_text = (\<lambda>_ _. lit ''1e2''), from_json_string = (\<lambda>_. None),
     json_elements = (\<lambda>_. False), array_element = (\<lambda>_ v. BJson v)\<rparr>"

theorem sqlite_array_exact_witness:
  "list_all (\<lambda>v. canonical_doc (doc_of (json_of demo_array_env) v)) [demo_target, JNumber None None]
   \<and> sql_decides canonical_doc (build_array_expression demo_array_env SQLite (lit ''tags'') ArrOverlaps (lit ''tags'') [demo_target, JNumber None None])
     (\<lambda>d. \<exists>es. d = DArr es \<and> array_holds ArrOverlaps es (map (doc_of (json_of demo_array_env)) [demo_target, JNumber None None]))"
proof -
  have "list_all (\<lambda>v. canonical_doc (doc_of (json_of demo_array_env) v)) [demo_target, JNumber None None]" by code_simp
  then show ?thesis using sqlite_array_exact [of demo_array_env "[demo_target, JNumber None None]" ArrOverlaps] by blast
qed

theorem sqlite_equals_exact_witness:
  "canonical_doc (doc_of (json_of demo_array_env) demo_target)
   \<and> sql_decides canonical_doc (json_equals_bound demo_array_env SQLite (lit ''data'') demo_target False) (\<lambda>d. same_doc d (doc_of (json_of demo_array_env) demo_target))
   \<and> sql_decides canonical_doc (json_equals_bound demo_array_env SQLite (lit ''data'') demo_target True) (\<lambda>d. \<not> same_doc d (doc_of (json_of demo_array_env) demo_target))"
proof -
  have "canonical_doc (doc_of (json_of demo_array_env) demo_target)" by code_simp
  then show ?thesis using sqlite_equals_exact [of demo_array_env demo_target] by blast
qed

end
