(* ===== verification/Spec2Isabelle.thy ===== *)
theory Spec2Isabelle
  imports Seeder Validation_Rules Error_Translation Record_Tokens Sql_Fragments Placeholders Topology
    Pending_Invalidations Cache_Keys Prepared_Statements Query_Fragments Chunk_Reading Select_Rendering
    Bulk_Mutations Mutation_Guards Json_Arrays
begin

text \<open>
  A verification development for TideORM, an object-relational mapper in Rust for PostgreSQL, MySQL,
  MariaDB and SQLite. Paths are relative to the repository's copy under \<open>src/\<close>.

  \<^bold>\<open>The program and how its parts interact.\<close> A program states a query by calls on a builder
  (\<open>src/src/query\<close>). The builder records filters, projections, joins, unions, window functions and
  common table expressions as clauses; it checks every piece of raw text it is given against the guards
  of \<open>src/src/internal/sql_safety.rs\<close>, which rest on the scanner of \<open>sql_lexer.rs\<close>. A terminal
  validates the clauses, renders them to SQL with numbered or anonymous markers for the bound values,
  and sends the statement. Reads go through the query cache (\<open>src/src/cache\<close>); writes invalidate it,
  at once or, inside a transaction, when the transaction commits. Transactions and savepoints
  (\<open>src/src/database/transaction.rs\<close>) guard every statement they carry; migrations
  (\<open>src/src/migration\<close>) and seeds (\<open>src/src/seeding.rs\<close>) run inside them and are recorded in ledger
  tables. Errors of the engine are translated at one boundary (\<open>src/src/internal/mod.rs\<close>). Record
  tokens (\<open>src/src/tokenization.rs\<close>) and validation rules (\<open>src/src/validation.rs\<close>) serve the models.

  \<^bold>\<open>Conventions.\<close> \<open>Tide_Prelude\<close> fixes them. A \<open>char\<close> is its code point, a \<open>String\<close> a list of them
  (\<open>ustr\<close>); outside ASCII the Unicode tables are a parameter. Bytes are 8-bit words; accumulators and
  counters that wrap in Rust are words of their width, indices that cannot are natural numbers. A
  \<open>Result\<close> is a sum with the error on the left and \<open>try_bind\<close> is the question mark operator. A hash map
  is an association list with distinct keys. A panic, an index out of range included, is \<open>None\<close>.
  Structs are records, enums datatypes, methods definitions with the struct as an argument. Code of
  other packages is a field of a parameter record; what is relied on of it is a named predicate that
  stands as a hypothesis, and every such hypothesis has an instance in the witness of the property.

  \<^bold>\<open>Theories, and what they model and show.\<close>

  \<^item> SQL text. \<open>Config_Database\<close>: the backends and their capabilities. \<open>Sql_Lexer\<close>: \<open>sql_lexer.rs\<close>; the
    tokens partition the text. \<open>Sql_Safety\<close>: \<open>sql_safety.rs\<close>; \<open>Sql_Quoting\<close>: a quoted name and an
    escaped literal are read back as what they were made from; \<open>Sql_Fragments\<close>: an accepted raw fragment
    has one reading for every server, without separators and comments, and an accepted subquery is a
    query in that reading. \<open>Placeholders\<close>: \<open>db_sql/placeholders.rs\<close>; renumbering moves exactly the
    numbered parameters.
  \<^item> Order. \<open>Binary_Heap\<close>: the standard library's heap behind the locale \<open>priority_queue\<close>. \<open>Topology\<close>:
    Kahn's algorithm of \<open>internal/topology.rs\<close>; it ends, partitions the nodes, and takes the least
    available one each time.
  \<^item> Caches. \<open>Cache_Toggle\<close>: \<open>cache/toggle.rs\<close>, each operation as the two sections it is, the write of
    the configuration under its lock and the store of the mirrored flag after it. \<open>Cache_Store\<close>:
    \<open>query_cache/store.rs\<close> and its eviction indexes; eviction takes the entry the strategy puts first.
    \<open>Query_Cache\<close>: \<open>query_cache.rs\<close> and \<open>control.rs\<close>; the relation \<open>cache_step\<close> has one rule per lock
    section, an entry is written under a configuration that may have been read earlier, and every
    interleaving keeps the store's invariant and never stores rows read before an invalidation that
    concerns them. \<open>Pending_Invalidations\<close>: \<open>query_cache/pending.rs\<close>; a commit replays every
    invalidation, undo steps run once. \<open>Cache_Keys\<close>: \<open>cache/builders.rs\<close>; keys are injective in the
    calls. \<open>Prepared_Statements\<close>: \<open>cache/prepared_statements.rs\<close>.
  \<^item> Errors. \<open>Errors\<close>, \<open>Error_Presentation\<close>, \<open>Error_Translation\<close>: \<open>error.rs\<close>, \<open>error/context.rs\<close>,
    \<open>error/presentation.rs\<close> and the boundary in \<open>internal/mod.rs\<close>; a translated error keeps the driver's
    failure, masking hides credentials.
  \<^item> Transactions and what runs in them. \<open>Transactions\<close>: \<open>database/transaction.rs\<close>, \<open>internal/executor.rs\<close>.
    A server is a driver whose answers stay within the relation \<open>answers\<close>; on every such server a
    transaction refines an atomic step, and on one that does not fail it goes through and leaves the
    effects of its closure in the database. \<open>Migration_Ledger\<close>, \<open>Migrator\<close>: \<open>migration/ledger.rs\<close>,
    \<open>migrator.rs\<close>, \<open>api.rs\<close>, \<open>sqlite_foreign_keys.rs\<close>; order and wholeness of a run, for backends with
    transactional DDL, and reset as its inverse. \<open>Seeder\<close>: \<open>seeding.rs\<close>. The locale \<open>atomic_steps\<close> is
    the contract a statement, a migration and a seed share.
  \<^item> Values. \<open>Token_Encoding\<close>, \<open>Record_Tokens\<close>: \<open>tokenization.rs\<close>; the decoders accept exactly what the
    encoders write (locale \<open>canonical_codec\<close>), a token opens for its own table only. \<open>Decimal_Text\<close>,
    \<open>Validation_Rules\<close>: \<open>validation.rs\<close> and its parts; comparisons are those of the numbers denoted.
  \<^item> Queries. \<open>Query_Filters\<close>: conditions, groups and LIKE patterns. \<open>Model_Meta\<close>: names. \<open>Query_Structure\<close>,
    \<open>Query_Clauses\<close>, \<open>Query_Builder\<close>: the clauses, the builder calls and the merge of a fragment.
    \<open>Query_Fragments\<close>: applying a fragment does what its calls would, for the calls named there.
    \<open>Query_Mutations\<close>, \<open>Bulk_Mutations\<close>, \<open>Mutation_Guards\<close>: the guards and the statements of the bulk
    terminals, the rows they touch, and that the guard's test for filters that cannot exclude a row is
    the one SQL's reading gives. \<open>Query_Conditions\<close>: the condition tree is true of exactly the rows the
    filters describe. \<open>Chunk_Reading\<close>: \<open>chunk\<close> returns and hands out every row once. \<open>Query_Projection\<close>,
    \<open>Query_Validation\<close>, \<open>Select_Rendering\<close>: what a query selects, the checks before rendering, the
    statement; a validated column is written quoted, and the alias of an ordering term is not checked.
  \<^item> JSON. \<open>Json_Tests\<close>, \<open>Json_Numbers\<close>, \<open>Json_Containment\<close>: \<open>db_sql/sqlite_json.rs\<close>, read with
    three-valued logic, decides containment and equality of documents. \<open>Json_Paths\<close>: the path parser and
    \<open>mysql_json.rs\<close>. \<open>Json_Arrays\<close>: \<open>db_sql/arrays.rs\<close>.

  \<^bold>\<open>Loops.\<close> Every loop is structural recursion or a function with a measure, two apart. The paging loop
  \<open>chunk_loop\<close> reads until a batch is short, which depends on the database: it is a partial function
  into \<open>option\<close>, and \<open>Chunk_Reading\<close> proves that it returns. The search for an unused name,
  \<open>unused_name_within\<close>, takes its fuel as an argument: it returns as soon as the fuel exceeds the number
  of names taken, which is finite (\<open>unused_name_found\<close>), since each candidate is longer than the last.

  \<^bold>\<open>What is taken on trust.\<close> The documented answers of a driver (\<open>answers\<close>); authenticated encryption, key
  derivation and digests; serde's texts, within the JSON grammar; the Unicode tables; the text and values
  sea-query makes of a condition tree, and its tokenizer; SQL's reading of the statements of a bulk
  mutation; the meaning of SQLite's and MySQL's JSON functions as \<open>Json_Tests\<close> and \<open>Json_Paths\<close> give it,
  with the number subselect of SQLite attached to its meaning by hand and MySQL's numbers compared by
  their decimal value.

  \<^bold>\<open>What is not modelled.\<close> The derive macros and the code they generate; saving, loading and relating
  single records (\<open>src/src/model\<close>, \<open>relations\<close>, \<open>entity_manager\<close>), batches and \<open>update_all\<close>; decoding of
  rows; DDL builders, schema files and synchronisation, whose statements are sea-query's; full-text
  search, attachments, translations and field types; configuration, connection pools and task-local
  handles; logging and profiling; cancellation of futures.
\<close>

end
